(* ===== verification/KC_Prelude.thy ===== *)
theory KC_Prelude
  imports Complex_Main "HOL-Library.Word" "HOL-Library.AList"
begin

text \<open>
  The shared prelude of the KiloCenter development: the type names every theory uses (bytes,
  machine integers, results with an error on the left), the collections of rewrite rules the
  component proofs are carried by, and the generic lemmas on lists, association lists, words and
  results that more than one component needs.

  Go's fixed-width integers are words: an \<^verbatim>\<open>int64\<close> and a \<^verbatim>\<open>uint64\<close> are both a \<open>64 word\<close>, read
  with \<open>sint\<close> and with \<open>unat\<close>. A function that returns \<^verbatim>\<open>(T, error)\<close> is a function into
  \<open>'e + 'a\<close> with \<open>Inl\<close> for the error. A Go map is an association list with distinct keys, read
  with \<open>map_of\<close> and written with \<open>AList.update\<close> and \<open>AList.delete\<close>; the order of the list carries
  no meaning, as the iteration order of a Go map carries none.
\<close>

section \<open>Types\<close>

type_synonym byte = "8 word"
type_synonym bytes = "8 word list"
type_synonym u16 = "16 word"
type_synonym u32 = "32 word"
type_synonym u64 = "64 word"
type_synonym i64 = "64 word"

section \<open>Collections\<close>

named_theorems result_simps \<open>rewrite rules for results and their binds\<close>
named_theorems frame_rules \<open>fields an operation leaves as they are\<close>

section \<open>Results\<close>

definition bind_result :: "'e + 'a \<Rightarrow> ('a \<Rightarrow> 'e + 'b) \<Rightarrow> 'e + 'b" where
  "bind_result r f = (case r of Inl e \<Rightarrow> Inl e | Inr a \<Rightarrow> f a)"

lemma bind_result_simps [simp, result_simps]:
  "bind_result (Inl e) f = Inl e"
  "bind_result (Inr a) f = f a"
  by (simp_all add: bind_result_def)

lemma bind_result_Inr_iff [result_simps]:
  "bind_result r f = Inr b \<longleftrightarrow> (\<exists>a. r = Inr a \<and> f a = Inr b)"
  by (cases r) auto

lemma bind_result_Inl_iff [result_simps]:
  "bind_result r f = Inl e \<longleftrightarrow> r = Inl e \<or> (\<exists>a. r = Inr a \<and> f a = Inl e)"
  by (cases r) auto

definition is_ok :: "'e + 'a \<Rightarrow> bool" where
  "is_ok r = (case r of Inl _ \<Rightarrow> False | Inr _ \<Rightarrow> True)"

lemma is_ok_simps [simp, result_simps]:
  "is_ok (Inl e) = False" "is_ok (Inr a) = True"
  by (simp_all add: is_ok_def)

lemma is_ok_iff [result_simps]: "is_ok r \<longleftrightarrow> (\<exists>a. r = Inr a)"
  by (cases r) auto

section \<open>Lists\<close>

text \<open>Mapping a fallible function over a list stops at the first failure.\<close>

fun map_result :: "('a \<Rightarrow> 'e + 'b) \<Rightarrow> 'a list \<Rightarrow> 'e + 'b list" where
  "map_result f [] = Inr []"
| "map_result f (x # xs) =
     bind_result (f x) (\<lambda>y. bind_result (map_result f xs) (\<lambda>ys. Inr (y # ys)))"

lemma map_result_length: "map_result f xs = Inr ys \<Longrightarrow> length ys = length xs"
  by (induction xs arbitrary: ys) (auto simp: result_simps)

lemma map_result_nth:
  "map_result f xs = Inr ys \<Longrightarrow> i < length xs \<Longrightarrow> f (xs ! i) = Inr (ys ! i)"
proof (induction xs arbitrary: ys i)
  case Nil
  then show ?case by simp
next
  case (Cons x xs)
  then obtain y ys' where "f x = Inr y" "map_result f xs = Inr ys'" "ys = y # ys'"
    by (auto simp: result_simps)
  with Cons show ?case by (cases i) auto
qed

lemma map_result_ok:
  "(\<And>x. x \<in> set xs \<Longrightarrow> f x = Inr (g x)) \<Longrightarrow> map_result f xs = Inr (map g xs)"
  by (induction xs) auto

section \<open>Association lists as Go maps\<close>

abbreviation has_key :: "('k \<times> 'v) list \<Rightarrow> 'k \<Rightarrow> bool" where
  "has_key m k \<equiv> k \<in> fst ` set m"

lemma has_key_iff: "has_key m k \<longleftrightarrow> map_of m k \<noteq> None"
  by (simp add: map_of_eq_None_iff)

lemma map_of_update_same [simp]: "map_of (AList.update k v m) k = Some v"
  by (simp add: update_conv)

lemma map_of_update_other [simp]: "k' \<noteq> k \<Longrightarrow> map_of (AList.update k v m) k' = map_of m k'"
  by (simp add: update_conv)

lemma map_of_delete_same [simp]: "map_of (AList.delete k m) k = None"
  by (simp add: delete_conv')

lemma map_of_delete_other [simp]: "k' \<noteq> k \<Longrightarrow> map_of (AList.delete k m) k' = map_of m k'"
  by (simp add: delete_conv')

lemma update_append_new: "\<not> has_key m k \<Longrightarrow> AList.update k v m = m @ [(k, v)]"
  by (induction m) auto

lemma set_alist_update: "set (AList.update k v al) \<subseteq> insert (k, v) (set al)"
  by (induction al) auto

section \<open>Words\<close>

lemma unat_of_nat_bounded: "n < 2 ^ LENGTH('a) \<Longrightarrow> unat (of_nat n :: 'a::len word) = n"
  by (simp add: unat_of_nat take_bit_nat_eq_self)

text \<open>Reading 64-bit words: the signed and the unsigned value agree below \<open>2 ^ 63\<close>.\<close>

lemma sint_word_of_int64: "- (2 ^ 63) \<le> i \<Longrightarrow> i < 2 ^ 63 \<Longrightarrow> sint (word_of_int i :: 64 word) = i"
  by (simp add: signed_of_int signed_take_bit_int_eq_self)

lemma uint_word_of_int64: "0 \<le> i \<Longrightarrow> i < 2 ^ 64 \<Longrightarrow> uint (word_of_int i :: 64 word) = i"
  by (simp add: unsigned_of_int take_bit_int_eq_self)

lemma sint64_bounds: "- (2 ^ 63) \<le> sint (w :: 64 word)" "sint (w :: 64 word) < 2 ^ 63"
  using sint_greater_eq [of w] sint_less [of w] by auto

lemma uint64_bounds: "0 \<le> uint (w :: 64 word)" "uint (w :: 64 word) < 2 ^ 64"
  using unsigned_greater_eq [of w] unsigned_less [of w] by auto

lemma sint_narrow:
  fixes v :: "'a::len word"
  assumes "LENGTH('a) \<le> 63"
  shows "- (2 ^ 63) \<le> sint v \<and> sint v < 2 ^ 63"
proof -
  have "(2::int) ^ (LENGTH('a) - Suc 0) \<le> 2 ^ 63"
    using assms by (intro power_increasing) auto
  then show ?thesis
    using sint_greater_eq [of v] sint_less [of v] by linarith
qed

lemma uint_narrow:
  fixes v :: "'a::len word"
  assumes "LENGTH('a) \<le> 63"
  shows "uint v < 2 ^ 63"
proof -
  have "(2::int) ^ LENGTH('a) \<le> 2 ^ 63"
    using assms by (intro power_increasing) auto
  then show ?thesis
    using uint_lt2p [of v] by linarith
qed

lemma sint_scast64: "LENGTH('a) \<le> 63 \<Longrightarrow> sint (scast (v :: 'a::len word) :: 64 word) = sint v"
  using sint_narrow [of v] by (subst scast_eq) (rule sint_word_of_int64; simp)

lemma sint_ucast64: "LENGTH('a) \<le> 63 \<Longrightarrow> sint (ucast (v :: 'a::len word) :: 64 word) = uint v"
  using uint_narrow [of v] uint_ge_0 [of v]
  by (subst ucast_eq) (rule sint_word_of_int64; linarith)

lemma uint_ucast64: "LENGTH('a) \<le> 63 \<Longrightarrow> uint (ucast (v :: 'a::len word) :: 64 word) = uint v"
  using uint_narrow [of v] uint_ge_0 [of v]
  by (subst ucast_eq) (rule uint_word_of_int64; simp)

lemma sint_eq_uint64: "uint (w :: 64 word) < 2 ^ 63 \<Longrightarrow> sint w = uint w"
  using sint_word_of_int64 [of "uint w"] uint64_bounds(1) [of w] by (simp del: uint_ge_0)

lemma uint_eq_sint64: "0 \<le> sint (w :: 64 word) \<Longrightarrow> uint w = sint w"
  using sint64_bounds [of w] uint_word_of_int64 [of "sint w"] by simp

lemma sint_inj64: "sint a = sint b \<longleftrightarrow> a = (b :: 64 word)"
  by (auto intro: signed_word_eqI)

lemma uint_inj: "uint a = uint b \<longleftrightarrow> a = b"
  by (simp add: word_uint_eq_iff)

lemma word_of_int_eq_sint:
  "- (2 ^ 63) \<le> i \<Longrightarrow> i < 2 ^ 63 \<Longrightarrow> word_of_int i = (w :: 64 word) \<longleftrightarrow> i = sint w"
  by (metis sint_inj64 sint_word_of_int64)

lemma word_of_int_eq_uint:
  "0 \<le> i \<Longrightarrow> i < 2 ^ 64 \<Longrightarrow> word_of_int i = (w :: 64 word) \<longleftrightarrow> i = uint w"
  by (metis uint_inj uint_word_of_int64)

lemma word_of_int_uint_id: "word_of_int (uint w) = w"
  by simp

lemma sint_eq_uint_iff: "sint (v :: 64 word) = uint w \<longleftrightarrow> v = w \<and> 0 \<le> sint v"
  by (metis uint_eq_sint64 uint_ge_0 uint_inj)

lemma uint_ucast_down:
  fixes u :: "64 word"
  assumes "uint u < 2 ^ LENGTH('a::len)"
  shows "uint (ucast u :: 'a word) = uint u"
  using assms uint_ge_0 [of u] by (simp add: unsigned_ucast_eq take_bit_int_eq_self
      flip: take_bit_eq_mod)

lemma ucast_down_eq_iff:
  fixes u :: "64 word" and w :: "'a::len word"
  assumes "uint u < 2 ^ LENGTH('a)"
  shows "ucast u = w \<longleftrightarrow> uint u = uint w"
  using uint_ucast_down [OF assms] uint_inj [of "ucast u" w] by auto

lemma abs_sint_less_64: "LENGTH('a) \<le> 64 \<Longrightarrow> \<bar>sint (w :: 'a::len word)\<bar> < 2 ^ 64"
proof -
  assume "LENGTH('a) \<le> 64"
  then have "(2::int) ^ (LENGTH('a) - 1) \<le> 2 ^ 63" by (intro power_increasing) auto
  then show ?thesis using sint_less [of w] sint_greater_eq [of w] by simp
qed

lemma abs_uint_less_64: "LENGTH('a) \<le> 64 \<Longrightarrow> \<bar>uint (w :: 'a::len word)\<bar> < 2 ^ 64"
proof -
  assume "LENGTH('a) \<le> 64"
  then have "(2::int) ^ LENGTH('a) \<le> 2 ^ 64" by (intro power_increasing) auto
  with uint_lt2p [of w] have "uint w < 2 ^ 64" by (rule less_le_trans)
  then show ?thesis by simp
qed

text \<open>The integer a word denotes is kept as an integer in every theory of the development.\<close>

declare of_int_sint [simp del] of_int_uint [simp del]

end
