(* ===== verification/Frame_Codec.thy ===== *)
theory Frame_Codec
  imports KC_Prelude
begin

text \<open>
  The length-prefixed frames of both MIOTY interfaces: \<^verbatim>\<open>FrameCodec\<close> of
  \<^verbatim>\<open>KC-Core/pkg/nettransport/frame.go\<close> and \<^verbatim>\<open>Frame.Serialize\<close> of \<^verbatim>\<open>KC-DB/storage/mioty/types.go\<close>.
  A frame is an 8-byte identifier, a little-endian 32-bit payload size and the payload.

  A reader is the list of the bytes the peer sends before it closes the connection; reading
  returns what is left of it. A connection write is the pair of outcomes the socket reports (the
  bytes it took and an error), an argument of \<open>Send\<close>. Deadlines are wall-clock instants of the
  runtime, so only the errors of setting and clearing them appear.

  Shown: what \<open>Encode\<close> writes, \<open>Read\<close> reads back and leaves the rest of the stream (a round trip
  over any sequence of frames); whatever \<open>Read\<close> accepts is the encoding of the payload it returns;
  no accepted payload exceeds the maximum; the end of stream before the first header byte is
  the only unwrapped \<^verbatim>\<open>io.EOF\<close>.
\<close>

section \<open>Byte order\<close>

text \<open>\<^verbatim>\<open>binary.LittleEndian.PutUint32\<close> and \<^verbatim>\<open>Uint32\<close>.\<close>

definition put_uint32_le :: "u32 \<Rightarrow> bytes" where
  "put_uint32_le w =
     [ucast w, ucast (drop_bit 8 w), ucast (drop_bit 16 w), ucast (drop_bit 24 w)]"

fun uint32_le :: "bytes \<Rightarrow> u32" where
  "uint32_le [a, b, c, d] =
     or (ucast a) (or (push_bit 8 (ucast b)) (or (push_bit 16 (ucast c)) (push_bit 24 (ucast d))))"
| "uint32_le _ = 0"

lemma length_put_uint32_le [simp]: "length (put_uint32_le w) = 4"
  by (simp add: put_uint32_le_def)

lemma uint32_le_put [simp]: "uint32_le (put_uint32_le w) = w"
proof (rule bit_word_eqI)
  fix n
  assume "n < LENGTH(32)"
  then consider "n < 8" | "8 \<le> n" "n < 16" | "16 \<le> n" "n < 24" | "24 \<le> n" "n < 32"
    by fastforce
  then show "bit (uint32_le (put_uint32_le w)) n = bit w n"
    by cases (auto simp: put_uint32_le_def bit_simps)
qed

lemma length_eq_4: "length xs = 4 \<longleftrightarrow> (\<exists>a b c d. xs = [a, b, c, d])"
  by (auto simp: length_Suc_conv numeral_eq_Suc)

lemma bit_byte_beyond: "8 \<le> n \<Longrightarrow> \<not> bit (a :: byte) n"
  using bit_imp_le_length [of a n] by auto

lemma put_uint32_le_uint32 [simp]: "length bs = 4 \<Longrightarrow> put_uint32_le (uint32_le bs) = bs"
  by (auto simp: length_eq_4 put_uint32_le_def intro!: bit_word_eqI simp: bit_simps bit_byte_beyond)

section \<open>The frame\<close>

record frame =
  Identifier :: bytes
  PayloadSize :: u32
  Payload :: bytes

definition FrameHeaderSize :: nat where
  "FrameHeaderSize = 12"

definition MIOTYFrameIdentifier :: bytes where
  "MIOTYFrameIdentifier = [0x4d, 0x49, 0x4f, 0x54, 0x59, 0x42, 0x30, 0x31]"

definition SCACIFrameIdentifier :: bytes where
  "SCACIFrameIdentifier = [0x4d, 0x49, 0x4f, 0x54, 0x59, 0x41, 0x30, 0x31]"

text \<open>The size written is the 32-bit truncation of the payload's length, as in the source.\<close>

definition Serialize :: "frame \<Rightarrow> bytes" where
  "Serialize f = Identifier f @ put_uint32_le (of_nat (length (Payload f))) @ Payload f"

section \<open>The codec\<close>

record frame_codec =
  codec_identifier :: bytes
  maxPayload :: u32
  writeTimeout :: int

datatype frame_error =
    ErrWriteTimeoutRequired
  | ErrHeaderTooShort
  | ErrInvalidFrameIdentifier
  | ErrPayloadTooLarge
  | IoEOF
  | IoErrUnexpectedEOF
  | ErrReadPayload frame_error  \<comment> \<open>the \<^verbatim>\<open>%w\<close> wrap of a payload read error\<close>
  | ErrShortWrite
  | ErrSetWriteDeadline
  | ErrWrite
  | ErrClearWriteDeadline

definition NewFrameCodec :: "bytes \<Rightarrow> u32 \<Rightarrow> int \<Rightarrow> frame_error + frame_codec" where
  "NewFrameCodec ident maxp timeout =
     (if timeout \<le> 0 then Inl ErrWriteTimeoutRequired
      else Inr \<lparr>codec_identifier = ident, maxPayload = maxp, writeTimeout = timeout\<rparr>)"

definition ParseHeader :: "frame_codec \<Rightarrow> bytes \<Rightarrow> frame_error + u32" where
  "ParseHeader c header =
     (if length header < FrameHeaderSize then Inl ErrHeaderTooShort
      else if take 8 header \<noteq> codec_identifier c then Inl ErrInvalidFrameIdentifier
      else let sz = uint32_le (take 4 (drop 8 header))
           in if sz > maxPayload c then Inl ErrPayloadTooLarge else Inr sz)"

text \<open>
  \<^verbatim>\<open>io.ReadFull\<close>: nothing is read for an empty buffer; a stream that ends before the first byte is
  \<^verbatim>\<open>io.EOF\<close>, one that ends inside the buffer \<^verbatim>\<open>io.ErrUnexpectedEOF\<close>.
\<close>

definition read_full :: "nat \<Rightarrow> bytes \<Rightarrow> frame_error + bytes \<times> bytes" where
  "read_full n r =
     (if n \<le> length r then Inr (take n r, drop n r)
      else if r = [] then Inl IoEOF else Inl IoErrUnexpectedEOF)"

definition Read :: "frame_codec \<Rightarrow> bytes \<Rightarrow> frame_error + frame \<times> bytes" where
  "Read c r =
     (case read_full FrameHeaderSize r of
        Inl e \<Rightarrow> Inl e
      | Inr (header, r1) \<Rightarrow>
          (case ParseHeader c header of
             Inl e \<Rightarrow> Inl e
           | Inr sz \<Rightarrow>
               if sz > 0 then
                 (case read_full (unat sz) r1 of
                    Inl e \<Rightarrow> Inl (ErrReadPayload e)
                  | Inr (p, r2) \<Rightarrow>
                      Inr (\<lparr>Identifier = codec_identifier c, PayloadSize = sz, Payload = p\<rparr>, r2))
               else Inr (\<lparr>Identifier = codec_identifier c, PayloadSize = sz, Payload = []\<rparr>, r1)))"

definition Encode :: "frame_codec \<Rightarrow> bytes \<Rightarrow> frame_error + bytes" where
  "Encode c payload =
     (if length payload > unat (maxPayload c) then Inl ErrPayloadTooLarge
      else Inr (Serialize \<lparr>Identifier = codec_identifier c,
                           PayloadSize = of_nat (length payload), Payload = payload\<rparr>))"

text \<open>
  What the connection does with one write: whether setting the deadline failed, how many bytes
  it took, whether the write failed, whether clearing the deadline failed.
\<close>

record write_outcome =
  set_failed :: bool
  taken :: nat
  write_failed :: bool
  clear_failed :: bool

definition Send :: "frame_codec \<Rightarrow> write_outcome \<Rightarrow> bytes \<Rightarrow> frame_error + unit" where
  "Send c w encoded =
     (if writeTimeout c \<le> 0 then Inl ErrWriteTimeoutRequired
      else if set_failed w then Inl ErrSetWriteDeadline
      else if write_failed w then Inl ErrWrite
      else if taken w < length encoded then Inl ErrShortWrite
      else if clear_failed w then Inl ErrClearWriteDeadline
      else Inr ())"

text \<open>\<^verbatim>\<open>errors.Is(err, io.EOF)\<close>, as both servers classify a read error: it looks through \<^verbatim>\<open>%w\<close>.\<close>

fun is_eof :: "frame_error \<Rightarrow> bool" where
  "is_eof IoEOF = True"
| "is_eof (ErrReadPayload e) = is_eof e"
| "is_eof _ = False"

text \<open>A codec as the servers build it: an 8-byte identifier and a positive timeout.\<close>

definition wf_codec :: "frame_codec \<Rightarrow> bool" where
  "wf_codec c \<longleftrightarrow> length (codec_identifier c) = 8 \<and> 0 < writeTimeout c"

lemma NewFrameCodec_wf:
  "length ident = 8 \<Longrightarrow> NewFrameCodec ident maxp timeout = Inr c \<Longrightarrow> wf_codec c"
  by (auto simp: NewFrameCodec_def wf_codec_def split: if_splits)

section \<open>Facts\<close>

lemma length_Serialize [simp]:
  "length (Identifier f) = 8 \<Longrightarrow> length (Serialize f) = FrameHeaderSize + length (Payload f)"
  by (simp add: Serialize_def FrameHeaderSize_def)

lemma read_full_append [simp]: "read_full (length xs) (xs @ ys) = Inr (xs, ys)"
  by (simp add: read_full_def)

lemma read_full_Inr:
  "read_full n r = Inr (a, b) \<longleftrightarrow> r = a @ b \<and> length a = n"
  by (auto simp: read_full_def min_def not_le intro: append_take_drop_id [symmetric])

lemma ParseHeader_Inr_iff:
  "wf_codec c \<Longrightarrow> length header = FrameHeaderSize \<Longrightarrow>
   ParseHeader c header = Inr sz \<longleftrightarrow>
     header = codec_identifier c @ put_uint32_le sz \<and> sz \<le> maxPayload c"
proof -
  assume wf: "wf_codec c" and len: "length header = FrameHeaderSize"
  have split: "header = take 8 header @ take 4 (drop 8 header)"
    using len by (simp add: FrameHeaderSize_def flip: take_add)
  have l4: "length (take 4 (drop 8 header)) = 4"
    using len by (simp add: FrameHeaderSize_def)
  show ?thesis
  proof
    assume "ParseHeader c header = Inr sz"
    then have "take 8 header = codec_identifier c" "sz = uint32_le (take 4 (drop 8 header))"
        "sz \<le> maxPayload c"
      by (auto simp: ParseHeader_def Let_def not_less split: if_splits)
    with split l4 show "header = codec_identifier c @ put_uint32_le sz \<and> sz \<le> maxPayload c"
      by (metis put_uint32_le_uint32)
  next
    assume "header = codec_identifier c @ put_uint32_le sz \<and> sz \<le> maxPayload c"
    with wf show "ParseHeader c header = Inr sz"
      by (simp add: ParseHeader_def wf_codec_def FrameHeaderSize_def Let_def not_less)
  qed
qed


lemma Read_Encode:
  assumes "wf_codec c" "Encode c p = Inr bs"
  shows "Read c (bs @ rest) =
    Inr (\<lparr>Identifier = codec_identifier c, PayloadSize = of_nat (length p), Payload = p\<rparr>, rest)"
proof -
  let ?sz = "of_nat (length p) :: u32"
  from assms(2) have bs: "bs = codec_identifier c @ put_uint32_le ?sz @ p"
      and le: "length p \<le> unat (maxPayload c)"
    by (auto simp: Encode_def Serialize_def split: if_splits)
  have lt: "length p < 2 ^ LENGTH(32)"
    using le unsigned_less [of "maxPayload c"] by (rule le_less_trans)
  then have unat: "unat ?sz = length p"
    by (rule unat_of_nat_bounded)
  let ?header = "codec_identifier c @ put_uint32_le ?sz"
  have len: "length ?header = FrameHeaderSize"
    using assms(1) by (simp add: wf_codec_def FrameHeaderSize_def)
  have "?sz \<le> maxPayload c"
    using le unat by (simp add: word_le_nat_alt)
  then have parse: "ParseHeader c ?header = Inr ?sz"
    using ParseHeader_Inr_iff [OF assms(1) len] by simp
  have header: "read_full FrameHeaderSize (bs @ rest) = Inr (?header, p @ rest)"
    using read_full_append [of ?header "p @ rest"] len by (simp add: bs)
  have payload: "read_full (unat ?sz) (p @ rest) = Inr (p, rest)"
    using unat by simp
  show ?thesis
  proof (cases "p = []")
    case True
    then show ?thesis using header parse by (simp add: Read_def)
  next
    case False
    then have "0 < ?sz" using unat by (simp add: word_less_nat_alt)
    with header parse payload show ?thesis by (simp add: Read_def)
  qed
qed

lemma Read_Inr:
  assumes "wf_codec c" "Read c r = Inr (f, rest)"
  shows "Identifier f = codec_identifier c" "PayloadSize f = of_nat (length (Payload f))"
    "length (Payload f) \<le> unat (maxPayload c)" "r = Serialize f @ rest"
proof -
  from assms(2) obtain header r1 sz where
      h: "read_full FrameHeaderSize r = Inr (header, r1)" "ParseHeader c header = Inr sz"
      and f: "Identifier f = codec_identifier c" "PayloadSize f = sz"
      and rest: "r1 = Payload f @ rest" "length (Payload f) = unat sz"
    by (auto simp: Read_def read_full_Inr split: sum.splits if_splits)
       (metis le_zero_eq list.size(3) not_less unat_0 append_Nil word_gt_0)+
  have len: "length header = FrameHeaderSize" and r: "r = header @ r1"
    using h(1) by (auto simp: read_full_Inr)
  have "header = codec_identifier c @ put_uint32_le sz" "sz \<le> maxPayload c"
    using ParseHeader_Inr_iff [OF assms(1) len] h(2) by auto
  then show "Identifier f = codec_identifier c" "PayloadSize f = of_nat (length (Payload f))"
      "length (Payload f) \<le> unat (maxPayload c)" "r = Serialize f @ rest"
    using f rest r by (auto simp: Serialize_def word_le_nat_alt)
qed

text \<open>Every frame consumes at least its header, so reading a closed stream ends.\<close>

lemma Read_shorter: "Read c r = Inr (f, rest) \<Longrightarrow> length rest < length r"
  by (auto simp: Read_def read_full_Inr FrameHeaderSize_def split: sum.splits if_splits)

text \<open>The read loop of a server on a stream: the payloads of its frames and what ended it.\<close>

function read_frames :: "frame_codec \<Rightarrow> bytes \<Rightarrow> bytes list \<times> frame_error" where
  "read_frames c r =
     (case Read c r of
        Inl e \<Rightarrow> ([], e)
      | Inr (f, rest) \<Rightarrow> (let (ps, e) = read_frames c rest in (Payload f # ps, e)))"
  by pat_completeness auto
termination
  by (relation "measure (\<lambda>(c, r). length r)") (auto dest: Read_shorter)

declare read_frames.simps [simp del]

lemma Read_empty [simp]: "Read c [] = Inl IoEOF"
  by (simp add: Read_def read_full_def FrameHeaderSize_def)

lemma read_frames_sent:
  "wf_codec c \<Longrightarrow> map_result (Encode c) ps = Inr bss \<Longrightarrow> read_frames c (concat bss) = (ps, IoEOF)"
proof (induction ps arbitrary: bss)
  case Nil
  then show ?case by (simp add: read_frames.simps)
next
  case (Cons p ps)
  then obtain bs bss' where "Encode c p = Inr bs" "map_result (Encode c) ps = Inr bss'"
      "bss = bs # bss'"
    by (auto simp: result_simps)
  with Cons.IH [of bss'] Cons.prems(1) show ?case
    by (simp add: read_frames.simps [of c "bs @ concat bss'"] Read_Encode)
qed

section \<open>Properties\<close>

text \<open>
  C17. Framing is a round trip over whole connections: the frames a sender encodes, concatenated on the
  wire in any number, are read back as exactly the payloads sent, in order, and then the stream
  ends with a clean EOF. No payload content can be mistaken for a frame boundary.
\<close>

theorem frame_stream_roundtrip:
  assumes "length ident = 8" "NewFrameCodec ident maxp timeout = Inr c"
    and "map_result (Encode c) payloads = Inr frames"
  shows "read_frames c (concat frames) = (payloads, IoEOF)"
  using read_frames_sent [OF NewFrameCodec_wf [OF assms(1,2)] assms(3)] .

theorem frame_stream_roundtrip_witness:
  "\<exists>c frames. NewFrameCodec MIOTYFrameIdentifier 1024 5 = Inr c \<and>
     map_result (Encode c) [[1, 2, 3], [], MIOTYFrameIdentifier] = Inr frames \<and>
     read_frames c (concat frames) = ([[1, 2, 3], [], MIOTYFrameIdentifier], IoEOF)"
proof -
  let ?c = "\<lparr>codec_identifier = MIOTYFrameIdentifier, maxPayload = 1024, writeTimeout = 5\<rparr>"
  have c: "NewFrameCodec MIOTYFrameIdentifier 1024 5 = Inr ?c"
    by (simp add: NewFrameCodec_def)
  have l: "length MIOTYFrameIdentifier = 8" by (simp add: MIOTYFrameIdentifier_def)
  obtain frames where f: "map_result (Encode ?c) [[1, 2, 3], [], MIOTYFrameIdentifier] = Inr frames"
    by (simp add: Encode_def MIOTYFrameIdentifier_def)
  from frame_stream_roundtrip [OF l c f] c f show ?thesis by blast
qed

text \<open>
  The reader accepts exactly what the writer can have written: it returns a frame and a rest
  precisely when the input is the encoding of the frame's payload, which is within the size limit,
  followed by that rest.
\<close>

theorem Read_iff_Encode:
  assumes "wf_codec c"
  shows "Read c r = Inr (f, rest) \<longleftrightarrow>
    (\<exists>bs. Encode c (Payload f) = Inr bs \<and> r = bs @ rest \<and> Identifier f = codec_identifier c \<and>
          PayloadSize f = of_nat (length (Payload f)))"
proof
  assume "Read c r = Inr (f, rest)"
  note * = Read_Inr [OF assms this]
  then have "Encode c (Payload f) = Inr (Serialize f)"
    by (simp add: Encode_def) (metis frame.surjective old.unit.exhaust)
  with * show "\<exists>bs. Encode c (Payload f) = Inr bs \<and> r = bs @ rest \<and>
      Identifier f = codec_identifier c \<and> PayloadSize f = of_nat (length (Payload f))"
    by blast
next
  assume "\<exists>bs. Encode c (Payload f) = Inr bs \<and> r = bs @ rest \<and>
      Identifier f = codec_identifier c \<and> PayloadSize f = of_nat (length (Payload f))"
  then obtain bs where "Encode c (Payload f) = Inr bs" "r = bs @ rest"
    "Identifier f = codec_identifier c" "PayloadSize f = of_nat (length (Payload f))" by blast
  moreover from this have "f = \<lparr>Identifier = codec_identifier c,
      PayloadSize = of_nat (length (Payload f)), Payload = Payload f\<rparr>" by simp
  ultimately show "Read c r = Inr (f, rest)" using Read_Encode [OF assms] by metis
qed

theorem Read_iff_Encode_witness:
  "Read \<lparr>codec_identifier = SCACIFrameIdentifier, maxPayload = 4, writeTimeout = 1\<rparr>
     (SCACIFrameIdentifier @ [1, 0, 0, 0, 9, 7]) =
   Inr (\<lparr>Identifier = SCACIFrameIdentifier, PayloadSize = 1, Payload = [9]\<rparr>, [7])"
proof -
  let ?c = "\<lparr>codec_identifier = SCACIFrameIdentifier, maxPayload = 4, writeTimeout = 1\<rparr>"
  have "wf_codec ?c" by (simp add: wf_codec_def SCACIFrameIdentifier_def)
  moreover have "Encode ?c [9] = Inr (SCACIFrameIdentifier @ [1, 0, 0, 0, 9])"
    by (simp add: Encode_def Serialize_def put_uint32_le_def)
  ultimately show ?thesis
    using Read_iff_Encode [of ?c "SCACIFrameIdentifier @ [1, 0, 0, 0, 9, 7]"
        "\<lparr>Identifier = SCACIFrameIdentifier, PayloadSize = 1, Payload = [9]\<rparr>" "[7]"]
    by simp
qed

text \<open>
  A connection that is cut right after the header of a frame with a nonempty payload is
  reported as an error that satisfies the clean-close test, although the frame is truncated;
  a cut inside the header or inside the payload does not satisfy it.
\<close>

theorem truncated_frame_reads_as_eof:
  assumes "wf_codec c" "0 < sz" "sz \<le> maxPayload c" "p \<noteq> []" "length p < unat sz"
  shows "Read c (codec_identifier c @ put_uint32_le sz) = Inl (ErrReadPayload IoEOF)
    \<and> is_eof (ErrReadPayload IoEOF)
    \<and> (\<exists>e. Read c (codec_identifier c @ put_uint32_le sz @ p) = Inl e \<and> \<not> is_eof e)"
proof -
  let ?h = "codec_identifier c @ put_uint32_le sz"
  have len: "length ?h = FrameHeaderSize" using assms(1) by (simp add: wf_codec_def FrameHeaderSize_def)
  have parse: "ParseHeader c ?h = Inr sz"
    using ParseHeader_Inr_iff [OF assms(1) len] assms(3) by simp
  have full: "read_full FrameHeaderSize (?h @ q) = Inr (?h, q)" for q
    using read_full_append [of ?h q] len by simp
  have "0 < unat sz" using assms(2) by (simp add: word_less_nat_alt)
  then have "read_full (unat sz) [] = Inl IoEOF" by (simp add: read_full_def)
  moreover obtain e where "read_full (unat sz) p = Inl e" "\<not> is_eof e"
    using assms(4,5) by (simp add: read_full_def)
  ultimately show ?thesis
    using assms(2) full [of "[]"] full [of p] parse by (simp add: Read_def)
qed

theorem truncated_frame_reads_as_eof_witness:
  "let c = \<lparr>codec_identifier = MIOTYFrameIdentifier, maxPayload = 64, writeTimeout = 1\<rparr>
   in Read c (MIOTYFrameIdentifier @ [5, 0, 0, 0]) = Inl (ErrReadPayload IoEOF)"
proof -
  let ?c = "\<lparr>codec_identifier = MIOTYFrameIdentifier, maxPayload = 64, writeTimeout = 1\<rparr>"
  have "wf_codec ?c" by (simp add: wf_codec_def MIOTYFrameIdentifier_def)
  from truncated_frame_reads_as_eof [OF this, of 5 "[1]"] show ?thesis
    by (simp add: put_uint32_le_def Let_def)
qed

end
