(* ===== verification/Go_Values.thy ===== *)
theory Go_Values
  imports KC_Prelude
begin

text \<open>
  The dynamically typed values a decoded message holds: Go's \<^verbatim>\<open>interface{}\<close> restricted to what
  the JSON and MessagePack decoders and the server itself put into a \<^verbatim>\<open>map[string]interface{}\<close>.
  Integers keep their width; \<^verbatim>\<open>int\<close> and \<^verbatim>\<open>uint\<close> are 64 bits, as on every platform the service
  center is built for.

  A floating point number is NaN, an infinity or the rational it denotes (the two zeros are equal in
  every comparison the code makes and are one value here). A \<^verbatim>\<open>float32\<close> and a \<^verbatim>\<open>float64\<close> of equal
  value are different interface values, so they have different constructors. A \<^verbatim>\<open>json.Number\<close> is its
  literal text.
\<close>

section \<open>Floating point numbers\<close>

datatype gofloat =
    FNaN
  | FInf bool  \<comment> \<open>the argument is the sign: \<open>True\<close> for minus infinity\<close>
  | FFin rat

definition is_finite :: "gofloat \<Rightarrow> bool" where
  "is_finite f = (case f of FFin _ \<Rightarrow> True | _ \<Rightarrow> False)"

lemma is_finite_simps [simp]:
  "is_finite (FFin q)" "\<not> is_finite FNaN" "\<not> is_finite (FInf s)"
  by (simp_all add: is_finite_def)

lemma is_finite_iff: "is_finite f \<longleftrightarrow> (\<exists>q. f = FFin q)"
  by (cases f) auto

text \<open>
  Rounding to the nearest value, ties to even: Go's conversion of an integer to \<^verbatim>\<open>float64\<close> and
  \<^verbatim>\<open>strconv.ParseFloat\<close>. \<open>binade\<close> is the exponent of the leading bit.
\<close>

definition round_half_even :: "rat \<Rightarrow> int" where
  "round_half_even q =
     (let f = \<lfloor>q\<rfloor>; d = q - of_int f
      in if d < 1 / 2 then f else if d > 1 / 2 then f + 1 else if even f then f else f + 1)"

definition pow2 :: "int \<Rightarrow> rat" where
  "pow2 e = (if 0 \<le> e then 2 ^ nat e else 1 / 2 ^ nat (- e))"

function bit_length :: "int \<Rightarrow> int" where
  "bit_length n = (if n \<le> 0 then 0 else 1 + bit_length (n div 2))"
  by pat_completeness auto
termination
  by (relation "measure nat") auto

declare bit_length.simps [simp del]

definition binade :: "rat \<Rightarrow> int" where
  "binade q =
     (let (n, d) = quotient_of \<bar>q\<bar>;
          e = bit_length n - bit_length d
      in if \<bar>q\<bar> < pow2 e then e - 1 else e)"

text \<open>\<open>p\<close> significand bits, least exponent \<open>emin\<close>, overflow from \<open>2 ^ emax\<close> on.\<close>

definition round_float :: "nat \<Rightarrow> int \<Rightarrow> nat \<Rightarrow> rat \<Rightarrow> gofloat" where
  "round_float p emin emax q =
     (if q = 0 then FFin 0
      else let ulp = pow2 (max (binade q - (int p - 1)) emin);
               r = of_int (round_half_even (q / ulp)) * ulp
           in if \<bar>r\<bar> \<ge> 2 ^ emax then FInf (q < 0) else FFin r)"

definition float64_of :: "rat \<Rightarrow> gofloat" where
  "float64_of = round_float 53 (- 1074) 1024"

lemma round_half_even_of_int [simp]: "round_half_even (of_int m) = m"
  by (simp add: round_half_even_def)

lemma pow2_pos [simp]: "0 < pow2 e"
  by (simp add: pow2_def)

lemma bit_length_bounds:
  "0 < n \<Longrightarrow> 1 \<le> bit_length n \<and> 2 ^ nat (bit_length n - 1) \<le> n \<and> n < 2 ^ nat (bit_length n)"
proof (induction n rule: bit_length.induct)
  case (1 n)
  show ?case
  proof (cases "n div 2 = 0")
    case True
    with "1.prems" have "n = 1" by auto
    then show ?thesis by (simp add: bit_length.simps [of 1] bit_length.simps [of 0])
  next
    case False
    with "1.prems" have pos: "0 < n div 2" by simp
    let ?b = "bit_length (n div 2)"
    have ih: "1 \<le> ?b" "2 ^ nat (?b - 1) \<le> n div 2" "n div 2 < 2 ^ nat ?b"
      using "1.IH" pos "1.prems" by auto
    have bl: "bit_length n = 1 + ?b"
      using "1.prems" by (simp add: bit_length.simps [of n])
    have low: "2 ^ nat ?b = 2 * (2 ^ nat (?b - 1) :: int)"
      using ih(1) by (simp add: nat_diff_distrib flip: power_Suc)
    have high: "2 ^ nat (1 + ?b) = 2 * (2 ^ nat ?b :: int)"
      using ih(1) by (simp add: nat_add_distrib)
    show ?thesis
      using ih "1.prems" by (simp add: bl low high) linarith
  qed
qed

lemma bit_length_le: "0 \<le> n \<Longrightarrow> n < 2 ^ k \<Longrightarrow> bit_length n \<le> int k"
proof (induction n arbitrary: k rule: bit_length.induct)
  case (1 n)
  show ?case
  proof (cases "n \<le> 0")
    case True
    then show ?thesis by (simp add: bit_length.simps [of n])
  next
    case False
    then obtain k' where k: "k = Suc k'"
      using "1.prems"(2) by (cases k) auto
    have "n div 2 < 2 ^ k'" using "1.prems" k by simp
    then have "bit_length (n div 2) \<le> int k'"
      using "1.IH" False by simp
    then show ?thesis using False k by (simp add: bit_length.simps [of n])
  qed
qed

lemma binade_of_int:
  assumes "i \<noteq> 0"
  shows "binade (of_int i) = bit_length \<bar>i\<bar> - 1"
proof -
  have q: "quotient_of \<bar>of_int i\<bar> = (\<bar>i\<bar>, 1)"
    using quotient_of_int [of "\<bar>i\<bar>"] by (simp add: Rat.of_int_def)
  have one: "bit_length 1 = 1"
    by (simp add: bit_length.simps [of 1] bit_length.simps [of 0])
  have b: "1 \<le> bit_length \<bar>i\<bar>" "2 ^ nat (bit_length \<bar>i\<bar> - 1) \<le> \<bar>i\<bar>"
    using bit_length_bounds [of "\<bar>i\<bar>"] assms by auto
  have "pow2 (bit_length \<bar>i\<bar> - 1) = of_int (2 ^ nat (bit_length \<bar>i\<bar> - 1))"
    using b(1) by (simp add: pow2_def)
  also have "\<dots> \<le> of_int \<bar>i\<bar>"
    using b(2) by (simp only: of_int_le_iff)
  finally have "\<not> \<bar>rat_of_int i\<bar> < pow2 (bit_length \<bar>i\<bar> - 1)"
    by simp
  then show ?thesis
    by (simp add: binade_def q one Let_def)
qed

lemma float64_of_int_exact:
  assumes "\<bar>i\<bar> \<le> 2 ^ 53"
  shows "float64_of (of_int i) = FFin (of_int i)"
proof (cases "i = 0")
  case True
  then show ?thesis by (simp add: float64_of_def round_float_def)
next
  case False
  let ?b = "bit_length \<bar>i\<bar>"
  have b: "1 \<le> ?b" "2 ^ nat (?b - 1) \<le> \<bar>i\<bar>" "\<bar>i\<bar> < 2 ^ nat ?b"
    using bit_length_bounds [of "\<bar>i\<bar>"] False by auto
  have b54: "?b \<le> 54"
    using bit_length_le [of "\<bar>i\<bar>" 54] assms by simp
  define ulp where "ulp = pow2 (max (binade (of_int i) - 52) (- 1074))"
  have ulp: "ulp = pow2 (?b - 53)"
    using b(1) by (simp add: ulp_def binade_of_int [OF False] max_def)
  have "\<exists>m. of_int i / ulp = of_int m"
  proof (cases "?b \<le> 53")
    case True
    then have "rat_of_int i / ulp = of_int (i * 2 ^ nat (53 - ?b))"
      by (auto simp: ulp pow2_def)
    then show ?thesis by blast
  next
    case False
    with b54 have "?b = 54" by simp
    with b(2) assms have "\<bar>i\<bar> = 2 ^ 53" by simp
    then have "i = 2 ^ 53 \<or> i = - (2 ^ 53)" by arith
    then have "i = 2 * (i div 2)" by auto
    then have "rat_of_int i / ulp = of_int (i div 2)"
      using \<open>?b = 54\<close> by (simp add: ulp pow2_def)
    then show ?thesis by blast
  qed
  then obtain m where m: "of_int i / ulp = of_int m" by blast
  have "ulp > 0" by (simp add: ulp)
  then have r: "of_int m * ulp = of_int i"
    using m by (simp add: field_simps)
  have "\<bar>rat_of_int i\<bar> \<le> 2 ^ 53"
    using assms by (metis of_int_abs of_int_le_iff of_int_numeral of_int_power)
  then have "\<not> \<bar>rat_of_int i\<bar> \<ge> 2 ^ 1024"
    by (simp add: not_le le_less_trans)
  then show ?thesis
    using False m r by (simp add: float64_of_def round_float_def Let_def flip: ulp_def)
qed

lemma round_half_even_near: "\<bar>of_int (round_half_even q) - q\<bar> \<le> 1"
  using floor_correct [of q] by (auto simp: round_half_even_def Let_def abs_le_iff; linarith)

lemma pow2_mono: "d \<le> e \<Longrightarrow> pow2 d \<le> pow2 e"
proof -
  assume le: "d \<le> e"
  have eq: "pow2 e = (2::rat) powi e" for e
    by (simp add: pow2_def power_int_def field_simps)
  show ?thesis unfolding eq using le by (rule power_int_increasing) simp
qed

lemma float64_of_int_finite:
  assumes "\<bar>i\<bar> < 2 ^ 64"
  shows "\<exists>q. float64_of (of_int i) = FFin q"
proof (cases "i = 0")
  case False
  define ulp where "ulp = pow2 (max (binade (of_int i) - 52) (- 1074))"
  define r where "r = of_int (round_half_even (of_int i / ulp)) * ulp"
  have "bit_length \<bar>i\<bar> \<le> 64" using bit_length_le [of "\<bar>i\<bar>" 64] assms by simp
  then have "ulp \<le> pow2 11"
    unfolding ulp_def binade_of_int [OF False] by (intro pow2_mono) simp
  then have u: "ulp \<le> 2048" "0 < ulp" by (simp_all add: pow2_def ulp_def)
  have "\<bar>of_int (round_half_even (of_int i / ulp)) - of_int i / ulp\<bar> * ulp \<le> 1 * ulp"
    using u round_half_even_near by (intro mult_right_mono) auto
  moreover have "(of_int (round_half_even (of_int i / ulp)) - of_int i / ulp) * ulp = r - of_int i"
    using u by (simp add: r_def left_diff_distrib)
  ultimately have near: "\<bar>r - of_int i\<bar> \<le> 2048"
    using u(1) abs_mult_pos [OF less_imp_le [OF u(2)],
      of "of_int (round_half_even (of_int i / ulp)) - of_int i / ulp"] by simp
  have "\<bar>rat_of_int i\<bar> < 2 ^ 64"
    using assms by (metis of_int_abs of_int_less_iff of_int_numeral of_int_power)
  with near have "\<bar>r\<bar> < 2 ^ 64 + 2048" by linarith
  then have "\<not> \<bar>r\<bar> \<ge> 2 ^ 1024" by (simp add: not_le less_trans)
  then show ?thesis
    using False by (simp add: float64_of_def round_float_def Let_def flip: ulp_def r_def)
qed (simp add: float64_of_def round_float_def)

text \<open>\<^verbatim>\<open>v == math.Trunc(v)\<close> on a finite float and \<^verbatim>\<open>IsInt\<close> on a \<^verbatim>\<open>big.Rat\<close>.\<close>

definition is_integral :: "rat \<Rightarrow> bool" where
  "is_integral q \<longleftrightarrow> of_int \<lfloor>q\<rfloor> = q"

lemma is_integral_of_int [simp]: "is_integral (of_int i)"
  by (simp add: is_integral_def)

lemma is_integral_iff: "is_integral q \<longleftrightarrow> (\<exists>i. q = of_int i)"
  by (auto simp: is_integral_def)

section \<open>Interface values\<close>

datatype goval =
    GNil
  | GBool bool
  | GString string
  | GInt64 "64 word"
  | GInt "64 word"
  | GInt32 "32 word"
  | GInt16 "16 word"
  | GInt8 "8 word"
  | GUint64 "64 word"
  | GUint "64 word"
  | GUint32 "32 word"
  | GUint16 "16 word"
  | GUint8 "8 word"
  | GFloat64 gofloat
  | GFloat32 gofloat
  | GNumber string
  | GBytes bytes
  | GArray "goval list"
  | GMap "(string \<times> goval) list"

type_synonym gomap = "(string \<times> goval) list"

text \<open>Type assertions \<^verbatim>\<open>v, ok := m[k].(T)\<close>: a missing key reads as the nil interface.\<close>

definition lookup :: "gomap \<Rightarrow> string \<Rightarrow> goval" where
  "lookup m k = (case map_of m k of Some v \<Rightarrow> v | None \<Rightarrow> GNil)"

fun as_string :: "goval \<Rightarrow> string option" where
  "as_string (GString s) = Some s"
| "as_string _ = None"

fun as_bool :: "goval \<Rightarrow> bool option" where
  "as_bool (GBool b) = Some b"
| "as_bool _ = None"

fun as_bytes :: "goval \<Rightarrow> bytes option" where
  "as_bytes (GBytes b) = Some b"
| "as_bytes _ = None"

fun as_array :: "goval \<Rightarrow> goval list option" where
  "as_array (GArray b) = Some b"
| "as_array _ = None"

fun as_uint32 :: "goval \<Rightarrow> u32 option" where
  "as_uint32 (GUint32 w) = Some w"
| "as_uint32 _ = None"

fun_cases as_string_SomeE [elim!]: "as_string v = Some s"
fun_cases as_bool_SomeE [elim!]: "as_bool v = Some b"
fun_cases as_uint32_SomeE [elim!]: "as_uint32 v = Some b"

section \<open>Text of JSON numbers\<close>

definition is_digit :: "char \<Rightarrow> bool" where
  "is_digit c = (48 \<le> (of_char c :: nat) \<and> (of_char c :: nat) \<le> 57)"

definition digit_value :: "char \<Rightarrow> nat" where
  "digit_value c = of_char c - 48"

definition decimal :: "string \<Rightarrow> nat" where
  "decimal s = foldl (\<lambda>n c. 10 * n + digit_value c) 0 s"

definition split_sign :: "string \<Rightarrow> bool \<times> string" where
  "split_sign s = (case s of CHR 0x2D # cs \<Rightarrow> (True, cs) | _ \<Rightarrow> (False, s))"

section \<open>Decimal text\<close>

fun show_nat :: "nat \<Rightarrow> string" where
  "show_nat n = (if n < 10 then [char_of (48 + n)]
                 else show_nat (n div 10) @ [char_of (48 + n mod 10)])"

declare show_nat.simps [simp del]

lemma digit_value_char [simp]: "d < 10 \<Longrightarrow> digit_value (char_of (48 + d)) = d"
  by (simp add: digit_value_def)

lemma is_digit_char [simp]: "d < (10::nat) \<Longrightarrow> is_digit (char_of (48 + d))"
  by (simp add: is_digit_def)

lemma decimal_snoc [simp]: "decimal (s @ [c]) = 10 * decimal s + digit_value c"
  by (simp add: decimal_def)

lemma decimal_show_nat [simp]: "decimal (show_nat n) = n"
proof (induction n rule: show_nat.induct)
  case (1 n)
  have "decimal [char_of (48 + n)] = n" if "n < 10"
    using that decimal_snoc [of "[]"] by (simp add: decimal_def)
  with 1 show ?case by (subst show_nat.simps) simp
qed

lemma show_nat_digits: "c \<in> set (show_nat n) \<Longrightarrow> is_digit c"
proof (induction n rule: show_nat.induct)
  case (1 n)
  then show ?case by (subst (asm) show_nat.simps) (auto split: if_splits)
qed

lemma show_nat_nonempty [simp]: "show_nat n \<noteq> []"
  by (subst show_nat.simps) simp

lemma show_nat_head: "hd (show_nat n) = CHR ''0'' \<longleftrightarrow> n = 0"
proof (induction n rule: show_nat.induct)
  case (1 n)
  show ?case
  proof (cases "n < 10")
    case True
    have "char_of (48::nat) = CHR ''0''" by code_simp
    then have "char_of (48 + n) = CHR ''0'' \<longleftrightarrow> n = 0"
      using True digit_value_char [of n] digit_value_char [of 0] by (metis add.right_neutral zero_less_numeral)
    then show ?thesis using True by (subst show_nat.simps) simp
  next
    case False
    then show ?thesis using 1 by (subst show_nat.simps) simp
  qed
qed

text \<open>\<^verbatim>\<open>strconv.FormatInt\<close> in base ten.\<close>

definition show_int :: "int \<Rightarrow> string" where
  "show_int i = (if i < 0 then CHR ''-'' # show_nat (nat (- i)) else show_nat (nat i))"

end
