(* ===== verification/Numeric_Coercion.thy ===== *)
theory Numeric_Coercion
  imports Go_Values
begin

text \<open>
  The exact numeric coercions of \<^verbatim>\<open>KC-Core/pkg/bssci/message_normalizer.go\<close> and the bounded
  conversions of \<^verbatim>\<open>conversions.go\<close>. The error values keep the distinctions the code's messages
  make; \<open>CE_Precision\<close> is the one callers test for (\<^verbatim>\<open>errNumericPrecision\<close>).

  Shown: whatever a coercion accepts it returns exactly (\<open>exact_value\<close> is the number a wire
  value denotes), and it accepts every integer that fits the target except the floats beyond the
  exact-integer range of their width.
\<close>

section \<open>JSON number text\<close>

text \<open>
  The grammar of a JSON number, split into sign, digits (integer part, then fraction), the
  length of the fraction and the exponent. \<^verbatim>\<open>json.Valid\<close> accepts exactly these tokens among the
  texts that start with a digit or a minus sign; a trailing blank, which it would also accept,
  fails in \<^verbatim>\<open>big.Rat.SetString\<close>.
\<close>

definition take_digits :: "string \<Rightarrow> string \<times> string" where
  "take_digits s = (takeWhile is_digit s, dropWhile is_digit s)"

definition json_int :: "string \<Rightarrow> (string \<times> string) option" where
  "json_int s =
     (let (ds, rest) = take_digits s
      in if ds = [] \<or> (hd ds = CHR ''0'' \<and> length ds > 1) then None else Some (ds, rest))"

definition json_frac :: "string \<Rightarrow> (string \<times> string) option" where
  "json_frac s =
     (case s of
        CHR 0x2E # s' \<Rightarrow>
          (let (ds, rest) = take_digits s' in if ds = [] then None else Some (ds, rest))
      | _ \<Rightarrow> Some ([], s))"

definition json_exp :: "string \<Rightarrow> (int \<times> string) option" where
  "json_exp s =
     (case s of
        c # s' \<Rightarrow>
          if c = CHR ''e'' \<or> c = CHR ''E'' then
            (let (neg, s'') = (case s' of
                                 d # t \<Rightarrow> if d = CHR ''-'' then (True, t)
                                          else if d = CHR ''+'' then (False, t) else (False, s')
                               | [] \<Rightarrow> (False, s'));
                 (ds, rest) = take_digits s''
             in if ds = [] then None
                else Some (if neg then - int (decimal ds) else int (decimal ds), rest))
          else Some (0, s)
      | [] \<Rightarrow> Some (0, s))"

text \<open>Sign, digits of the mantissa, digits after the point, exponent.\<close>

definition json_number :: "string \<Rightarrow> (bool \<times> nat \<times> nat \<times> int) option" where
  "json_number s =
     (let (neg, s1) = split_sign s
      in case json_int s1 of
           None \<Rightarrow> None
         | Some (ip, s2) \<Rightarrow>
             (case json_frac s2 of
                None \<Rightarrow> None
              | Some (fp, s3) \<Rightarrow>
                  (case json_exp s3 of
                     None \<Rightarrow> None
                   | Some (e, s4) \<Rightarrow>
                       if s4 = [] then Some (neg, decimal (ip @ fp), length fp, e) else None)))"

definition scale10 :: "nat \<Rightarrow> int \<Rightarrow> rat" where
  "scale10 m e = (if 0 \<le> e then of_nat m * 10 ^ nat e else of_nat m / 10 ^ nat (- e))"

definition signed_rat :: "bool \<Rightarrow> rat \<Rightarrow> rat" where
  "signed_rat neg q = (if neg then - q else q)"

text \<open>
  \<^verbatim>\<open>big.Rat.SetString\<close> on such a token: an exponent outside the 64-bit range is refused, zero is zero
  whatever its exponent, and a decimal exponent beyond a million is refused.
\<close>

definition rat_exponent_limit :: int where
  "rat_exponent_limit = 1000000"

definition parseJSONNumber :: "string \<Rightarrow> rat option" where
  "parseJSONNumber s =
     (case json_number s of
        None \<Rightarrow> None
      | Some (neg, m, fl, e) \<Rightarrow>
          if e < - (2 ^ 63) \<or> e > 2 ^ 63 - 1 then None
          else if m = 0 then Some 0
          else if \<bar>e - int fl\<bar> > rat_exponent_limit then None
          else Some (signed_rat neg (scale10 m (e - int fl))))"

text \<open>\<^verbatim>\<open>json.Number.Float64\<close>: the nearest double, an error beyond the finite range.\<close>

definition number_float64 :: "string \<Rightarrow> gofloat option" where
  "number_float64 s =
     (case json_number s of
        None \<Rightarrow> None
      | Some (neg, m, fl, e) \<Rightarrow>
          (case float64_of (signed_rat neg (scale10 m (e - int fl))) of
             FFin q \<Rightarrow> Some (FFin q)
           | _ \<Rightarrow> None))"

section \<open>Coercions\<close>

datatype coerce_error =
    CE_NonFinite | CE_Fractional | CE_Precision | CE_BadNumber
  | CE_Negative | CE_Range | CE_Type

definition maxExactFloat64Integer :: int where
  "maxExactFloat64Integer = 2 ^ 53"

definition maxExactFloat32Integer :: int where
  "maxExactFloat32Integer = 2 ^ 24"

fun checkExactIntegerFloat :: "gofloat \<Rightarrow> int \<Rightarrow> coerce_error + int" where
  "checkExactIntegerFloat (FFin q) bound =
     (if \<not> is_integral q then Inl CE_Fractional
      else if \<bar>q\<bar> > of_int bound then Inl CE_Precision
      else Inr \<lfloor>q\<rfloor>)"
| "checkExactIntegerFloat _ bound = Inl CE_NonFinite"

definition jsonNumberToUint64 :: "string \<Rightarrow> coerce_error + u64" where
  "jsonNumberToUint64 s =
     (case parseJSONNumber s of
        None \<Rightarrow> Inl CE_BadNumber
      | Some r \<Rightarrow>
          if \<not> is_integral r then Inl CE_Fractional
          else if r < 0 then Inl CE_Negative
          else if \<lfloor>r\<rfloor> > 2 ^ 64 - 1 then Inl CE_Range
          else Inr (word_of_int \<lfloor>r\<rfloor>))"

definition jsonNumberToInt64 :: "string \<Rightarrow> coerce_error + i64" where
  "jsonNumberToInt64 s =
     (case parseJSONNumber s of
        None \<Rightarrow> Inl CE_BadNumber
      | Some r \<Rightarrow>
          if \<not> is_integral r then Inl CE_Fractional
          else if \<lfloor>r\<rfloor> < - (2 ^ 63) \<or> \<lfloor>r\<rfloor> > 2 ^ 63 - 1 then Inl CE_Range
          else Inr (word_of_int \<lfloor>r\<rfloor>))"

fun coerceInt64 :: "goval \<Rightarrow> coerce_error + i64" where
  "coerceInt64 (GInt64 v) = Inr v"
| "coerceInt64 (GInt v) = Inr v"
| "coerceInt64 (GInt32 v) = Inr (scast v)"
| "coerceInt64 (GInt16 v) = Inr (scast v)"
| "coerceInt64 (GInt8 v) = Inr (scast v)"
| "coerceInt64 (GUint64 v) = (if uint v > 2 ^ 63 - 1 then Inl CE_Range else Inr v)"
| "coerceInt64 (GUint v) = (if uint v > 2 ^ 63 - 1 then Inl CE_Range else Inr v)"
| "coerceInt64 (GUint32 v) = Inr (ucast v)"
| "coerceInt64 (GUint16 v) = Inr (ucast v)"
| "coerceInt64 (GUint8 v) = Inr (ucast v)"
| "coerceInt64 (GFloat64 f) =
     bind_result (checkExactIntegerFloat f maxExactFloat64Integer) (\<lambda>i. Inr (word_of_int i))"
| "coerceInt64 (GFloat32 f) =
     bind_result (checkExactIntegerFloat f maxExactFloat32Integer) (\<lambda>i. Inr (word_of_int i))"
| "coerceInt64 (GNumber s) = jsonNumberToInt64 s"
| "coerceInt64 _ = Inl CE_Type"

definition unsignedToTarget :: "u64 \<Rightarrow> u64 \<Rightarrow> coerce_error + u64" where
  "unsignedToTarget v targetMax = (if v > targetMax then Inl CE_Range else Inr v)"

definition signedToTarget :: "i64 \<Rightarrow> u64 \<Rightarrow> u64 \<Rightarrow> coerce_error + u64" where
  "signedToTarget v sourceMax targetMax =
     (if sourceMax > targetMax then
        (if sint v < 0 \<or> v > targetMax then Inl CE_Range else Inr v)
      else if sint v < 0 then Inl CE_Negative else Inr v)"

definition floatToTarget :: "gofloat \<Rightarrow> int \<Rightarrow> u64 \<Rightarrow> coerce_error + u64" where
  "floatToTarget f exactLimit targetMax =
     bind_result (checkExactIntegerFloat f exactLimit) (\<lambda>i.
       if targetMax < - 1 then
         (if i < 0 \<or> i > uint targetMax then Inl CE_Range else Inr (word_of_int i))
       else if i < 0 then Inl CE_Negative else Inr (word_of_int i))"

definition jsonNumberToTarget :: "string \<Rightarrow> u64 \<Rightarrow> coerce_error + u64" where
  "jsonNumberToTarget s targetMax =
     bind_result (jsonNumberToUint64 s) (\<lambda>u. if u > targetMax then Inl CE_Range else Inr u)"

fun coerceToUnsigned :: "goval \<Rightarrow> u64 \<Rightarrow> coerce_error + u64" where
  "coerceToUnsigned (GUint64 v) targetMax = unsignedToTarget v targetMax"
| "coerceToUnsigned (GUint v) targetMax = unsignedToTarget v targetMax"
| "coerceToUnsigned (GUint32 v) targetMax = unsignedToTarget (ucast v) targetMax"
| "coerceToUnsigned (GUint16 v) targetMax = unsignedToTarget (ucast v) targetMax"
| "coerceToUnsigned (GUint8 v) targetMax = unsignedToTarget (ucast v) targetMax"
| "coerceToUnsigned (GInt64 v) targetMax = signedToTarget v (2 ^ 63 - 1) targetMax"
| "coerceToUnsigned (GInt v) targetMax = signedToTarget v (2 ^ 63 - 1) targetMax"
| "coerceToUnsigned (GInt32 v) targetMax = signedToTarget (scast v) (2 ^ 31 - 1) targetMax"
| "coerceToUnsigned (GInt16 v) targetMax = signedToTarget (scast v) (2 ^ 15 - 1) targetMax"
| "coerceToUnsigned (GInt8 v) targetMax = signedToTarget (scast v) (2 ^ 7 - 1) targetMax"
| "coerceToUnsigned (GFloat64 f) targetMax = floatToTarget f maxExactFloat64Integer targetMax"
| "coerceToUnsigned (GFloat32 f) targetMax = floatToTarget f maxExactFloat32Integer targetMax"
| "coerceToUnsigned (GNumber s) targetMax = jsonNumberToTarget s targetMax"
| "coerceToUnsigned _ targetMax = Inl CE_Type"

definition coerceUint64 :: "goval \<Rightarrow> coerce_error + u64" where
  "coerceUint64 v = coerceToUnsigned v (2 ^ 64 - 1)"

definition coerceUint32 :: "goval \<Rightarrow> coerce_error + u32" where
  "coerceUint32 v = bind_result (coerceToUnsigned v (2 ^ 32 - 1)) (\<lambda>u. Inr (ucast u))"

definition coerceUint16 :: "goval \<Rightarrow> coerce_error + u16" where
  "coerceUint16 v = bind_result (coerceToUnsigned v (2 ^ 16 - 1)) (\<lambda>u. Inr (ucast u))"

definition finite_float :: "gofloat \<Rightarrow> coerce_error + gofloat" where
  "finite_float f = (if is_finite f then Inr f else Inl CE_NonFinite)"

fun coerceFloat64 :: "goval \<Rightarrow> coerce_error + gofloat" where
  "coerceFloat64 (GFloat64 f) = finite_float f"
| "coerceFloat64 (GFloat32 f) = finite_float f"
| "coerceFloat64 (GInt64 v) = Inr (float64_of (of_int (sint v)))"
| "coerceFloat64 (GInt v) = Inr (float64_of (of_int (sint v)))"
| "coerceFloat64 (GInt32 v) = Inr (float64_of (of_int (sint v)))"
| "coerceFloat64 (GInt16 v) = Inr (float64_of (of_int (sint v)))"
| "coerceFloat64 (GInt8 v) = Inr (float64_of (of_int (sint v)))"
| "coerceFloat64 (GUint64 v) = Inr (float64_of (of_int (uint v)))"
| "coerceFloat64 (GUint v) = Inr (float64_of (of_int (uint v)))"
| "coerceFloat64 (GUint32 v) = Inr (float64_of (of_int (uint v)))"
| "coerceFloat64 (GUint16 v) = Inr (float64_of (of_int (uint v)))"
| "coerceFloat64 (GUint8 v) = Inr (float64_of (of_int (uint v)))"
| "coerceFloat64 (GNumber s) =
     (case number_float64 s of None \<Rightarrow> Inl CE_BadNumber | Some f \<Rightarrow> finite_float f)"
| "coerceFloat64 _ = Inl CE_Type"

definition signed_byte :: "int \<Rightarrow> coerce_error + byte" where
  "signed_byte i = (if i < 0 \<or> i > 255 then Inl CE_Range else Inr (word_of_int i))"

text \<open>
  The float branches compare with \<^verbatim>\<open>float64(int64(v))\<close>; where \<^verbatim>\<open>v\<close> is outside the int64 range Go
  leaves the conversion open, and every value it may give ends in the same range error.
\<close>

fun float_byte :: "gofloat \<Rightarrow> coerce_error + byte" where
  "float_byte (FFin q) =
     (if \<not> is_integral q then Inl CE_Range
      else if q < 0 \<or> q > 255 then Inl CE_Range
      else Inr (word_of_int \<lfloor>q\<rfloor>))"
| "float_byte _ = Inl CE_Range"

fun numericToByte :: "goval \<Rightarrow> coerce_error + byte" where
  "numericToByte (GUint8 v) = Inr v"
| "numericToByte (GInt8 v) = (if sint v < 0 then Inl CE_Negative else Inr v)"
| "numericToByte (GUint16 v) = signed_byte (uint v)"
| "numericToByte (GInt16 v) = signed_byte (sint v)"
| "numericToByte (GUint32 v) = signed_byte (uint v)"
| "numericToByte (GInt32 v) = signed_byte (sint v)"
| "numericToByte (GUint64 v) = signed_byte (uint v)"
| "numericToByte (GInt64 v) = signed_byte (sint v)"
| "numericToByte (GInt v) = signed_byte (sint v)"
| "numericToByte (GUint v) = signed_byte (uint v)"
| "numericToByte (GFloat32 f) = float_byte f"
| "numericToByte (GFloat64 f) = float_byte f"
| "numericToByte (GNumber s) =
     bind_result (jsonNumberToUint64 s) (\<lambda>u. if u > 255 then Inl CE_Range else Inr (ucast u))"
| "numericToByte _ = Inl CE_Type"

section \<open>Bounded conversions of conversions.go\<close>

definition safeUint :: "int \<Rightarrow> i64 \<Rightarrow> 'a::len word option" where
  "safeUint bound v = (if sint v < 0 \<or> sint v > bound then None else Some (ucast v))"

definition safeUint8 :: "i64 \<Rightarrow> byte option" where
  "safeUint8 v = safeUint 255 v"

definition safeUint16 :: "i64 \<Rightarrow> u16 option" where
  "safeUint16 v = safeUint 65535 v"

definition safeUint32 :: "i64 \<Rightarrow> u32 option" where
  "safeUint32 v = safeUint 4294967295 v"

definition safeUint64 :: "i64 \<Rightarrow> u64 option" where
  "safeUint64 v = (if sint v < 0 then None else Some v)"

section \<open>What a wire value denotes\<close>

text \<open>The integer a wire value denotes, if it denotes one.\<close>

definition integer_of_rat :: "rat \<Rightarrow> int option" where
  "integer_of_rat q = (if is_integral q then Some \<lfloor>q\<rfloor> else None)"

fun integer_of_float :: "gofloat \<Rightarrow> int option" where
  "integer_of_float (FFin q) = integer_of_rat q"
| "integer_of_float _ = None"

fun exact_int :: "goval \<Rightarrow> int option" where
  "exact_int (GInt64 v) = Some (sint v)"
| "exact_int (GInt v) = Some (sint v)"
| "exact_int (GInt32 v) = Some (sint v)"
| "exact_int (GInt16 v) = Some (sint v)"
| "exact_int (GInt8 v) = Some (sint v)"
| "exact_int (GUint64 v) = Some (uint v)"
| "exact_int (GUint v) = Some (uint v)"
| "exact_int (GUint32 v) = Some (uint v)"
| "exact_int (GUint16 v) = Some (uint v)"
| "exact_int (GUint8 v) = Some (uint v)"
| "exact_int (GFloat64 f) = integer_of_float f"
| "exact_int (GFloat32 f) = integer_of_float f"
| "exact_int (GNumber s) = Option.bind (parseJSONNumber s) integer_of_rat"
| "exact_int _ = None"

text \<open>Floats whose integer value may have been rounded before it reached the wire.\<close>

fun beyond_exact :: "goval \<Rightarrow> bool" where
  "beyond_exact (GFloat64 (FFin q)) = (\<bar>q\<bar> > of_int maxExactFloat64Integer)"
| "beyond_exact (GFloat32 (FFin q)) = (\<bar>q\<bar> > of_int maxExactFloat32Integer)"
| "beyond_exact _ = False"

section \<open>Exactness\<close>

lemma integer_of_rat_Some: "integer_of_rat q = Some i \<longleftrightarrow> q = of_int i"
  by (auto simp: integer_of_rat_def is_integral_def)

lemma checkExactIntegerFloat_Inr:
  "checkExactIntegerFloat f b = Inr i \<longleftrightarrow> f = FFin (of_int i) \<and> \<bar>i\<bar> \<le> b"
proof (cases f)
  case (FFin q)
  have "\<bar>rat_of_int i\<bar> > of_int b \<longleftrightarrow> \<bar>i\<bar> > b" for i
    by (metis of_int_abs of_int_less_iff)
  with FFin show ?thesis
    by (auto simp: is_integral_def not_less)
qed auto

lemma integer_of_float_Some: "integer_of_float f = Some i \<longleftrightarrow> f = FFin (of_int i)"
  by (cases f) (auto simp: integer_of_rat_Some)

lemma abs_of_int_gt [simp]: "\<bar>rat_of_int i\<bar> > of_int b \<longleftrightarrow> \<bar>i\<bar> > b"
  by (metis of_int_abs of_int_less_iff)

lemma jsonNumberToInt64_Inr:
  "jsonNumberToInt64 s = Inr w \<longleftrightarrow> Option.bind (parseJSONNumber s) integer_of_rat = Some (sint w)"
proof (cases "parseJSONNumber s")
  case (Some r)
  show ?thesis
  proof (cases "is_integral r")
    case True
    then obtain i where r: "r = of_int i" by (auto simp: is_integral_iff)
    show ?thesis
      using Some sint64_bounds [of w]
      by (auto simp: jsonNumberToInt64_def r integer_of_rat_Some word_of_int_eq_sint)
  next
    case False
    with Some show ?thesis
      by (simp add: jsonNumberToInt64_def integer_of_rat_def)
  qed
qed (simp add: jsonNumberToInt64_def)

lemma jsonNumberToUint64_Inr:
  "jsonNumberToUint64 s = Inr w \<longleftrightarrow> Option.bind (parseJSONNumber s) integer_of_rat = Some (uint w)"
proof (cases "parseJSONNumber s")
  case (Some r)
  show ?thesis
  proof (cases "is_integral r")
    case True
    then obtain i where r: "r = of_int i" by (auto simp: is_integral_iff)
    show ?thesis
      using Some uint64_bounds [of w]
      by (auto simp: jsonNumberToUint64_def r integer_of_rat_Some word_of_int_eq_uint)
  next
    case False
    with Some show ?thesis
      by (simp add: jsonNumberToUint64_def integer_of_rat_def)
  qed
qed (simp add: jsonNumberToUint64_def)

lemma coerceInt64_exact:
  "coerceInt64 v = Inr w \<longleftrightarrow> exact_int v = Some (sint w) \<and> \<not> beyond_exact v"
proof (cases v)
  case (GUint64 x)
  show ?thesis
    using GUint64 sint_eq_uint64 [of x] sint64_bounds [of w] by (auto simp: sint_inj64 not_less)
next
  case (GUint x)
  show ?thesis
    using GUint sint_eq_uint64 [of x] sint64_bounds [of w] by (auto simp: sint_inj64 not_less)
next
  case (GFloat64 f)
  then show ?thesis
    by (auto simp: bind_result_Inr_iff checkExactIntegerFloat_Inr integer_of_float_Some
        maxExactFloat64Integer_def word_of_int_eq_sint sint_word_of_int64)
next
  case (GFloat32 f)
  then show ?thesis
    by (auto simp: bind_result_Inr_iff checkExactIntegerFloat_Inr integer_of_float_Some
        maxExactFloat32Integer_def word_of_int_eq_sint sint_word_of_int64)
next
  case (GInt32 x)
  then show ?thesis using sint_inj64 [of "scast x" w] by (auto simp: sint_scast64)
next
  case (GInt16 x)
  then show ?thesis using sint_inj64 [of "scast x" w] by (auto simp: sint_scast64)
next
  case (GInt8 x)
  then show ?thesis using sint_inj64 [of "scast x" w] by (auto simp: sint_scast64)
next
  case (GUint32 x)
  then show ?thesis using sint_inj64 [of "ucast x" w] by (auto simp: sint_ucast64)
next
  case (GUint16 x)
  then show ?thesis using sint_inj64 [of "ucast x" w] by (auto simp: sint_ucast64)
next
  case (GUint8 x)
  then show ?thesis using sint_inj64 [of "ucast x" w] by (auto simp: sint_ucast64)
qed (auto simp: sint_inj64 jsonNumberToInt64_Inr)

lemma unsignedToTarget_Inr: "unsignedToTarget v m = Inr w \<longleftrightarrow> v = w \<and> w \<le> m"
  by (auto simp: unsignedToTarget_def)

lemma signedToTarget_Inr:
  assumes "sint v \<le> uint sm"
  shows "signedToTarget v sm m = Inr w \<longleftrightarrow> sint v = uint w \<and> w \<le> m"
proof -
  have "v \<le> m" if "\<not> sm > m" "0 \<le> sint v"
    using that assms uint_eq_sint64 [of v] by (simp add: word_le_def not_less)
  then show ?thesis by (auto simp: signedToTarget_def not_less sint_eq_uint_iff)
qed

lemma floatToTarget_iff:
  "floatToTarget f b m = Inr w \<longleftrightarrow>
     (\<exists>i. f = FFin (of_int i) \<and> \<bar>i\<bar> \<le> b \<and> 0 \<le> i \<and> (m < - 1 \<longrightarrow> i \<le> uint m) \<and> word_of_int i = w)"
  unfolding floatToTarget_def bind_result_Inr_iff checkExactIntegerFloat_Inr
  by (intro ex_cong1) (auto split: if_splits)

lemma word_le_top: "\<not> m < - 1 \<Longrightarrow> w \<le> (m :: u64)"
  by (meson not_less order_trans word_order.extremum)

lemma floatToTarget_Inr:
  assumes "b < 2 ^ 63"
  shows "floatToTarget f b m = Inr w \<longleftrightarrow> f = FFin (of_int (uint w)) \<and> uint w \<le> b \<and> w \<le> m"
proof
  assume "floatToTarget f b m = Inr w"
  then obtain i where i: "f = FFin (of_int i)" "\<bar>i\<bar> \<le> b" "0 \<le> i" "m < - 1 \<longrightarrow> i \<le> uint m"
      "word_of_int i = w"
    by (auto simp: floatToTarget_iff)
  then have "i = uint w"
    using assms word_of_int_eq_uint [of i w] by simp
  with i show "f = FFin (of_int (uint w)) \<and> uint w \<le> b \<and> w \<le> m"
    using word_le_top [of m w] by (auto simp: word_le_def)
next
  assume "f = FFin (of_int (uint w)) \<and> uint w \<le> b \<and> w \<le> m"
  then show "floatToTarget f b m = Inr w"
    unfolding floatToTarget_iff by (intro exI [of _ "uint w"]) (simp add: word_le_def word_of_int_uint_id)
qed

lemma jsonNumberToTarget_Inr:
  "jsonNumberToTarget s m = Inr w \<longleftrightarrow>
     Option.bind (parseJSONNumber s) integer_of_rat = Some (uint w) \<and> w \<le> m"
  by (auto simp: jsonNumberToTarget_def bind_result_Inr_iff jsonNumberToUint64_Inr not_less
      split: if_splits)

lemma coerceToUnsigned_exact:
  "coerceToUnsigned v m = Inr w \<longleftrightarrow> exact_int v = Some (uint w) \<and> w \<le> m \<and> \<not> beyond_exact v"
proof (cases v)
  case (GFloat64 f)
  then show ?thesis
    by (auto simp: floatToTarget_Inr maxExactFloat64Integer_def integer_of_float_Some not_less)
next
  case (GFloat32 f)
  then show ?thesis
    by (auto simp: floatToTarget_Inr maxExactFloat32Integer_def integer_of_float_Some not_less)
next
  case (GInt64 x)
  then show ?thesis using sint64_bounds [of x] by (simp add: signedToTarget_Inr)
next
  case (GInt x)
  then show ?thesis using sint64_bounds [of x] by (simp add: signedToTarget_Inr)
next
  case (GInt32 x)
  then show ?thesis using sint_less [of x] by (simp add: signedToTarget_Inr sint_scast64)
next
  case (GInt16 x)
  then show ?thesis using sint_less [of x] by (simp add: signedToTarget_Inr sint_scast64)
next
  case (GInt8 x)
  then show ?thesis using sint_less [of x] by (simp add: signedToTarget_Inr sint_scast64)
next
  case (GUint32 x)
  then show ?thesis using uint_inj [of "ucast x" w] by (auto simp: unsignedToTarget_Inr uint_ucast64)
next
  case (GUint16 x)
  then show ?thesis using uint_inj [of "ucast x" w] by (auto simp: unsignedToTarget_Inr uint_ucast64)
next
  case (GUint8 x)
  then show ?thesis using uint_inj [of "ucast x" w] by (auto simp: unsignedToTarget_Inr uint_ucast64)
qed (auto simp: unsignedToTarget_Inr jsonNumberToTarget_Inr uint_inj)

lemma coerceUint64_exact:
  "coerceUint64 v = Inr w \<longleftrightarrow> exact_int v = Some (uint w) \<and> \<not> beyond_exact v"
  using uint64_bounds [of w] by (simp add: coerceUint64_def coerceToUnsigned_exact word_le_def)

lemma ex_ucast_down_iff:
  fixes w :: "'a::len word" and m :: u64
  assumes "LENGTH('a) \<le> 63" "uint m = 2 ^ LENGTH('a) - 1"
  shows "(\<exists>u. P (uint u) \<and> u \<le> m \<and> ucast u = w) \<longleftrightarrow> P (uint w)"
proof
  assume "\<exists>u. P (uint u) \<and> u \<le> m \<and> ucast u = w"
  then obtain u where u: "P (uint u)" "u \<le> m" "ucast u = w" by blast
  then have "uint u < 2 ^ LENGTH('a)" using assms(2) by (simp add: word_le_def)
  with u show "P (uint w)" by (simp add: ucast_down_eq_iff)
next
  assume P: "P (uint w)"
  have "uint (ucast w :: u64) = uint w" using assms(1) by (simp add: uint_ucast64)
  moreover from this have "ucast w \<le> m" using assms(2) uint_lt2p [of w] by (simp add: word_le_def)
  moreover from calculation have "ucast (ucast w :: u64) = w"
    using uint_lt2p [of w] by (simp add: ucast_down_eq_iff)
  ultimately show "\<exists>u. P (uint u) \<and> u \<le> m \<and> ucast u = w"
    using P by (intro exI [of _ "ucast w"]) simp
qed

lemma coerce_narrow_exact:
  fixes w :: "'a::len word"
  assumes "LENGTH('a) \<le> 63" "uint m = 2 ^ LENGTH('a) - 1"
  shows "bind_result (coerceToUnsigned v m) (\<lambda>u. Inr (ucast u)) = Inr w \<longleftrightarrow>
    exact_int v = Some (uint w) \<and> \<not> beyond_exact v"
  using ex_ucast_down_iff [OF assms, of "\<lambda>i. exact_int v = Some i \<and> \<not> beyond_exact v" w]
  by (simp add: bind_result_Inr_iff coerceToUnsigned_exact conj_ac)

lemma coerceUint32_exact:
  "coerceUint32 v = Inr w \<longleftrightarrow> exact_int v = Some (uint w) \<and> \<not> beyond_exact v"
  unfolding coerceUint32_def by (rule coerce_narrow_exact) simp_all

lemma coerceUint16_exact:
  "coerceUint16 v = Inr w \<longleftrightarrow> exact_int v = Some (uint w) \<and> \<not> beyond_exact v"
  unfolding coerceUint16_def by (rule coerce_narrow_exact) simp_all

lemma uint_byte_of_int: "0 \<le> i \<Longrightarrow> i \<le> 255 \<Longrightarrow> uint (word_of_int i :: byte) = i"
  by (simp add: unsigned_of_int take_bit_int_eq_self)

lemma signed_byte_Inr: "signed_byte i = Inr b \<longleftrightarrow> i = uint b"
  using uint_lt2p [of b] uint_byte_of_int [of i]
  by (auto simp: signed_byte_def word_of_int_uint_id)

lemma float_byte_Inr: "float_byte f = Inr b \<longleftrightarrow> integer_of_float f = Some (uint b)"
proof (cases f)
  case (FFin q)
  show ?thesis
  proof (cases "is_integral q")
    case True
    then obtain i where q: "q = of_int i" by (auto simp: is_integral_iff)
    have "float_byte f = signed_byte i"
      by (simp add: FFin q signed_byte_def)
    then show ?thesis
      by (simp add: FFin q signed_byte_Inr integer_of_rat_Some)
  qed (simp add: FFin integer_of_rat_def)
qed auto

lemma numericToByte_exact: "numericToByte v = Inr b \<longleftrightarrow> exact_int v = Some (uint b)"
proof (cases v)
  case (GInt8 x)
  have eq: "uint x = sint x" if "0 \<le> sint x"
  proof -
    have "uint x = uint (word_of_int (sint x) :: byte)" by (simp add: of_int_sint)
    also have "\<dots> = sint x" using that sint_less [of x] by (intro uint_byte_of_int) simp_all
    finally show ?thesis .
  qed
  have "sint x = uint b \<longleftrightarrow> x = b \<and> 0 \<le> sint x"
  proof
    assume "sint x = uint b"
    then show "x = b \<and> 0 \<le> sint x" using eq uint_ge_0 [of b] by (metis uint_inj)
  next
    assume "x = b \<and> 0 \<le> sint x"
    then show "sint x = uint b" using eq by auto
  qed
  then show ?thesis by (auto simp: GInt8)
next
  case (GNumber s)
  have "numericToByte v = Inr b \<longleftrightarrow> (\<exists>u::u64. exact_int v = Some (uint u) \<and> u \<le> 255 \<and> ucast u = b)"
    unfolding GNumber numericToByte.simps exact_int.simps bind_result_Inr_iff jsonNumberToUint64_Inr
    by (intro ex_cong1) (auto simp: not_less split: if_splits)
  also have "\<dots> \<longleftrightarrow> exact_int v = Some (uint b)"
    by (rule ex_ucast_down_iff) simp_all
  finally show ?thesis .
qed (auto simp: signed_byte_Inr float_byte_Inr uint_inj)

lemma coerceFloat64_finite: "coerceFloat64 v = Inr f \<Longrightarrow> exact_int v = Some i \<Longrightarrow>
    \<bar>i\<bar> \<le> maxExactFloat64Integer \<Longrightarrow> \<forall>s. v \<noteq> GNumber s \<Longrightarrow> f = FFin (of_int i)"
  by (cases v) (auto simp: float64_of_int_exact maxExactFloat64Integer_def finite_float_def
      integer_of_float_Some split: if_splits option.splits)

section \<open>Property\<close>

text \<open>
  Numeric coercion is exact. A wire value of any of the numeric representations is accepted for
  an integer field exactly when it denotes an integer, that integer fits the field's width, and the
  value is not a float beyond the range in which floats represent every integer; the result is then
  that integer, whatever mixture of signed, unsigned, floating and textual types is involved.
\<close>

theorem integer_coercions_exact:
  "(coerceInt64 v = Inr i \<longleftrightarrow> exact_int v = Some (sint i) \<and> \<not> beyond_exact v)
   \<and> (coerceUint64 v = Inr u64 \<longleftrightarrow> exact_int v = Some (uint u64) \<and> \<not> beyond_exact v)
   \<and> (coerceUint32 v = Inr u32 \<longleftrightarrow> exact_int v = Some (uint u32) \<and> \<not> beyond_exact v)
   \<and> (coerceUint16 v = Inr u16 \<longleftrightarrow> exact_int v = Some (uint u16) \<and> \<not> beyond_exact v)
   \<and> (numericToByte v = Inr b \<longleftrightarrow> exact_int v = Some (uint b))"
  using coerceInt64_exact coerceUint64_exact coerceUint32_exact coerceUint16_exact numericToByte_exact
  by blast

end
