(* ===== verification/Mioty_Commands.thy ===== *)
theory Mioty_Commands
  imports KC_Prelude
begin

text \<open>
  The command mnemonics of \<^verbatim>\<open>KC-DB/storage/mioty/types.go\<close> and the direction table of
  \<^verbatim>\<open>KC-Core/pkg/bssci/message_metadata_directions_gen.go\<close>. A command is the string the wire carries,
  as in the code, so that an unknown command is any other string.
\<close>

section \<open>Command mnemonics\<close>

abbreviation CmdConnect :: string where
  "CmdConnect \<equiv> ''con''"

abbreviation CmdConnectResponse :: string where
  "CmdConnectResponse \<equiv> ''conRsp''"

abbreviation CmdConnectComplete :: string where
  "CmdConnectComplete \<equiv> ''conCmp''"

abbreviation CmdPing :: string where
  "CmdPing \<equiv> ''ping''"

abbreviation CmdPingResponse :: string where
  "CmdPingResponse \<equiv> ''pingRsp''"

abbreviation CmdPingComplete :: string where
  "CmdPingComplete \<equiv> ''pingCmp''"

abbreviation CmdStatus :: string where
  "CmdStatus \<equiv> ''status''"

abbreviation CmdStatusResponse :: string where
  "CmdStatusResponse \<equiv> ''statusRsp''"

abbreviation CmdStatusComplete :: string where
  "CmdStatusComplete \<equiv> ''statusCmp''"

abbreviation CmdAttach :: string where
  "CmdAttach \<equiv> ''att''"

abbreviation CmdAttachResponse :: string where
  "CmdAttachResponse \<equiv> ''attRsp''"

abbreviation CmdAttachComplete :: string where
  "CmdAttachComplete \<equiv> ''attCmp''"

abbreviation CmdDetach :: string where
  "CmdDetach \<equiv> ''det''"

abbreviation CmdDetachResponse :: string where
  "CmdDetachResponse \<equiv> ''detRsp''"

abbreviation CmdDetachComplete :: string where
  "CmdDetachComplete \<equiv> ''detCmp''"

abbreviation CmdAttachPropagate :: string where
  "CmdAttachPropagate \<equiv> ''attPrp''"

abbreviation CmdAttachPropagateResponse :: string where
  "CmdAttachPropagateResponse \<equiv> ''attPrpRsp''"

abbreviation CmdAttachPropagateComplete :: string where
  "CmdAttachPropagateComplete \<equiv> ''attPrpCmp''"

abbreviation CmdDetachPropagate :: string where
  "CmdDetachPropagate \<equiv> ''detPrp''"

abbreviation CmdDetachPropagateResponse :: string where
  "CmdDetachPropagateResponse \<equiv> ''detPrpRsp''"

abbreviation CmdDetachPropagateComplete :: string where
  "CmdDetachPropagateComplete \<equiv> ''detPrpCmp''"

abbreviation CmdULData :: string where
  "CmdULData \<equiv> ''ulData''"

abbreviation CmdULDataResponse :: string where
  "CmdULDataResponse \<equiv> ''ulDataRsp''"

abbreviation CmdULDataComplete :: string where
  "CmdULDataComplete \<equiv> ''ulDataCmp''"

abbreviation CmdULDataTransmit :: string where
  "CmdULDataTransmit \<equiv> ''ulDataTx''"

abbreviation CmdULDataTransmitResponse :: string where
  "CmdULDataTransmitResponse \<equiv> ''ulDataTxRsp''"

abbreviation CmdULDataTransmitComplete :: string where
  "CmdULDataTransmitComplete \<equiv> ''ulDataTxCmp''"

abbreviation CmdDLDataQueue :: string where
  "CmdDLDataQueue \<equiv> ''dlDataQue''"

abbreviation CmdDLDataQueueResponse :: string where
  "CmdDLDataQueueResponse \<equiv> ''dlDataQueRsp''"

abbreviation CmdDLDataQueueComplete :: string where
  "CmdDLDataQueueComplete \<equiv> ''dlDataQueCmp''"

abbreviation CmdDLDataRevoke :: string where
  "CmdDLDataRevoke \<equiv> ''dlDataRev''"

abbreviation CmdDLDataRevokeResponse :: string where
  "CmdDLDataRevokeResponse \<equiv> ''dlDataRevRsp''"

abbreviation CmdDLDataRevokeComplete :: string where
  "CmdDLDataRevokeComplete \<equiv> ''dlDataRevCmp''"

abbreviation CmdDLDataResult :: string where
  "CmdDLDataResult \<equiv> ''dlDataRes''"

abbreviation CmdDLDataResultResponse :: string where
  "CmdDLDataResultResponse \<equiv> ''dlDataResRsp''"

abbreviation CmdDLDataResultComplete :: string where
  "CmdDLDataResultComplete \<equiv> ''dlDataResCmp''"

abbreviation CmdDLDataResultResponseSCACI :: string where
  "CmdDLDataResultResponseSCACI \<equiv> ''txDataResRsp''"

abbreviation CmdDLDataResultCompleteSCACI :: string where
  "CmdDLDataResultCompleteSCACI \<equiv> ''txDataResCmp''"

abbreviation CmdDLRxStatus :: string where
  "CmdDLRxStatus \<equiv> ''dlRxStat''"

abbreviation CmdDLRxStatusResponse :: string where
  "CmdDLRxStatusResponse \<equiv> ''dlRxStatRsp''"

abbreviation CmdDLRxStatusComplete :: string where
  "CmdDLRxStatusComplete \<equiv> ''dlRxStatCmp''"

abbreviation CmdDLRxStatusQuery :: string where
  "CmdDLRxStatusQuery \<equiv> ''dlRxStatQry''"

abbreviation CmdDLRxStatusQueryResponse :: string where
  "CmdDLRxStatusQueryResponse \<equiv> ''dlRxStatQryRsp''"

abbreviation CmdDLRxStatusQueryComplete :: string where
  "CmdDLRxStatusQueryComplete \<equiv> ''dlRxStatQryCmp''"

abbreviation CmdError :: string where
  "CmdError \<equiv> ''error''"

abbreviation CmdErrorAck :: string where
  "CmdErrorAck \<equiv> ''errorAck''"

abbreviation CmdVMActivate :: string where
  "CmdVMActivate \<equiv> ''vm.activate''"

abbreviation CmdVMActivateResponse :: string where
  "CmdVMActivateResponse \<equiv> ''vm.activateRsp''"

abbreviation CmdVMActivateComplete :: string where
  "CmdVMActivateComplete \<equiv> ''vm.activateCmp''"

abbreviation CmdVMDeactivate :: string where
  "CmdVMDeactivate \<equiv> ''vm.deactivate''"

abbreviation CmdVMDeactivateResponse :: string where
  "CmdVMDeactivateResponse \<equiv> ''vm.deactivateRsp''"

abbreviation CmdVMDeactivateComplete :: string where
  "CmdVMDeactivateComplete \<equiv> ''vm.deactivateCmp''"

abbreviation CmdVMStatus :: string where
  "CmdVMStatus \<equiv> ''vm.status''"

abbreviation CmdVMStatusResponse :: string where
  "CmdVMStatusResponse \<equiv> ''vm.statusRsp''"

abbreviation CmdVMStatusComplete :: string where
  "CmdVMStatusComplete \<equiv> ''vm.statusCmp''"

abbreviation CmdVMDLData :: string where
  "CmdVMDLData \<equiv> ''vm.dlData''"

abbreviation CmdVMDLDataResponse :: string where
  "CmdVMDLDataResponse \<equiv> ''vm.dlDataRsp''"

abbreviation CmdVMDLDataComplete :: string where
  "CmdVMDLDataComplete \<equiv> ''vm.dlDataCmp''"

section \<open>Directions\<close>

datatype CommandDirection = DirectionBStoSC | DirectionSCtoBS | DirectionBidirectional

definition commandDirectionMap :: "(string \<times> CommandDirection) list" where
  "commandDirectionMap =
    [(CmdConnect, DirectionBStoSC),
     (CmdConnectResponse, DirectionSCtoBS),
     (CmdConnectComplete, DirectionBStoSC),
     (CmdPing, DirectionBidirectional),
     (CmdPingResponse, DirectionBidirectional),
     (CmdPingComplete, DirectionBidirectional),
     (CmdStatus, DirectionSCtoBS),
     (CmdStatusResponse, DirectionBStoSC),
     (CmdStatusComplete, DirectionSCtoBS),
     (CmdAttach, DirectionBStoSC),
     (CmdAttachResponse, DirectionSCtoBS),
     (CmdAttachComplete, DirectionBStoSC),
     (CmdDetach, DirectionBStoSC),
     (CmdDetachResponse, DirectionSCtoBS),
     (CmdDetachComplete, DirectionBStoSC),
     (CmdAttachPropagate, DirectionSCtoBS),
     (CmdAttachPropagateResponse, DirectionBStoSC),
     (CmdAttachPropagateComplete, DirectionSCtoBS),
     (CmdDetachPropagate, DirectionSCtoBS),
     (CmdDetachPropagateResponse, DirectionBStoSC),
     (CmdDetachPropagateComplete, DirectionSCtoBS),
     (CmdULData, DirectionBStoSC),
     (CmdULDataResponse, DirectionSCtoBS),
     (CmdULDataComplete, DirectionBStoSC),
     (CmdULDataTransmit, DirectionSCtoBS),
     (CmdULDataTransmitResponse, DirectionBStoSC),
     (CmdULDataTransmitComplete, DirectionSCtoBS),
     (CmdDLDataQueue, DirectionSCtoBS),
     (CmdDLDataQueueResponse, DirectionBStoSC),
     (CmdDLDataQueueComplete, DirectionSCtoBS),
     (CmdDLDataRevoke, DirectionSCtoBS),
     (CmdDLDataRevokeResponse, DirectionBStoSC),
     (CmdDLDataRevokeComplete, DirectionSCtoBS),
     (CmdDLDataResult, DirectionBStoSC),
     (CmdDLDataResultResponse, DirectionSCtoBS),
     (CmdDLDataResultComplete, DirectionBStoSC),
     (CmdDLDataResultResponseSCACI, DirectionBStoSC),
     (CmdDLDataResultCompleteSCACI, DirectionSCtoBS),
     (CmdDLRxStatus, DirectionBStoSC),
     (CmdDLRxStatusResponse, DirectionSCtoBS),
     (CmdDLRxStatusComplete, DirectionBStoSC),
     (CmdDLRxStatusQuery, DirectionSCtoBS),
     (CmdDLRxStatusQueryResponse, DirectionBStoSC),
     (CmdDLRxStatusQueryComplete, DirectionSCtoBS),
     (CmdError, DirectionBidirectional),
     (CmdErrorAck, DirectionBidirectional),
     (CmdVMActivate, DirectionSCtoBS),
     (CmdVMActivateResponse, DirectionBStoSC),
     (CmdVMActivateComplete, DirectionBStoSC),
     (CmdVMDeactivate, DirectionSCtoBS),
     (CmdVMDeactivateResponse, DirectionBStoSC),
     (CmdVMDeactivateComplete, DirectionBStoSC),
     (CmdVMStatus, DirectionSCtoBS),
     (CmdVMStatusResponse, DirectionBStoSC),
     (CmdVMStatusComplete, DirectionBStoSC),
     (CmdVMDLData, DirectionSCtoBS),
     (CmdVMDLDataResponse, DirectionBStoSC),
     (CmdVMDLDataComplete, DirectionBStoSC)]"

definition all_commands :: "string list" where
  "all_commands = map fst commandDirectionMap"

lemma distinct_all_commands: "distinct all_commands"
  by code_simp

lemma length_all_commands: "length all_commands = 58"
  by code_simp

end
