(* ===== verification/Message_Registry.thy ===== *)
theory Message_Registry
  imports Numeric_Coercion Mioty_Commands
begin

text \<open>
  The field specifications of every BSSCI message, from \<^verbatim>\<open>KC-Core/pkg/bssci/message_metadata.go\<close>:
  one definition per entry of \<^verbatim>\<open>messageRegistry\<close>, with the field order, types, byte lengths, validators
  and conditional rules of the code. \<^verbatim>\<open>SpecRef\<close> and \<^verbatim>\<open>ErrorMsg\<close>, which only reach the text of an
  error, are left out. The lemmas at the end say that the table is well formed: no entry names a
  field twice, and required flags and defaults agree with the list a field stands in.
\<close>

section \<open>Field and message specifications\<close>

datatype FieldType =
    TypeInt64 | TypeUint64 | TypeUint32 | TypeUint16 | TypeFloat64 | TypeString | TypeBool
  | TypeBytes | TypeArray | TypeStruct | TypeInterface | TypeGeoLocation | TypeSubpackets

record FieldSpec =
  Name :: string
  Type :: FieldType
  Required :: bool
  DefaultValue :: goval
  ByteLength :: nat
  Validator :: "(goval \<Rightarrow> bool) option"
  EUI :: bool

record ConditionalRule =
  Condition :: "gomap \<Rightarrow> bool"
  RuleRequired :: "string list"
  Forbidden :: "string list"

record MessageSpec =
  Command :: string
  SpecSection :: string
  MandatoryFields :: "FieldSpec list"
  OptionalFields :: "FieldSpec list"
  ConditionalRules :: "ConditionalRule list"

text \<open>The fields a literal of the table leaves at Go's zero value.\<close>

definition mandatory :: "string \<Rightarrow> FieldType \<Rightarrow> FieldSpec" where
  "mandatory n t = \<lparr>Name = n, Type = t, Required = True, DefaultValue = GNil, ByteLength = 0,
     Validator = None, EUI = False\<rparr>"

definition optional :: "string \<Rightarrow> FieldType \<Rightarrow> FieldSpec" where
  "optional n t = \<lparr>Name = n, Type = t, Required = False, DefaultValue = GNil, ByteLength = 0,
     Validator = None, EUI = False\<rparr>"

section \<open>Validators and conditional rules\<close>

abbreviation DLDataResultSent :: string where
  "DLDataResultSent \<equiv> ''sent''"

abbreviation DLDataResultExpired :: string where
  "DLDataResultExpired \<equiv> ''expired''"

abbreviation DLDataResultInvalid :: string where
  "DLDataResultInvalid \<equiv> ''invalid''"

definition validAttachCnt :: "goval \<Rightarrow> bool" where
  "validAttachCnt v = (case as_uint32 v of Some w \<Rightarrow> w \<le> 16777215 | None \<Rightarrow> False)"

definition validDLDataResult :: "goval \<Rightarrow> bool" where
  "validDLDataResult v =
     (case as_string v of
        Some s \<Rightarrow> s = DLDataResultSent \<or> s = DLDataResultExpired \<or> s = DLDataResultInvalid
      | None \<Rightarrow> False)"

definition rule_result_sent :: ConditionalRule where
  "rule_result_sent =
     \<lparr>Condition = (\<lambda>data. as_string (lookup data ''result'') = Some DLDataResultSent),
      RuleRequired = [''txTime'', ''packetCnt''], Forbidden = []\<rparr>"

definition rule_result_not_sent :: ConditionalRule where
  "rule_result_not_sent =
     \<lparr>Condition = (\<lambda>data. case as_string (lookup data ''result'') of
                            Some s \<Rightarrow> s \<noteq> DLDataResultSent | None \<Rightarrow> False),
      RuleRequired = [], Forbidden = [''txTime'', ''packetCnt'']\<rparr>"

definition rule_response_expected :: ConditionalRule where
  "rule_response_expected =
     \<lparr>Condition = (\<lambda>data. as_bool (lookup data ''responseExp'') = Some True),
      RuleRequired = [''dlOpen''], Forbidden = []\<rparr>"

section \<open>The registry\<close>


definition spec_CmdStatusResponse :: MessageSpec where
  "spec_CmdStatusResponse =
    \<lparr>Command = CmdStatusResponse, SpecSection = ''5.8'',
      MandatoryFields =
       [mandatory ''code'' TypeInt64,
        mandatory ''message'' TypeString,
        mandatory ''time'' TypeInt64],
      OptionalFields =
       [optional ''dutyCycle'' TypeFloat64,
        optional ''geoLocation'' TypeGeoLocation,
        optional ''uptime'' TypeInt64,
        optional ''temp'' TypeFloat64,
        optional ''cpuLoad'' TypeFloat64,
        optional ''memLoad'' TypeFloat64,
        optional ''config'' TypeInterface],
      ConditionalRules = []\<rparr>"

definition spec_CmdAttach :: MessageSpec where
  "spec_CmdAttach =
    \<lparr>Command = CmdAttach, SpecSection = ''5.6'',
      MandatoryFields =
       [(mandatory ''epEui'' TypeUint64)\<lparr>EUI := True\<rparr>,
        mandatory ''rxTime'' TypeInt64,
        (mandatory ''attachCnt'' TypeUint32)\<lparr>Validator := Some validAttachCnt\<rparr>,
        mandatory ''snr'' TypeFloat64,
        mandatory ''rssi'' TypeFloat64,
        (mandatory ''nonce'' TypeBytes)\<lparr>ByteLength := 4\<rparr>,
        (mandatory ''sign'' TypeBytes)\<lparr>ByteLength := 4\<rparr>,
        mandatory ''dualChan'' TypeBool,
        mandatory ''repetition'' TypeBool,
        mandatory ''wideCarrOff'' TypeBool,
        mandatory ''longBlkDist'' TypeBool],
      OptionalFields =
       [optional ''rxDuration'' TypeInt64,
        optional ''eqSnr'' TypeFloat64,
        optional ''profile'' TypeString,
        optional ''subpackets'' TypeSubpackets,
        optional ''shAddr'' TypeUint16],
      ConditionalRules = []\<rparr>"

definition spec_CmdDetach :: MessageSpec where
  "spec_CmdDetach =
    \<lparr>Command = CmdDetach, SpecSection = ''5.7'',
      MandatoryFields =
       [(mandatory ''epEui'' TypeUint64)\<lparr>EUI := True\<rparr>,
        mandatory ''rxTime'' TypeInt64,
        mandatory ''packetCnt'' TypeUint32,
        mandatory ''snr'' TypeFloat64,
        mandatory ''rssi'' TypeFloat64,
        (mandatory ''sign'' TypeBytes)\<lparr>ByteLength := 4\<rparr>],
      OptionalFields =
       [optional ''rxDuration'' TypeInt64,
        optional ''eqSnr'' TypeFloat64,
        optional ''profile'' TypeString,
        optional ''subpackets'' TypeSubpackets],
      ConditionalRules = []\<rparr>"

definition spec_CmdDLDataResult :: MessageSpec where
  "spec_CmdDLDataResult =
    \<lparr>Command = CmdDLDataResult, SpecSection = ''5.14'',
      MandatoryFields =
       [(mandatory ''epEui'' TypeUint64)\<lparr>EUI := True\<rparr>,
        mandatory ''queId'' TypeUint64,
        (mandatory ''result'' TypeString)\<lparr>Validator := Some validDLDataResult\<rparr>],
      OptionalFields =
       [optional ''txTime'' TypeInt64,
        optional ''packetCnt'' TypeUint32],
      ConditionalRules = [rule_result_sent, rule_result_not_sent]\<rparr>"

definition spec_CmdULData :: MessageSpec where
  "spec_CmdULData =
    \<lparr>Command = CmdULData, SpecSection = ''5.11'',
      MandatoryFields =
       [(mandatory ''epEui'' TypeUint64)\<lparr>EUI := True\<rparr>,
        mandatory ''rxTime'' TypeInt64,
        mandatory ''packetCnt'' TypeUint32,
        mandatory ''userData'' TypeBytes,
        mandatory ''snr'' TypeFloat64,
        mandatory ''rssi'' TypeFloat64,
        mandatory ''dlOpen'' TypeBool,
        mandatory ''responseExp'' TypeBool,
        mandatory ''dlAck'' TypeBool],
      OptionalFields =
       [optional ''rxDuration'' TypeInt64,
        optional ''eqSnr'' TypeFloat64,
        optional ''profile'' TypeString,
        optional ''mode'' TypeString,
        optional ''subpackets'' TypeSubpackets,
        optional ''format'' TypeInt64],
      ConditionalRules = [rule_response_expected]\<rparr>"

definition spec_CmdConnect :: MessageSpec where
  "spec_CmdConnect =
    \<lparr>Command = CmdConnect, SpecSection = ''3.1'',
      MandatoryFields =
       [mandatory ''version'' TypeString,
        (mandatory ''bsEui'' TypeUint64)\<lparr>EUI := True\<rparr>,
        mandatory ''bidi'' TypeBool,
        (mandatory ''snBsUuid'' TypeBytes)\<lparr>ByteLength := 16\<rparr>],
      OptionalFields =
       [optional ''vendor'' TypeString,
        optional ''model'' TypeString,
        optional ''name'' TypeString,
        optional ''swVersion'' TypeString,
        optional ''info'' TypeInterface,
        optional ''geoLocation'' TypeGeoLocation,
        optional ''snBsOpId'' TypeInt64,
        optional ''snScOpId'' TypeInt64],
      ConditionalRules = []\<rparr>"

definition spec_CmdConnectResponse :: MessageSpec where
  "spec_CmdConnectResponse =
    \<lparr>Command = CmdConnectResponse, SpecSection = ''3.1'',
      MandatoryFields =
       [],
      OptionalFields =
       [],
      ConditionalRules = []\<rparr>"

definition spec_CmdConnectComplete :: MessageSpec where
  "spec_CmdConnectComplete =
    \<lparr>Command = CmdConnectComplete, SpecSection = ''3.1'',
      MandatoryFields =
       [],
      OptionalFields =
       [],
      ConditionalRules = []\<rparr>"

definition spec_CmdPing :: MessageSpec where
  "spec_CmdPing =
    \<lparr>Command = CmdPing, SpecSection = ''3.2'',
      MandatoryFields =
       [],
      OptionalFields =
       [],
      ConditionalRules = []\<rparr>"

definition spec_CmdPingComplete :: MessageSpec where
  "spec_CmdPingComplete =
    \<lparr>Command = CmdPingComplete, SpecSection = ''3.2'',
      MandatoryFields =
       [],
      OptionalFields =
       [],
      ConditionalRules = []\<rparr>"

definition spec_CmdStatus :: MessageSpec where
  "spec_CmdStatus =
    \<lparr>Command = CmdStatus, SpecSection = ''5.8'',
      MandatoryFields =
       [],
      OptionalFields =
       [],
      ConditionalRules = []\<rparr>"

definition spec_CmdStatusComplete :: MessageSpec where
  "spec_CmdStatusComplete =
    \<lparr>Command = CmdStatusComplete, SpecSection = ''5.8'',
      MandatoryFields =
       [],
      OptionalFields =
       [],
      ConditionalRules = []\<rparr>"

definition spec_CmdAttachResponse :: MessageSpec where
  "spec_CmdAttachResponse =
    \<lparr>Command = CmdAttachResponse, SpecSection = ''5.6'',
      MandatoryFields =
       [],
      OptionalFields =
       [],
      ConditionalRules = []\<rparr>"

definition spec_CmdAttachComplete :: MessageSpec where
  "spec_CmdAttachComplete =
    \<lparr>Command = CmdAttachComplete, SpecSection = ''5.6'',
      MandatoryFields =
       [],
      OptionalFields =
       [],
      ConditionalRules = []\<rparr>"

definition spec_CmdDetachResponse :: MessageSpec where
  "spec_CmdDetachResponse =
    \<lparr>Command = CmdDetachResponse, SpecSection = ''5.7'',
      MandatoryFields =
       [],
      OptionalFields =
       [],
      ConditionalRules = []\<rparr>"

definition spec_CmdDetachComplete :: MessageSpec where
  "spec_CmdDetachComplete =
    \<lparr>Command = CmdDetachComplete, SpecSection = ''5.7'',
      MandatoryFields =
       [],
      OptionalFields =
       [],
      ConditionalRules = []\<rparr>"

definition spec_CmdAttachPropagate :: MessageSpec where
  "spec_CmdAttachPropagate =
    \<lparr>Command = CmdAttachPropagate, SpecSection = ''5.9'',
      MandatoryFields =
       [(mandatory ''epEui'' TypeUint64)\<lparr>EUI := True\<rparr>,
        mandatory ''bidi'' TypeBool,
        (mandatory ''nwkSnKey'' TypeBytes)\<lparr>ByteLength := 16\<rparr>,
        mandatory ''shAddr'' TypeUint16,
        mandatory ''lastPacketCnt'' TypeUint32,
        mandatory ''dualChan'' TypeBool,
        mandatory ''repetition'' TypeBool,
        mandatory ''wideCarrOff'' TypeBool,
        mandatory ''longBlkDist'' TypeBool],
      OptionalFields =
       [],
      ConditionalRules = []\<rparr>"

definition spec_CmdAttachPropagateResponse :: MessageSpec where
  "spec_CmdAttachPropagateResponse =
    \<lparr>Command = CmdAttachPropagateResponse, SpecSection = ''5.9'',
      MandatoryFields =
       [],
      OptionalFields =
       [],
      ConditionalRules = []\<rparr>"

definition spec_CmdAttachPropagateComplete :: MessageSpec where
  "spec_CmdAttachPropagateComplete =
    \<lparr>Command = CmdAttachPropagateComplete, SpecSection = ''5.9'',
      MandatoryFields =
       [],
      OptionalFields =
       [],
      ConditionalRules = []\<rparr>"

definition spec_CmdDetachPropagate :: MessageSpec where
  "spec_CmdDetachPropagate =
    \<lparr>Command = CmdDetachPropagate, SpecSection = ''5.10'',
      MandatoryFields =
       [(mandatory ''epEui'' TypeUint64)\<lparr>EUI := True\<rparr>,
        mandatory ''shAddr'' TypeUint16],
      OptionalFields =
       [],
      ConditionalRules = []\<rparr>"

definition spec_CmdDetachPropagateResponse :: MessageSpec where
  "spec_CmdDetachPropagateResponse =
    \<lparr>Command = CmdDetachPropagateResponse, SpecSection = ''5.10'',
      MandatoryFields =
       [],
      OptionalFields =
       [],
      ConditionalRules = []\<rparr>"

definition spec_CmdDetachPropagateComplete :: MessageSpec where
  "spec_CmdDetachPropagateComplete =
    \<lparr>Command = CmdDetachPropagateComplete, SpecSection = ''5.10'',
      MandatoryFields =
       [],
      OptionalFields =
       [],
      ConditionalRules = []\<rparr>"

definition spec_CmdULDataResponse :: MessageSpec where
  "spec_CmdULDataResponse =
    \<lparr>Command = CmdULDataResponse, SpecSection = ''5.11'',
      MandatoryFields =
       [],
      OptionalFields =
       [],
      ConditionalRules = []\<rparr>"

definition spec_CmdULDataComplete :: MessageSpec where
  "spec_CmdULDataComplete =
    \<lparr>Command = CmdULDataComplete, SpecSection = ''5.11'',
      MandatoryFields =
       [],
      OptionalFields =
       [],
      ConditionalRules = []\<rparr>"

definition spec_CmdULDataTransmit :: MessageSpec where
  "spec_CmdULDataTransmit =
    \<lparr>Command = CmdULDataTransmit, SpecSection = ''5.11'',
      MandatoryFields =
       [(mandatory ''epEui'' TypeUint64)\<lparr>EUI := True\<rparr>,
        (mandatory ''nwkSnKey'' TypeBytes)\<lparr>ByteLength := 16\<rparr>,
        mandatory ''shAddr'' TypeUint16,
        mandatory ''packetCnt'' TypeUint32,
        mandatory ''userData'' TypeBytes],
      OptionalFields =
       [optional ''profile'' TypeString,
        optional ''format'' TypeInt64],
      ConditionalRules = []\<rparr>"

definition spec_CmdULDataTransmitResponse :: MessageSpec where
  "spec_CmdULDataTransmitResponse =
    \<lparr>Command = CmdULDataTransmitResponse, SpecSection = ''5.11'',
      MandatoryFields =
       [],
      OptionalFields =
       [],
      ConditionalRules = []\<rparr>"

definition spec_CmdULDataTransmitComplete :: MessageSpec where
  "spec_CmdULDataTransmitComplete =
    \<lparr>Command = CmdULDataTransmitComplete, SpecSection = ''5.11'',
      MandatoryFields =
       [],
      OptionalFields =
       [],
      ConditionalRules = []\<rparr>"

definition spec_CmdDLDataQueue :: MessageSpec where
  "spec_CmdDLDataQueue =
    \<lparr>Command = CmdDLDataQueue, SpecSection = ''5.12'',
      MandatoryFields =
       [(mandatory ''epEui'' TypeUint64)\<lparr>EUI := True\<rparr>,
        mandatory ''queId'' TypeUint64,
        mandatory ''userData'' TypeBytes,
        mandatory ''cntDepend'' TypeBool],
      OptionalFields =
       [optional ''packetCnt'' TypeUint32,
        optional ''format'' TypeInt64,
        optional ''prio'' TypeInt64,
        optional ''responseExp'' TypeBool,
        optional ''responsePrio'' TypeInt64,
        optional ''dlWindReq'' TypeInt64,
        optional ''expOnly'' TypeBool],
      ConditionalRules = []\<rparr>"

definition spec_CmdDLDataQueueResponse :: MessageSpec where
  "spec_CmdDLDataQueueResponse =
    \<lparr>Command = CmdDLDataQueueResponse, SpecSection = ''5.12'',
      MandatoryFields =
       [],
      OptionalFields =
       [],
      ConditionalRules = []\<rparr>"

definition spec_CmdDLDataQueueComplete :: MessageSpec where
  "spec_CmdDLDataQueueComplete =
    \<lparr>Command = CmdDLDataQueueComplete, SpecSection = ''5.12'',
      MandatoryFields =
       [],
      OptionalFields =
       [],
      ConditionalRules = []\<rparr>"

definition spec_CmdDLDataRevoke :: MessageSpec where
  "spec_CmdDLDataRevoke =
    \<lparr>Command = CmdDLDataRevoke, SpecSection = ''5.13'',
      MandatoryFields =
       [(mandatory ''epEui'' TypeUint64)\<lparr>EUI := True\<rparr>,
        mandatory ''queId'' TypeUint64],
      OptionalFields =
       [],
      ConditionalRules = []\<rparr>"

definition spec_CmdDLDataRevokeResponse :: MessageSpec where
  "spec_CmdDLDataRevokeResponse =
    \<lparr>Command = CmdDLDataRevokeResponse, SpecSection = ''5.13'',
      MandatoryFields =
       [],
      OptionalFields =
       [],
      ConditionalRules = []\<rparr>"

definition spec_CmdDLDataRevokeComplete :: MessageSpec where
  "spec_CmdDLDataRevokeComplete =
    \<lparr>Command = CmdDLDataRevokeComplete, SpecSection = ''5.13'',
      MandatoryFields =
       [],
      OptionalFields =
       [],
      ConditionalRules = []\<rparr>"

definition spec_CmdDLDataResultComplete :: MessageSpec where
  "spec_CmdDLDataResultComplete =
    \<lparr>Command = CmdDLDataResultComplete, SpecSection = ''5.14'',
      MandatoryFields =
       [],
      OptionalFields =
       [],
      ConditionalRules = []\<rparr>"

definition spec_CmdDLRxStatus :: MessageSpec where
  "spec_CmdDLRxStatus =
    \<lparr>Command = CmdDLRxStatus, SpecSection = ''5.15'',
      MandatoryFields =
       [(mandatory ''epEui'' TypeUint64)\<lparr>EUI := True\<rparr>,
        mandatory ''rxTime'' TypeInt64,
        mandatory ''packetCnt'' TypeUint32,
        mandatory ''dlRxSnr'' TypeFloat64,
        mandatory ''dlRxRssi'' TypeFloat64],
      OptionalFields =
       [],
      ConditionalRules = []\<rparr>"

definition spec_CmdDLRxStatusComplete :: MessageSpec where
  "spec_CmdDLRxStatusComplete =
    \<lparr>Command = CmdDLRxStatusComplete, SpecSection = ''5.15'',
      MandatoryFields =
       [],
      OptionalFields =
       [],
      ConditionalRules = []\<rparr>"

definition spec_CmdDLRxStatusQuery :: MessageSpec where
  "spec_CmdDLRxStatusQuery =
    \<lparr>Command = CmdDLRxStatusQuery, SpecSection = ''5.16'',
      MandatoryFields =
       [(mandatory ''epEui'' TypeUint64)\<lparr>EUI := True\<rparr>],
      OptionalFields =
       [optional ''startTime'' TypeInt64,
        optional ''endTime'' TypeInt64,
        optional ''limit'' TypeInt64,
        optional ''offset'' TypeInt64],
      ConditionalRules = []\<rparr>"

definition spec_CmdDLRxStatusQueryResponse :: MessageSpec where
  "spec_CmdDLRxStatusQueryResponse =
    \<lparr>Command = CmdDLRxStatusQueryResponse, SpecSection = ''5.16'',
      MandatoryFields =
       [],
      OptionalFields =
       [],
      ConditionalRules = []\<rparr>"

definition spec_CmdDLRxStatusQueryComplete :: MessageSpec where
  "spec_CmdDLRxStatusQueryComplete =
    \<lparr>Command = CmdDLRxStatusQueryComplete, SpecSection = ''5.16'',
      MandatoryFields =
       [],
      OptionalFields =
       [],
      ConditionalRules = []\<rparr>"

definition spec_CmdError :: MessageSpec where
  "spec_CmdError =
    \<lparr>Command = CmdError, SpecSection = ''4'',
      MandatoryFields =
       [mandatory ''code'' TypeInt64,
        mandatory ''message'' TypeString],
      OptionalFields =
       [],
      ConditionalRules = []\<rparr>"

definition spec_CmdErrorAck :: MessageSpec where
  "spec_CmdErrorAck =
    \<lparr>Command = CmdErrorAck, SpecSection = ''4'',
      MandatoryFields =
       [],
      OptionalFields =
       [],
      ConditionalRules = []\<rparr>"

definition spec_CmdVMActivate :: MessageSpec where
  "spec_CmdVMActivate =
    \<lparr>Command = CmdVMActivate, SpecSection = ''5.17'',
      MandatoryFields =
       [(mandatory ''epEui'' TypeUint64)\<lparr>EUI := True\<rparr>,
        mandatory ''macType'' TypeInt64],
      OptionalFields =
       [],
      ConditionalRules = []\<rparr>"

definition spec_CmdVMActivateResponse :: MessageSpec where
  "spec_CmdVMActivateResponse =
    \<lparr>Command = CmdVMActivateResponse, SpecSection = ''5.17'',
      MandatoryFields =
       [],
      OptionalFields =
       [],
      ConditionalRules = []\<rparr>"

definition spec_CmdVMActivateComplete :: MessageSpec where
  "spec_CmdVMActivateComplete =
    \<lparr>Command = CmdVMActivateComplete, SpecSection = ''5.17'',
      MandatoryFields =
       [],
      OptionalFields =
       [],
      ConditionalRules = []\<rparr>"

definition spec_CmdVMDeactivate :: MessageSpec where
  "spec_CmdVMDeactivate =
    \<lparr>Command = CmdVMDeactivate, SpecSection = ''5.18'',
      MandatoryFields =
       [(mandatory ''epEui'' TypeUint64)\<lparr>EUI := True\<rparr>,
        mandatory ''macType'' TypeInt64],
      OptionalFields =
       [],
      ConditionalRules = []\<rparr>"

definition spec_CmdVMDeactivateResponse :: MessageSpec where
  "spec_CmdVMDeactivateResponse =
    \<lparr>Command = CmdVMDeactivateResponse, SpecSection = ''5.18'',
      MandatoryFields =
       [],
      OptionalFields =
       [],
      ConditionalRules = []\<rparr>"

definition spec_CmdVMDeactivateComplete :: MessageSpec where
  "spec_CmdVMDeactivateComplete =
    \<lparr>Command = CmdVMDeactivateComplete, SpecSection = ''5.18'',
      MandatoryFields =
       [],
      OptionalFields =
       [],
      ConditionalRules = []\<rparr>"

definition spec_CmdVMStatus :: MessageSpec where
  "spec_CmdVMStatus =
    \<lparr>Command = CmdVMStatus, SpecSection = ''5.19'',
      MandatoryFields =
       [(mandatory ''epEui'' TypeUint64)\<lparr>EUI := True\<rparr>],
      OptionalFields =
       [],
      ConditionalRules = []\<rparr>"

definition spec_CmdVMStatusResponse :: MessageSpec where
  "spec_CmdVMStatusResponse =
    \<lparr>Command = CmdVMStatusResponse, SpecSection = ''5.19'',
      MandatoryFields =
       [],
      OptionalFields =
       [],
      ConditionalRules = []\<rparr>"

definition spec_CmdVMStatusComplete :: MessageSpec where
  "spec_CmdVMStatusComplete =
    \<lparr>Command = CmdVMStatusComplete, SpecSection = ''5.19'',
      MandatoryFields =
       [],
      OptionalFields =
       [],
      ConditionalRules = []\<rparr>"

definition spec_CmdVMDLData :: MessageSpec where
  "spec_CmdVMDLData =
    \<lparr>Command = CmdVMDLData, SpecSection = ''5.20'',
      MandatoryFields =
       [(mandatory ''epEui'' TypeUint64)\<lparr>EUI := True\<rparr>,
        mandatory ''macType'' TypeInt64,
        mandatory ''userData'' TypeBytes],
      OptionalFields =
       [optional ''txTime'' TypeInt64],
      ConditionalRules = []\<rparr>"

definition spec_CmdVMDLDataResponse :: MessageSpec where
  "spec_CmdVMDLDataResponse =
    \<lparr>Command = CmdVMDLDataResponse, SpecSection = ''5.20'',
      MandatoryFields =
       [],
      OptionalFields =
       [],
      ConditionalRules = []\<rparr>"

definition spec_CmdVMDLDataComplete :: MessageSpec where
  "spec_CmdVMDLDataComplete =
    \<lparr>Command = CmdVMDLDataComplete, SpecSection = ''5.20'',
      MandatoryFields =
       [],
      OptionalFields =
       [],
      ConditionalRules = []\<rparr>"

definition spec_CmdPingResponse :: MessageSpec where
  "spec_CmdPingResponse =
    \<lparr>Command = CmdPingResponse, SpecSection = ''5.4.3'',
      MandatoryFields =
       [],
      OptionalFields =
       [],
      ConditionalRules = []\<rparr>"

definition spec_CmdDLDataResultResponse :: MessageSpec where
  "spec_CmdDLDataResultResponse =
    \<lparr>Command = CmdDLDataResultResponse, SpecSection = ''5.10.3'',
      MandatoryFields =
       [],
      OptionalFields =
       [],
      ConditionalRules = []\<rparr>"

definition spec_CmdDLRxStatusResponse :: MessageSpec where
  "spec_CmdDLRxStatusResponse =
    \<lparr>Command = CmdDLRxStatusResponse, SpecSection = ''5.16.3'',
      MandatoryFields =
       [],
      OptionalFields =
       [],
      ConditionalRules = []\<rparr>"

lemmas spec_defs =
  spec_CmdStatusResponse_def
  spec_CmdAttach_def
  spec_CmdDetach_def
  spec_CmdDLDataResult_def
  spec_CmdULData_def
  spec_CmdConnect_def
  spec_CmdConnectResponse_def
  spec_CmdConnectComplete_def
  spec_CmdPing_def
  spec_CmdPingComplete_def
  spec_CmdStatus_def
  spec_CmdStatusComplete_def
  spec_CmdAttachResponse_def
  spec_CmdAttachComplete_def
  spec_CmdDetachResponse_def
  spec_CmdDetachComplete_def
  spec_CmdAttachPropagate_def
  spec_CmdAttachPropagateResponse_def
  spec_CmdAttachPropagateComplete_def
  spec_CmdDetachPropagate_def
  spec_CmdDetachPropagateResponse_def
  spec_CmdDetachPropagateComplete_def
  spec_CmdULDataResponse_def
  spec_CmdULDataComplete_def
  spec_CmdULDataTransmit_def
  spec_CmdULDataTransmitResponse_def
  spec_CmdULDataTransmitComplete_def
  spec_CmdDLDataQueue_def
  spec_CmdDLDataQueueResponse_def
  spec_CmdDLDataQueueComplete_def
  spec_CmdDLDataRevoke_def
  spec_CmdDLDataRevokeResponse_def
  spec_CmdDLDataRevokeComplete_def
  spec_CmdDLDataResultComplete_def
  spec_CmdDLRxStatus_def
  spec_CmdDLRxStatusComplete_def
  spec_CmdDLRxStatusQuery_def
  spec_CmdDLRxStatusQueryResponse_def
  spec_CmdDLRxStatusQueryComplete_def
  spec_CmdError_def
  spec_CmdErrorAck_def
  spec_CmdVMActivate_def
  spec_CmdVMActivateResponse_def
  spec_CmdVMActivateComplete_def
  spec_CmdVMDeactivate_def
  spec_CmdVMDeactivateResponse_def
  spec_CmdVMDeactivateComplete_def
  spec_CmdVMStatus_def
  spec_CmdVMStatusResponse_def
  spec_CmdVMStatusComplete_def
  spec_CmdVMDLData_def
  spec_CmdVMDLDataResponse_def
  spec_CmdVMDLDataComplete_def
  spec_CmdPingResponse_def
  spec_CmdDLDataResultResponse_def
  spec_CmdDLRxStatusResponse_def

definition message_specs :: "MessageSpec list" where
  "message_specs =
    [spec_CmdStatusResponse,
     spec_CmdAttach,
     spec_CmdDetach,
     spec_CmdDLDataResult,
     spec_CmdULData,
     spec_CmdConnect,
     spec_CmdConnectResponse,
     spec_CmdConnectComplete,
     spec_CmdPing,
     spec_CmdPingComplete,
     spec_CmdStatus,
     spec_CmdStatusComplete,
     spec_CmdAttachResponse,
     spec_CmdAttachComplete,
     spec_CmdDetachResponse,
     spec_CmdDetachComplete,
     spec_CmdAttachPropagate,
     spec_CmdAttachPropagateResponse,
     spec_CmdAttachPropagateComplete,
     spec_CmdDetachPropagate,
     spec_CmdDetachPropagateResponse,
     spec_CmdDetachPropagateComplete,
     spec_CmdULDataResponse,
     spec_CmdULDataComplete,
     spec_CmdULDataTransmit,
     spec_CmdULDataTransmitResponse,
     spec_CmdULDataTransmitComplete,
     spec_CmdDLDataQueue,
     spec_CmdDLDataQueueResponse,
     spec_CmdDLDataQueueComplete,
     spec_CmdDLDataRevoke,
     spec_CmdDLDataRevokeResponse,
     spec_CmdDLDataRevokeComplete,
     spec_CmdDLDataResultComplete,
     spec_CmdDLRxStatus,
     spec_CmdDLRxStatusComplete,
     spec_CmdDLRxStatusQuery,
     spec_CmdDLRxStatusQueryResponse,
     spec_CmdDLRxStatusQueryComplete,
     spec_CmdError,
     spec_CmdErrorAck,
     spec_CmdVMActivate,
     spec_CmdVMActivateResponse,
     spec_CmdVMActivateComplete,
     spec_CmdVMDeactivate,
     spec_CmdVMDeactivateResponse,
     spec_CmdVMDeactivateComplete,
     spec_CmdVMStatus,
     spec_CmdVMStatusResponse,
     spec_CmdVMStatusComplete,
     spec_CmdVMDLData,
     spec_CmdVMDLDataResponse,
     spec_CmdVMDLDataComplete,
     spec_CmdPingResponse,
     spec_CmdDLDataResultResponse,
     spec_CmdDLRxStatusResponse]"

definition messageRegistry :: "(string \<times> MessageSpec) list" where
  "messageRegistry = map (\<lambda>s. (Command s, s)) message_specs"

section \<open>Well-formedness of the table\<close>

definition field_names :: "MessageSpec \<Rightarrow> string list" where
  "field_names spec = map Name (MandatoryFields spec) @ map Name (OptionalFields spec)"

definition wf_spec :: "MessageSpec \<Rightarrow> bool" where
  "wf_spec spec \<longleftrightarrow> distinct (field_names spec) \<and> ''command'' \<notin> set (field_names spec) \<and>
     ''opId'' \<notin> set (field_names spec) \<and>
     list_all Required (MandatoryFields spec) \<and>
     list_all (\<lambda>f. \<not> Required f \<and> DefaultValue f = GNil \<and> Validator f = None) (OptionalFields spec)"

lemma message_specs_wf: "list_all wf_spec message_specs"
  by code_simp

lemma message_specs_commands: "distinct (map Command message_specs)"
  by code_simp

lemma message_specs_directed: "list_all (\<lambda>s. Command s \<in> set all_commands) message_specs"
  by code_simp

lemma messageRegistry_Some:
  assumes "map_of messageRegistry c = Some spec"
  shows "spec \<in> set message_specs \<and> Command spec = c \<and> wf_spec spec"
proof -
  have "(c, spec) \<in> set messageRegistry" using assms by (rule map_of_SomeD)
  then show ?thesis using message_specs_wf by (auto simp: messageRegistry_def list_all_iff)
qed

text \<open>Every command but the two SCACI replies has a specification.\<close>

lemma registered_iff:
  "c \<in> set all_commands \<Longrightarrow> map_of messageRegistry c = None \<longleftrightarrow>
   c = CmdDLDataResultResponseSCACI \<or> c = CmdDLDataResultCompleteSCACI"
proof -
  have "\<forall>c \<in> set all_commands. (c \<notin> set (map Command message_specs)) =
      (c = CmdDLDataResultResponseSCACI \<or> c = CmdDLDataResultCompleteSCACI)"
    by code_simp
  then show "c \<in> set all_commands \<Longrightarrow> ?thesis"
    by (simp add: map_of_eq_None_iff messageRegistry_def image_image)
qed

end
