(* ===== verification/Payload_Normalizer.thy ===== *)
theory Payload_Normalizer
  imports Message_Registry
begin

text \<open>
  \<^verbatim>\<open>normalizePayload\<close> and \<^verbatim>\<open>coerceFieldType\<close> of \<^verbatim>\<open>KC-Core/pkg/bssci/message_normalizer.go\<close>, step by step:
  mandatory fields, optional fields with their defaults, conditional rules and the uplink value
  rule. The warning about unknown fields has no effect on the result; \<open>unknown_fields\<close> lists what it
  reports. A payload is a Go map of dynamically typed values.

  Shown: a normalized payload has exactly the fields of its specification, each of the declared
  type; numbers keep their value; unknown fields have no influence; an accepted payload, sent
  again, normalizes to itself; and the protocol's conditional rules hold of the result.
\<close>

section \<open>Field coercion\<close>

datatype field_error =
    FE_Numeric coerce_error | FE_NotString | FE_NotBool | FE_NotBytes
  | FE_Length nat nat | FE_Element nat coerce_error

definition with_value :: "('a \<Rightarrow> goval) \<Rightarrow> coerce_error + 'a \<Rightarrow> field_error + goval" where
  "with_value g r = (case r of Inl e \<Rightarrow> Inl (FE_Numeric e) | Inr a \<Rightarrow> Inr (g a))"

text \<open>The loop over a numeric array: the first element that is no byte stops it, with its index.\<close>

fun array_bytes :: "nat \<Rightarrow> goval list \<Rightarrow> field_error + bytes" where
  "array_bytes i [] = Inr []"
| "array_bytes i (v # vs) =
     (case numericToByte v of
        Inl e \<Rightarrow> Inl (FE_Element i e)
      | Inr b \<Rightarrow> bind_result (array_bytes (Suc i) vs) (\<lambda>bs. Inr (b # bs)))"

definition check_length :: "nat \<Rightarrow> bytes \<Rightarrow> field_error + goval" where
  "check_length n b = (if n > 0 \<and> length b \<noteq> n then Inl (FE_Length n (length b)) else Inr (GBytes b))"

definition coerceFieldType :: "goval \<Rightarrow> FieldSpec \<Rightarrow> field_error + goval" where
  "coerceFieldType v fs =
     (case Type fs of
        TypeInt64 \<Rightarrow> with_value GInt64 (coerceInt64 v)
      | TypeUint64 \<Rightarrow> with_value GUint64 (coerceUint64 v)
      | TypeUint32 \<Rightarrow> with_value GUint32 (coerceUint32 v)
      | TypeUint16 \<Rightarrow> with_value GUint16 (coerceUint16 v)
      | TypeFloat64 \<Rightarrow> with_value GFloat64 (coerceFloat64 v)
      | TypeString \<Rightarrow> (case v of GString s \<Rightarrow> Inr (GString s) | _ \<Rightarrow> Inl FE_NotString)
      | TypeBool \<Rightarrow> (case v of GBool b \<Rightarrow> Inr (GBool b) | _ \<Rightarrow> Inl FE_NotBool)
      | TypeBytes \<Rightarrow>
          (case v of
             GBytes b \<Rightarrow> check_length (ByteLength fs) b
           | GArray vs \<Rightarrow> bind_result (array_bytes 0 vs) (check_length (ByteLength fs))
           | _ \<Rightarrow> Inl FE_NotBytes)
      | _ \<Rightarrow> Inr v)"

section \<open>Normalization\<close>

datatype normalize_error =
    ErrMandatoryFieldMissing string
  | ErrInvalidFieldType string field_error
  | ErrValidationFailed string
  | ErrConditionalRuleFailed string
  | ErrResponseExpRequiresDlOpen

definition validates :: "FieldSpec \<Rightarrow> goval \<Rightarrow> bool" where
  "validates fs v = (case Validator fs of None \<Rightarrow> True | Some p \<Rightarrow> p v)"

definition checked_field :: "FieldSpec \<Rightarrow> goval \<Rightarrow> normalize_error + goval" where
  "checked_field fs v =
     (case coerceFieldType v fs of
        Inl e \<Rightarrow> Inl (ErrInvalidFieldType (Name fs) e)
      | Inr c \<Rightarrow> if validates fs c then Inr c else Inl (ErrValidationFailed (Name fs)))"

fun mandatory_step :: "gomap \<Rightarrow> FieldSpec list \<Rightarrow> gomap \<Rightarrow> normalize_error + gomap" where
  "mandatory_step data [] normalized = Inr normalized"
| "mandatory_step data (fs # rest) normalized =
     (case map_of data (Name fs) of
        None \<Rightarrow> Inl (ErrMandatoryFieldMissing (Name fs))
      | Some v \<Rightarrow>
          bind_result (checked_field fs v) (\<lambda>c.
            mandatory_step data rest (AList.update (Name fs) c normalized)))"

text \<open>An absent optional field takes its default, except the detach \<^verbatim>\<open>eqSnr\<close>, which takes \<^verbatim>\<open>snr\<close>.\<close>

definition apply_default :: "string \<Rightarrow> FieldSpec \<Rightarrow> gomap \<Rightarrow> gomap" where
  "apply_default command fs normalized =
     (if command = CmdDetach \<and> Name fs = ''eqSnr'' then
        (case map_of normalized ''snr'' of
           Some snr \<Rightarrow> AList.update ''eqSnr'' snr normalized
         | None \<Rightarrow> normalized)
      else AList.update (Name fs) (DefaultValue fs) normalized)"

fun optional_step ::
    "string \<Rightarrow> gomap \<Rightarrow> FieldSpec list \<Rightarrow> gomap \<Rightarrow> normalize_error + gomap" where
  "optional_step command data [] normalized = Inr normalized"
| "optional_step command data (fs # rest) normalized =
     (case map_of data (Name fs) of
        Some v \<Rightarrow>
          bind_result (checked_field fs v) (\<lambda>c.
            optional_step command data rest (AList.update (Name fs) c normalized))
      | None \<Rightarrow> optional_step command data rest (apply_default command fs normalized))"

definition unknown_fields :: "MessageSpec \<Rightarrow> gomap \<Rightarrow> string list" where
  "unknown_fields spec data =
     filter (\<lambda>k. k \<notin> set (field_names spec) \<and> k \<noteq> ''command'' \<and> k \<noteq> ''opId'') (map fst data)"

text \<open>Required and forbidden fields are read as values: a key with a nil value counts as absent.\<close>

definition rule_violation :: "gomap \<Rightarrow> ConditionalRule \<Rightarrow> string option" where
  "rule_violation normalized rule =
     (if \<not> Condition rule normalized then None
      else case find (\<lambda>k. lookup normalized k = GNil) (RuleRequired rule) of
             Some k \<Rightarrow> Some k
           | None \<Rightarrow> find (\<lambda>k. lookup normalized k \<noteq> GNil) (Forbidden rule))"

fun rules_step :: "gomap \<Rightarrow> ConditionalRule list \<Rightarrow> normalize_error + gomap" where
  "rules_step normalized [] = Inr normalized"
| "rules_step normalized (rule # rest) =
     (case rule_violation normalized rule of
        Some k \<Rightarrow> Inl (ErrConditionalRuleFailed k)
      | None \<Rightarrow> rules_step normalized rest)"

definition uplink_value_step :: "string \<Rightarrow> gomap \<Rightarrow> normalize_error + gomap" where
  "uplink_value_step command normalized =
     (if command = CmdULData \<and> as_bool (lookup normalized ''responseExp'') = Some True
         \<and> as_bool (lookup normalized ''dlOpen'') \<noteq> Some True
      then Inl ErrResponseExpRequiresDlOpen
      else Inr normalized)"

definition normalize_with :: "MessageSpec \<Rightarrow> gomap \<Rightarrow> normalize_error + gomap" where
  "normalize_with spec data =
     bind_result (mandatory_step data (MandatoryFields spec) []) (\<lambda>n1.
     bind_result (optional_step (Command spec) data (OptionalFields spec) n1) (\<lambda>n2.
     bind_result (rules_step n2 (ConditionalRules spec)) (\<lambda>n3.
     uplink_value_step (Command spec) n3)))"

definition normalizePayload :: "string \<Rightarrow> gomap \<Rightarrow> normalize_error + gomap" where
  "normalizePayload command data =
     (case map_of messageRegistry command of
        None \<Rightarrow> Inr data
      | Some spec \<Rightarrow> normalize_with spec data)"

section \<open>Types of normalized values\<close>

fun has_type :: "FieldType \<Rightarrow> goval \<Rightarrow> bool" where
  "has_type TypeInt64 v = (\<exists>w. v = GInt64 w)"
| "has_type TypeUint64 v = (\<exists>w. v = GUint64 w)"
| "has_type TypeUint32 v = (\<exists>w. v = GUint32 w)"
| "has_type TypeUint16 v = (\<exists>w. v = GUint16 w)"
| "has_type TypeFloat64 v = (\<exists>q. v = GFloat64 (FFin q))"
| "has_type TypeString v = (\<exists>s. v = GString s)"
| "has_type TypeBool v = (\<exists>b. v = GBool b)"
| "has_type TypeBytes v = (\<exists>b. v = GBytes b)"
| "has_type _ v = True"

definition well_typed :: "FieldSpec \<Rightarrow> goval \<Rightarrow> bool" where
  "well_typed fs v \<longleftrightarrow> has_type (Type fs) v \<and>
     (Type fs = TypeBytes \<and> ByteLength fs > 0 \<longrightarrow> (\<exists>b. v = GBytes b \<and> length b = ByteLength fs)) \<and>
     validates fs v"

lemma with_value_Inr [simp]: "with_value g r = Inr v \<longleftrightarrow> (\<exists>a. r = Inr a \<and> v = g a)"
  by (auto simp: with_value_def split: sum.splits)

lemma finite_float_FFin: "finite_float f = Inr g \<Longrightarrow> \<exists>q. g = FFin q"
  by (cases f) (auto simp: finite_float_def split: if_splits)

lemma float64_of_sint_finite:
  "LENGTH('a::len) \<le> 64 \<Longrightarrow> \<exists>q. float64_of (of_int (sint (w :: 'a word))) = FFin q"
  by (intro float64_of_int_finite abs_sint_less_64)

lemma float64_of_uint_finite:
  "LENGTH('a::len) \<le> 64 \<Longrightarrow> \<exists>q. float64_of (of_int (uint (w :: 'a word))) = FFin q"
  by (intro float64_of_int_finite abs_uint_less_64)

lemma coerceFloat64_is_finite: "coerceFloat64 v = Inr f \<Longrightarrow> \<exists>q. f = FFin q"
  by (cases v) (auto dest: finite_float_FFin split: option.splits
      simp: float64_of_sint_finite float64_of_uint_finite)

lemma coerceFieldType_typed:
  assumes "coerceFieldType v fs = Inr c"
  shows "has_type (Type fs) c \<and>
    (Type fs = TypeBytes \<and> ByteLength fs > 0 \<longrightarrow> (\<exists>b. c = GBytes b \<and> length b = ByteLength fs))"
proof (cases "Type fs")
  case TypeFloat64
  then show ?thesis using assms by (auto simp: coerceFieldType_def dest: coerceFloat64_is_finite)
next
  case TypeBytes
  then show ?thesis using assms
    by (auto simp: coerceFieldType_def check_length_def bind_result_Inr_iff split: goval.splits if_splits)
qed (use assms in \<open>auto simp: coerceFieldType_def split: goval.splits\<close>)

lemma checked_field_Inr:
  "checked_field fs v = Inr c \<longleftrightarrow> coerceFieldType v fs = Inr c \<and> validates fs c"
  by (auto simp: checked_field_def split: sum.splits if_splits)

lemma checked_field_typed: "checked_field fs v = Inr c \<Longrightarrow> well_typed fs c"
  using coerceFieldType_typed [of v fs c] by (simp add: checked_field_Inr well_typed_def)

text \<open>A value of the declared type is coerced to itself.\<close>

lemma coerceFieldType_id:
  assumes "well_typed fs c"
  shows "coerceFieldType c fs = Inr c"
proof (cases "Type fs")
  case TypeBytes
  with assms obtain b where "c = GBytes b" "ByteLength fs > 0 \<longrightarrow> length b = ByteLength fs"
    by (auto simp: well_typed_def)
  with TypeBytes show ?thesis by (auto simp: coerceFieldType_def check_length_def)
next
  case TypeUint64
  with assms show ?thesis
    by (auto simp: well_typed_def coerceFieldType_def coerceUint64_exact)
next
  case TypeUint32
  with assms show ?thesis
    by (auto simp: well_typed_def coerceFieldType_def coerceUint32_exact)
next
  case TypeUint16
  with assms show ?thesis
    by (auto simp: well_typed_def coerceFieldType_def coerceUint16_exact)
next
  case TypeFloat64
  with assms show ?thesis
    by (auto simp: well_typed_def coerceFieldType_def finite_float_def)
qed (use assms in \<open>auto simp: well_typed_def coerceFieldType_def\<close>)

lemma checked_field_id: "well_typed fs c \<Longrightarrow> checked_field fs c = Inr c"
  by (simp add: checked_field_Inr coerceFieldType_id) (simp add: well_typed_def)

section \<open>Coercion keeps the content\<close>

text \<open>
  What a value says, whatever representation the decoder gave it: an integer for the integer types,
  a sequence of byte values for byte fields, the value itself otherwise. A float field keeps a
  float and every integer below 2 to the 53rd.
\<close>

fun wire_bytes :: "goval \<Rightarrow> int list option" where
  "wire_bytes (GBytes b) = Some (map uint b)"
| "wire_bytes (GArray vs) = those (map exact_int vs)"
| "wire_bytes _ = None"

definition same_float :: "goval \<Rightarrow> goval \<Rightarrow> bool" where
  "same_float v c \<longleftrightarrow> (\<forall>f. v = GFloat64 f \<or> v = GFloat32 f \<longrightarrow> c = GFloat64 f) \<and>
     (\<forall>i. exact_int v = Some i \<and> \<bar>i\<bar> \<le> maxExactFloat64Integer \<and> (\<forall>s. v \<noteq> GNumber s) \<longrightarrow>
          c = GFloat64 (FFin (of_int i)))"

definition same_content :: "FieldType \<Rightarrow> goval \<Rightarrow> goval \<Rightarrow> bool" where
  "same_content t v c =
     (if t \<in> {TypeInt64, TypeUint64, TypeUint32, TypeUint16} then exact_int v = exact_int c \<and> exact_int c \<noteq> None
      else if t = TypeFloat64 then same_float v c
      else if t = TypeBytes then wire_bytes v = wire_bytes c \<and> wire_bytes c \<noteq> None
      else c = v)"

lemma array_bytes_content:
  "array_bytes i vs = Inr bs \<Longrightarrow> those (map exact_int vs) = Some (map uint bs)"
  by (induction i vs arbitrary: bs rule: array_bytes.induct)
    (auto simp: bind_result_Inr_iff numericToByte_exact split: sum.splits)

lemma coerceFieldType_content:
  assumes "coerceFieldType v fs = Inr c"
  shows "same_content (Type fs) v c"
proof (cases "Type fs")
  case TypeFloat64
  with assms obtain f where f: "coerceFloat64 v = Inr f" "c = GFloat64 f"
    by (auto simp: coerceFieldType_def)
  have "f' = f" if "v = GFloat64 f' \<or> v = GFloat32 f'" for f'
    using f(1) that by (auto simp: finite_float_def split: if_splits)
  moreover have "f = FFin (of_int i)"
    if "exact_int v = Some i" "\<bar>i\<bar> \<le> maxExactFloat64Integer" "\<forall>s. v \<noteq> GNumber s" for i
    using coerceFloat64_finite [OF f(1) that] .
  ultimately show ?thesis
    unfolding same_content_def same_float_def TypeFloat64 f(2) by auto
next
  case TypeBytes
  then show ?thesis using assms
    by (auto simp: coerceFieldType_def check_length_def same_content_def bind_result_Inr_iff
        array_bytes_content split: goval.splits if_splits)
qed (use assms in \<open>auto simp: coerceFieldType_def same_content_def coerceInt64_exact
      coerceUint64_exact coerceUint32_exact coerceUint16_exact split: goval.splits\<close>)

section \<open>The steps\<close>

lemma mandatory_step_Inr:
  "mandatory_step data fs acc = Inr m \<Longrightarrow> distinct (map Name fs) \<Longrightarrow>
   (\<forall>f \<in> set fs. \<exists>v c. map_of data (Name f) = Some v \<and> checked_field f v = Inr c \<and>
                        map_of m (Name f) = Some c) \<and>
   (\<forall>k. k \<notin> Name ` set fs \<longrightarrow> map_of m k = map_of acc k)"
proof (induction data fs acc rule: mandatory_step.induct)
  case (2 data f fs acc)
  then obtain v c where vc: "map_of data (Name f) = Some v" "checked_field f v = Inr c"
      "mandatory_step data fs (AList.update (Name f) c acc) = Inr m"
    by (auto simp: bind_result_Inr_iff split: option.splits)
  have "Name f \<notin> Name ` set fs" using 2(3) by simp
  with "2.IH" [OF vc(1,3)] 2(3) vc show ?case by auto
qed simp

lemma mandatory_step_ok:
  "(\<And>f. f \<in> set fs \<Longrightarrow> \<exists>v c. map_of data (Name f) = Some v \<and> checked_field f v = Inr c) \<Longrightarrow>
   \<exists>m. mandatory_step data fs acc = Inr m"
proof (induction fs arbitrary: acc)
  case (Cons f fs)
  then obtain v c where "map_of data (Name f) = Some v" "checked_field f v = Inr c" by force
  with Cons show ?case by auto
qed simp

text \<open>What an absent optional field becomes, given the mandatory fields.\<close>

definition default_of :: "string \<Rightarrow> gomap \<Rightarrow> FieldSpec \<Rightarrow> goval option" where
  "default_of command n1 f =
     (if command = CmdDetach \<and> Name f = ''eqSnr'' then map_of n1 ''snr'' else Some (DefaultValue f))"

lemma apply_default_same:
  "(command = CmdDetach \<Longrightarrow> map_of n ''snr'' \<noteq> None) \<Longrightarrow>
   map_of (apply_default command f n) (Name f) = default_of command n f"
  by (auto simp: apply_default_def default_of_def split: option.splits)

lemma apply_default_other: "k \<noteq> Name f \<Longrightarrow> map_of (apply_default command f n) k = map_of n k"
  by (auto simp: apply_default_def split: option.splits)

lemma optional_step_Inr:
  "optional_step command data fs acc = Inr m \<Longrightarrow> distinct (map Name fs) \<Longrightarrow>
   (command = CmdDetach \<Longrightarrow> map_of acc ''snr'' \<noteq> None \<and> ''snr'' \<notin> Name ` set fs) \<Longrightarrow>
   (\<forall>f \<in> set fs. case map_of data (Name f) of
        None \<Rightarrow> map_of m (Name f) = default_of command acc f
      | Some v \<Rightarrow> \<exists>c. checked_field f v = Inr c \<and> map_of m (Name f) = Some c) \<and>
   (\<forall>k. k \<notin> Name ` set fs \<longrightarrow> map_of m k = map_of acc k)"
proof (induction fs arbitrary: acc)
  case (Cons f fs)
  from Cons.prems(1) obtain acc' where step: "optional_step command data fs acc' = Inr m"
    and acc': "acc' = (case map_of data (Name f) of None \<Rightarrow> apply_default command f acc
               | Some v \<Rightarrow> (case checked_field f v of Inr c \<Rightarrow> AList.update (Name f) c acc | Inl _ \<Rightarrow> acc))"
    and ok: "\<forall>v. map_of data (Name f) = Some v \<longrightarrow> (\<exists>c. checked_field f v = Inr c)"
    by (auto simp: bind_result_Inr_iff split: option.splits)
  have new: "Name f \<notin> Name ` set fs" using Cons.prems(2) by simp
  have other: "map_of acc' k = map_of acc k" if "k \<noteq> Name f" for k
    using that by (auto simp: acc' apply_default_other split: option.splits sum.splits)
  have def: "default_of command acc' g = default_of command acc g" if "g \<in> set fs" for g
    using Cons.prems(3) other by (auto simp: default_of_def)
  have ih: "(\<forall>f \<in> set fs. case map_of data (Name f) of
        None \<Rightarrow> map_of m (Name f) = default_of command acc' f
      | Some v \<Rightarrow> \<exists>c. checked_field f v = Inr c \<and> map_of m (Name f) = Some c) \<and>
      (\<forall>k. k \<notin> Name ` set fs \<longrightarrow> map_of m k = map_of acc' k)"
    using Cons.IH [OF step] Cons.prems(2,3) other by auto
  have "map_of m (Name f) = map_of acc' (Name f)" using ih new by blast
  then have head: "case map_of data (Name f) of
        None \<Rightarrow> map_of m (Name f) = default_of command acc f
      | Some v \<Rightarrow> \<exists>c. checked_field f v = Inr c \<and> map_of m (Name f) = Some c"
    using ok Cons.prems(3) by (auto simp: acc' apply_default_same split: option.splits)
  show ?case using ih head def other by (auto split: option.splits)
qed simp

lemma optional_step_ok:
  "(\<And>f v. f \<in> set fs \<Longrightarrow> map_of data (Name f) = Some v \<Longrightarrow> \<exists>c. checked_field f v = Inr c) \<Longrightarrow>
   \<exists>m. optional_step command data fs acc = Inr m"
proof (induction fs arbitrary: acc)
  case (Cons f fs)
  have ih: "\<exists>m. optional_step command data fs acc' = Inr m" for acc'
    by (rule Cons.IH) (use Cons.prems in auto)
  show ?case
  proof (cases "map_of data (Name f)")
    case (Some v)
    with Cons.prems [of f v] obtain c where "checked_field f v = Inr c" by auto
    with Some ih show ?thesis by auto
  qed (use ih in auto)
qed simp

lemma rules_step_Inr:
  "rules_step n rules = Inr m \<longleftrightarrow> m = n \<and> (\<forall>r \<in> set rules. rule_violation n r = None)"
  by (induction rules) (auto split: option.splits)

lemma rule_violation_None:
  "rule_violation n r = None \<longleftrightarrow>
     (Condition r n \<longrightarrow> (\<forall>k \<in> set (RuleRequired r). lookup n k \<noteq> GNil) \<and>
                         (\<forall>k \<in> set (Forbidden r). lookup n k = GNil))"
  by (auto simp: rule_violation_def find_None_iff split: option.splits)
    (auto simp: find_Some_iff)

lemma uplink_value_step_Inr:
  "uplink_value_step command n = Inr m \<longleftrightarrow> m = n \<and>
     \<not> (command = CmdULData \<and> as_bool (lookup n ''responseExp'') = Some True
        \<and> as_bool (lookup n ''dlOpen'') \<noteq> Some True)"
  by (auto simp: uplink_value_step_def)

section \<open>Functional specification\<close>

text \<open>
  The detach entry is the one that defaults a field to another: \<^verbatim>\<open>snr\<close> is mandatory there. The
  names of an entry are distinct, so the order of its fields plays no part.
\<close>

lemma detach_snr:
  "spec \<in> set message_specs \<Longrightarrow> Command spec = CmdDetach \<Longrightarrow>
   ''snr'' \<in> Name ` set (MandatoryFields spec)"
proof -
  have "list_all (\<lambda>s. Command s = CmdDetach \<longrightarrow> ''snr'' \<in> Name ` set (MandatoryFields s)) message_specs"
    by code_simp
  then show "spec \<in> set message_specs \<Longrightarrow> Command spec = CmdDetach \<Longrightarrow> ?thesis"
    by (simp add: list_all_iff)
qed

definition normal_optional :: "string \<Rightarrow> gomap \<Rightarrow> gomap \<Rightarrow> FieldSpec \<Rightarrow> bool" where
  "normal_optional command data m f \<longleftrightarrow>
     (case map_of data (Name f) of
        None \<Rightarrow> map_of m (Name f) =
          (if command = CmdDetach \<and> Name f = ''eqSnr'' then map_of m ''snr'' else Some GNil)
      | Some v \<Rightarrow> \<exists>c. checked_field f v = Inr c \<and> map_of m (Name f) = Some c)"

definition normal_mandatory :: "gomap \<Rightarrow> gomap \<Rightarrow> FieldSpec \<Rightarrow> bool" where
  "normal_mandatory data m f \<longleftrightarrow>
     (\<exists>v c. map_of data (Name f) = Some v \<and> checked_field f v = Inr c \<and> map_of m (Name f) = Some c)"

definition obeys_rules :: "MessageSpec \<Rightarrow> gomap \<Rightarrow> bool" where
  "obeys_rules spec m \<longleftrightarrow> (\<forall>r \<in> set (ConditionalRules spec). rule_violation m r = None) \<and>
     \<not> (Command spec = CmdULData \<and> as_bool (lookup m ''responseExp'') = Some True
        \<and> as_bool (lookup m ''dlOpen'') \<noteq> Some True)"

lemma normalize_with_Inr:
  assumes spec: "spec \<in> set message_specs" and ok: "normalize_with spec data = Inr m"
  shows "(\<forall>f \<in> set (MandatoryFields spec). normal_mandatory data m f) \<and>
    (\<forall>f \<in> set (OptionalFields spec). normal_optional (Command spec) data m f) \<and>
    (\<forall>k. k \<notin> set (field_names spec) \<longrightarrow> map_of m k = None) \<and> obeys_rules spec m"
proof -
  have wf: "wf_spec spec" using spec message_specs_wf by (simp add: list_all_iff)
  from ok obtain n1 where n1: "mandatory_step data (MandatoryFields spec) [] = Inr n1"
    and n2: "optional_step (Command spec) data (OptionalFields spec) n1 = Inr m"
    and rules: "obeys_rules spec m"
    by (auto simp: normalize_with_def bind_result_Inr_iff rules_step_Inr uplink_value_step_Inr obeys_rules_def)
  have dist: "distinct (map Name (MandatoryFields spec))" "distinct (map Name (OptionalFields spec))"
    and disj: "Name ` set (MandatoryFields spec) \<inter> Name ` set (OptionalFields spec) = {}"
    using wf by (auto simp: wf_spec_def field_names_def)
  have opt: "DefaultValue f = GNil" if "f \<in> set (OptionalFields spec)" for f
    using wf that by (simp add: wf_spec_def list_all_iff)
  note M = mandatory_step_Inr [OF n1 dist(1)]
  have snr: "map_of n1 ''snr'' \<noteq> None \<and> ''snr'' \<notin> Name ` set (OptionalFields spec)"
    if "Command spec = CmdDetach"
    using detach_snr [OF spec that] M disj by fastforce
  note O = optional_step_Inr [OF n2 dist(2) snr]
  have same: "map_of m k = map_of n1 k" if "k \<in> Name ` set (MandatoryFields spec)" for k
    using O that disj by blast
  have "\<forall>f \<in> set (MandatoryFields spec). normal_mandatory data m f"
    using M same by (simp add: normal_mandatory_def)
  moreover have "\<forall>f \<in> set (OptionalFields spec). normal_optional (Command spec) data m f"
    using O opt same detach_snr [OF spec]
    by (auto simp: normal_optional_def default_of_def split: option.splits)
  moreover have "map_of m k = None" if "k \<notin> set (field_names spec)" for k
    using M O that by (auto simp: field_names_def)
  ultimately show ?thesis using rules by blast
qed



section \<open>Unknown fields\<close>

lemma mandatory_step_cong:
  "(\<And>f. f \<in> set fs \<Longrightarrow> map_of d (Name f) = map_of d' (Name f)) \<Longrightarrow>
   mandatory_step d fs acc = mandatory_step d' fs acc"
  by (induction fs arbitrary: acc) (simp_all split: option.splits)

lemma optional_step_cong:
  "(\<And>f. f \<in> set fs \<Longrightarrow> map_of d (Name f) = map_of d' (Name f)) \<Longrightarrow>
   optional_step command d fs acc = optional_step command d' fs acc"
  by (induction fs arbitrary: acc) (simp_all split: option.splits)

text \<open>
  Fields outside the specification, the base fields \<open>command\<close> and \<open>opId\<close> included, have no
  influence: two payloads that agree on the fields of the specification give the same result,
  success or error.
\<close>

theorem normalizePayload_unknown_fields:
  assumes "map_of messageRegistry command = Some spec"
    and "\<forall>k \<in> set (field_names spec). map_of data k = map_of data' k"
  shows "normalizePayload command data = normalizePayload command data'"
proof -
  have "normalize_with spec data = normalize_with spec data'"
    using assms(2) mandatory_step_cong [of "MandatoryFields spec" data data']
      optional_step_cong [of "OptionalFields spec" data data']
    by (simp add: normalize_with_def field_names_def)
  then show ?thesis using assms(1) by (simp add: normalizePayload_def)
qed

theorem normalizePayload_unknown_fields_witness:
  "normalizePayload CmdError [(''code'', GInt64 1), (''future'', GBool True)] =
   normalizePayload CmdError [(''code'', GInt64 1)]"
  by (rule normalizePayload_unknown_fields [of CmdError spec_CmdError])
    (simp_all add: messageRegistry_def message_specs_def spec_defs field_names_def mandatory_def)

section \<open>Normalizing again\<close>

text \<open>What the fields of a normalized payload say, sent again: nil fields are left out.\<close>

definition resend :: "gomap \<Rightarrow> gomap" where
  "resend m = filter (\<lambda>(k, v). v \<noteq> GNil) m"

lemma map_of_resend:
  "distinct (map fst m) \<Longrightarrow>
   map_of (resend m) k = (case map_of m k of Some v \<Rightarrow> if v = GNil then None else Some v | None \<Rightarrow> None)"
  unfolding resend_def by (induction m) (auto simp: map_of_eq_None_iff image_iff split: option.splits)

lemma mandatory_step_distinct:
  "mandatory_step data fs acc = Inr m \<Longrightarrow> distinct (map fst acc) \<Longrightarrow> distinct (map fst m)"
  by (induction data fs acc rule: mandatory_step.induct)
    (auto simp: bind_result_Inr_iff distinct_update split: option.splits)

lemma optional_step_distinct:
  "optional_step command data fs acc = Inr m \<Longrightarrow> distinct (map fst acc) \<Longrightarrow> distinct (map fst m)"
  by (induction command data fs acc rule: optional_step.induct)
    (auto simp: bind_result_Inr_iff distinct_update apply_default_def split: option.splits if_splits)

lemma normalize_with_distinct:
  "normalize_with spec data = Inr m \<Longrightarrow> distinct (map fst m)"
  by (auto simp: normalize_with_def bind_result_Inr_iff rules_step_Inr uplink_value_step_Inr
      dest: mandatory_step_distinct optional_step_distinct)

lemma mandatory_not_nil:
  assumes "spec \<in> set message_specs" "f \<in> set (MandatoryFields spec)" "well_typed f c"
  shows "c \<noteq> GNil"
proof -
  have "list_all (\<lambda>s. list_all (\<lambda>f. Type f \<noteq> TypeArray \<and> Type f \<noteq> TypeStruct \<and> Type f \<noteq> TypeInterface \<and>
      Type f \<noteq> TypeGeoLocation \<and> Type f \<noteq> TypeSubpackets) (MandatoryFields s)) message_specs"
    by code_simp
  then have "Type f \<noteq> TypeArray \<and> Type f \<noteq> TypeStruct \<and> Type f \<noteq> TypeInterface \<and>
      Type f \<noteq> TypeGeoLocation \<and> Type f \<noteq> TypeSubpackets"
    using assms(1,2) by (simp add: list_all_iff)
  then show ?thesis using assms(3) by (cases "Type f") (auto simp: well_typed_def)
qed

lemma detach_types:
  assumes "spec \<in> set message_specs" "Command spec = CmdDetach"
  shows "f \<in> set (OptionalFields spec) \<Longrightarrow> Name f = ''eqSnr'' \<Longrightarrow> Type f = TypeFloat64"
    and "g \<in> set (MandatoryFields spec) \<Longrightarrow> Name g = ''snr'' \<Longrightarrow> Type g = TypeFloat64"
proof -
  have "list_all (\<lambda>s. Command s = CmdDetach \<longrightarrow>
      list_all (\<lambda>f. Name f = ''eqSnr'' \<longrightarrow> Type f = TypeFloat64) (OptionalFields s) \<and>
      list_all (\<lambda>f. Name f = ''snr'' \<longrightarrow> Type f = TypeFloat64) (MandatoryFields s)) message_specs"
    by code_simp
  then show "f \<in> set (OptionalFields spec) \<Longrightarrow> Name f = ''eqSnr'' \<Longrightarrow> Type f = TypeFloat64"
    and "g \<in> set (MandatoryFields spec) \<Longrightarrow> Name g = ''snr'' \<Longrightarrow> Type g = TypeFloat64"
    using assms by (auto simp: list_all_iff)
qed

lemma detach_eqSnr:
  assumes "spec \<in> set message_specs" "Command spec = CmdDetach"
    and "f \<in> set (OptionalFields spec)" "Name f = ''eqSnr''"
    and "g \<in> set (MandatoryFields spec)" "Name g = ''snr''" "well_typed g c"
  shows "well_typed f c"
proof -
  have "Validator f = None"
    using assms(1,3) message_specs_wf by (auto simp: wf_spec_def list_all_iff)
  then show ?thesis
    using assms detach_types [OF assms(1,2)] by (simp add: well_typed_def validates_def)
qed

lemma lookup_cong: "map_of m = map_of m' \<Longrightarrow> lookup m = lookup m'"
  by (simp add: lookup_def fun_eq_iff)

lemma obeys_rules_cong:
  assumes spec: "spec \<in> set message_specs" and eq: "lookup m = lookup m'"
  shows "obeys_rules spec m = obeys_rules spec m'"
proof -
  have rules: "ConditionalRules spec \<in> {[], [rule_result_sent, rule_result_not_sent], [rule_response_expected]}"
    using spec unfolding message_specs_def by (auto simp: spec_defs)
  have "rule_violation m r = rule_violation m' r" if "r \<in> set (ConditionalRules spec)" for r
    using rules that by (auto simp: rule_violation_def rule_result_sent_def rule_result_not_sent_def
        rule_response_expected_def eq)
  then show ?thesis by (simp add: obeys_rules_def eq)
qed

lemma normalize_with_complete:
  assumes spec: "spec \<in> set message_specs"
    and man: "\<And>f. f \<in> set (MandatoryFields spec) \<Longrightarrow> normal_mandatory data m f"
    and opt: "\<And>f. f \<in> set (OptionalFields spec) \<Longrightarrow> normal_optional (Command spec) data m f"
    and dom: "\<And>k. k \<notin> set (field_names spec) \<Longrightarrow> map_of m k = None"
    and rules: "obeys_rules spec m"
  shows "\<exists>m'. normalize_with spec data = Inr m' \<and> map_of m' = map_of m"
proof -
  obtain n1 where n1: "mandatory_step data (MandatoryFields spec) [] = Inr n1"
    using mandatory_step_ok [of "MandatoryFields spec" data "[]"] man
    unfolding normal_mandatory_def by blast
  obtain n2 where n2: "optional_step (Command spec) data (OptionalFields spec) n1 = Inr n2"
    using optional_step_ok [of "OptionalFields spec" data "Command spec" n1] opt
    by (fastforce simp: normal_optional_def)
  have wf: "wf_spec spec" using spec message_specs_wf by (simp add: list_all_iff)
  have dist: "distinct (map Name (MandatoryFields spec))" "distinct (map Name (OptionalFields spec))"
    and disj: "Name ` set (MandatoryFields spec) \<inter> Name ` set (OptionalFields spec) = {}"
    using wf by (auto simp: wf_spec_def field_names_def)
  have nil: "DefaultValue f = GNil" if "f \<in> set (OptionalFields spec)" for f
    using wf that by (simp add: wf_spec_def list_all_iff)
  note M = mandatory_step_Inr [OF n1 dist(1)]
  have snr: "map_of n1 ''snr'' \<noteq> None \<and> ''snr'' \<notin> Name ` set (OptionalFields spec)"
    if "Command spec = CmdDetach"
    using detach_snr [OF spec that] M disj by fastforce
  note O = optional_step_Inr [OF n2 dist(2) snr]
  have mand: "map_of n1 (Name f) = map_of m (Name f)" if "f \<in> set (MandatoryFields spec)" for f
    using M man [OF that] that by (fastforce simp: normal_mandatory_def)
  have "map_of n2 k = map_of m k" for k
  proof -
    consider f where "f \<in> set (MandatoryFields spec)" "k = Name f"
      | f where "f \<in> set (OptionalFields spec)" "k = Name f" | "k \<notin> set (field_names spec)"
      by (auto simp: field_names_def)
    then show ?thesis
    proof cases
      case 1
      then show ?thesis using O mand disj by fastforce
    next
      case 2
      then show ?thesis
        using bspec [OF conjunct1 [OF O] 2(1)] opt [OF 2(1)] nil [OF 2(1)] mand detach_snr [OF spec]
        by (auto simp: normal_optional_def default_of_def split: option.splits)
    next
      case 3
      then show ?thesis using M O dom by (simp add: field_names_def)
    qed
  qed
  then have eq: "map_of n2 = map_of m" by auto
  then have "obeys_rules spec n2" using rules obeys_rules_cong [OF spec lookup_cong [OF eq]] by simp
  then have "normalize_with spec data = Inr n2"
    using n1 n2 by (simp add: normalize_with_def bind_result_Inr_iff rules_step_Inr
        uplink_value_step_Inr obeys_rules_def)
  then show ?thesis using eq by blast
qed

text \<open>
  Normalization is stable: a normalized payload sent again (its nil fields left out) is accepted
  and normalizes to the same fields. In particular no coerced value is refused or changed the
  second time, which the code relies on when a persisted payload is replayed.
\<close>

theorem normalizePayload_stable:
  assumes "map_of messageRegistry command = Some spec" "normalizePayload command data = Inr m"
  shows "\<exists>m'. normalizePayload command (resend m) = Inr m' \<and> map_of m' = map_of m"
proof -
  have spec: "spec \<in> set message_specs" using messageRegistry_Some [OF assms(1)] by simp
  have ok: "normalize_with spec data = Inr m" using assms by (simp add: normalizePayload_def)
  note N = normalize_with_Inr [OF spec ok]
  note res = map_of_resend [OF normalize_with_distinct [OF ok]]
  have keep: "checked_field f c = Inr c" if "checked_field f v = Inr c" for f v c
    using that by (intro checked_field_id checked_field_typed)
  have man: "normal_mandatory (resend m) m f" if f: "f \<in> set (MandatoryFields spec)" for f
  proof -
    from N f obtain v c where c: "checked_field f v = Inr c" "map_of m (Name f) = Some c"
      by (auto simp: normal_mandatory_def)
    moreover have "c \<noteq> GNil" using mandatory_not_nil [OF spec f checked_field_typed [OF c(1)]] .
    ultimately show ?thesis using keep by (simp add: normal_mandatory_def res)
  qed
  have opt: "normal_optional (Command spec) (resend m) m f" if f: "f \<in> set (OptionalFields spec)" for f
  proof (cases "map_of data (Name f)")
    case (Some v)
    with N f obtain c where c: "checked_field f v = Inr c" "map_of m (Name f) = Some c"
      by (force simp: normal_optional_def)
    have "\<not> (Command spec = CmdDetach \<and> Name f = ''eqSnr'')" if "c = GNil"
      using checked_field_typed [OF c(1)] that detach_types(1) [OF spec _ f] by (auto simp: well_typed_def)
    with c keep show ?thesis by (auto simp: normal_optional_def res)
  next
    case None
    then have m: "map_of m (Name f) =
        (if Command spec = CmdDetach \<and> Name f = ''eqSnr'' then map_of m ''snr'' else Some GNil)"
      using N f by (force simp: normal_optional_def)
    show ?thesis
    proof (cases "Command spec = CmdDetach \<and> Name f = ''eqSnr''")
      case True
      then obtain g where gm: "g \<in> set (MandatoryFields spec)" "Name g = ''snr''"
        using detach_snr [OF spec] by (metis imageE)
      with N have "normal_mandatory data m g" by blast
      with gm obtain v c where g: "g \<in> set (MandatoryFields spec)" "Name g = ''snr''"
          "checked_field g v = Inr c" "map_of m ''snr'' = Some c"
        unfolding normal_mandatory_def by auto
      have "checked_field f c = Inr c"
        using True by (intro checked_field_id detach_eqSnr [OF spec _ f _ gm] checked_field_typed [OF g(3)]) simp_all
      moreover have "c \<noteq> GNil" using mandatory_not_nil [OF spec g(1) checked_field_typed [OF g(3)]] .
      ultimately show ?thesis using m True g(4) by (simp add: normal_optional_def res)
    qed (use m in \<open>auto simp: normal_optional_def res\<close>)
  qed
  have "\<exists>m'. normalize_with spec (resend m) = Inr m' \<and> map_of m' = map_of m"
    by (rule normalize_with_complete [OF spec man opt]) (use N in blast)+
  then show ?thesis using assms(1) by (simp add: normalizePayload_def)
qed

theorem normalizePayload_stable_witness:
  "\<exists>m m'. normalizePayload CmdError [(''code'', GUint8 5), (''message'', GString ''no'')] = Inr m \<and>
     normalizePayload CmdError (resend m) = Inr m' \<and> map_of m' = map_of m"
proof -
  have r: "map_of messageRegistry CmdError = Some spec_CmdError"
    by (simp add: messageRegistry_def message_specs_def spec_defs)
  obtain m where m: "normalizePayload CmdError [(''code'', GUint8 5), (''message'', GString ''no'')] = Inr m"
    by (simp add: normalizePayload_def r normalize_with_def spec_CmdError_def mandatory_def
        checked_field_def coerceFieldType_def with_value_def validates_def uplink_value_step_def)
  from normalizePayload_stable [OF r m] m show ?thesis by blast
qed

section \<open>Conditional rules of the protocol\<close>

lemma registry_lookup:
  "spec \<in> set message_specs \<Longrightarrow> map_of messageRegistry (Command spec) = Some spec"
proof -
  have "distinct (map fst messageRegistry)"
    using message_specs_commands by (simp add: messageRegistry_def comp_def)
  then show "spec \<in> set message_specs \<Longrightarrow> ?thesis"
    by (simp add: messageRegistry_def)
qed

lemma normalize_obeys:
  "spec \<in> set message_specs \<Longrightarrow> normalizePayload (Command spec) data = Inr m \<Longrightarrow> obeys_rules spec m"
  using normalize_with_Inr by (simp add: normalizePayload_def registry_lookup)

lemma normalize_mandatory:
  "spec \<in> set message_specs \<Longrightarrow> normalizePayload (Command spec) data = Inr m \<Longrightarrow>
   f \<in> set (MandatoryFields spec) \<Longrightarrow> well_typed f (lookup m (Name f))"
  using normalize_with_Inr [of spec data m] checked_field_typed
  by (fastforce simp: normalizePayload_def registry_lookup normal_mandatory_def lookup_def)

text \<open>
  A normalized downlink result carries one of the three result words, and its transmission time
  and packet counter are present exactly when the result is \<open>sent\<close>.
\<close>

theorem normalizePayload_dl_result:
  assumes "normalizePayload CmdDLDataResult data = Inr m"
  shows "lookup m ''result'' \<in> {GString DLDataResultSent, GString DLDataResultExpired, GString DLDataResultInvalid}
     \<and> (lookup m ''txTime'' \<noteq> GNil \<longleftrightarrow> lookup m ''result'' = GString DLDataResultSent)
     \<and> (lookup m ''packetCnt'' \<noteq> GNil \<longleftrightarrow> lookup m ''result'' = GString DLDataResultSent)"
proof -
  have s: "spec_CmdDLDataResult \<in> set message_specs" by (simp add: message_specs_def)
  have "obeys_rules spec_CmdDLDataResult m"
    using normalize_obeys [OF s] assms by (simp add: spec_CmdDLDataResult_def)
  moreover have "validDLDataResult (lookup m ''result'')"
    using normalize_mandatory [OF s, of data m "(mandatory ''result'' TypeString)\<lparr>Validator := Some validDLDataResult\<rparr>"] assms
    by (simp add: spec_CmdDLDataResult_def well_typed_def validates_def mandatory_def)
  ultimately show ?thesis
    by (auto simp: obeys_rules_def spec_CmdDLDataResult_def rule_violation_None rule_result_sent_def
        rule_result_not_sent_def validDLDataResult_def split: option.splits)
qed

lemmas normalize_eval = normalizePayload_def messageRegistry_def message_specs_def spec_defs
  normalize_with_def mandatory_def optional_def checked_field_def coerceFieldType_def with_value_def
  validates_def uplink_value_step_def apply_default_def rule_violation_def lookup_def

theorem normalizePayload_dl_result_witness:
  "\<exists>m. normalizePayload CmdDLDataResult
         [(''epEui'', GUint64 1), (''queId'', GUint64 2), (''result'', GString ''expired'')] = Inr m
     \<and> lookup m ''txTime'' = GNil"
proof -
  obtain m where m: "normalizePayload CmdDLDataResult
      [(''epEui'', GUint64 1), (''queId'', GUint64 2), (''result'', GString ''expired'')] = Inr m"
    and r: "lookup m ''result'' = GString ''expired''"
    by (simp add: normalize_eval coerceUint64_def unsignedToTarget_def validDLDataResult_def
        rule_result_sent_def rule_result_not_sent_def)
  from normalizePayload_dl_result [OF m] m r show ?thesis by auto
qed

text \<open>A normalized uplink that expects a response has its downlink window open.\<close>

theorem normalizePayload_response_window:
  assumes "normalizePayload CmdULData data = Inr m" "lookup m ''responseExp'' = GBool True"
  shows "lookup m ''dlOpen'' = GBool True"
proof -
  have s: "spec_CmdULData \<in> set message_specs" by (simp add: message_specs_def)
  have "obeys_rules spec_CmdULData m"
    using normalize_obeys [OF s] assms(1) by (simp add: spec_CmdULData_def)
  with assms(2) show ?thesis
    by (auto simp: obeys_rules_def spec_CmdULData_def)
qed

theorem normalizePayload_response_window_witness:
  "\<exists>m. normalizePayload CmdULData
         [(''epEui'', GUint64 1), (''rxTime'', GInt64 2), (''packetCnt'', GUint32 3),
          (''userData'', GBytes [4]), (''snr'', GFloat64 (FFin 5)), (''rssi'', GFloat64 (FFin (- 6))),
          (''dlOpen'', GBool True), (''responseExp'', GBool True), (''dlAck'', GBool False)] = Inr m
     \<and> lookup m ''dlOpen'' = GBool True"
proof -
  obtain m where m: "normalizePayload CmdULData
         [(''epEui'', GUint64 1), (''rxTime'', GInt64 2), (''packetCnt'', GUint32 3),
          (''userData'', GBytes [4]), (''snr'', GFloat64 (FFin 5)), (''rssi'', GFloat64 (FFin (- 6))),
          (''dlOpen'', GBool True), (''responseExp'', GBool True), (''dlAck'', GBool False)] = Inr m"
    and r: "lookup m ''responseExp'' = GBool True"
    by (simp add: normalize_eval coerceUint64_def coerceUint32_def unsignedToTarget_def check_length_def
        finite_float_def rule_response_expected_def)
  from normalizePayload_response_window [OF m r] m show ?thesis by auto
qed

end
