(* ===== verification/Command_Table.thy ===== *)
theory Command_Table
  imports Mioty_Commands Go_Values
begin

text \<open>
  The command table of \<^verbatim>\<open>KC-Core/pkg/bssci/command_spec.go\<close>: the role of every command in operation
  sequencing, the rows of \<^verbatim>\<open>commandTable\<close>, the registry that indexes and checks them at startup, and
  the queries the dispatcher asks it. A function-valued column (handler, normalizer, rebuild,
  compensation) is the name of the Go function it holds, \<open>None\<close> for nil.

  Shown: the registry is built exactly from tables without duplicates whose rows have a known
  direction and a role that fits it; the shipped table is such a table; and of the commands a base
  station may send all but the SCACI reply \<^verbatim>\<open>txDataResRsp\<close> have a handler.
\<close>

section \<open>Roles\<close>

datatype operationRole =
    roleUnset | roleServiceCenterOnly | roleHandshake | roleOpens | roleCloses | roleResponds
  | roleErrorExchange

datatype role_error = ErrCommandSpecWithoutRole | ErrCommandSpecRoleContradictsDirection

definition admits :: "operationRole \<Rightarrow> CommandDirection \<Rightarrow> role_error option" where
  "admits r direction =
     (if r = roleUnset then Some ErrCommandSpecWithoutRole
      else if (r = roleServiceCenterOnly) \<noteq> (direction = DirectionSCtoBS)
           then Some ErrCommandSpecRoleContradictsDirection
      else None)"

definition sequenced :: "operationRole \<Rightarrow> bool" where
  "sequenced r \<longleftrightarrow> r = roleOpens \<or> r = roleCloses \<or> r = roleResponds"

section \<open>Rows\<close>

record CommandSpec =
  SpecCommand :: string
  Role :: operationRole
  Handler :: "string option"
  NormalizeFn :: "string option"
  Reconstitute :: "string option"
  Resumable :: bool
  OnError :: "string option"

definition row ::
    "string \<Rightarrow> operationRole \<Rightarrow> string option \<Rightarrow> string option \<Rightarrow> string option \<Rightarrow> bool \<Rightarrow> string option \<Rightarrow> CommandSpec" where
  "row c r h n rc res oe = \<lparr>SpecCommand = c, Role = r, Handler = h, NormalizeFn = n,
     Reconstitute = rc, Resumable = res, OnError = oe\<rparr>"

definition commandTable :: "CommandSpec list" where
  "commandTable =
    [row CmdConnect roleHandshake (Some ''handleConnect'') None None False None,
     row CmdConnectComplete roleHandshake (Some ''handleConnectComplete'') None None False None,
     row CmdPing roleOpens (Some ''handlePing'') None None False None,
     row CmdPingResponse roleResponds (Some ''handlePingResponse'') None None False None,
     row CmdPingComplete roleCloses (Some ''handlePingComplete'') None None False None,
     row CmdStatus roleServiceCenterOnly None None None True None,
     row CmdStatusResponse roleResponds (Some ''handleStatusResponse'') None None False None,
     row CmdAttach roleOpens (Some ''handleAttach'') None None False None,
     row CmdAttachComplete roleCloses (Some ''handleAttachComplete'') None None False None,
     row CmdDetach roleOpens (Some ''handleDetach'') None None False None,
     row CmdDetachComplete roleCloses (Some ''handleDetachComplete'') None None False None,
     row CmdULData roleOpens (Some ''handleULData'') None None False None,
     row CmdULDataComplete roleCloses (Some ''handleULDataComplete'') None None False None,
     row CmdULDataTransmit roleServiceCenterOnly None None (Some ''reconstitueULDataTxMessage'') True None,
     row CmdULDataTransmitResponse roleResponds (Some ''handleULDataTxResponse'') None None False None,
     row CmdError roleErrorExchange (Some ''handleError'') None None False None,
     row CmdErrorAck roleErrorExchange (Some ''handleErrorAck'') None None False None,
     row CmdAttachPropagate roleServiceCenterOnly None (Some ''normalizeAttPrpMessage'') (Some ''reconstitueAttachPropagateMessage'') True None,
     row CmdAttachPropagateResponse roleResponds (Some ''handleAttachPropagateResponse'') None None False None,
     row CmdDetachPropagate roleServiceCenterOnly None (Some ''normalizeDetPrpMessage'') None True None,
     row CmdDetachPropagateResponse roleResponds (Some ''handleDetachPropagateResponse'') None None False None,
     row CmdDLDataResult roleOpens (Some ''handleDLDataResult'') None None False None,
     row CmdDLDataResultResponse roleServiceCenterOnly (Some ''handleDLDataResultResponse'') None None False None,
     row CmdDLDataResultComplete roleCloses (Some ''handleDLDataResultComplete'') None None False None,
     row CmdDLRxStatus roleOpens (Some ''handleDLRXStatus'') None None False None,
     row CmdDLRxStatusResponse roleServiceCenterOnly (Some ''handleDLRXStatusResponse'') None None False None,
     row CmdDLRxStatusComplete roleCloses (Some ''handleDLRXStatusComplete'') None None False None,
     row CmdDLRxStatusQuery roleServiceCenterOnly None None None True None,
     row CmdDLRxStatusQueryResponse roleResponds (Some ''handleDLRXStatusQueryResponse'') None None False None,
     row CmdDLDataRevoke roleServiceCenterOnly None (Some ''normalizeDlDataRevMessage'') (Some ''reconstitueDLDataRevMessage'') True (Some ''recordRevokeRefusal''),
     row CmdDLDataRevokeResponse roleResponds (Some ''handleDLDataRevokeResponse'') None None False None,
     row CmdDLDataQueue roleServiceCenterOnly None None (Some ''reconstitueDLDataQueMessage'') True (Some ''rejectQueuedDownlink''),
     row CmdDLDataQueueResponse roleResponds (Some ''handleDLDataQueueResponse'') None None False None,
     row CmdVMActivate roleServiceCenterOnly (Some ''handleVMActivate'') None None False None,
     row CmdVMActivateResponse roleResponds (Some ''handleVMActivateResponse'') None None False None,
     row CmdVMActivateComplete roleResponds (Some ''handleVMActivateComplete'') None None False None,
     row CmdVMDeactivate roleServiceCenterOnly (Some ''handleVMDeactivate'') None None False None,
     row CmdVMDeactivateResponse roleResponds (Some ''handleVMDeactivateResponse'') None None False None,
     row CmdVMDeactivateComplete roleResponds (Some ''handleVMDeactivateComplete'') None None False None,
     row CmdVMStatus roleServiceCenterOnly (Some ''handleVMStatus'') None None False None,
     row CmdVMStatusResponse roleResponds (Some ''handleVMStatusResponse'') None None False None,
     row CmdVMStatusComplete roleResponds (Some ''handleVMStatusComplete'') None None False None,
     row CmdVMDLData roleServiceCenterOnly (Some ''handleVMDLData'') None None False None,
     row CmdVMDLDataResponse roleResponds (Some ''handleVMDLDataResponse'') None None False None,
     row CmdVMDLDataComplete roleResponds (Some ''handleVMDLDataComplete'') None None False None]"

section \<open>The registry\<close>

record commandRegistry =
  byCommand :: "(string \<times> CommandSpec) list"
  direction :: "(string \<times> CommandDirection) list"

datatype registry_error =
    DuplicateCommandSpec string | CommandWithoutDirection string | CommandSpecRole role_error string

fun index_table ::
    "CommandSpec list \<Rightarrow> commandRegistry \<Rightarrow> registry_error + commandRegistry" where
  "index_table [] r = Inr r"
| "index_table (spec # rest) r =
     (if has_key (byCommand r) (SpecCommand spec) then Inl (DuplicateCommandSpec (SpecCommand spec))
      else case map_of (direction r) (SpecCommand spec) of
             None \<Rightarrow> Inl (CommandWithoutDirection (SpecCommand spec))
           | Some d \<Rightarrow>
               (case admits (Role spec) d of
                  Some e \<Rightarrow> Inl (CommandSpecRole e (SpecCommand spec))
                | None \<Rightarrow> index_table rest
                    (r\<lparr>byCommand := AList.update (SpecCommand spec) spec (byCommand r)\<rparr>)))"

definition newCommandRegistry ::
    "CommandSpec list \<Rightarrow> (string \<times> CommandDirection) list \<Rightarrow> registry_error + commandRegistry" where
  "newCommandRegistry table directions =
     index_table table \<lparr>byCommand = [], direction = directions\<rparr>"

definition lookup_command :: "commandRegistry \<Rightarrow> string \<Rightarrow> CommandSpec option" where
  "lookup_command r command = map_of (byCommand r) command"

definition inboundHandler :: "commandRegistry \<Rightarrow> string \<Rightarrow> string option" where
  "inboundHandler r command =
     (case map_of (byCommand r) command of None \<Rightarrow> None | Some spec \<Rightarrow> Handler spec)"

definition isServiceCenterCommand :: "commandRegistry \<Rightarrow> string \<Rightarrow> bool" where
  "isServiceCenterCommand r command \<longleftrightarrow> map_of (direction r) command = Some DirectionSCtoBS"

definition shouldNormalize :: "commandRegistry \<Rightarrow> string \<Rightarrow> bool" where
  "shouldNormalize r command =
     (case map_of (direction r) command of
        None \<Rightarrow> False
      | Some d \<Rightarrow> d = DirectionBStoSC \<or> d = DirectionBidirectional)"

definition role :: "commandRegistry \<Rightarrow> string \<Rightarrow> operationRole" where
  "role r command =
     (case map_of (byCommand r) command of Some spec \<Rightarrow> Role spec | None \<Rightarrow> roleUnset)"

definition resumable :: "commandRegistry \<Rightarrow> i64 \<Rightarrow> string \<Rightarrow> bool" where
  "resumable r opID command =
     (if sint opID \<ge> 0 then False
      else case map_of (byCommand r) command of None \<Rightarrow> False | Some spec \<Rightarrow> Resumable spec)"

definition onError :: "commandRegistry \<Rightarrow> string \<Rightarrow> string option" where
  "onError r command =
     (case map_of (byCommand r) command of None \<Rightarrow> None | Some spec \<Rightarrow> OnError spec)"

section \<open>Correctness of the index\<close>

lemma admits_None:
  "admits r d = None \<longleftrightarrow> r \<noteq> roleUnset \<and> (r = roleServiceCenterOnly \<longleftrightarrow> d = DirectionSCtoBS)"
  by (auto simp: admits_def)

definition row_fits :: "(string \<times> CommandDirection) list \<Rightarrow> CommandSpec \<Rightarrow> bool" where
  "row_fits directions spec =
     (case map_of directions (SpecCommand spec) of
        None \<Rightarrow> False
      | Some d \<Rightarrow> Role spec \<noteq> roleUnset \<and> (Role spec = roleServiceCenterOnly \<longleftrightarrow> d = DirectionSCtoBS))"

lemma index_table_Inr:
  "index_table table r = Inr r' \<longleftrightarrow>
     distinct (map SpecCommand table) \<and> (\<forall>s \<in> set table. \<not> has_key (byCommand r) (SpecCommand s)) \<and>
     list_all (row_fits (direction r)) table \<and>
     r' = r\<lparr>byCommand := byCommand r @ map (\<lambda>s. (SpecCommand s, s)) table\<rparr>"
proof (induction table r rule: index_table.induct)
  case (1 r)
  then show ?case by auto
next
  case (2 spec rest r)
  show ?case
  proof (cases "has_key (byCommand r) (SpecCommand spec) \<or> \<not> row_fits (direction r) spec")
    case True
    then show ?thesis
      by (auto simp: row_fits_def admits_None split: option.splits)
  next
    case False
    then obtain d where d: "map_of (direction r) (SpecCommand spec) = Some d" "admits (Role spec) d = None"
      by (auto simp: row_fits_def admits_None split: option.splits)
    let ?r = "r\<lparr>byCommand := AList.update (SpecCommand spec) spec (byCommand r)\<rparr>"
    have app: "AList.update (SpecCommand spec) spec (byCommand r) = byCommand r @ [(SpecCommand spec, spec)]"
      using False by (intro update_append_new) simp
    have "index_table (spec # rest) r = index_table rest ?r"
      using False d by simp
    moreover have "SpecCommand spec \<notin> SpecCommand ` set rest \<longleftrightarrow>
        (\<forall>s \<in> set rest. SpecCommand s \<noteq> SpecCommand spec)"
      by (metis image_iff)
    ultimately show ?thesis using False d "2.IH" [of d] app by auto
  qed
qed

lemma newCommandRegistry_Inr:
  "newCommandRegistry table directions = Inr r \<longleftrightarrow>
     distinct (map SpecCommand table) \<and> list_all (row_fits directions) table \<and>
     r = \<lparr>byCommand = map (\<lambda>s. (SpecCommand s, s)) table, direction = directions\<rparr>"
  by (auto simp: newCommandRegistry_def index_table_Inr)

lemma map_of_rows:
  assumes "distinct (map SpecCommand table)"
  shows "map_of (map (\<lambda>s. (SpecCommand s, s)) table) c = Some spec \<longleftrightarrow> spec \<in> set table \<and> SpecCommand spec = c"
proof -
  have "distinct (map fst (map (\<lambda>s. (SpecCommand s, s)) table))"
    using assms by (simp add: comp_def)
  from map_of_eq_Some_iff [OF this] show ?thesis by auto
qed

text \<open>
  The registry is built exactly when no command has two rows and every row has a role that fits
  the direction its command is known to have; then every row is found under its command and
  nothing else is found.
\<close>

theorem newCommandRegistry_correct:
  "(case newCommandRegistry table directions of
      Inr r \<Rightarrow> distinct (map SpecCommand table) \<and> list_all (row_fits directions) table \<and>
        (\<forall>c spec. lookup_command r c = Some spec \<longleftrightarrow> spec \<in> set table \<and> SpecCommand spec = c)
    | Inl e \<Rightarrow> \<not> (distinct (map SpecCommand table) \<and> list_all (row_fits directions) table))"
proof (cases "newCommandRegistry table directions")
  case (Inl e)
  then show ?thesis using newCommandRegistry_Inr [of table directions] by auto
next
  case (Inr r)
  moreover from Inr have "distinct (map SpecCommand table)" "list_all (row_fits directions) table"
      "byCommand r = map (\<lambda>s. (SpecCommand s, s)) table"
    by (simp_all add: newCommandRegistry_Inr)
  ultimately show ?thesis by (simp add: lookup_command_def map_of_rows)
qed

section \<open>The shipped table\<close>

definition registry :: commandRegistry where
  "registry = \<lparr>byCommand = map (\<lambda>s. (SpecCommand s, s)) commandTable, direction = commandDirectionMap\<rparr>"

lemma commandTable_fits: "distinct (map SpecCommand commandTable)" "list_all (row_fits commandDirectionMap) commandTable"
  by code_simp+

lemma registry_built: "newCommandRegistry commandTable commandDirectionMap = Inr registry"
  using commandTable_fits by (simp add: newCommandRegistry_Inr registry_def)

lemma inbound_rows:
  "map SpecCommand (filter (\<lambda>s. Role s \<noteq> roleServiceCenterOnly) commandTable) \<in>
     {xs. set xs = set (map fst (filter (\<lambda>(c, d). d \<noteq> DirectionSCtoBS) commandDirectionMap)) - {CmdDLDataResultResponseSCACI}}"
  "list_all (\<lambda>s. Role s \<noteq> roleServiceCenterOnly \<longrightarrow> Handler s \<noteq> None) commandTable"
  by code_simp+

lemma registry_row:
  "map_of (byCommand registry) c = Some s \<longleftrightarrow> s \<in> set commandTable \<and> SpecCommand s = c"
  using map_of_rows [OF commandTable_fits(1)] by (simp add: registry_def)

lemma direction_iff: "map_of (direction registry) c = Some d \<longleftrightarrow> (c, d) \<in> set commandDirectionMap"
  using distinct_all_commands by (simp add: registry_def all_commands_def map_of_eq_Some_iff)

lemma row_direction:
  assumes "s \<in> set commandTable"
  shows "Role s \<noteq> roleUnset \<and> (\<exists>d. map_of (direction registry) (SpecCommand s) = Some d \<and>
    (Role s = roleServiceCenterOnly \<longleftrightarrow> d = DirectionSCtoBS))"
  using assms commandTable_fits(2)
  by (auto simp: list_all_iff row_fits_def registry_def split: option.splits)

lemma inbound_role:
  "(\<exists>s \<in> set commandTable. SpecCommand s = c \<and> Role s \<noteq> roleServiceCenterOnly) \<longleftrightarrow>
     shouldNormalize registry c \<and> c \<noteq> CmdDLDataResultResponseSCACI"
proof -
  have norm: "shouldNormalize registry c \<longleftrightarrow> (\<exists>d. (c, d) \<in> set commandDirectionMap \<and> d \<noteq> DirectionSCtoBS)"
  proof (cases "map_of (direction registry) c")
    case None
    then show ?thesis using direction_iff [of c] by (auto simp: shouldNormalize_def)
  next
    case (Some d)
    have "d' = d" if "(c, d') \<in> set commandDirectionMap" for d'
      using that Some unfolding direction_iff [symmetric] by simp
    with Some show ?thesis
      using direction_iff [of c d] by (cases d) (auto simp: shouldNormalize_def)
  qed
  have keys: "c \<in> fst ` {x \<in> A. case x of (c, d) \<Rightarrow> P d} \<longleftrightarrow> (\<exists>d. (c, d) \<in> A \<and> P d)"
    for A and P :: "CommandDirection \<Rightarrow> bool"
    by force
  have "(\<exists>s \<in> set commandTable. SpecCommand s = c \<and> Role s \<noteq> roleServiceCenterOnly) \<longleftrightarrow>
      c \<in> set (map SpecCommand (filter (\<lambda>s. Role s \<noteq> roleServiceCenterOnly) commandTable))"
    by (simp only: set_map set_filter image_iff) blast
  also have "\<dots> \<longleftrightarrow> c \<in> set (map fst (filter (\<lambda>(c, d). d \<noteq> DirectionSCtoBS) commandDirectionMap)) - {CmdDLDataResultResponseSCACI}"
    using inbound_rows(1) by (simp only: mem_Collect_eq)
  also have "\<dots> \<longleftrightarrow> shouldNormalize registry c \<and> c \<noteq> CmdDLDataResultResponseSCACI"
    unfolding norm set_map set_filter keys Diff_iff by simp
  finally show ?thesis .
qed

lemma unique_row:
  assumes "map_of (byCommand registry) c = Some s"
  shows "(\<exists>s \<in> set commandTable. SpecCommand s = c \<and> P s) \<longleftrightarrow> P s"
  by (metis assms option.inject registry_row)

lemma no_row:
  assumes "map_of (byCommand registry) c = None"
  shows "\<not> (\<exists>s \<in> set commandTable. SpecCommand s = c \<and> P s)"
  using assms by (metis option.distinct(1) registry_row)

lemma handler_iff:
  "inboundHandler registry c \<noteq> None \<and> \<not> isServiceCenterCommand registry c \<longleftrightarrow>
     (\<exists>s \<in> set commandTable. SpecCommand s = c \<and> Role s \<noteq> roleServiceCenterOnly)"
proof (cases "map_of (byCommand registry) c")
  case None
  then show ?thesis using no_row [OF None, of "\<lambda>s. Role s \<noteq> roleServiceCenterOnly"] by (simp add: inboundHandler_def)
next
  case (Some s)
  then have s: "s \<in> set commandTable" "SpecCommand s = c" by (simp_all add: registry_row)
  have "Role s \<noteq> roleServiceCenterOnly \<longrightarrow> Handler s \<noteq> None"
    using inbound_rows(2) s(1) by (simp add: list_all_iff)
  moreover have "isServiceCenterCommand registry c \<longleftrightarrow> Role s = roleServiceCenterOnly"
    using row_direction [OF s(1)] s(2) by (auto simp: isServiceCenterCommand_def)
  ultimately show ?thesis
    unfolding unique_row [OF Some] using Some by (auto simp: inboundHandler_def)
qed

lemma role_iff:
  "role registry c \<notin> {roleUnset, roleServiceCenterOnly} \<longleftrightarrow>
     (\<exists>s \<in> set commandTable. SpecCommand s = c \<and> Role s \<noteq> roleServiceCenterOnly)"
proof (cases "map_of (byCommand registry) c")
  case None
  then show ?thesis using no_row [OF None, of "\<lambda>s. Role s \<noteq> roleServiceCenterOnly"] by (simp add: role_def)
next
  case (Some s)
  then have "s \<in> set commandTable" by (simp add: registry_row)
  then show ?thesis
    unfolding unique_row [OF Some] using row_direction Some by (simp add: role_def)
qed

lemma shouldNormalize_iff:
  "shouldNormalize registry c \<longleftrightarrow> c \<in> set all_commands \<and> \<not> isServiceCenterCommand registry c"
proof -
  have "c \<in> set all_commands \<longleftrightarrow> map_of (direction registry) c \<noteq> None"
    by (simp add: registry_def all_commands_def map_of_eq_None_iff)
  then show ?thesis
    by (cases "map_of (direction registry) c")
      (auto simp: shouldNormalize_def isServiceCenterCommand_def intro: CommandDirection.exhaust)
qed

text \<open>
  The shipped table passes its own startup check. A command reaches a handler when a base
  station sends it exactly when a base station may send it, the SCACI reply \<open>txDataResRsp\<close>
  excepted; those are also exactly the commands with an inbound sequencing role. An unknown
  command is neither normalized nor handled.
\<close>

theorem commandTable_dispatch:
  "newCommandRegistry commandTable commandDirectionMap = Inr registry
   \<and> ((inboundHandler registry c \<noteq> None \<and> \<not> isServiceCenterCommand registry c) \<longleftrightarrow>
        (shouldNormalize registry c \<and> c \<noteq> CmdDLDataResultResponseSCACI))
   \<and> (role registry c \<notin> {roleUnset, roleServiceCenterOnly} \<longleftrightarrow>
        (shouldNormalize registry c \<and> c \<noteq> CmdDLDataResultResponseSCACI))
   \<and> (shouldNormalize registry c \<longleftrightarrow> c \<in> set all_commands \<and> \<not> isServiceCenterCommand registry c)"
  using registry_built handler_iff [of c, unfolded inbound_role] role_iff [of c, unfolded inbound_role]
    shouldNormalize_iff [of c]
  by (intro conjI)

end
