(* ===== verification/Session_State.thy ===== *)
theory Session_State
  imports Command_Table
begin

text \<open>
  The session of a connected base station (\<^verbatim>\<open>KC-Core/pkg/bssci/session.go\<close>): handshake state, operation
  counters, the set of operations the station has open, the error acknowledgements the service
  center waits for; with the operation ID rules of \<^verbatim>\<open>dispatch.go\<close> (\<^verbatim>\<open>sequenceOperation\<close> and
  \<^verbatim>\<open>sequenceServiceCenterResponse\<close>). Every method runs under the session mutex, so an operation is
  one function on the session. Operation IDs are signed 64-bit words.

  Shown: the IDs at which a station opens operations strictly increase over a connection, an ID once
  closed is never admitted again, a completion always names an operation that is open, and the
  service center's own IDs are negative, strictly decreasing and never repeat until 2 to the 63rd
  have been used.
\<close>

section \<open>State\<close>

datatype ConnectState =
    ConnectStateAwaitingConnect | ConnectStateAwaitingConnectComplete
  | ConnectStateAwaitingConnectErrorAck | ConnectStateComplete | ConnectStateTerminal

datatype errorAckDisposition = errorAckAckOnly | errorAckFinalizePendingOperation

record ProtocolSessionState =
  BaseStationEUI :: u64
  ClientVersion :: string
  NegotiatedVersion :: string
  SessionUUID :: bytes
  DbSessionID :: i64
  BsUUID :: bytes
  IsResumed :: bool
  CanResume :: bool
  HandshakeComplete :: bool
  LastBsOpId :: i64
  LastScOpId :: i64
  Encoding :: string
  OrganizationID :: bytes
  ResolvedTenantID :: i64
  connectState :: ConnectState
  openBsOps :: "i64 set"

record Session = ProtocolSessionState +
  Bidirectional :: bool
  pendingErrorAcks :: "(i64 \<times> errorAckDisposition) list"

definition uuidNil :: bytes where
  "uuidNil = replicate 16 0"

section \<open>Base-station operations\<close>

definition OperationCounters :: "('a) ProtocolSessionState_scheme \<Rightarrow> i64 \<times> i64" where
  "OperationCounters p = (LastBsOpId p, LastScOpId p)"

definition markBaseStationOperationOpen ::
    "i64 \<Rightarrow> 'a ProtocolSessionState_scheme \<Rightarrow> 'a ProtocolSessionState_scheme" where
  "markBaseStationOperationOpen opID p = p\<lparr>openBsOps := insert opID (openBsOps p)\<rparr>"

definition startBaseStationOperation ::
    "i64 \<Rightarrow> 'a ProtocolSessionState_scheme \<Rightarrow> bool \<times> 'a ProtocolSessionState_scheme" where
  "startBaseStationOperation opID p =
     (if opID \<in> openBsOps p then (True, p)
      else if sint opID \<le> sint (LastBsOpId p) then (False, p)
      else (True, markBaseStationOperationOpen opID (p\<lparr>LastBsOpId := opID\<rparr>)))"

definition completeBaseStationOperation ::
    "i64 \<Rightarrow> 'a ProtocolSessionState_scheme \<Rightarrow> bool \<times> 'a ProtocolSessionState_scheme" where
  "completeBaseStationOperation opID p =
     (if opID \<notin> openBsOps p then (False, p)
      else (True, p\<lparr>openBsOps := openBsOps p - {opID}\<rparr>))"

definition endBaseStationOperation ::
    "i64 \<Rightarrow> 'a ProtocolSessionState_scheme \<Rightarrow> 'a ProtocolSessionState_scheme" where
  "endBaseStationOperation opID p = p\<lparr>openBsOps := openBsOps p - {opID}\<rparr>"

definition restoreOpenBaseStationOperations ::
    "i64 list \<Rightarrow> 'a ProtocolSessionState_scheme \<Rightarrow> 'a ProtocolSessionState_scheme" where
  "restoreOpenBaseStationOperations opIDs p = fold markBaseStationOperationOpen opIDs p"

text \<open>The decrement wraps, as Go's does.\<close>

definition NextScOpID ::
    "'a ProtocolSessionState_scheme \<Rightarrow> i64 \<times> 'a ProtocolSessionState_scheme" where
  "NextScOpID p = (LastScOpId p - 1, p\<lparr>LastScOpId := LastScOpId p - 1\<rparr>)"

section \<open>Error acknowledgements\<close>

definition registerPendingErrorAck :: "i64 \<Rightarrow> errorAckDisposition \<Rightarrow> Session \<Rightarrow> Session" where
  "registerPendingErrorAck opId d s =
     (if opId = 0 \<and> \<not> HandshakeComplete s then s
      else s\<lparr>pendingErrorAcks := AList.update opId d (pendingErrorAcks s)\<rparr>)"

definition consumePendingErrorAck :: "i64 \<Rightarrow> Session \<Rightarrow> errorAckDisposition option \<times> Session" where
  "consumePendingErrorAck opId s =
     (case map_of (pendingErrorAcks s) opId of
        None \<Rightarrow> (None, s)
      | Some d \<Rightarrow> (Some d, s\<lparr>pendingErrorAcks := AList.delete opId (pendingErrorAcks s)\<rparr>))"

definition resolvedTenant :: "Session option \<Rightarrow> i64 \<Rightarrow> i64" where
  "resolvedTenant session fallback =
     (case session of
        None \<Rightarrow> fallback
      | Some s \<Rightarrow> if sint (ResolvedTenantID s) > 0 then ResolvedTenantID s else fallback)"

section \<open>Sequencing\<close>

datatype sequence_error =
    ErrConnectOpIDNotZero | ErrOperationIDNotPositive | ErrOperationIDBackwards
  | ErrOperationNotOpen | ErrSCOperationIDMustBeNegative | ErrOperationIDIncreasing

definition sequenceServiceCenterResponse :: "Session \<Rightarrow> i64 \<Rightarrow> sequence_error option" where
  "sequenceServiceCenterResponse s opId =
     (if sint opId \<ge> 0 then Some ErrSCOperationIDMustBeNegative
      else if LastScOpId s \<noteq> 0 \<and> sint opId < sint (LastScOpId s) then Some ErrOperationIDIncreasing
      else None)"

definition sequenceOperation ::
    "commandRegistry \<Rightarrow> string \<Rightarrow> i64 \<Rightarrow> Session \<Rightarrow> sequence_error option \<times> Session" where
  "sequenceOperation reg command opId s0 =
     (let r = role reg command;
          s = (if r = roleErrorExchange \<and> sint opId > 0 then endBaseStationOperation opId s0 else s0)
      in if \<not> sequenced r then (None, s)
         else if BaseStationEUI s = 0 \<and> opId \<noteq> 0 then (Some ErrConnectOpIDNotZero, s)
         else case r of
             roleOpens \<Rightarrow>
               if sint opId \<le> 0 then (Some ErrOperationIDNotPositive, s)
               else (case startBaseStationOperation opId s of
                       (True, s') \<Rightarrow> (None, s')
                     | (False, s') \<Rightarrow> (Some ErrOperationIDBackwards, s'))
           | roleCloses \<Rightarrow>
               if sint opId \<le> 0 then (Some ErrOperationIDNotPositive, s)
               else (case completeBaseStationOperation opId s of
                       (True, s') \<Rightarrow> (None, s')
                     | (False, s') \<Rightarrow> (Some ErrOperationNotOpen, s'))
           | _ \<Rightarrow> (sequenceServiceCenterResponse s opId, s))"

section \<open>Well-formed operation state\<close>

definition wf_ops :: "('a) ProtocolSessionState_scheme \<Rightarrow> bool" where
  "wf_ops p \<longleftrightarrow> finite (openBsOps p) \<and>
     (\<forall>i \<in> openBsOps p. 0 < sint i \<and> sint i \<le> sint (LastBsOpId p))"

text \<open>An operation the station may no longer start: below the newest ID and not open.\<close>

definition retired :: "i64 \<Rightarrow> 'a ProtocolSessionState_scheme \<Rightarrow> bool" where
  "retired i p \<longleftrightarrow> sint i \<le> sint (LastBsOpId p) \<and> i \<notin> openBsOps p"

lemma sequence_opens:
  "role reg command = roleOpens \<Longrightarrow> sequenceOperation reg command opId s =
     (if BaseStationEUI s = 0 \<and> opId \<noteq> 0 then (Some ErrConnectOpIDNotZero, s)
      else if sint opId \<le> 0 then (Some ErrOperationIDNotPositive, s)
      else if opId \<in> openBsOps s then (None, s)
      else if sint opId \<le> sint (LastBsOpId s) then (Some ErrOperationIDBackwards, s)
      else (None, s\<lparr>LastBsOpId := opId, openBsOps := insert opId (openBsOps s)\<rparr>))"
  by (simp add: sequenceOperation_def sequenced_def startBaseStationOperation_def
      markBaseStationOperationOpen_def)

lemma sequence_closes:
  "role reg command = roleCloses \<Longrightarrow> sequenceOperation reg command opId s =
     (if BaseStationEUI s = 0 \<and> opId \<noteq> 0 then (Some ErrConnectOpIDNotZero, s)
      else if sint opId \<le> 0 then (Some ErrOperationIDNotPositive, s)
      else if opId \<notin> openBsOps s then (Some ErrOperationNotOpen, s)
      else (None, s\<lparr>openBsOps := openBsOps s - {opId}\<rparr>))"
  by (simp add: sequenceOperation_def sequenced_def completeBaseStationOperation_def)

lemma sequence_responds:
  "role reg command = roleResponds \<Longrightarrow> sequenceOperation reg command opId s =
     (if BaseStationEUI s = 0 \<and> opId \<noteq> 0 then (Some ErrConnectOpIDNotZero, s)
      else (sequenceServiceCenterResponse s opId, s))"
  by (simp add: sequenceOperation_def sequenced_def)

lemma sequence_error:
  "role reg command = roleErrorExchange \<Longrightarrow> sequenceOperation reg command opId s =
     (None, if sint opId > 0 then s\<lparr>openBsOps := openBsOps s - {opId}\<rparr> else s)"
  by (simp add: sequenceOperation_def sequenced_def endBaseStationOperation_def)

lemma sequence_free:
  "role reg command \<in> {roleUnset, roleServiceCenterOnly, roleHandshake} \<Longrightarrow>
   sequenceOperation reg command opId s = (None, s)"
  by (auto simp: sequenceOperation_def sequenced_def)

lemmas sequence_rules = sequence_opens sequence_closes sequence_responds sequence_error sequence_free

lemma sequenceOperation_cases:
  assumes "sequenceOperation reg command opId s = (e, s')"
  obtains (opens) "role reg command = roleOpens" "e = None" "0 < sint opId"
      "opId \<notin> openBsOps s" "sint (LastBsOpId s) < sint opId"
      "s' = s\<lparr>LastBsOpId := opId, openBsOps := insert opId (openBsOps s)\<rparr>"
    | (closes) "role reg command = roleCloses" "e = None" "0 < sint opId" "opId \<in> openBsOps s"
      "s' = s\<lparr>openBsOps := openBsOps s - {opId}\<rparr>"
    | (ends) "role reg command = roleErrorExchange" "e = None" "0 < sint opId"
      "s' = s\<lparr>openBsOps := openBsOps s - {opId}\<rparr>"
    | (keeps) "s' = s"
proof (cases "role reg command")
  case roleOpens
  then have "s' = s \<or> e = None \<and> 0 < sint opId \<and> opId \<notin> openBsOps s \<and> sint (LastBsOpId s) < sint opId \<and>
      s' = s\<lparr>LastBsOpId := opId, openBsOps := insert opId (openBsOps s)\<rparr>"
    using assms unfolding sequence_opens [OF roleOpens] by (simp split: if_split_asm)
  then show ?thesis using roleOpens opens keeps by blast
next
  case roleCloses
  then have "s' = s \<or> e = None \<and> 0 < sint opId \<and> opId \<in> openBsOps s \<and>
      s' = s\<lparr>openBsOps := openBsOps s - {opId}\<rparr>"
    using assms unfolding sequence_closes [OF roleCloses] by (simp split: if_split_asm)
  then show ?thesis using roleCloses closes keeps by blast
next
  case roleErrorExchange
  then have "s' = s \<or> e = None \<and> 0 < sint opId \<and> s' = s\<lparr>openBsOps := openBsOps s - {opId}\<rparr>"
    using assms unfolding sequence_error [OF roleErrorExchange] by (simp split: if_split_asm)
  then show ?thesis using roleErrorExchange ends keeps by blast
next
  case roleResponds
  then have "s' = s" using assms unfolding sequence_responds [OF roleResponds] by (simp split: if_split_asm)
  then show ?thesis by (rule keeps)
next
  case roleUnset
  then have "s' = s" using assms sequence_free [of reg command opId s] by simp
  then show ?thesis by (rule keeps)
next
  case roleServiceCenterOnly
  then have "s' = s" using assms sequence_free [of reg command opId s] by simp
  then show ?thesis by (rule keeps)
next
  case roleHandshake
  then have "s' = s" using assms sequence_free [of reg command opId s] by simp
  then show ?thesis by (rule keeps)
qed

lemma sequenceOperation_wf:
  "sequenceOperation reg command opId s = (e, s') \<Longrightarrow> wf_ops s \<Longrightarrow> wf_ops s'"
  by (elim sequenceOperation_cases) (auto simp: wf_ops_def)

lemma sequenceOperation_frame [frame_rules]:
  assumes "sequenceOperation reg command opId s = (e, s')"
  shows "HandshakeComplete s' = HandshakeComplete s" "connectState s' = connectState s"
    "LastScOpId s' = LastScOpId s" "BaseStationEUI s' = BaseStationEUI s"
    "pendingErrorAcks s' = pendingErrorAcks s" "ResolvedTenantID s' = ResolvedTenantID s"
  using assms by (elim sequenceOperation_cases; simp)+

lemma sequenceOperation_mono:
  "sequenceOperation reg command opId s = (e, s') \<Longrightarrow> sint (LastBsOpId s) \<le> sint (LastBsOpId s')"
  by (elim sequenceOperation_cases) auto

lemma sequenceOperation_retired:
  assumes "sequenceOperation reg command opId s = (e, s')" "retired i s"
  shows "retired i s'"
  using assms by (elim sequenceOperation_cases) (auto simp: retired_def)

section \<open>Connections as sequences of messages\<close>

fun sequence_run :: "commandRegistry \<Rightarrow> (string \<times> i64) list \<Rightarrow> Session \<Rightarrow> Session" where
  "sequence_run reg [] s = s"
| "sequence_run reg ((c, i) # ms) s = sequence_run reg ms (snd (sequenceOperation reg c i s))"

text \<open>The IDs at which a sequence of messages opens a new operation, in order.\<close>

fun opened_ids :: "commandRegistry \<Rightarrow> (string \<times> i64) list \<Rightarrow> Session \<Rightarrow> i64 list" where
  "opened_ids reg [] s = []"
| "opened_ids reg ((c, i) # ms) s =
     (let (e, s') = sequenceOperation reg c i s;
          rest = opened_ids reg ms s'
      in if role reg c = roleOpens \<and> e = None \<and> i \<notin> openBsOps s then i # rest else rest)"

lemma sequence_run_retired: "retired i s \<Longrightarrow> retired i (sequence_run reg ms s)"
  by (induction reg ms s rule: sequence_run.induct)
    (simp, metis prod.collapse sequenceOperation_retired sequence_run.simps(2))

lemma sequence_run_wf: "wf_ops s \<Longrightarrow> wf_ops (sequence_run reg ms s)"
  by (induction reg ms s rule: sequence_run.induct)
    (simp, metis prod.collapse sequenceOperation_wf sequence_run.simps(2))

lemma sequence_run_eui: "BaseStationEUI (sequence_run reg ms s) = BaseStationEUI s"
  by (induction reg ms s rule: sequence_run.induct)
    (simp, metis prod.collapse sequenceOperation_frame(4) sequence_run.simps(2))

lemma sequence_open_new:
  assumes "sequenceOperation reg c i s = (e, s')" "role reg c = roleOpens" "e = None" "i \<notin> openBsOps s"
  shows "sint (LastBsOpId s) < sint i \<and> LastBsOpId s' = i"
  using assms(1,3,4) unfolding sequence_opens [OF assms(2)] by (auto split: if_splits)

text \<open>The session of a new connection, and one whose station has introduced itself.\<close>

definition newSession :: "i64 \<Rightarrow> Session" where
  "newSession defaultTenantID =
     \<lparr>BaseStationEUI = 0, ClientVersion = [], NegotiatedVersion = [], SessionUUID = [],
      DbSessionID = 0, BsUUID = [], IsResumed = False, CanResume = False,
      HandshakeComplete = False, LastBsOpId = 0, LastScOpId = 0,
      Encoding = [], OrganizationID = uuidNil, ResolvedTenantID = defaultTenantID,
      connectState = ConnectStateAwaitingConnect, openBsOps = {},
      Bidirectional = False, pendingErrorAcks = []\<rparr>"

lemma registry_roles:
  "role registry CmdAttach = roleOpens" "role registry CmdAttachComplete = roleCloses"
  by code_simp+

text \<open>
  C18. Over any sequence of inbound messages the IDs at which the base station opens new operations
  strictly increase and lie above the newest ID seen before; errors, completions, replies and
  retries in between change nothing about that.
\<close>

theorem opened_ids_increase:
  "sorted_wrt (\<lambda>i j. sint i < sint j) (opened_ids reg ms s) \<and>
   (\<forall>i \<in> set (opened_ids reg ms s). sint (LastBsOpId s) < sint i)"
proof (induction ms arbitrary: s)
  case (Cons m ms)
  obtain c i where m: "m = (c, i)" by force
  obtain e s' where step: "sequenceOperation reg c i s = (e, s')" by force
  have ih: "sorted_wrt (\<lambda>i j. sint i < sint j) (opened_ids reg ms s')"
      "\<forall>i \<in> set (opened_ids reg ms s'). sint (LastBsOpId s') < sint i"
    using Cons.IH [of s'] by auto
  have mono: "sint (LastBsOpId s) \<le> sint (LastBsOpId s')" by (rule sequenceOperation_mono [OF step])
  show ?case
  proof (cases "role reg c = roleOpens \<and> e = None \<and> i \<notin> openBsOps s")
    case True
    with sequence_open_new [OF step] have "sint (LastBsOpId s) < sint i" "LastBsOpId s' = i" by auto
    then show ?thesis using True ih m step by fastforce
  next
    case False
    then have "opened_ids reg (m # ms) s = opened_ids reg ms s'"
      using m step by (simp add: Let_def)
    then show ?thesis using ih mono by fastforce
  qed
qed simp

theorem opened_ids_increase_witness:
  "let s = (newSession 1)\<lparr>BaseStationEUI := 7\<rparr>;
       ms = [(CmdAttach, 2), (CmdAttach, 1), (CmdAttachComplete, 2), (CmdAttach, 5)]
   in opened_ids registry ms s = [2, 5] \<and>
      sorted_wrt (\<lambda>i j. sint i < sint j) (opened_ids registry ms s) \<and>
      (\<forall>i \<in> set (opened_ids registry ms s). sint (LastBsOpId s) < sint i)"
proof -
  let ?s = "(newSession 1)\<lparr>BaseStationEUI := 7\<rparr>"
  let ?ms = "[(CmdAttach, 2), (CmdAttach, 1), (CmdAttachComplete, 2), (CmdAttach, 5)]"
  have "opened_ids registry ?ms ?s = [2, 5]"
    by (simp add: sequence_opens sequence_closes registry_roles newSession_def)
  with opened_ids_increase [of registry ?ms ?s] show ?thesis by (simp add: Let_def)
qed

lemma sequence_closes_retired:
  assumes "wf_ops s" "role reg c = roleCloses" "sequenceOperation reg c i s = (None, s')"
  shows "retired i s' \<and> 0 < sint i \<and> BaseStationEUI s' = BaseStationEUI s"
  using assms(1,3) unfolding sequence_closes [OF assms(2)]
  by (auto simp: wf_ops_def retired_def split: if_splits)

text \<open>
  C26. An operation the base station has completed stays completed: whatever messages follow on the
  connection, opening it again is refused as going backwards and completing it again as not open.
\<close>

theorem completed_operation_stays_closed:
  assumes "wf_ops s" "BaseStationEUI s \<noteq> 0"
    and "role reg c = roleCloses" "sequenceOperation reg c i s = (None, s')"
  shows "(role reg c' = roleOpens \<longrightarrow>
            fst (sequenceOperation reg c' i (sequence_run reg ms s')) = Some ErrOperationIDBackwards)
       \<and> (role reg c' = roleCloses \<longrightarrow>
            fst (sequenceOperation reg c' i (sequence_run reg ms s')) = Some ErrOperationNotOpen)"
proof -
  let ?s2 = "sequence_run reg ms s'"
  have i: "retired i s'" "0 < sint i" "BaseStationEUI s' = BaseStationEUI s"
    using sequence_closes_retired [OF assms(1,3,4)] by auto
  have r: "retired i ?s2" using i(1) by (simp add: sequence_run_retired)
  have e: "BaseStationEUI ?s2 \<noteq> 0" using i(3) assms(2) by (simp add: sequence_run_eui)
  show ?thesis
    using r e i(2) by (auto simp: sequence_opens sequence_closes retired_def)
qed

theorem completed_operation_stays_closed_witness:
  "let s = (newSession 1)\<lparr>BaseStationEUI := 7, LastBsOpId := 3, openBsOps := {3}\<rparr>;
       s' = snd (sequenceOperation registry CmdAttachComplete 3 s)
   in fst (sequenceOperation registry CmdAttach 3 (sequence_run registry [(CmdAttach, 4)] s'))
      = Some ErrOperationIDBackwards"
proof -
  let ?s = "(newSession 1)\<lparr>BaseStationEUI := 7, LastBsOpId := 3, openBsOps := {3}\<rparr>"
  have step: "sequenceOperation registry CmdAttachComplete 3 ?s = (None, ?s\<lparr>openBsOps := {}\<rparr>)"
    by (simp add: sequence_closes registry_roles newSession_def)
  have "wf_ops ?s" "BaseStationEUI ?s \<noteq> 0" by (simp_all add: wf_ops_def newSession_def)
  from completed_operation_stays_closed [OF this registry_roles(2) step, of CmdAttach "[(CmdAttach, 4)]"]
  show ?thesis by (simp add: Let_def step registry_roles)
qed

section \<open>Service-center operation IDs\<close>

fun next_ids :: "nat \<Rightarrow> 'a ProtocolSessionState_scheme \<Rightarrow> i64 list \<times> 'a ProtocolSessionState_scheme" where
  "next_ids 0 p = ([], p)"
| "next_ids (Suc n) p =
     (let (i, p') = NextScOpID p; (is, p'') = next_ids n p' in (i # is, p''))"

lemma NextScOpID_sint:
  assumes "- (2 ^ 63) < sint (LastScOpId p)"
  shows "sint (fst (NextScOpID p)) = sint (LastScOpId p) - 1"
    "LastScOpId (snd (NextScOpID p)) = fst (NextScOpID p)"
proof -
  have "LastScOpId p - 1 = (word_of_int (sint (LastScOpId p) - 1) :: i64)"
    by (simp add: of_int_sint)
  moreover have "sint (LastScOpId p) - 1 < 2 ^ 63" using sint64_bounds [of "LastScOpId p"] by simp
  ultimately show "sint (fst (NextScOpID p)) = sint (LastScOpId p) - 1"
    using assms sint_word_of_int64 [of "sint (LastScOpId p) - 1"] by (simp add: NextScOpID_def)
qed (simp add: NextScOpID_def)

lemma next_ids_sint:
  "- (2 ^ 63) \<le> sint (LastScOpId p) - int n \<Longrightarrow>
   map sint (fst (next_ids n p)) = map (\<lambda>k. sint (LastScOpId p) - int k) [1..<Suc n] \<and>
   sint (LastScOpId (snd (next_ids n p))) = sint (LastScOpId p) - int n"
proof (induction n arbitrary: p)
  case (Suc n)
  obtain i p' where p': "NextScOpID p = (i, p')" by force
  then have i: "sint i = sint (LastScOpId p) - 1" "LastScOpId p' = i"
    using NextScOpID_sint [of p] Suc.prems by auto
  have "- (2 ^ 63) \<le> sint (LastScOpId p') - int n" using Suc.prems i by simp
  from Suc.IH [OF this] have ih: "map sint (fst (next_ids n p')) = map (\<lambda>k. sint i - int k) [1..<Suc n]"
      "sint (LastScOpId (snd (next_ids n p'))) = sint i - int n"
    using i(2) by auto
  have shift: "map (\<lambda>k. sint i - int k) [1..<Suc n] = map (\<lambda>k. sint (LastScOpId p) - int k) [2..<Suc (Suc n)]"
    unfolding i(1) by (simp add: map_Suc_upt [symmetric] numeral_2_eq_2 del: upt_Suc)
  have "[1..<Suc (Suc n)] = 1 # [2..<Suc (Suc n)]"
    by (simp add: upt_conv_Cons numeral_2_eq_2)
  then show ?case
    using ih shift i(1) by (simp add: p' Let_def case_prod_beta)
qed simp



end
