(* ===== verification/Go_Sort.thy ===== *)
theory Go_Sort
  imports KC_Prelude "HOL-Library.Multiset"
begin

text \<open>
  \<^verbatim>\<open>sort.Slice\<close> and its relatives as the code uses them. Go fixes neither the algorithm nor the order
  of equal elements, so the model is an insertion sort and the interface \<open>slice_order\<close> states when
  that choice does not matter: for a strict total order every sorted permutation is the same list
  (\<open>sorted_unique\<close>), and the first element that satisfies a predicate is the best one
  (\<open>find_sorted_best\<close>).
\<close>

section \<open>The sort\<close>

fun insert_slice :: "('a \<Rightarrow> 'a \<Rightarrow> bool) \<Rightarrow> 'a \<Rightarrow> 'a list \<Rightarrow> 'a list" where
  "insert_slice lt x [] = [x]"
| "insert_slice lt x (y # ys) = (if lt y x then y # insert_slice lt x ys else x # y # ys)"

definition sort_slice :: "('a \<Rightarrow> 'a \<Rightarrow> bool) \<Rightarrow> 'a list \<Rightarrow> 'a list" where
  "sort_slice lt xs = foldr (insert_slice lt) xs []"

lemma mset_insert_slice [simp]: "mset (insert_slice lt x ys) = add_mset x (mset ys)"
  by (induction ys) auto

lemma set_insert_slice [simp]: "set (insert_slice lt x ys) = insert x (set ys)"
  by (induction ys) auto

lemma mset_sort_slice [simp]: "mset (sort_slice lt xs) = mset xs"
  by (induction xs) (simp_all add: sort_slice_def)

lemma set_sort_slice [simp]: "set (sort_slice lt xs) = set xs"
  using mset_eq_setD [OF mset_sort_slice] .

lemma distinct_sort_slice [simp]: "distinct (sort_slice lt xs) = distinct xs"
  using mset_eq_imp_distinct_iff [OF mset_sort_slice] .

lemma length_sort_slice [simp]: "length (sort_slice lt xs) = length xs"
  using mset_eq_length [OF mset_sort_slice] .

section \<open>Strict orders a slice is sorted by\<close>

text \<open>Antisymmetry and totality are asked for on the elements that are sorted only.\<close>

locale slice_weak_order =
  fixes lt :: "'a \<Rightarrow> 'a \<Rightarrow> bool"
  assumes asym: "lt x y \<Longrightarrow> \<not> lt y x"
    and neg_trans: "\<not> lt x y \<Longrightarrow> \<not> lt y z \<Longrightarrow> \<not> lt x z"
begin

definition before :: "'a \<Rightarrow> 'a \<Rightarrow> bool" where
  "before x y \<longleftrightarrow> \<not> lt y x"

lemma before_refl [simp]: "before x x"
  using asym by (auto simp: before_def)

lemma before_trans: "before x y \<Longrightarrow> before y z \<Longrightarrow> before x z"
  unfolding before_def using neg_trans by blast

lemma lt_imp_before: "lt x y \<Longrightarrow> before x y"
  unfolding before_def using asym by blast

lemma sorted_insert_slice: "sorted_wrt before ys \<Longrightarrow> sorted_wrt before (insert_slice lt x ys)"
proof (induction ys)
  case (Cons y ys)
  show ?case
  proof (cases "lt y x")
    case True
    then show ?thesis using Cons by (auto intro: lt_imp_before)
  next
    case False
    then have "before x y" by (simp add: before_def)
    then show ?thesis using False Cons.prems by (auto intro: before_trans)
  qed
qed simp

lemma sorted_sort_slice: "sorted_wrt before (sort_slice lt xs)"
  by (induction xs) (simp_all add: sort_slice_def sorted_insert_slice)

lemma find_sorted_best:
  assumes "sorted_wrt before xs" "find P xs = Some x"
  shows "x \<in> set xs \<and> P x \<and> (\<forall>y \<in> set xs. P y \<longrightarrow> before x y)"
  using assms by (induction xs) (auto split: if_splits)

end

locale slice_order = slice_weak_order lt for lt :: "'a \<Rightarrow> 'a \<Rightarrow> bool" +
  fixes elem :: "'a \<Rightarrow> bool"
  assumes total: "elem x \<Longrightarrow> elem y \<Longrightarrow> x \<noteq> y \<Longrightarrow> lt x y \<or> lt y x"
begin

lemma before_antisym: "elem x \<Longrightarrow> elem y \<Longrightarrow> before x y \<Longrightarrow> before y x \<Longrightarrow> x = y"
  unfolding before_def using total by blast

lemma sorted_unique:
  "sorted_wrt before xs \<Longrightarrow> sorted_wrt before ys \<Longrightarrow> mset xs = mset ys \<Longrightarrow> list_all elem xs \<Longrightarrow> xs = ys"
proof (induction xs arbitrary: ys)
  case (Cons x xs)
  then obtain y ys' where ys: "ys = y # ys'" by (cases ys) auto
  have xy: "x \<in> set ys" "y \<in> set (x # xs)"
    using Cons.prems(3) ys by (metis list.set_intros(1) mset_eq_setD)+
  with Cons.prems(1,2) ys have "before x y" "before y x" by auto
  then have "x = y" using xy Cons.prems(4) by (intro before_antisym) (auto simp: list_all_iff)
  with Cons ys show ?case by auto
qed simp

lemma sort_slice_any:
  "list_all elem xs \<Longrightarrow> sorted_wrt before ys \<Longrightarrow> mset ys = mset xs \<Longrightarrow> ys = sort_slice lt xs"
  by (rule sorted_unique)
    (auto simp: sorted_sort_slice list_all_iff dest: mset_eq_setD)

lemma find_sort_slice_Some_iff:
  assumes "list_all elem xs"
  shows "find P (sort_slice lt xs) = Some x \<longleftrightarrow> x \<in> set xs \<and> P x \<and> (\<forall>y \<in> set xs. P y \<longrightarrow> before x y)"
proof
  assume "find P (sort_slice lt xs) = Some x"
  from find_sorted_best [OF sorted_sort_slice this]
  show "x \<in> set xs \<and> P x \<and> (\<forall>y \<in> set xs. P y \<longrightarrow> before x y)" by simp
next
  assume r: "x \<in> set xs \<and> P x \<and> (\<forall>y \<in> set xs. P y \<longrightarrow> before x y)"
  then have "find P (sort_slice lt xs) \<noteq> None"
    by (auto simp: find_None_iff)
  then obtain y where y: "find P (sort_slice lt xs) = Some y" by auto
  from find_sorted_best [OF sorted_sort_slice this] r
  have "before x y" "before y x" "y \<in> set xs" by auto
  then have "x = y" using r assms by (intro before_antisym) (auto simp: list_all_iff)
  then show "find P (sort_slice lt xs) = Some x" using y by simp
qed

end

end
