(* ===== verification/Version_Negotiation.thy ===== *)
theory Version_Negotiation
  imports Go_Values Go_Sort
begin

text \<open>
  Protocol versions of BSSCI: \<^verbatim>\<open>ParseVersion\<close> and \<^verbatim>\<open>parseVersionComponent\<close> of
  \<^verbatim>\<open>KC-Core/pkg/bssci/conversions.go\<close>, and the negotiator of
  \<^verbatim>\<open>KC-Core/internal/services/bssci/version_negotiator.go\<close>. Logging is left out; an error is the
  catalog token it carries.

  Shown: printing and parsing a version are inverse, parsing accepts exactly three decimal
  components in range, and negotiation answers with the highest supported version that has the
  requested major and no higher minor, or says which of the two is missing.
\<close>

section \<open>strings.Split on one separator\<close>

fun split_on :: "char \<Rightarrow> string \<Rightarrow> string list" where
  "split_on c [] = [[]]"
| "split_on c (x # xs) =
     (if x = c then [] # split_on c xs
      else (case split_on c xs of p # ps \<Rightarrow> (x # p) # ps | [] \<Rightarrow> [[x]]))"

lemma split_on_nonempty [simp]: "split_on c s \<noteq> []"
  by (induction s) (auto split: list.splits)

lemma split_on_append:
  "c \<notin> set p \<Longrightarrow> split_on c (p @ c # s) = p # split_on c s"
  by (induction p) auto

lemma split_on_no_sep: "c \<notin> set p \<Longrightarrow> split_on c p = [p]"
  by (induction p) auto

lemma split_on_pieces: "p \<in> set (split_on c s) \<Longrightarrow> c \<notin> set p"
  by (induction s arbitrary: p) (auto split: if_splits list.splits)

section \<open>Parsing\<close>

datatype version_error =
    ErrInvalidVersionFormat | ErrInvalidMajorVersion | ErrInvalidMinorVersion
  | ErrInvalidPatchVersion | ErrUnsupportedMajorVersion | ErrUnsupportedMinorVersion

text \<open>Go's \<^verbatim>\<open>int\<close> has 64 bits; \<^verbatim>\<open>strconv.Atoi\<close> refuses what lies beyond it.\<close>

definition maxInt :: int where
  "maxInt = 2 ^ 63 - 1"

definition parseVersionComponent :: "string \<Rightarrow> nat option" where
  "parseVersionComponent s =
     (if s = [] then None
      else if \<not> list_all is_digit s then None
      else if int (decimal s) > maxInt then None
      else Some (decimal s))"

definition component_or :: "version_error \<Rightarrow> string \<Rightarrow> version_error + nat" where
  "component_or e s = (case parseVersionComponent s of None \<Rightarrow> Inl e | Some n \<Rightarrow> Inr n)"

definition ParseVersion :: "string \<Rightarrow> version_error + nat \<times> nat \<times> nat" where
  "ParseVersion v =
     (case split_on CHR ''.'' v of
        [a, b, c] \<Rightarrow>
          bind_result (component_or ErrInvalidMajorVersion a) (\<lambda>major.
          bind_result (component_or ErrInvalidMinorVersion b) (\<lambda>minor.
          bind_result (component_or ErrInvalidPatchVersion c) (\<lambda>patch.
          Inr (major, minor, patch))))
      | _ \<Rightarrow> Inl ErrInvalidVersionFormat)"

definition canonical_text :: "nat \<Rightarrow> nat \<Rightarrow> nat \<Rightarrow> string" where
  "canonical_text major minor patch =
     show_nat major @ CHR ''.'' # show_nat minor @ CHR ''.'' # show_nat patch"

lemma parseVersionComponent_show [simp]: "int n \<le> maxInt \<Longrightarrow> parseVersionComponent (show_nat n) = Some n"
  by (auto simp: parseVersionComponent_def list_all_iff dest: show_nat_digits)

lemma show_nat_no_dot: "CHR ''.'' \<notin> set (show_nat n)"
  using show_nat_digits [of "CHR ''.''" n] by (auto simp: is_digit_def)

lemma ParseVersion_canonical_text:
  assumes "int major \<le> maxInt" "int minor \<le> maxInt" "int patch \<le> maxInt"
  shows "ParseVersion (canonical_text major minor patch) = Inr (major, minor, patch)"
proof -
  have "split_on CHR ''.'' (canonical_text major minor patch)
        = [show_nat major, show_nat minor, show_nat patch]"
    by (simp add: canonical_text_def split_on_append split_on_no_sep show_nat_no_dot)
  with assms show ?thesis
    by (simp add: ParseVersion_def component_or_def)
qed

lemma parseVersionComponent_le: "parseVersionComponent s = Some n \<Longrightarrow> int n \<le> maxInt"
  by (auto simp: parseVersionComponent_def split: if_splits)

lemma component_or_Inr: "component_or e s = Inr n \<longleftrightarrow> parseVersionComponent s = Some n"
  by (auto simp: component_or_def split: option.splits)

lemma ParseVersion_bounds:
  assumes "ParseVersion v = Inr (a, b, c)"
  shows "int a \<le> maxInt \<and> int b \<le> maxInt \<and> int c \<le> maxInt"
  using assms by (auto simp: ParseVersion_def component_or_Inr bind_result_Inr_iff
      dest: parseVersionComponent_le split: list.splits)

lemma canonical_text_inj:
  assumes "canonical_text a b c = canonical_text a' b' c'"
    and "int a \<le> maxInt" "int b \<le> maxInt" "int c \<le> maxInt" "int a' \<le> maxInt" "int b' \<le> maxInt" "int c' \<le> maxInt"
  shows "a = a' \<and> b = b' \<and> c = c'"
proof -
  have "ParseVersion (canonical_text a b c) = ParseVersion (canonical_text a' b' c')"
    using assms(1) by (rule arg_cong)
  then show ?thesis using assms(2-) by (simp add: ParseVersion_canonical_text)
qed

section \<open>The negotiator\<close>

record supportedVersion =
  major :: nat
  minor :: nat
  patch :: nat
  canonical :: string

datatype negotiator_error =
    NegotiatorNilLogger | NegotiatorEmptySupportedSet
  | MalformedSupportedVersion string version_error | DuplicateSupportedVersion string

text \<open>The comparison \<^verbatim>\<open>sort.Slice\<close> is given: newest first.\<close>

definition version_before :: "supportedVersion \<Rightarrow> supportedVersion \<Rightarrow> bool" where
  "version_before a b =
     (if major a \<noteq> major b then major a > major b
      else if minor a \<noteq> minor b then minor a > minor b
      else patch a > patch b)"

text \<open>The loop over the configured set: parse, normalise, refuse a duplicate.\<close>

fun parse_supported ::
    "string list \<Rightarrow> string list \<Rightarrow> supportedVersion list \<Rightarrow> negotiator_error + supportedVersion list" where
  "parse_supported [] seen parsed = Inr parsed"
| "parse_supported (raw # rest) seen parsed =
     (case ParseVersion raw of
        Inl e \<Rightarrow> Inl (MalformedSupportedVersion raw e)
      | Inr (ma, mi, pa) \<Rightarrow>
          let canon = canonical_text ma mi pa in
          if canon \<in> set seen then Inl (DuplicateSupportedVersion canon)
          else parse_supported rest (canon # seen)
                 (parsed @ [\<lparr>major = ma, minor = mi, patch = pa, canonical = canon\<rparr>]))"

definition NewVersionNegotiator ::
    "bool \<Rightarrow> string list \<Rightarrow> negotiator_error + supportedVersion list" where
  "NewVersionNegotiator has_logger supported =
     (if \<not> has_logger then Inl NegotiatorNilLogger
      else if supported = [] then Inl NegotiatorEmptySupportedSet
      else bind_result (parse_supported supported [] []) (\<lambda>parsed.
             Inr (sort_slice version_before parsed)))"

fun negotiate_loop :: "nat \<Rightarrow> nat \<Rightarrow> bool \<Rightarrow> supportedVersion list \<Rightarrow> version_error + string" where
  "negotiate_loop reqMajor reqMinor majorMatched [] =
     (if \<not> majorMatched then Inl ErrUnsupportedMajorVersion else Inl ErrUnsupportedMinorVersion)"
| "negotiate_loop reqMajor reqMinor majorMatched (v # vs) =
     (if major v \<noteq> reqMajor then negotiate_loop reqMajor reqMinor majorMatched vs
      else if minor v > reqMinor then negotiate_loop reqMajor reqMinor True vs
      else Inr (canonical v))"

definition Negotiate :: "supportedVersion list \<Rightarrow> string \<Rightarrow> version_error + string" where
  "Negotiate supported requested =
     bind_result (ParseVersion requested) (\<lambda>(reqMajor, reqMinor, _).
       negotiate_loop reqMajor reqMinor False supported)"

section \<open>Correctness of the negotiator\<close>

definition wf_version :: "supportedVersion \<Rightarrow> bool" where
  "wf_version v \<longleftrightarrow> int (major v) \<le> maxInt \<and> int (minor v) \<le> maxInt \<and> int (patch v) \<le> maxInt \<and>
     canonical v = canonical_text (major v) (minor v) (patch v)"

lemma wf_version_eq:
  "wf_version v \<Longrightarrow> wf_version w \<Longrightarrow> major v = major w \<Longrightarrow> minor v = minor w \<Longrightarrow> patch v = patch w \<Longrightarrow>
   v = (w :: supportedVersion)"
  by (simp add: wf_version_def)

interpretation vo: slice_order version_before wf_version
proof unfold_locales
  fix x y :: supportedVersion
  assume "wf_version x" "wf_version y" "x \<noteq> y"
  then show "version_before x y \<or> version_before y x"
    using wf_version_eq [of x y] by (simp add: version_before_def) (metis linorder_neqE_nat)
qed (auto simp: version_before_def split: if_splits)

definition version_triple :: "supportedVersion \<Rightarrow> nat \<times> nat \<times> nat" where
  "version_triple v = (major v, minor v, patch v)"

lemma parse_supported_Inr:
  "parse_supported raws seen parsed = Inr vs \<Longrightarrow> list_all wf_version parsed \<Longrightarrow>
   list_all wf_version vs \<and> map (Inr \<circ> version_triple) vs = map (Inr \<circ> version_triple) parsed @ map ParseVersion raws"
proof (induction raws seen parsed arbitrary: vs rule: parse_supported.induct)
  case (2 raw rest seen parsed)
  then obtain ma mi pa where p: "ParseVersion raw = Inr (ma, mi, pa)"
    by (auto split: sum.splits)
  let ?v = "\<lparr>major = ma, minor = mi, patch = pa, canonical = canonical_text ma mi pa\<rparr>"
  have "wf_version ?v" using ParseVersion_bounds [OF p] by (simp add: wf_version_def)
  with 2 p show ?case by (auto simp: Let_def version_triple_def split: if_splits)
qed simp

lemma negotiate_loop_find:
  "negotiate_loop M m b vs =
     (case find (\<lambda>v. major v = M \<and> minor v \<le> m) vs of
        Some v \<Rightarrow> Inr (canonical v)
      | None \<Rightarrow> if b \<or> (\<exists>v \<in> set vs. major v = M) then Inl ErrUnsupportedMinorVersion
                else Inl ErrUnsupportedMajorVersion)"
  by (induction vs arbitrary: b) (auto split: option.splits)

text \<open>The versions a configured set offers.\<close>

definition offers :: "string list \<Rightarrow> nat \<times> nat \<times> nat \<Rightarrow> bool" where
  "offers raws v \<longleftrightarrow> Inr v \<in> ParseVersion ` set raws"

definition represents :: "string list \<Rightarrow> supportedVersion list \<Rightarrow> bool" where
  "represents raws vs \<longleftrightarrow> list_all wf_version vs \<and> (\<forall>t. offers raws t \<longleftrightarrow> t \<in> version_triple ` set vs)"

lemma represents_wf: "represents raws vs \<Longrightarrow> v \<in> set vs \<Longrightarrow> wf_version v"
  by (simp add: represents_def list_all_iff)

lemma represents_offers:
  "represents raws vs \<Longrightarrow>
   offers raws (a, b, c) \<longleftrightarrow> (\<exists>v \<in> set vs. major v = a \<and> minor v = b \<and> patch v = c)"
  by (auto simp: represents_def version_triple_def image_iff)

lemma represents_all:
  assumes "represents raws vs"
  shows "(\<forall>b c. offers raws (M, b, c) \<longrightarrow> Q b c) \<longleftrightarrow> (\<forall>v \<in> set vs. major v = M \<longrightarrow> Q (minor v) (patch v))"
  unfolding represents_offers [OF assms] by blast

lemma represents_ex:
  assumes "represents raws vs"
  shows "(\<exists>b c. offers raws (M, b, c)) \<longleftrightarrow> (\<exists>v \<in> set vs. major v = M)"
  unfolding represents_offers [OF assms] by blast

lemma NewVersionNegotiator_members:
  assumes "NewVersionNegotiator b raws = Inr n"
  shows "\<exists>vs. n = sort_slice version_before vs \<and> represents raws vs"
proof -
  from assms obtain vs where vs: "parse_supported raws [] [] = Inr vs" "n = sort_slice version_before vs"
    by (auto simp: NewVersionNegotiator_def bind_result_Inr_iff split: if_splits)
  from parse_supported_Inr [OF vs(1)]
  have wf: "list_all wf_version vs" and m: "map (Inr \<circ> version_triple) vs = map ParseVersion raws"
    by simp_all
  from arg_cong [OF m, of set] have "ParseVersion ` set raws = Inr ` version_triple ` set vs"
    by (simp add: image_comp)
  then have "represents raws vs"
    using wf by (auto simp: offers_def represents_def)
  with vs show ?thesis by blast
qed

definition newest_within :: "string list \<Rightarrow> nat \<Rightarrow> nat \<Rightarrow> nat \<Rightarrow> nat \<Rightarrow> bool" where
  "newest_within raws M m m' p' \<longleftrightarrow> offers raws (M, m', p') \<and> m' \<le> m \<and>
     (\<forall>m'' p''. offers raws (M, m'', p'') \<longrightarrow> m'' \<le> m \<longrightarrow> m'' < m' \<or> m'' = m' \<and> p'' \<le> p')"

text \<open>The loop picks the first match of the sorted list.\<close>

definition pick_version :: "nat \<Rightarrow> nat \<Rightarrow> supportedVersion list \<Rightarrow> supportedVersion option" where
  "pick_version M m vs = find (\<lambda>v. major v = M \<and> minor v \<le> m) (sort_slice version_before vs)"

definition negotiated :: "nat \<Rightarrow> nat \<Rightarrow> supportedVersion list \<Rightarrow> version_error + string" where
  "negotiated M m vs =
     (case pick_version M m vs of
        Some v \<Rightarrow> Inr (canonical v)
      | None \<Rightarrow> if \<exists>v \<in> set vs. major v = M then Inl ErrUnsupportedMinorVersion
                else Inl ErrUnsupportedMajorVersion)"

lemma Negotiate_picks:
  assumes "NewVersionNegotiator b raws = Inr n" "ParseVersion req = Inr (M, m, p)"
  shows "\<exists>vs. Negotiate n req = negotiated M m vs \<and> represents raws vs"
proof -
  from NewVersionNegotiator_members [OF assms(1)] obtain vs where
    vs: "n = sort_slice version_before vs" "represents raws vs"
    by blast
  have "Negotiate n req = negotiate_loop M m False n"
    using assms(2) by (simp add: Negotiate_def)
  also have "\<dots> = negotiated M m vs"
    unfolding negotiate_loop_find negotiated_def pick_version_def vs(1) by (auto split: option.splits)
  finally show ?thesis using vs by blast
qed

lemma version_order:
  "major v = major w \<Longrightarrow>
   vo.before v w \<longleftrightarrow> minor w < minor v \<or> minor w = minor v \<and> patch w \<le> patch v"
  by (auto simp: vo.before_def version_before_def)

lemma pick_version_newest:
  assumes "represents raws vs" "v \<in> set vs"
  shows "pick_version M m vs = Some v \<longleftrightarrow> major v = M \<and> newest_within raws M m (minor v) (patch v)"
proof -
  have wf: "list_all wf_version vs" using assms(1) by (simp add: represents_def)
  have off: "offers raws (major v, minor v, patch v)"
    using assms by (auto simp: represents_offers)
  have "pick_version M m vs = Some v \<longleftrightarrow>
      major v = M \<and> minor v \<le> m \<and> (\<forall>w \<in> set vs. major w = M \<longrightarrow> minor w \<le> m \<longrightarrow> vo.before v w)"
    unfolding pick_version_def vo.find_sort_slice_Some_iff [OF wf] using assms(2) by blast
  also have "\<dots> \<longleftrightarrow> major v = M \<and> minor v \<le> m \<and> (\<forall>w \<in> set vs. major w = M \<longrightarrow>
      (minor w \<le> m \<longrightarrow> minor w < minor v \<or> minor w = minor v \<and> patch w \<le> patch v))"
    using version_order [of v] by (intro conj_cong refl ball_cong) auto
  also have "\<dots> \<longleftrightarrow> major v = M \<and> newest_within raws M m (minor v) (patch v)"
    unfolding newest_within_def represents_all [OF assms(1)] using off by blast
  finally show ?thesis .
qed

lemma pick_version_in: "pick_version M m vs = Some v \<Longrightarrow> v \<in> set vs \<and> major v = M"
  using vo.find_sorted_best [OF vo.sorted_sort_slice, of _ vs v] by (auto simp: pick_version_def)

lemma Negotiate_Inr_iff:
  assumes "NewVersionNegotiator b raws = Inr n" "ParseVersion req = Inr (M, m, p)"
  shows "Negotiate n req = Inr s \<longleftrightarrow> (\<exists>m' p'. s = canonical_text M m' p' \<and> newest_within raws M m m' p')"
proof -
  obtain vs where vs: "Negotiate n req = negotiated M m vs" "represents raws vs"
    using Negotiate_picks [OF assms] by blast
  have canon: "canonical v = canonical_text M (minor v) (patch v)" if "v \<in> set vs" "major v = M" for v
    using represents_wf [OF vs(2) that(1)] that(2) by (simp add: wf_version_def)
  have "Negotiate n req = Inr s \<longleftrightarrow> (\<exists>v. pick_version M m vs = Some v \<and> s = canonical v)"
    unfolding vs(1) negotiated_def by (auto split: option.splits if_splits)
  also have "\<dots> \<longleftrightarrow> (\<exists>m' p'. s = canonical_text M m' p' \<and> newest_within raws M m m' p')"
  proof
    assume "\<exists>v. pick_version M m vs = Some v \<and> s = canonical v"
    then show "\<exists>m' p'. s = canonical_text M m' p' \<and> newest_within raws M m m' p'"
      using canon pick_version_in pick_version_newest [OF vs(2)] by metis
  next
    assume "\<exists>m' p'. s = canonical_text M m' p' \<and> newest_within raws M m m' p'"
    then obtain m' p' where s: "s = canonical_text M m' p'" "newest_within raws M m m' p'" by blast
    then obtain v where v: "v \<in> set vs" "major v = M" "minor v = m'" "patch v = p'"
      by (auto simp: newest_within_def represents_offers [OF vs(2)])
    with s have "pick_version M m vs = Some v" by (simp add: pick_version_newest [OF vs(2)])
    then show "\<exists>v. pick_version M m vs = Some v \<and> s = canonical v"
      using v s canon [of v] by (intro exI [of _ v]) simp
  qed
  finally show ?thesis .
qed

lemma negotiated_Inl:
  assumes "represents raws vs"
  shows "negotiated M m vs = Inl ErrUnsupportedMajorVersion \<longleftrightarrow> \<not> (\<exists>m' p'. offers raws (M, m', p'))"
    and "negotiated M m vs = Inl ErrUnsupportedMinorVersion \<longleftrightarrow>
      (\<exists>m' p'. offers raws (M, m', p')) \<and> (\<forall>m' p'. offers raws (M, m', p') \<longrightarrow> m' > m)"
proof -
  have pick: "pick_version M m vs = None \<longleftrightarrow> (\<forall>v \<in> set vs. major v = M \<longrightarrow> minor v > m)"
    by (auto simp: pick_version_def find_None_iff not_le)
  show "negotiated M m vs = Inl ErrUnsupportedMajorVersion \<longleftrightarrow> \<not> (\<exists>m' p'. offers raws (M, m', p'))"
    unfolding represents_ex [OF assms] negotiated_def
    using pick by (auto split: option.splits)
  show "negotiated M m vs = Inl ErrUnsupportedMinorVersion \<longleftrightarrow>
      (\<exists>m' p'. offers raws (M, m', p')) \<and> (\<forall>m' p'. offers raws (M, m', p') \<longrightarrow> m' > m)"
    unfolding represents_ex [OF assms] represents_all [OF assms] negotiated_def
    using pick by (auto split: option.splits)
qed

text \<open>
  C35. A negotiator built from a supported set answers a well-formed request with version \<open>s\<close>
  exactly when \<open>s\<close> is the newest version of the set that has the requested major and a minor not
  above the requested one; the requested patch plays no part. It reports an unsupported major
  exactly when no supported version has the major, and an unsupported minor exactly when some have
  it and all their minors are higher.
\<close>

theorem Negotiate_newest:
  assumes "NewVersionNegotiator True raws = Inr n" "ParseVersion req = Inr (M, m, p)"
  shows "(Negotiate n req = Inr s \<longleftrightarrow>
            (\<exists>m' p'. s = canonical_text M m' p' \<and> newest_within raws M m m' p'))
       \<and> (Negotiate n req = Inl ErrUnsupportedMajorVersion \<longleftrightarrow> \<not> (\<exists>m' p'. offers raws (M, m', p')))
       \<and> (Negotiate n req = Inl ErrUnsupportedMinorVersion \<longleftrightarrow>
            (\<exists>m' p'. offers raws (M, m', p')) \<and> (\<forall>m' p'. offers raws (M, m', p') \<longrightarrow> m' > m))"
proof -
  obtain vs where "Negotiate n req = negotiated M m vs" "represents raws vs"
    using Negotiate_picks [OF assms] by blast
  then show ?thesis
    using negotiated_Inl [of raws vs M m] Negotiate_Inr_iff [OF assms] by (intro conjI) simp_all
qed

theorem Negotiate_newest_witness:
  "\<exists>n. NewVersionNegotiator True [''1.0.0'', ''1.2.3'', ''2.0.0''] = Inr n \<and>
     Negotiate n ''1.5.9'' = Inr ''1.2.3'' \<and> newest_within [''1.0.0'', ''1.2.3'', ''2.0.0''] 1 5 2 3"
proof -
  define n where "n = [\<lparr>major = 2, minor = 0, patch = 0, canonical = ''2.0.0''\<rparr>,
           \<lparr>major = 1, minor = 2, patch = 3, canonical = ''1.2.3''\<rparr>,
           \<lparr>major = 1, minor = 0, patch = 0, canonical = ''1.0.0''\<rparr>]"
  have n: "NewVersionNegotiator True [''1.0.0'', ''1.2.3'', ''2.0.0''] = Inr n"
    unfolding n_def by code_simp
  have r: "ParseVersion ''1.5.9'' = Inr (1, 5, 9)" by code_simp
  have neg: "Negotiate n ''1.5.9'' = Inr ''1.2.3''" unfolding n_def by code_simp
  from Negotiate_newest [OF n r, of "''1.2.3''"] neg obtain m' p' where
    *: "''1.2.3'' = canonical_text 1 m' p'" "newest_within [''1.0.0'', ''1.2.3'', ''2.0.0''] 1 5 m' p'"
    by blast
  from *(2) have "offers [''1.0.0'', ''1.2.3'', ''2.0.0''] (1, m', p')"
    unfolding newest_within_def by blast
  then obtain raw where "ParseVersion raw = Inr (1, m', p')"
    unfolding offers_def by (elim imageE) (rule that, rule sym)
  then have b: "int m' \<le> maxInt" "int p' \<le> maxInt" using ParseVersion_bounds by blast+
  have c: "canonical_text 1 2 3 = ''1.2.3''" by code_simp
  have "2 = m' \<and> 3 = p'"
    using canonical_text_inj [OF trans [OF c *(1)] _ _ _ _ b] by (simp add: maxInt_def)
  then show ?thesis using *(2) n neg by blast
qed

end
