(* ===== verification/Session_Resume.thy ===== *)
theory Session_Resume
  imports Session_State Numeric_Coercion Version_Negotiation
begin

text \<open>
  Session resume: \<^verbatim>\<open>KC-Core/pkg/bssci/session_resume.go\<close>, \<^verbatim>\<open>extractSessionUUID\<close> and the field getters of
  \<^verbatim>\<open>fields.go\<close>, and the resume half of \<^verbatim>\<open>KC-Core/internal/services/bssci/session_service.go\<close>
  (\<^verbatim>\<open>HandleResume\<close>, \<^verbatim>\<open>PersistSession\<close>). The answers of the database are arguments; what the code asks of it
  is returned as a list of effects, in order.

  Shown: a failing lookup never degrades into a new session, an inconsistent session is terminated
  before a new one starts, a resume continues with the persisted identity and counters and accepts
  the retry of every operation that was open, and the identifier floor of the offer does not
  survive the activation.
\<close>

section \<open>Field access\<close>

datatype posix = POSIX_EPERM | POSIX_ENOENT | POSIX_EAGAIN | POSIX_EINVAL | POSIX_EPROTO | POSIX_ENOTSUP

type_synonym catalog_error = "string \<times> posix"

definition getNumericField :: "gomap \<Rightarrow> string \<Rightarrow> i64 option" where
  "getNumericField data key =
     (case map_of data key of
        None \<Rightarrow> None
      | Some v \<Rightarrow> (case coerceInt64 v of Inl _ \<Rightarrow> None | Inr w \<Rightarrow> Some w))"

fun uuid_bytes :: "goval list \<Rightarrow> bytes option" where
  "uuid_bytes [] = Some []"
| "uuid_bytes (v # vs) =
     (case (case v of GInt8 b \<Rightarrow> Inr b | _ \<Rightarrow> numericToByte v) of
        Inl _ \<Rightarrow> None
      | Inr b \<Rightarrow> map_option (\<lambda>bs. b # bs) (uuid_bytes vs))"

definition extractSessionUUID :: "goval \<Rightarrow> catalog_error + bytes" where
  "extractSessionUUID data =
     (case data of
        GNil \<Rightarrow> Inl (''uuid_data_nil'', POSIX_EPROTO)
      | GArray vs \<Rightarrow>
          if length vs \<noteq> 16 then Inl (''invalid_uuid_length'', POSIX_EPROTO)
          else (case uuid_bytes vs of
                  None \<Rightarrow> Inl (''invalid_uuid_byte_type'', POSIX_EPROTO)
                | Some bs \<Rightarrow> Inr bs)
      | GBytes bs \<Rightarrow>
          if length bs \<noteq> 16 then Inl (''invalid_uuid_length'', POSIX_EPROTO) else Inr bs
      | _ \<Rightarrow> Inl (''unsupported_uuid_type'', POSIX_EPROTO))"

section \<open>The persisted session and its evaluation\<close>

record BaseStationSession =
  RowID :: i64
  RowTenantID :: i64
  SnBsUuid :: bytes
  SnScUuid :: bytes
  SnBsOpId :: i64
  SnScOpId :: i64
  RowEncoding :: string
  ProtocolVersion :: "string option"
  RowOrganizationID :: "bytes option"

datatype lookup_result = Row_NotFound | Row_LookupFailed | Row_Found BaseStationSession

datatype ResumeOutcome =
    ResumeNoMatch
  | ResumeCompatible Session
  | ResumeInconsistent Session
  | ResumeInfrastructureFailure

definition majorMinor :: "string \<Rightarrow> (string \<times> string) option" where
  "majorMinor v = (case split_on CHR ''.'' v of a # b # _ \<Rightarrow> Some (a, b) | _ \<Rightarrow> None)"

definition resumeVersionCompatible :: "string \<Rightarrow> string \<Rightarrow> bool" where
  "resumeVersionCompatible persisted selected =
     (if persisted = [] \<or> selected = [] \<or> persisted = selected then True
      else case (majorMinor persisted, majorMinor selected) of
             (Some p, Some s) \<Rightarrow> p = s
           | _ \<Rightarrow> False)"

definition resumeCountersConsistent ::
    "i64 option \<Rightarrow> i64 option \<Rightarrow> i64 \<Rightarrow> i64 \<Rightarrow> bool" where
  "resumeCountersConsistent bsOpId scOpId knownBsOpId knownScOpId =
     (if (case bsOpId of Some b \<Rightarrow> sint b > sint knownBsOpId | None \<Rightarrow> False) then False
      else if (case scOpId of Some c \<Rightarrow> sint c < sint knownScOpId | None \<Rightarrow> False) then False
      else True)"

definition hydrateSessionFromDB :: "BaseStationSession \<Rightarrow> u64 \<Rightarrow> Session" where
  "hydrateSessionFromDB dbs bsEUI =
     (newSession (RowTenantID dbs))
       \<lparr>DbSessionID := RowID dbs, SessionUUID := SnScUuid dbs, BsUUID := SnBsUuid dbs,
        LastBsOpId := SnBsOpId dbs, LastScOpId := SnScOpId dbs, Encoding := RowEncoding dbs,
        ClientVersion := (case ProtocolVersion dbs of Some v \<Rightarrow> v | None \<Rightarrow> []),
        NegotiatedVersion := (case ProtocolVersion dbs of Some v \<Rightarrow> v | None \<Rightarrow> []),
        OrganizationID := (case RowOrganizationID dbs of Some b \<Rightarrow> b | None \<Rightarrow> uuidNil),
        BaseStationEUI := bsEUI, IsResumed := True\<rparr>"

text \<open>The lookup is keyed by tenant, base station EUI and base station session UUID.\<close>

type_synonym resume_lookup = "i64 \<Rightarrow> u64 \<Rightarrow> bytes \<Rightarrow> lookup_result"

definition HandleResume ::
    "resume_lookup \<Rightarrow> i64 \<Rightarrow> Session \<Rightarrow> bytes \<Rightarrow> i64 option \<Rightarrow> i64 option \<Rightarrow> u64 \<Rightarrow> ResumeOutcome" where
  "HandleResume FindResumableSession serviceTenant session bsUUID bsOpId scOpId bsEUI =
     (if length bsUUID \<noteq> 16 then ResumeNoMatch
      else case FindResumableSession (resolvedTenant (Some session) serviceTenant) bsEUI bsUUID of
             Row_NotFound \<Rightarrow> ResumeNoMatch
           | Row_LookupFailed \<Rightarrow> ResumeInfrastructureFailure
           | Row_Found dbs \<Rightarrow>
               (let restored = hydrateSessionFromDB dbs bsEUI in
                if \<not> resumeCountersConsistent bsOpId scOpId (SnBsOpId dbs) (SnScOpId dbs)
                then ResumeInconsistent restored
                else if \<not> resumeVersionCompatible (NegotiatedVersion restored) (NegotiatedVersion session)
                then ResumeInconsistent restored
                else ResumeCompatible restored))"

section \<open>Negotiating the session of a connect\<close>

record PendingOperation =
  OperationID :: i64
  OperationType :: string
  Message :: gomap
  Metadata :: "gomap option"

record resumeOffer =
  previous :: Session
  offeredOps :: "PendingOperation list"

text \<open>What the code asks the database to do, and whether the database did it.\<close>

datatype db_effect = TerminateSession i64 | DeletePendingOperations i64 | RemovePendingOperation i64 i64

record resume_services =
  FindResumableSession :: resume_lookup
  serviceTenant :: i64
  effect_ok :: "db_effect \<Rightarrow> bool"
  PersistedOperations :: "i64 \<Rightarrow> PendingOperation list option"
  rebuild :: "PendingOperation \<Rightarrow> gomap option"
  reconstitutable :: "string \<Rightarrow> bool"

definition resumeCounterConstraints :: "gomap \<Rightarrow> i64 option \<times> i64 option" where
  "resumeCounterConstraints data = (getNumericField data ''snBsOpId'', getNumericField data ''snScOpId'')"

definition terminateInconsistentResume ::
    "resume_services \<Rightarrow> Session \<Rightarrow> bool \<times> db_effect list" where
  "terminateInconsistentResume svc prev =
     (let t = TerminateSession (DbSessionID prev); d = DeletePendingOperations (DbSessionID prev) in
      if \<not> effect_ok svc t then (False, [t])
      else if DbSessionID prev \<noteq> 0 then (effect_ok svc d, [t, d])
      else (True, [t]))"

definition settleResumeOutcome ::
    "resume_services \<Rightarrow> ResumeOutcome \<Rightarrow> (catalog_error + Session option) \<times> db_effect list" where
  "settleResumeOutcome svc outcome =
     (case outcome of
        ResumeInfrastructureFailure \<Rightarrow> (Inl (''session_resume_unavailable'', POSIX_EAGAIN), [])
      | ResumeInconsistent prev \<Rightarrow>
          (case terminateInconsistentResume svc prev of
             (True, effs) \<Rightarrow> (Inr None, effs)
           | (False, effs) \<Rightarrow> (Inl (''session_resume_unavailable'', POSIX_EAGAIN), effs))
      | ResumeCompatible prev \<Rightarrow> (Inr (Some prev), [])
      | ResumeNoMatch \<Rightarrow> (Inr None, []))"

definition findResumableSession ::
    "resume_services \<Rightarrow> gomap \<Rightarrow> Session \<Rightarrow> (catalog_error + Session option) \<times> Session \<times> db_effect list" where
  "findResumableSession svc data session =
     (case map_of data ''snBsUuid'' of
        None \<Rightarrow> (Inr None, session, [])
      | Some v \<Rightarrow>
          (case extractSessionUUID v of
             Inl e \<Rightarrow> (Inl e, session, [])
           | Inr bsUUID \<Rightarrow>
               (let s = session\<lparr>BsUUID := bsUUID\<rparr>;
                    (bsOp, scOp) = resumeCounterConstraints data;
                    (r, effs) = settleResumeOutcome svc
                      (HandleResume (FindResumableSession svc) (serviceTenant svc) s bsUUID bsOp scOp (BaseStationEUI s))
                in (r, s, effs))))"

definition startNewSession :: "bytes \<Rightarrow> Session \<Rightarrow> Session" where
  "startNewSession newUUID s = s\<lparr>SessionUUID := newUUID, LastBsOpId := 0, LastScOpId := 0\<rparr>"

definition floorServiceCenterCounter :: "PendingOperation list \<Rightarrow> Session \<Rightarrow> Session" where
  "floorServiceCenterCounter ops s =
     fold (\<lambda>op s. if sint (OperationID op) < 0 \<and> sint (OperationID op) < sint (LastScOpId s)
                  then s\<lparr>LastScOpId := OperationID op\<rparr> else s) ops s"

fun reconstituteResumeOperations ::
    "resume_services \<Rightarrow> Session \<Rightarrow> PendingOperation list \<Rightarrow> PendingOperation list \<times> db_effect list" where
  "reconstituteResumeOperations svc prev [] = ([], [])"
| "reconstituteResumeOperations svc prev (op # ops) =
     (let (kept, effs) = reconstituteResumeOperations svc prev ops in
      if Metadata op = None \<or> \<not> reconstitutable svc (OperationType op) then (op # kept, effs)
      else case rebuild svc op of
             None \<Rightarrow> (kept, RemovePendingOperation (DbSessionID prev) (OperationID op) # effs)
           | Some msg \<Rightarrow> (op\<lparr>Message := msg\<rparr> # kept, effs))"

definition loadPendingOperations :: "resume_services \<Rightarrow> Session \<Rightarrow> PendingOperation list option" where
  "loadPendingOperations svc prev =
     (if DbSessionID prev = 0 then Some [] else PersistedOperations svc (DbSessionID prev))"

definition offerResume ::
    "resume_services \<Rightarrow> Session \<Rightarrow> Session \<Rightarrow> (catalog_error + resumeOffer) \<times> Session \<times> db_effect list" where
  "offerResume svc prev s0 =
     (let s = s0\<lparr>IsResumed := True, SessionUUID := SessionUUID prev, LastBsOpId := LastBsOpId prev,
                 LastScOpId := LastScOpId prev, OrganizationID := OrganizationID prev,
                 ResolvedTenantID := ResolvedTenantID prev\<rparr> in
      case loadPendingOperations svc prev of
        None \<Rightarrow> (Inl (''session_resume_unavailable'', POSIX_EAGAIN), s, [])
      | Some ops \<Rightarrow>
          (let (kept, effs) = reconstituteResumeOperations svc prev ops in
           (Inr \<lparr>previous = prev, offeredOps = kept\<rparr>, floorServiceCenterCounter kept s, effs)))"

definition negotiateSession ::
    "resume_services \<Rightarrow> bytes \<Rightarrow> gomap \<Rightarrow> Session \<Rightarrow>
       (catalog_error + resumeOffer option) \<times> Session \<times> db_effect list" where
  "negotiateSession svc newUUID data session =
     (case findResumableSession svc data session of
        (Inl e, s, effs) \<Rightarrow> (Inl e, s, effs)
      | (Inr None, s, effs) \<Rightarrow> (Inr None, startNewSession newUUID s, effs)
      | (Inr (Some prev), s, effs) \<Rightarrow>
          (case offerResume svc prev s of
             (Inl e, s', effs') \<Rightarrow> (Inl e, s', effs @ effs')
           | (Inr off, s', effs') \<Rightarrow> (Inr (Some off), s', effs @ effs')))"

section \<open>Activation\<close>

definition reopenResumedBaseStationOperations :: "PendingOperation list \<Rightarrow> Session \<Rightarrow> Session" where
  "reopenResumedBaseStationOperations ops s =
     restoreOpenBaseStationOperations
       ((if sint (LastBsOpId s) > 0 then [LastBsOpId s] else []) @
        filter (\<lambda>i. sint i > 0) (map OperationID ops)) s"

text \<open>
  \<^verbatim>\<open>PersistSession\<close> on the session record. A new session gets its row and zero counters; a resumed one
  reads the counters of its row again and claims it, unless another connection has claimed it.
\<close>

datatype persist_error = PersistFailed | ResumeAlreadyClaimed

text \<open>
  Before a new session is stored the station's earlier ones are retired: the active row, whose
  operations must be deleted, then every resumable row, whose leftover operations are deleted as
  far as possible.
\<close>

definition discardPriorSessionState ::
    "(db_effect \<Rightarrow> bool) \<Rightarrow> i64 option \<Rightarrow> i64 list option \<Rightarrow> bool \<times> db_effect list" where
  "discardPriorSessionState ok active retiredIDs =
     (let finish = (\<lambda>effs. case retiredIDs of
                       None \<Rightarrow> (False, effs)
                     | Some ids \<Rightarrow> (True, effs @ map DeletePendingOperations ids))
      in case active of
           None \<Rightarrow> finish []
         | Some rowID \<Rightarrow>
             if \<not> ok (TerminateSession rowID) then (False, [TerminateSession rowID])
             else if \<not> ok (DeletePendingOperations rowID)
                  then (False, [TerminateSession rowID, DeletePendingOperations rowID])
             else finish [TerminateSession rowID, DeletePendingOperations rowID])"

text \<open>What the database answers while a session is persisted.\<close>

record persist_answers =
  activeRow :: "i64 option"
  retiredRows :: "i64 list option"
  createdRow :: "i64 option"
  counters_ok :: bool
  rowByScUUID :: "BaseStationSession option"
  claimedRow :: "bool option"

definition persistNewSession ::
    "(db_effect \<Rightarrow> bool) \<Rightarrow> persist_answers \<Rightarrow> Session \<Rightarrow> persist_error option \<times> Session \<times> db_effect list" where
  "persistNewSession ok ans s =
     (case discardPriorSessionState ok (activeRow ans) (retiredRows ans) of
        (False, effs) \<Rightarrow> (Some PersistFailed, s, effs)
      | (True, effs) \<Rightarrow>
          (case createdRow ans of
             None \<Rightarrow> (Some PersistFailed, s, effs)
           | Some rowID \<Rightarrow>
               (if counters_ok ans then None else Some PersistFailed,
                s\<lparr>DbSessionID := rowID, LastScOpId := 0, LastBsOpId := 0\<rparr>, effs)))"

definition restoreEncoding :: "BaseStationSession \<Rightarrow> string \<Rightarrow> string" where
  "restoreEncoding dbs enc =
     (if enc = [] then
        if RowEncoding dbs = ''json'' \<or> RowEncoding dbs = ''msgpack'' then RowEncoding dbs else ''msgpack''
      else enc)"

definition persistResumedSession ::
    "BaseStationSession option \<Rightarrow> bool option \<Rightarrow> Session \<Rightarrow> persist_error option \<times> Session" where
  "persistResumedSession found claimed s =
     (case found of
        None \<Rightarrow> (Some PersistFailed, s)
      | Some dbs \<Rightarrow>
          (let s' = s\<lparr>LastScOpId := SnScOpId dbs, LastBsOpId := SnBsOpId dbs,
                      Encoding := restoreEncoding dbs (Encoding s),
                      OrganizationID := (if OrganizationID s = uuidNil
                        then (case RowOrganizationID dbs of Some b \<Rightarrow> b | None \<Rightarrow> OrganizationID s)
                        else OrganizationID s),
                      ResolvedTenantID := (if ResolvedTenantID s = 0 then RowTenantID dbs else ResolvedTenantID s)\<rparr>
           in case claimed of
                None \<Rightarrow> (Some PersistFailed, s')
              | Some False \<Rightarrow> (Some ResumeAlreadyClaimed, s')
              | Some True \<Rightarrow> (None, s'\<lparr>DbSessionID := RowID dbs\<rparr>)))"

definition PersistSession ::
    "(db_effect \<Rightarrow> bool) \<Rightarrow> persist_answers \<Rightarrow> Session \<Rightarrow> persist_error option \<times> Session \<times> db_effect list" where
  "PersistSession ok ans s =
     (if \<not> IsResumed s then persistNewSession ok ans s
      else case persistResumedSession (rowByScUUID ans) (claimedRow ans) s of (e, s') \<Rightarrow> (e, s', []))"

section \<open>Outcomes of the negotiation\<close>

lemma floor_fields:
  "SessionUUID (floorServiceCenterCounter ops s) = SessionUUID s"
  "LastBsOpId (floorServiceCenterCounter ops s) = LastBsOpId s"
  "ResolvedTenantID (floorServiceCenterCounter ops s) = ResolvedTenantID s"
  "IsResumed (floorServiceCenterCounter ops s) = IsResumed s"
  "openBsOps (floorServiceCenterCounter ops s) = openBsOps s"
  unfolding floorServiceCenterCounter_def by (induction ops arbitrary: s) auto

lemma floor_bounds:
  "sint (LastScOpId (floorServiceCenterCounter ops s)) \<le> sint (LastScOpId s) \<and>
   (\<forall>op \<in> set ops. sint (OperationID op) < 0 \<longrightarrow>
      sint (LastScOpId (floorServiceCenterCounter ops s)) \<le> sint (OperationID op))"
proof (induction ops arbitrary: s)
  case (Cons op ops)
  let ?s = "if sint (OperationID op) < 0 \<and> sint (OperationID op) < sint (LastScOpId s)
            then s\<lparr>LastScOpId := OperationID op\<rparr> else s"
  have "floorServiceCenterCounter (op # ops) s = floorServiceCenterCounter ops ?s"
    by (simp add: floorServiceCenterCounter_def)
  with Cons.IH [of ?s] show ?case by (fastforce split: if_splits)
qed (simp add: floorServiceCenterCounter_def)

lemma reconstitute_ids:
  "fst (reconstituteResumeOperations svc prev ops) = kept \<Longrightarrow>
   OperationID ` set kept \<subseteq> OperationID ` set ops"
  by (induction svc prev ops arbitrary: kept rule: reconstituteResumeOperations.induct)
    (auto simp: Let_def case_prod_beta image_subset_iff split: if_splits option.splits)

text \<open>The lookup a connect makes and the constraints it asserts.\<close>

definition resume_request :: "resume_services \<Rightarrow> gomap \<Rightarrow> Session \<Rightarrow> ResumeOutcome" where
  "resume_request svc data s =
     (case map_of data ''snBsUuid'' of
        Some v \<Rightarrow>
          (case extractSessionUUID v of
             Inr u \<Rightarrow> HandleResume (FindResumableSession svc) (serviceTenant svc) (s\<lparr>BsUUID := u\<rparr>) u
                        (getNumericField data ''snBsOpId'') (getNumericField data ''snScOpId'') (BaseStationEUI s)
           | Inl _ \<Rightarrow> ResumeNoMatch)
      | None \<Rightarrow> ResumeNoMatch)"

lemma negotiate_settles:
  assumes "map_of data ''snBsUuid'' = Some v" "extractSessionUUID v = Inr u"
  shows "findResumableSession svc data s =
    (fst (settleResumeOutcome svc (resume_request svc data s)), s\<lparr>BsUUID := u\<rparr>,
     snd (settleResumeOutcome svc (resume_request svc data s)))"
  using assms by (simp add: findResumableSession_def resume_request_def resumeCounterConstraints_def
      case_prod_beta Let_def)

text \<open>
  C29. What a connect that names a session may do. If the lookup fails, the connect is refused with
  EAGAIN, nothing is asked of the database and no session identity is given out. If the persisted
  session contradicts the connect, it is terminated and its operations deleted first; only when both
  succeeded does a new session with zero counters start, otherwise the connect is refused. If it is
  compatible and its operations can be read, the connect continues it: same identity, tenant and
  station counter, and a service-center counter at or below its own and every operation it reissues.
\<close>

theorem negotiateSession_outcomes:
  assumes "map_of data ''snBsUuid'' = Some v" "extractSessionUUID v = Inr u"
    and "negotiateSession svc newUUID data s = (r, s', effs)"
  shows "(case resume_request svc data s of
      ResumeInfrastructureFailure \<Rightarrow>
        r = Inl (''session_resume_unavailable'', POSIX_EAGAIN) \<and> effs = [] \<and> s' = s\<lparr>BsUUID := u\<rparr>
    | ResumeInconsistent prev \<Rightarrow>
        effs \<noteq> [] \<and> hd effs = TerminateSession (DbSessionID prev) \<and>
        (if list_all (effect_ok svc) effs
         then r = Inr None \<and> (DbSessionID prev \<noteq> 0 \<longrightarrow> DeletePendingOperations (DbSessionID prev) \<in> set effs) \<and>
              SessionUUID s' = newUUID \<and> LastBsOpId s' = 0 \<and> LastScOpId s' = 0
         else r = Inl (''session_resume_unavailable'', POSIX_EAGAIN))
    | ResumeCompatible prev \<Rightarrow>
        (case loadPendingOperations svc prev of
           None \<Rightarrow> r = Inl (''session_resume_unavailable'', POSIX_EAGAIN)
         | Some ops \<Rightarrow>
             (\<exists>off. r = Inr (Some off) \<and> previous off = prev \<and>
                SessionUUID s' = SessionUUID prev \<and> LastBsOpId s' = LastBsOpId prev \<and>
                ResolvedTenantID s' = ResolvedTenantID prev \<and> IsResumed s' \<and>
                sint (LastScOpId s') \<le> sint (LastScOpId prev) \<and>
                (\<forall>op \<in> set (offeredOps off). sint (OperationID op) < 0 \<longrightarrow>
                    sint (LastScOpId s') \<le> sint (OperationID op))))
    | ResumeNoMatch \<Rightarrow>
        r = Inr None \<and> effs = [] \<and> SessionUUID s' = newUUID \<and> LastBsOpId s' = 0 \<and> LastScOpId s' = 0)"
proof (cases "resume_request svc data s")
  case ResumeNoMatch
  then show ?thesis
    using assms(3) by (auto simp: negotiateSession_def negotiate_settles [OF assms(1,2)]
        settleResumeOutcome_def startNewSession_def)
next
  case ResumeInfrastructureFailure
  then show ?thesis
    using assms(3) by (auto simp: negotiateSession_def negotiate_settles [OF assms(1,2)]
        settleResumeOutcome_def)
next
  case (ResumeInconsistent prev)
  have "terminateInconsistentResume svc prev = (list_all (effect_ok svc) te, te) \<and>
      te \<noteq> [] \<and> hd te = TerminateSession (DbSessionID prev) \<and> (list_all (effect_ok svc) te \<longrightarrow>
        DbSessionID prev \<noteq> 0 \<longrightarrow> DeletePendingOperations (DbSessionID prev) \<in> set te)"
    if "te = snd (terminateInconsistentResume svc prev)" for te
    using that by (auto simp: terminateInconsistentResume_def Let_def split: if_splits)
  then obtain te where te: "terminateInconsistentResume svc prev = (list_all (effect_ok svc) te, te)"
      "te \<noteq> []" "hd te = TerminateSession (DbSessionID prev)"
      "list_all (effect_ok svc) te \<longrightarrow> DbSessionID prev \<noteq> 0 \<longrightarrow> DeletePendingOperations (DbSessionID prev) \<in> set te"
    by blast
  show ?thesis
    using assms(3) te ResumeInconsistent
    by (cases "list_all (effect_ok svc) te") (auto simp: negotiateSession_def negotiate_settles [OF assms(1,2)]
        settleResumeOutcome_def startNewSession_def)
next
  case (ResumeCompatible prev)
  show ?thesis
  proof (cases "loadPendingOperations svc prev")
    case None
    then show ?thesis
      using assms(3) ResumeCompatible by (auto simp: negotiateSession_def negotiate_settles [OF assms(1,2)]
          settleResumeOutcome_def offerResume_def)
  next
    case (Some ops)
    obtain kept effs' where k: "reconstituteResumeOperations svc prev ops = (kept, effs')" by force
    let ?s = "(s\<lparr>BsUUID := u\<rparr>)\<lparr>IsResumed := True, SessionUUID := SessionUUID prev, LastBsOpId := LastBsOpId prev,
                 LastScOpId := LastScOpId prev, OrganizationID := OrganizationID prev,
                 ResolvedTenantID := ResolvedTenantID prev\<rparr>"
    have "r = Inr (Some \<lparr>previous = prev, offeredOps = kept\<rparr>)" "s' = floorServiceCenterCounter kept ?s"
      using assms(3) ResumeCompatible Some k
      by (auto simp: negotiateSession_def negotiate_settles [OF assms(1,2)]
          settleResumeOutcome_def offerResume_def Let_def)
    then show ?thesis
      using floor_bounds [of kept ?s] floor_fields [of kept ?s] Some ResumeCompatible by simp
  qed
qed

definition failing_services :: resume_services where
  "failing_services =
     \<lparr>FindResumableSession = (\<lambda>_ _ _. Row_LookupFailed), serviceTenant = 1, effect_ok = (\<lambda>_. True),
      PersistedOperations = (\<lambda>_. None), rebuild = (\<lambda>_. None), reconstitutable = (\<lambda>_. False)\<rparr>"

theorem negotiateSession_outcomes_witness:
  "let data = [(''snBsUuid'', GBytes (replicate 16 1))]; s = newSession 1
   in fst (negotiateSession failing_services (replicate 16 2) data s)
      = Inl (''session_resume_unavailable'', POSIX_EAGAIN)"
proof -
  let ?data = "[(''snBsUuid'', GBytes (replicate 16 1))]"
  have u: "map_of ?data ''snBsUuid'' = Some (GBytes (replicate 16 1))"
      "extractSessionUUID (GBytes (replicate 16 1)) = Inr (replicate 16 1)"
    by (simp_all add: extractSessionUUID_def)
  have req: "resume_request failing_services ?data (newSession 1) = ResumeInfrastructureFailure"
    using u by (simp add: resume_request_def HandleResume_def failing_services_def)
  obtain r s' effs where n: "negotiateSession failing_services (replicate 16 2) ?data (newSession 1) = (r, s', effs)"
    by (metis prod_cases3)
  from negotiateSession_outcomes [OF u n] req n show ?thesis by (simp add: Let_def)
qed

section \<open>Continuing the open operations\<close>

lemma restore_open:
  "restoreOpenBaseStationOperations ids (s :: Session) = s\<lparr>openBsOps := openBsOps s \<union> set ids\<rparr>"
  unfolding restoreOpenBaseStationOperations_def
  by (induction ids arbitrary: s) (auto simp: markBaseStationOperationOpen_def)

text \<open>The station operations a resumed session may still finish.\<close>

definition unfinished :: "PendingOperation list \<Rightarrow> Session \<Rightarrow> i64 set" where
  "unfinished ops s = {i. 0 < sint i \<and> (i = LastBsOpId s \<or> i \<in> OperationID ` set ops)}"

lemma reopen_unfinished:
  "reopenResumedBaseStationOperations ops s = s\<lparr>openBsOps := openBsOps s \<union> unfinished ops s\<rparr>"
  by (auto simp: reopenResumedBaseStationOperations_def restore_open unfinished_def image_iff
      intro!: arg_cong [where f = "\<lambda>x. s\<lparr>openBsOps := x\<rparr>"])

text \<open>
  After a resume has been activated, the base station can finish what the lost connection left
  open: for its newest operation and every persisted one, sending the operation again is accepted
  without opening a new one, and completing it is accepted. The operation state is well formed
  again, so the sequencing guarantees of a fresh connection hold from there on.
\<close>

theorem resumed_operations_continue:
  assumes "persistResumedSession (Some dbs) (Some True) s = (None, s1)"
    and "openBsOps s = {}" "BaseStationEUI s \<noteq> 0"
    and "\<forall>op \<in> set ops. sint (OperationID op) \<le> sint (SnBsOpId dbs)"
    and "s2 = reopenResumedBaseStationOperations ops s1" "i \<in> unfinished ops s1"
  shows "wf_ops s2 \<and> LastBsOpId s2 = SnBsOpId dbs
    \<and> (role reg c = roleOpens \<longrightarrow> sequenceOperation reg c i s2 = (None, s2))
    \<and> (role reg c = roleCloses \<longrightarrow> fst (sequenceOperation reg c i s2) = None)"
proof -
  have s1: "openBsOps s1 = {}" "BaseStationEUI s1 \<noteq> 0" "LastBsOpId s1 = SnBsOpId dbs"
    using assms(1-3) by (auto simp: persistResumedSession_def Let_def)
  have "unfinished ops s1 \<subseteq> insert (LastBsOpId s1) (OperationID ` set ops)"
    by (auto simp: unfinished_def)
  then have "finite (unfinished ops s1)" by (rule finite_subset) simp
  moreover have "0 < sint j \<and> sint j \<le> sint (SnBsOpId dbs)" if "j \<in> unfinished ops s1" for j
    using that assms(4) s1(3) by (auto simp: unfinished_def)
  ultimately have wf: "wf_ops s2"
    using assms(5) s1 by (simp add: wf_ops_def reopen_unfinished)
  have i: "i \<in> openBsOps s2" "0 < sint i" "BaseStationEUI s2 \<noteq> 0" "LastBsOpId s2 = SnBsOpId dbs"
    using assms(5,6) s1 by (auto simp: reopen_unfinished unfinished_def)
  then show ?thesis using wf by (auto simp: sequence_opens sequence_closes)
qed

definition sample_row :: "i64 \<Rightarrow> i64 \<Rightarrow> BaseStationSession" where
  "sample_row b c = \<lparr>RowID = 9, RowTenantID = 1, SnBsUuid = replicate 16 1, SnScUuid = replicate 16 2,
     SnBsOpId = b, SnScOpId = c, RowEncoding = ''json'', ProtocolVersion = Some ''1.0.0'',
     RowOrganizationID = None\<rparr>"

theorem resumed_operations_continue_witness:
  "let s = (newSession 1)\<lparr>BaseStationEUI := 7\<rparr>;
       s1 = s\<lparr>DbSessionID := 9, LastBsOpId := 4, LastScOpId := - 3, Encoding := ''json''\<rparr>;
       s2 = reopenResumedBaseStationOperations [] s1
   in sequenceOperation registry CmdAttach 4 s2 = (None, s2)"
proof -
  let ?s = "(newSession 1)\<lparr>BaseStationEUI := 7\<rparr>"
  let ?s1 = "?s\<lparr>DbSessionID := 9, LastBsOpId := 4, LastScOpId := - 3, Encoding := ''json''\<rparr>"
  have p: "persistResumedSession (Some (sample_row 4 (- 3))) (Some True) ?s = (None, ?s1)"
    by (simp add: persistResumedSession_def sample_row_def newSession_def restoreEncoding_def Let_def)
  have "4 \<in> unfinished [] ?s1" by (simp add: unfinished_def)
  with resumed_operations_continue [OF p, of "[]" "reopenResumedBaseStationOperations [] ?s1" 4 registry CmdAttach]
  show ?thesis by (simp add: Let_def newSession_def registry_roles)
qed

section \<open>The counter floor and the activation\<close>

text \<open>
  The floor the offer puts under the service-center counter does not survive the activation:
  \<open>PersistSession\<close> sets the counter to the row's again. Where the row's counter is above a persisted
  operation, the activated session allocates that operation's ID anew after a few operations.
\<close>

theorem resume_floor_is_overwritten:
  assumes "sint (OperationID op) < sint (SnScOpId dbs)" "sint (SnScOpId dbs) \<le> 0"
    and "s' = floorServiceCenterCounter [op] s"
    and "persistResumedSession (Some dbs) (Some True) s' = (None, s1)"
  shows "sint (LastScOpId s') \<le> sint (OperationID op)
    \<and> (\<exists>n. OperationID op \<in> set (fst (next_ids n s1)))"
proof -
  have fl: "sint (LastScOpId s') \<le> sint (OperationID op)"
    using floor_bounds [of "[op]" s] assms(1-3) by auto
  have c: "LastScOpId s1 = SnScOpId dbs" using assms(4) by (auto simp: persistResumedSession_def Let_def)
  define n where "n = nat (sint (SnScOpId dbs) - sint (OperationID op))"
  have n: "int n = sint (SnScOpId dbs) - sint (OperationID op)" "0 < n" using assms(1) by (simp_all add: n_def)
  have "- (2 ^ 63) \<le> sint (LastScOpId s1) - int n"
    using n c sint64_bounds [of "OperationID op"] by simp
  from next_ids_sint [OF this]
  have "sint (OperationID op) \<in> set (map sint (fst (next_ids n s1)))"
    using n c by (auto simp: image_iff intro!: bexI [of _ n])
  then have "OperationID op \<in> set (fst (next_ids n s1))"
    using sint_inj64 by auto
  with fl show ?thesis by blast
qed

theorem resume_floor_is_overwritten_witness:
  "\<exists>n s1. persistResumedSession (Some (sample_row 0 (- 3))) (Some True)
       (floorServiceCenterCounter [\<lparr>OperationID = - 5, OperationType = CmdStatus, Message = [], Metadata = None\<rparr>]
          (newSession 1)) = (None, s1) \<and> - 5 \<in> set (fst (next_ids n s1))"
proof -
  let ?op = "\<lparr>OperationID = - 5, OperationType = CmdStatus, Message = [], Metadata = None\<rparr>"
  obtain s1 where s1: "persistResumedSession (Some (sample_row 0 (- 3))) (Some True)
       (floorServiceCenterCounter [?op] (newSession 1)) = (None, s1)"
    by (simp add: persistResumedSession_def Let_def)
  from resume_floor_is_overwritten [OF _ _ refl s1] s1 show ?thesis
    by (auto simp: sample_row_def)
qed

end
