(* ===== verification/Connection.thy ===== *)
theory Connection
  imports Session_Resume Payload_Normalizer
begin

text \<open>
  One base station connection: the message loop of \<^verbatim>\<open>server.go\<close> (\<^verbatim>\<open>handleConnection\<close>), dispatch
  (\<^verbatim>\<open>dispatch.go\<close>), the connect handshake (\<^verbatim>\<open>connect_handlers.go\<close>, \<^verbatim>\<open>connect_complete.go\<close>,
  \<^verbatim>\<open>station_admission.go\<close>) and the error exchange (\<^verbatim>\<open>error_handlers.go\<close>), all of \<^verbatim>\<open>KC-Core/pkg/bssci\<close>.

  The state of a connection is the session, the registration and resume offer it holds, the
  service-center operations it tracks, the frames written and the handlers run. Whether a write
  succeeds is the environment's choice: \<open>writes\<close> lists the outcomes to come, and every lemma holds
  for every such list. What the database and the registration service answer while a message is
  handled comes with the message (\<open>conn_services\<close>). The handlers of the other commands are not
  part of this theory: running one is recorded in \<open>handled\<close>; none of them assigns the handshake
  fields.

  Shown: every operation keeps the handshake invariant, so every reachable state has it (rule
  induction on the step relation). The theory \<open>Handshake\<close> draws the conclusions.
\<close>

section \<open>State\<close>

record BaseStation =
  StationID :: i64
  StationTenantID :: i64

datatype out_frame =
    OutError i64 posix string
  | OutErrorAck i64
  | OutConnectResponse i64 bool bytes
  | OutReissue i64 string

record conn =
  sess :: Session
  pendingBaseStation :: "BaseStation option"
  resume :: "resumeOffer option"
  tracked :: "(i64 \<times> string) list"
  outbox :: "out_frame list"
  handled :: "(string \<times> i64) list"
  effects :: "db_effect list"
  writes :: "bool list"
  closed :: bool

record conn_services = resume_services +
  supportedVersions :: "supportedVersion list"
  OrgEnforcementEnabled :: bool
  GetBaseStationGlobal :: "u64 \<Rightarrow> BaseStation option"
  BindStationCertificate :: "u64 \<Rightarrow> bool"
  GetDefaultOrgForTenant :: "i64 \<Rightarrow> bytes option"
  sessionUUID :: bytes
  persistAnswers :: persist_answers
  RegisterConnection :: bool
  handler_ok :: bool

definition newConnection :: "i64 \<Rightarrow> bool list \<Rightarrow> conn" where
  "newConnection defaultTenantID ws =
     \<lparr>sess = newSession defaultTenantID, pendingBaseStation = None, resume = None, tracked = [],
      outbox = [], handled = [], effects = [], writes = ws, closed = False\<rparr>"

abbreviation on_sess :: "(Session \<Rightarrow> Session) \<Rightarrow> conn \<Rightarrow> conn" where
  "on_sess f c \<equiv> c\<lparr>sess := f (sess c)\<rparr>"

definition set_state :: "ConnectState \<Rightarrow> conn \<Rightarrow> conn" where
  "set_state st c = on_sess (\<lambda>s. s\<lparr>connectState := st\<rparr>) c"

section \<open>Sending\<close>

text \<open>\<^verbatim>\<open>sendMessage\<close>: one frame, written or not.\<close>

definition sendMessage :: "out_frame \<Rightarrow> conn \<Rightarrow> bool \<times> conn" where
  "sendMessage f c =
     (case writes c of
        [] \<Rightarrow> (False, c)
      | w # ws \<Rightarrow> if w then (True, c\<lparr>outbox := outbox c @ [f], writes := ws\<rparr>)
                   else (False, c\<lparr>writes := ws\<rparr>))"

definition sendError :: "i64 \<Rightarrow> posix \<Rightarrow> string \<Rightarrow> conn \<Rightarrow> bool \<times> conn" where
  "sendError opId code token c =
     (case sendMessage (OutError opId code token) c of
        (False, c') \<Rightarrow> (False, c')
      | (True, c') \<Rightarrow> (True, on_sess (registerPendingErrorAck opId errorAckAckOnly) c'))"

definition sendErrorReplacingOperation :: "i64 \<Rightarrow> posix \<Rightarrow> string \<Rightarrow> conn \<Rightarrow> bool \<times> conn" where
  "sendErrorReplacingOperation opId code token c =
     (case sendError opId code token c of
        (False, c') \<Rightarrow> (False, c')
      | (True, c') \<Rightarrow> (True, on_sess (registerPendingErrorAck opId errorAckFinalizePendingOperation) c'))"

text \<open>Handlers return whether they failed, which closes the connection, and the new state.\<close>

definition rejectConnect :: "i64 \<Rightarrow> posix \<Rightarrow> string \<Rightarrow> conn \<Rightarrow> bool \<times> conn" where
  "rejectConnect opId code token c =
     (case sendError opId code token c of
        (False, c') \<Rightarrow> (True, set_state ConnectStateTerminal c')
      | (True, c') \<Rightarrow> (False, set_state ConnectStateAwaitingConnectErrorAck c'))"

definition sendErrorAck :: "i64 \<Rightarrow> conn \<Rightarrow> bool \<times> conn" where
  "sendErrorAck opId c = sendMessage (OutErrorAck opId) c"

section \<open>The connect request\<close>

fun version_token :: "version_error \<Rightarrow> string" where
  "version_token ErrInvalidVersionFormat = ''invalid_version_format''"
| "version_token ErrInvalidMajorVersion = ''invalid_major_version''"
| "version_token ErrInvalidMinorVersion = ''invalid_minor_version''"
| "version_token ErrInvalidPatchVersion = ''invalid_patch_version''"
| "version_token ErrUnsupportedMajorVersion = ''unsupported_major_version''"
| "version_token ErrUnsupportedMinorVersion = ''unsupported_minor_version''"

definition negotiateConnectVersion :: "conn_services \<Rightarrow> string \<Rightarrow> catalog_error + string" where
  "negotiateConnectVersion svc version =
     (case Negotiate (supportedVersions svc) version of
        Inr v \<Rightarrow> Inr v
      | Inl e \<Rightarrow> Inl (version_token e, POSIX_EPROTO))"

definition readBidiFlag :: "gomap \<Rightarrow> Session \<Rightarrow> catalog_error option \<times> Session" where
  "readBidiFlag data s =
     (case as_bool (lookup data ''bidi'') of
        None \<Rightarrow> (Some (''missing_bidi_flag'', POSIX_EPROTO), s)
      | Some b \<Rightarrow> (None, s\<lparr>Bidirectional := b\<rparr>))"

definition readConnectRequest ::
    "conn_services \<Rightarrow> gomap \<Rightarrow> Session \<Rightarrow> catalog_error option \<times> Session" where
  "readConnectRequest svc data s =
     (case as_string (lookup data ''version'') of
        None \<Rightarrow> (Some (''mandatory_field_missing'', POSIX_EPROTO), s)
      | Some version \<Rightarrow>
          (case map_of data ''bsEui'' of
             None \<Rightarrow> (Some (''missing_bs_eui'', POSIX_EPROTO), s)
           | Some raw \<Rightarrow>
               (case negotiateConnectVersion svc version of
                  Inl e \<Rightarrow> (Some e, s)
                | Inr selected \<Rightarrow>
                    (case coerceUint64 raw of
                       Inl _ \<Rightarrow> (Some (''invalid_bs_eui'', POSIX_EPROTO), s)
                     | Inr bsEUI \<Rightarrow>
                         readBidiFlag data
                           (s\<lparr>BaseStationEUI := bsEUI, ClientVersion := version,
                              NegotiatedVersion := selected\<rparr>)))))"

definition settleStationTenant :: "conn_services \<Rightarrow> BaseStation \<Rightarrow> Session \<Rightarrow> bool \<times> Session" where
  "settleStationTenant svc bs s =
     (if OrgEnforcementEnabled svc then (ResolvedTenantID s = StationTenantID bs, s)
      else if sint (StationTenantID bs) > 0
      then (True, (case GetDefaultOrgForTenant svc (StationTenantID bs) of
                     Some org \<Rightarrow> s\<lparr>ResolvedTenantID := StationTenantID bs, OrganizationID := org\<rparr>
                   | None \<Rightarrow> s\<lparr>ResolvedTenantID := StationTenantID bs\<rparr>))
      else (True, s))"

definition admitStation :: "conn_services \<Rightarrow> Session \<Rightarrow> BaseStation option \<times> Session" where
  "admitStation svc s =
     (case GetBaseStationGlobal svc (BaseStationEUI s) of
        None \<Rightarrow> (None, s)
      | Some bs \<Rightarrow>
          if \<not> BindStationCertificate svc (BaseStationEUI s) then (None, s)
          else (case settleStationTenant svc bs s of
                  (True, s') \<Rightarrow> (Some bs, s')
                | (False, s') \<Rightarrow> (None, s')))"

definition sendConnectResponse :: "i64 \<Rightarrow> conn \<Rightarrow> bool \<times> conn" where
  "sendConnectResponse opID c =
     (case sendMessage (OutConnectResponse opID (IsResumed (sess c)) (SessionUUID (sess c))) c of
        (False, c') \<Rightarrow> (True, set_state ConnectStateTerminal c')
      | (True, c') \<Rightarrow> (False, set_state ConnectStateAwaitingConnectComplete c'))"

definition handleConnect :: "conn_services \<Rightarrow> gomap \<Rightarrow> i64 \<Rightarrow> conn \<Rightarrow> bool \<times> conn" where
  "handleConnect svc data opId c =
     (if connectState (sess c) \<noteq> ConnectStateAwaitingConnect
      then rejectConnect opId POSIX_EPROTO ''invalid_handshake_state'' c
      else if opId \<noteq> 0 then rejectConnect opId POSIX_EPROTO ''invalid_connect_op_id'' c
      else case readConnectRequest svc data (sess c) of
             (Some (token, code), s1) \<Rightarrow> rejectConnect opId code token (c\<lparr>sess := s1\<rparr>)
           | (None, s1) \<Rightarrow>
               (case admitStation svc s1 of
                  (None, s2) \<Rightarrow>
                    rejectConnect opId POSIX_EPERM ''base_station_not_registered'' (c\<lparr>sess := s2\<rparr>)
                | (Some bs, s2) \<Rightarrow>
                    (case negotiateSession (resume_services.truncate svc) (sessionUUID svc) data s2 of
                       (Inl (token, code), s3, effs) \<Rightarrow>
                         rejectConnect opId code token
                           (c\<lparr>sess := s3, pendingBaseStation := Some bs, effects := effects c @ effs\<rparr>)
                     | (Inr off, s3, effs) \<Rightarrow>
                         sendConnectResponse opId
                           (c\<lparr>sess := s3, pendingBaseStation := Some bs, resume := off,
                              effects := effects c @ effs\<rparr>))))"

section \<open>Completing the handshake\<close>

definition activateSession :: "conn_services \<Rightarrow> conn \<Rightarrow> bool \<times> conn" where
  "activateSession svc c =
     (case PersistSession (effect_ok svc) (persistAnswers svc) (sess c) of
        (Some e, s, effs) \<Rightarrow> (False, c\<lparr>sess := s, effects := effects c @ effs\<rparr>)
      | (None, s, effs) \<Rightarrow> (RegisterConnection svc, c\<lparr>sess := s, effects := effects c @ effs\<rparr>))"

definition completeHandshake :: "conn \<Rightarrow> conn" where
  "completeHandshake c =
     on_sess (\<lambda>s. s\<lparr>HandshakeComplete := True, connectState := ConnectStateComplete\<rparr>) c"

fun reissueResumedOperations :: "PendingOperation list \<Rightarrow> conn \<Rightarrow> bool \<times> conn" where
  "reissueResumedOperations [] c = (False, c)"
| "reissueResumedOperations (op # ops) c =
     (let c1 = c\<lparr>tracked := AList.update (OperationID op) (OperationType op) (tracked c)\<rparr> in
      if \<not> resumable registry (OperationID op) (OperationType op) then reissueResumedOperations ops c1
      else case sendMessage (OutReissue (OperationID op) (OperationType op)) c1 of
             (True, c2) \<Rightarrow> reissueResumedOperations ops c2
           | (False, c2) \<Rightarrow> (True, c2))"

definition handleConnectComplete :: "conn_services \<Rightarrow> i64 \<Rightarrow> conn \<Rightarrow> bool \<times> conn" where
  "handleConnectComplete svc opId c =
     (if connectState (sess c) \<noteq> ConnectStateAwaitingConnectComplete
      then rejectConnect opId POSIX_EPROTO ''invalid_handshake_state'' c
      else if opId \<noteq> 0 then rejectConnect opId POSIX_EPROTO ''invalid_connect_complete_op_id'' c
      else case pendingBaseStation c of
             None \<Rightarrow> (True, set_state ConnectStateTerminal c)
           | Some bs \<Rightarrow>
               (let ops = (case resume c of None \<Rightarrow> [] | Some off \<Rightarrow> offeredOps off) in
                case activateSession svc (c\<lparr>resume := None\<rparr>) of
                  (False, c1) \<Rightarrow> (True, set_state ConnectStateTerminal c1)
                | (True, c1) \<Rightarrow>
                    (let c2 = completeHandshake c1;
                         c3 = (if IsResumed (sess c2)
                               then on_sess (reopenResumedBaseStationOperations ops) c2 else c2)
                     in reissueResumedOperations ops c3)))"

section \<open>The error exchange\<close>

definition retireRefusedResume :: "conn_services \<Rightarrow> conn \<Rightarrow> conn" where
  "retireRefusedResume svc c =
     (case resume c of
        None \<Rightarrow> c
      | Some off \<Rightarrow>
          c\<lparr>resume := None,
            effects := effects c @ snd (terminateInconsistentResume (resume_services.truncate svc) (previous off))\<rparr>)"

definition handleConnectRefusal :: "conn_services \<Rightarrow> conn \<Rightarrow> bool \<times> conn" where
  "handleConnectRefusal svc c =
     (True, retireRefusedResume svc (set_state ConnectStateTerminal (snd (sendErrorAck 0 c))))"

text \<open>The row is deleted first; the tracked copy goes only when that succeeded.\<close>

definition removePendingOperation :: "conn_services \<Rightarrow> i64 \<Rightarrow> conn \<Rightarrow> conn" where
  "removePendingOperation svc opId c =
     (let e = RemovePendingOperation (DbSessionID (sess c)) opId;
          c1 = c\<lparr>effects := effects c @ [e]\<rparr>
      in if effect_ok svc e then c1\<lparr>tracked := AList.delete opId (tracked c1)\<rparr> else c1)"

definition finalizeErroredOperation :: "conn_services \<Rightarrow> i64 \<Rightarrow> conn \<Rightarrow> conn" where
  "finalizeErroredOperation svc opID c =
     (case map_of (tracked c) opID of
        None \<Rightarrow> c
      | Some typ \<Rightarrow>
          removePendingOperation svc opID
            (case onError registry typ of
               Some fn \<Rightarrow> c\<lparr>handled := handled c @ [(fn, opID)]\<rparr>
             | None \<Rightarrow> c))"

definition handleError :: "conn_services \<Rightarrow> i64 \<Rightarrow> conn \<Rightarrow> bool \<times> conn" where
  "handleError svc opId c =
     (if opId = 0 \<and> connectState (sess c) = ConnectStateAwaitingConnectComplete
      then handleConnectRefusal svc c
      else case sendErrorAck opId c of
             (False, c1) \<Rightarrow> (True, c1)
           | (True, c1) \<Rightarrow> (False, finalizeErroredOperation svc opId c1))"

definition handleErrorAck :: "conn_services \<Rightarrow> i64 \<Rightarrow> conn \<Rightarrow> bool \<times> conn" where
  "handleErrorAck svc opId c =
     (if opId = 0 \<and> connectState (sess c) = ConnectStateAwaitingConnectErrorAck
      then (True, set_state ConnectStateTerminal c)
      else if opId = 0 \<and> connectState (sess c) \<noteq> ConnectStateComplete
      then rejectConnect opId POSIX_EPROTO ''invalid_handshake_state'' c
      else case consumePendingErrorAck opId (sess c) of
             (None, s) \<Rightarrow> (False, c)
           | (Some d, s) \<Rightarrow>
               (let c1 = c\<lparr>sess := s\<rparr>;
                    c2 = (if d = errorAckFinalizePendingOperation \<and> sint opId < 0
                          then removePendingOperation svc opId c1 else c1)
                in if connectState (sess c2) = ConnectStateAwaitingConnectErrorAck
                   then (True, set_state ConnectStateTerminal c2)
                   else (False, c2)))"

section \<open>Dispatch\<close>

definition has_prefix :: "string \<Rightarrow> string \<Rightarrow> bool" where
  "has_prefix p s = (take (length p) s = p)"

fun normalize_token :: "normalize_error \<Rightarrow> string" where
  "normalize_token (ErrMandatoryFieldMissing _) = ''mandatory_field_missing''"
| "normalize_token (ErrInvalidFieldType _ _) = ''invalid_field_type''"
| "normalize_token ErrResponseExpRequiresDlOpen = ''response_exp_requires_dl_open''"
| "normalize_token (ErrConditionalRuleFailed _) = ''conditional_rule_failed''"
| "normalize_token (ErrValidationFailed _) = ''invalid_message_format''"

definition runHandler :: "conn_services \<Rightarrow> string \<Rightarrow> string \<Rightarrow> i64 \<Rightarrow> gomap \<Rightarrow> conn \<Rightarrow> bool \<times> conn" where
  "runHandler svc fn command opId data c =
     (if command = CmdConnect then handleConnect svc data opId c
      else if command = CmdConnectComplete then handleConnectComplete svc opId c
      else if command = CmdError then handleError svc opId c
      else if command = CmdErrorAck then handleErrorAck svc opId c
      else (\<not> handler_ok svc, c\<lparr>handled := handled c @ [(fn, opId)]\<rparr>))"

text \<open>A reply that only reports: its failure is logged and the connection goes on.\<close>

definition report :: "i64 \<Rightarrow> posix \<Rightarrow> string \<Rightarrow> conn \<Rightarrow> bool \<times> conn" where
  "report opId code token c = (False, snd (sendError opId code token c))"

definition dispatch :: "conn_services \<Rightarrow> string \<Rightarrow> i64 \<Rightarrow> gomap \<Rightarrow> conn \<Rightarrow> bool \<times> conn" where
  "dispatch svc command opId data c =
     (let r = role registry command in
      if \<not> HandshakeComplete (sess c) \<and> r \<noteq> roleHandshake \<and> r \<noteq> roleErrorExchange
      then rejectConnect opId POSIX_EPROTO ''command_before_handshake'' c
      else if HandshakeComplete (sess c) \<and> r = roleHandshake
      then report opId POSIX_EPROTO ''invalid_handshake_state'' c
      else if CHR ''.'' \<in> set command \<and> \<not> has_prefix ''rc.'' command \<and> \<not> has_prefix ''vm.'' command
      then report opId POSIX_ENOTSUP ''unsupported_sublayer_prefix'' c
      else if \<not> has_prefix ''vm.'' command \<and> isServiceCenterCommand registry command
      then report opId POSIX_EPROTO ''inbound_service_center_command'' c
      else case inboundHandler registry command of
             None \<Rightarrow> report opId POSIX_ENOTSUP ''unsupported_command'' c
           | Some fn \<Rightarrow> runHandler svc fn command opId data c)"

definition handleMessage :: "conn_services \<Rightarrow> string \<Rightarrow> i64 \<Rightarrow> gomap \<Rightarrow> conn \<Rightarrow> bool \<times> conn" where
  "handleMessage svc command opId data c =
     (if shouldNormalize registry command then
        (case normalizePayload command data of
           Inl e \<Rightarrow>
             if \<not> HandshakeComplete (sess c) then rejectConnect opId POSIX_EPROTO (normalize_token e) c
             else report opId POSIX_EPROTO (normalize_token e) c
         | Inr data' \<Rightarrow> dispatch svc command opId data' c)
      else dispatch svc command opId data c)"

section \<open>The message loop\<close>

fun sequence_token :: "sequence_error \<Rightarrow> string" where
  "sequence_token ErrConnectOpIDNotZero = ''connect_op_id_not_zero''"
| "sequence_token ErrOperationIDNotPositive = ''operation_id_not_positive''"
| "sequence_token ErrOperationIDBackwards = ''operation_id_backwards''"
| "sequence_token ErrOperationNotOpen = ''operation_not_open''"
| "sequence_token ErrSCOperationIDMustBeNegative = ''sc_operation_id_must_be_negative''"
| "sequence_token ErrOperationIDIncreasing = ''operation_id_increasing''"

text \<open>The deferred cleanup ends the session, whatever made the loop return.\<close>

definition teardown :: "conn \<Rightarrow> conn" where
  "teardown c = (set_state ConnectStateTerminal c)\<lparr>closed := True\<rparr>"

definition finish_step :: "bool \<times> conn \<Rightarrow> conn" where
  "finish_step r = (if fst r then teardown (snd r) else snd r)"

definition receive :: "conn_services \<Rightarrow> string \<Rightarrow> i64 \<Rightarrow> gomap \<Rightarrow> conn \<Rightarrow> conn" where
  "receive svc command opId data c0 =
     (case sequenceOperation registry command opId (sess c0) of
        (Some e, s) \<Rightarrow>
          (let c = c0\<lparr>sess := s\<rparr> in
           if \<not> HandshakeComplete s then finish_step (rejectConnect opId POSIX_EPROTO (sequence_token e) c)
           else teardown (snd (sendError opId POSIX_EPROTO (sequence_token e) c)))
      | (None, s) \<Rightarrow> finish_step (handleMessage svc command opId data (c0\<lparr>sess := s\<rparr>)))"

section \<open>Reachable connections\<close>

inductive step :: "conn \<Rightarrow> conn \<Rightarrow> bool" where
  message: "\<not> closed c \<Longrightarrow> step c (receive svc command opId data c)"
| hang_up: "\<not> closed c \<Longrightarrow> step c (teardown c)"

inductive reachable :: "conn \<Rightarrow> bool" where
  start: "reachable (newConnection defaultTenantID ws)"
| more: "reachable c \<Longrightarrow> step c c' \<Longrightarrow> reachable c'"

inductive_cases stepE: "step c c'"

section \<open>What each operation leaves alone\<close>

lemma set_state_simps [simp]:
  "connectState (sess (set_state st c)) = st"
  "HandshakeComplete (sess (set_state st c)) = HandshakeComplete (sess c)"
  "outbox (set_state st c) = outbox c" "handled (set_state st c) = handled c"
  "pendingBaseStation (set_state st c) = pendingBaseStation c" "closed (set_state st c) = closed c"
  "tracked (set_state st c) = tracked c" "pendingErrorAcks (sess (set_state st c)) = pendingErrorAcks (sess c)"
  "openBsOps (sess (set_state st c)) = openBsOps (sess c)" "LastBsOpId (sess (set_state st c)) = LastBsOpId (sess c)"
  by (simp_all add: set_state_def)

lemma register_simps [simp]:
  "HandshakeComplete (registerPendingErrorAck i d s) = HandshakeComplete s"
  "connectState (registerPendingErrorAck i d s) = connectState s"
  "openBsOps (registerPendingErrorAck i d s) = openBsOps s"
  "LastBsOpId (registerPendingErrorAck i d s) = LastBsOpId s"
  by (simp_all add: registerPendingErrorAck_def)

text \<open>A step that at most writes frames of the error exchange and changes sessions elsewhere.\<close>

fun plain_frame :: "out_frame \<Rightarrow> bool" where
  "plain_frame (OutError _ _ _) = True"
| "plain_frame (OutErrorAck _) = True"
| "plain_frame _ = False"

definition neutral :: "conn \<Rightarrow> conn \<Rightarrow> bool" where
  "neutral c c' \<longleftrightarrow>
     HandshakeComplete (sess c') = HandshakeComplete (sess c) \<and> connectState (sess c') = connectState (sess c) \<and>
     pendingBaseStation c' = pendingBaseStation c \<and> handled c' = handled c \<and> tracked c' = tracked c \<and>
     closed c' = closed c \<and> (\<exists>fs. outbox c' = outbox c @ fs \<and> list_all plain_frame fs)"

lemma neutralI:
  assumes "HandshakeComplete (sess c') = HandshakeComplete (sess c)" "connectState (sess c') = connectState (sess c)"
    and "pendingBaseStation c' = pendingBaseStation c" "handled c' = handled c" "tracked c' = tracked c"
    and "closed c' = closed c" "outbox c' = outbox c @ fs" "list_all plain_frame fs"
  shows "neutral c c'"
  using assms unfolding neutral_def by blast

lemma neutral_send: "plain_frame f \<Longrightarrow> sendMessage f c = (ok, c') \<Longrightarrow> neutral c c'"
  by (cases "writes c"; cases "hd (writes c)")
    (auto simp: sendMessage_def intro: neutralI [where fs = "[]"] neutralI [where fs = "[f]"])

lemma neutral_sess:
  "neutral c c' \<Longrightarrow> HandshakeComplete s = HandshakeComplete (sess c') \<Longrightarrow> connectState s = connectState (sess c') \<Longrightarrow>
   neutral c (c'\<lparr>sess := s\<rparr>)"
  by (simp add: neutral_def)

lemma neutral_error:
  assumes "sendError i code token c = (ok, c')"
  shows "neutral c c'"
proof -
  obtain ok' c1 where s: "sendMessage (OutError i code token) c = (ok', c1)" by force
  then have "neutral c c1" by (rule neutral_send [rotated]) simp
  then show ?thesis
    using assms s by (cases ok') (auto simp: sendError_def intro: neutral_sess)
qed

lemma neutral_ack: "sendErrorAck i c = (ok, c') \<Longrightarrow> neutral c c'"
  unfolding sendErrorAck_def using neutral_send [of "OutErrorAck i" c ok c'] by simp

section \<open>The handshake invariant\<close>

fun is_connect_response :: "out_frame \<Rightarrow> bool" where
  "is_connect_response (OutConnectResponse _ _ _) = True"
| "is_connect_response _ = False"

fun is_reissue :: "out_frame \<Rightarrow> bool" where
  "is_reissue (OutReissue _ _) = True"
| "is_reissue _ = False"

definition connect_responses :: "conn \<Rightarrow> nat" where
  "connect_responses c = length (filter is_connect_response (outbox c))"

definition handshake_inv :: "conn \<Rightarrow> bool" where
  "handshake_inv c \<longleftrightarrow>
     (connectState (sess c) = ConnectStateComplete \<longrightarrow> HandshakeComplete (sess c)) \<and>
     (HandshakeComplete (sess c) \<longrightarrow>
        connectState (sess c) = (if closed c then ConnectStateTerminal else ConnectStateComplete) \<and>
        pendingBaseStation c \<noteq> None \<and> connect_responses c = 1) \<and>
     (connectState (sess c) = ConnectStateAwaitingConnectComplete \<longrightarrow>
        pendingBaseStation c \<noteq> None \<and> connect_responses c = 1) \<and>
     (connectState (sess c) = ConnectStateAwaitingConnect \<longrightarrow> connect_responses c = 0) \<and>
     connect_responses c \<le> 1 \<and>
     (\<not> HandshakeComplete (sess c) \<longrightarrow>
        handled c = [] \<and> tracked c = [] \<and> list_all (\<lambda>f. \<not> is_reissue f) (outbox c)) \<and>
     (closed c \<longrightarrow> connectState (sess c) = ConnectStateTerminal)"

lemmas inv_simps = handshake_inv_def connect_responses_def

lemma plain_not: "list_all plain_frame fs \<Longrightarrow> filter is_connect_response fs = [] \<and> list_all (\<lambda>f. \<not> is_reissue f) fs"
proof (induction fs)
  case (Cons f fs)
  then show ?case by (cases f) auto
qed simp

lemma inv_neutral:
  assumes "handshake_inv c" "neutral c c'"
  shows "handshake_inv c'"
proof -
  from assms(2) obtain fs where fs: "outbox c' = outbox c @ fs" "list_all plain_frame fs"
    by (auto simp: neutral_def)
  then have "connect_responses c' = connect_responses c"
      "list_all (\<lambda>f. \<not> is_reissue f) (outbox c') = list_all (\<lambda>f. \<not> is_reissue f) (outbox c)"
    using plain_not [OF fs(2)] by (simp_all add: connect_responses_def)
  then show ?thesis using assms unfolding handshake_inv_def neutral_def by simp
qed

lemma inv_new: "handshake_inv (newConnection t ws)"
  by (simp add: inv_simps newConnection_def newSession_def)

text \<open>Ending a connection, and failing a handshake that is not complete.\<close>

lemma inv_terminal:
  "handshake_inv c \<Longrightarrow> \<not> HandshakeComplete (sess c) \<Longrightarrow> handshake_inv (set_state ConnectStateTerminal c)"
  by (simp add: inv_simps)

lemma inv_teardown: "handshake_inv c \<Longrightarrow> handshake_inv (teardown c)"
  by (simp add: inv_simps teardown_def)

lemma inv_incomplete:
  "handshake_inv c \<Longrightarrow> \<not> closed c \<Longrightarrow> connectState (sess c) \<noteq> ConnectStateComplete \<Longrightarrow>
   \<not> HandshakeComplete (sess c)"
  by (auto simp: handshake_inv_def)

lemma inv_finish: "handshake_inv (snd r) \<Longrightarrow> handshake_inv (finish_step r)"
  by (simp add: finish_step_def inv_teardown)

lemma inv_awaiting_ack:
  "handshake_inv c \<Longrightarrow> \<not> HandshakeComplete (sess c) \<Longrightarrow> \<not> closed c \<Longrightarrow>
   handshake_inv (set_state ConnectStateAwaitingConnectErrorAck c)"
  by (simp add: inv_simps)

lemma inv_report: "handshake_inv c \<Longrightarrow> handshake_inv (snd (report i code token c))"
  unfolding report_def using inv_neutral neutral_error by (metis prod.collapse snd_conv)

lemma inv_reject:
  assumes "handshake_inv c" "\<not> HandshakeComplete (sess c)" "\<not> closed c"
  shows "handshake_inv (snd (rejectConnect i code token c))"
proof -
  obtain ok c' where s: "sendError i code token c = (ok, c')" by force
  have "handshake_inv c'" "\<not> HandshakeComplete (sess c')" "\<not> closed c'"
    using inv_neutral [OF assms(1) neutral_error [OF s]] neutral_error [OF s] assms(2,3)
    by (simp_all add: neutral_def)
  then show ?thesis
    using s by (cases ok) (simp_all add: rejectConnect_def inv_terminal inv_awaiting_ack)
qed

lemma inv_remove:
  "handshake_inv c \<Longrightarrow> HandshakeComplete (sess c) \<Longrightarrow> handshake_inv (removePendingOperation svc i c)"
  by (simp add: inv_simps removePendingOperation_def Let_def)

lemma inv_finalize:
  assumes "handshake_inv c"
  shows "handshake_inv (finalizeErroredOperation svc i c)"
proof (cases "map_of (tracked c) i")
  case (Some ty)
  then have hs: "HandshakeComplete (sess c)" using assms by (auto simp: handshake_inv_def)
  show ?thesis
  proof (cases "onError registry ty")
    case None
    then show ?thesis using Some assms hs by (simp add: finalizeErroredOperation_def inv_remove)
  next
    case (Some fn)
    have "handshake_inv (c\<lparr>handled := handled c @ [(fn, i)]\<rparr>)" using assms hs by (simp add: inv_simps)
    then show ?thesis
      using Some \<open>map_of (tracked c) i = Some ty\<close> hs by (simp add: finalizeErroredOperation_def inv_remove)
  qed
qed (simp add: finalizeErroredOperation_def assms)

lemma neutral_retire: "neutral c (retireRefusedResume svc c)"
  by (rule neutralI [where fs = "[]"]) (simp_all add: retireRefusedResume_def split: option.splits)

lemma inv_handleError:
  assumes "handshake_inv c" "\<not> closed c"
  shows "handshake_inv (snd (handleError svc i c))"
proof (cases "i = 0 \<and> connectState (sess c) = ConnectStateAwaitingConnectComplete")
  case True
  obtain ok c' where s: "sendErrorAck 0 c = (ok, c')" by force
  have inv: "handshake_inv c'" by (rule inv_neutral [OF assms(1) neutral_ack [OF s]])
  have "\<not> HandshakeComplete (sess c')"
    using inv_incomplete [OF assms] True neutral_ack [OF s] by (simp add: neutral_def)
  from inv_terminal [OF inv this]
  have "handshake_inv (retireRefusedResume svc (set_state ConnectStateTerminal c'))"
    by (rule inv_neutral [OF _ neutral_retire])
  then show ?thesis using True s by (simp add: handleError_def handleConnectRefusal_def)
next
  case False
  obtain ok c' where s: "sendErrorAck i c = (ok, c')" by force
  have inv: "handshake_inv c'" by (rule inv_neutral [OF assms(1) neutral_ack [OF s]])
  have "handleError svc i c = (case sendErrorAck i c of (False, c1) \<Rightarrow> (True, c1)
      | (True, c1) \<Rightarrow> (False, finalizeErroredOperation svc i c1))"
    unfolding handleError_def if_not_P [OF False] ..
  then show ?thesis using inv inv_finalize [OF inv] s by (cases ok) simp_all
qed

lemma consume_fields:
  assumes "consumePendingErrorAck i s = (d, s')"
  shows "HandshakeComplete s' = HandshakeComplete s" "connectState s' = connectState s"
  using assms by (auto simp: consumePendingErrorAck_def split: option.splits)

lemma removePending_fields [simp]:
  "HandshakeComplete (sess (removePendingOperation svc i c)) = HandshakeComplete (sess c)"
  "connectState (sess (removePendingOperation svc i c)) = connectState (sess c)"
  "closed (removePendingOperation svc i c) = closed c"
  by (simp_all add: removePendingOperation_def Let_def)

lemma inv_remove_any: "handshake_inv c \<Longrightarrow> handshake_inv (removePendingOperation svc i c)"
  by (simp add: inv_simps removePendingOperation_def Let_def)

lemma inv_consumed:
  assumes inv: "handshake_inv c" and still: "\<not> closed c"
    and con: "consumePendingErrorAck i (sess c) = (Some d, s)"
    and c2: "c2 = (if d = errorAckFinalizePendingOperation \<and> sint i < 0
                   then removePendingOperation svc i (c\<lparr>sess := s\<rparr>) else c\<lparr>sess := s\<rparr>)"
  shows "handshake_inv c2 \<and> (connectState (sess c2) = ConnectStateAwaitingConnectErrorAck \<longrightarrow>
           handshake_inv (set_state ConnectStateTerminal c2))"
proof -
  have "neutral c (c\<lparr>sess := s\<rparr>)"
    using consume_fields [OF con] by (intro neutralI [where fs = "[]"]) simp_all
  then have i1: "handshake_inv (c\<lparr>sess := s\<rparr>)" by (rule inv_neutral [OF inv])
  then have i2: "handshake_inv c2" using inv_remove_any c2 by simp
  have "\<not> closed c2" using c2 still by simp
  then show ?thesis using i2 inv_incomplete [OF i2] inv_terminal [OF i2] by auto
qed

lemma inv_handleErrorAck:
  assumes inv: "handshake_inv c" and still: "\<not> closed c"
  shows "handshake_inv (snd (handleErrorAck svc i c))"
proof (cases "i = 0 \<and> connectState (sess c) \<noteq> ConnectStateComplete")
  case True
  then have "\<not> HandshakeComplete (sess c)" using inv_incomplete [OF inv still] by simp
  then show ?thesis
    using True inv_terminal [OF inv] inv_reject [OF inv _ still] by (simp add: handleErrorAck_def)
next
  case False
  obtain d s where con: "consumePendingErrorAck i (sess c) = (d, s)" by force
  show ?thesis
  proof (cases d)
    case None
    then show ?thesis using False con inv by (auto simp: handleErrorAck_def)
  next
    case (Some d')
    then show ?thesis
      using False con inv_consumed [OF inv still con [unfolded Some] refl, of svc]
      by (auto simp: handleErrorAck_def Let_def)
  qed
qed

lemma readBidiFlag_fields:
  "HandshakeComplete (snd (readBidiFlag data s)) = HandshakeComplete s"
  "connectState (snd (readBidiFlag data s)) = connectState s"
  by (simp_all add: readBidiFlag_def split: option.splits)

lemma readConnectRequest_snd:
  "\<exists>eui v n. snd (readConnectRequest svc data s) \<in>
     {s, snd (readBidiFlag data (s\<lparr>BaseStationEUI := eui, ClientVersion := v, NegotiatedVersion := n\<rparr>))}"
  unfolding readConnectRequest_def by (auto split: option.splits sum.splits)

lemma readConnectRequest_fields:
  assumes "readConnectRequest svc data s = (e, s')"
  shows "HandshakeComplete s' = HandshakeComplete s \<and> connectState s' = connectState s"
proof -
  from readConnectRequest_snd [of svc data s] obtain eui v n where
    "s' = s \<or> s' = snd (readBidiFlag data (s\<lparr>BaseStationEUI := eui, ClientVersion := v, NegotiatedVersion := n\<rparr>))"
    unfolding assms by auto
  then show ?thesis by (auto simp: readBidiFlag_fields)
qed

lemma admitStation_fields:
  assumes "admitStation svc s = (bs, s')"
  shows "HandshakeComplete s' = HandshakeComplete s \<and> connectState s' = connectState s"
  using assms unfolding admitStation_def settleStationTenant_def
  by (auto split: option.splits if_splits bool.splits)

lemma floor_shake:
  "HandshakeComplete (floorServiceCenterCounter ops s) = HandshakeComplete s"
  "connectState (floorServiceCenterCounter ops s) = connectState s"
  unfolding floorServiceCenterCounter_def by (induction ops arbitrary: s) auto

lemma findResumableSession_fields:
  assumes "findResumableSession svc data s = (r, s', effs)"
  shows "HandshakeComplete s' = HandshakeComplete s \<and> connectState s' = connectState s"
  using assms unfolding findResumableSession_def
  by (auto simp: Let_def case_prod_beta split: option.splits sum.splits)

lemma offerResume_fields:
  assumes "offerResume svc prev s = (r, s', effs)"
  shows "HandshakeComplete s' = HandshakeComplete s \<and> connectState s' = connectState s"
  using assms unfolding offerResume_def
  by (auto simp: Let_def case_prod_beta floor_shake split: option.splits)

lemma negotiateSession_fields:
  assumes "negotiateSession svc u data s = (r, s', effs)"
  shows "HandshakeComplete s' = HandshakeComplete s \<and> connectState s' = connectState s"
proof -
  obtain f s1 e1 where f: "findResumableSession svc data s = (f, s1, e1)" by (metis prod_cases3)
  note f' = findResumableSession_fields [OF f]
  show ?thesis
  proof (cases "\<exists>prev. f = Inr (Some prev)")
    case True
    then obtain prev where p: "f = Inr (Some prev)" by blast
    obtain o2 s2 e2 where o2: "offerResume svc prev s1 = (o2, s2, e2)" by (metis prod_cases3)
    then show ?thesis using offerResume_fields [OF o2] f f' p assms
      by (auto simp: negotiateSession_def split: sum.splits)
  next
    case False
    then show ?thesis using f f' assms
      by (auto simp: negotiateSession_def startNewSession_def split: sum.splits option.splits)
  qed
qed

lemma neutral_update:
  assumes "HandshakeComplete s = HandshakeComplete (sess c)" "connectState s = connectState (sess c)"
  shows "neutral c (c\<lparr>sess := s\<rparr>)"
  using assms by (intro neutralI [where fs = "[]"]) simp_all

lemma inv_station: "handshake_inv c \<Longrightarrow> handshake_inv (c\<lparr>pendingBaseStation := Some bs, effects := e\<rparr>)"
  by (simp add: inv_simps)

lemma not_sent:
  assumes "\<not> fst (sendMessage f c)" "\<And>ws. sendMessage f c = (False, c\<lparr>writes := ws\<rparr>) \<Longrightarrow> thesis"
  shows thesis
proof (cases "writes c")
  case Nil
  then have "sendMessage f c = (False, c\<lparr>writes := []\<rparr>)"
    unfolding sendMessage_def by (cases c) simp
  then show ?thesis by (rule assms(2))
next
  case (Cons w ws)
  then show ?thesis using assms by (cases w) (simp_all add: sendMessage_def)
qed

lemma inv_sendConnectResponse:
  assumes "handshake_inv c" "\<not> closed c" "connectState (sess c) = ConnectStateAwaitingConnect"
    "pendingBaseStation c \<noteq> None"
  shows "handshake_inv (snd (sendConnectResponse i c))"
proof -
  have hs: "\<not> HandshakeComplete (sess c)" using inv_incomplete [OF assms(1,2)] assms(3) by simp
  let ?f = "OutConnectResponse i (IsResumed (sess c)) (SessionUUID (sess c))"
  show ?thesis
  proof (cases "fst (sendMessage ?f c)")
    case True
    then obtain w ws where "writes c = w # ws" "w"
      by (auto simp: sendMessage_def split: list.splits if_splits)
    then show ?thesis using assms hs by (simp add: sendConnectResponse_def sendMessage_def inv_simps)
  next
    case False
    then obtain ws where "sendMessage ?f c = (False, c\<lparr>writes := ws\<rparr>)"
      by (rule not_sent [OF _ that])
    then show ?thesis using assms hs by (simp add: sendConnectResponse_def inv_simps)
  qed
qed

lemma inv_handleConnect:
  assumes inv: "handshake_inv c" and still: "\<not> closed c" and hs: "\<not> HandshakeComplete (sess c)"
  shows "handshake_inv (snd (handleConnect svc data i c))"
proof (cases "connectState (sess c) \<noteq> ConnectStateAwaitingConnect \<or> i \<noteq> 0")
  case True
  then show ?thesis using inv_reject [OF inv hs still] by (auto simp: handleConnect_def)
next
  case False
  then have st: "connectState (sess c) = ConnectStateAwaitingConnect" and i: "i = 0" by simp_all
  obtain e s1 where r: "readConnectRequest svc data (sess c) = (e, s1)" by force
  have f1: "HandshakeComplete s1 = HandshakeComplete (sess c)" "connectState s1 = connectState (sess c)"
    using readConnectRequest_fields [OF r] by simp_all
  obtain bs s2 where a: "admitStation svc s1 = (bs, s2)" by force
  have f2: "HandshakeComplete s2 = HandshakeComplete (sess c)" "connectState s2 = connectState (sess c)"
    using admitStation_fields [OF a] f1 by simp_all
  obtain off s3 effs where n: "negotiateSession (resume_services.truncate svc) (sessionUUID svc) data s2 = (off, s3, effs)"
    by (metis prod_cases3)
  have f3: "HandshakeComplete s3 = HandshakeComplete (sess c)" "connectState s3 = connectState (sess c)"
    using negotiateSession_fields [OF n] f2 by simp_all
  have upd: "handshake_inv (c\<lparr>sess := s\<rparr>)"
    if "HandshakeComplete s = HandshakeComplete (sess c)" "connectState s = connectState (sess c)" for s
    using inv_neutral [OF inv neutral_update [OF that]] .
  show ?thesis
  proof (cases e)
    case (Some tc)
    then show ?thesis using inv_reject [OF upd [OF f1]] f1 hs still st i r
      by (cases tc) (simp add: handleConnect_def)
  next
    case e: None
    show ?thesis
    proof (cases bs)
      case None
      then show ?thesis using inv_reject [OF upd [OF f2]] f2 hs still st i r a e
        by (simp add: handleConnect_def)
    next
      case (Some b)
      have base: "handshake_inv (c\<lparr>sess := s3, pendingBaseStation := Some b, effects := effects c @ effs\<rparr>)"
        using inv_station [OF upd [OF f3]] by simp
      have offered: "handshake_inv (c\<lparr>sess := s3, pendingBaseStation := Some b, resume := rs, effects := effects c @ effs\<rparr>)" for rs
        by (rule inv_neutral [OF base neutralI [where fs = "[]"]]) simp_all
      show ?thesis
      proof (cases off)
        case (Inl tc)
        then show ?thesis using inv_reject [OF base] f3 hs still st i r a e Some n
          by (cases tc) (simp add: handleConnect_def)
      next
        case (Inr rs)
        then show ?thesis using inv_sendConnectResponse [OF offered] f3 still st i r a e Some n
          by (simp add: handleConnect_def)
      qed
    qed
  qed
qed

lemma persist_fields:
  assumes "PersistSession ok ans s = (e, s', effs)"
  shows "HandshakeComplete s' = HandshakeComplete s" "connectState s' = connectState s"
  using assms unfolding PersistSession_def persistNewSession_def persistResumedSession_def
  by (auto simp: Let_def split: if_splits option.splits prod.splits bool.splits)

lemma restore_fields:
  "HandshakeComplete (restoreOpenBaseStationOperations ids s) = HandshakeComplete s"
  "connectState (restoreOpenBaseStationOperations ids s) = connectState s"
  unfolding restoreOpenBaseStationOperations_def
  by (induction ids arbitrary: s) (simp_all add: markBaseStationOperationOpen_def)

lemma reopen_fields [simp]:
  "HandshakeComplete (reopenResumedBaseStationOperations ops s) = HandshakeComplete s"
  "connectState (reopenResumedBaseStationOperations ops s) = connectState s"
  using restore_fields unfolding reopenResumedBaseStationOperations_def by blast+

text \<open>Once the handshake is complete, tracking and reissuing operations keeps the invariant.\<close>

lemma inv_reissue:
  assumes "handshake_inv c" "HandshakeComplete (sess c)"
  shows "handshake_inv (snd (reissueResumedOperations ops c))"
  using assms
proof (induction ops arbitrary: c)
  case (Cons op ops)
  let ?c1 = "c\<lparr>tracked := AList.update (OperationID op) (OperationType op) (tracked c)\<rparr>"
  let ?f = "OutReissue (OperationID op) (OperationType op)"
  have i1: "handshake_inv ?c1" using Cons.prems by (simp add: inv_simps)
  show ?case
  proof (cases "resumable registry (OperationID op) (OperationType op)")
    case False
    then show ?thesis using Cons.IH [OF i1] Cons.prems(2) by (simp add: Let_def)
  next
    case True
    obtain ok c2 where s: "sendMessage ?f ?c1 = (ok, c2)" by force
    have "handshake_inv c2 \<and> HandshakeComplete (sess c2)"
      using s i1 Cons.prems(2) unfolding sendMessage_def
      by (auto simp: inv_simps split: list.splits if_splits)
    then show ?thesis using Cons.IH [of c2] True s by (cases ok) (simp_all add: Let_def)
  qed
qed simp

lemma inv_handleConnectComplete:
  assumes inv: "handshake_inv c" and still: "\<not> closed c" and hs: "\<not> HandshakeComplete (sess c)"
  shows "handshake_inv (snd (handleConnectComplete svc i c))"
proof (cases "connectState (sess c) \<noteq> ConnectStateAwaitingConnectComplete \<or> i \<noteq> 0")
  case True
  then show ?thesis using inv_reject [OF inv hs still] by (auto simp: handleConnectComplete_def)
next
  case False
  then have st: "connectState (sess c) = ConnectStateAwaitingConnectComplete" and i: "i = 0" by simp_all
  from inv st obtain bs where bs: "pendingBaseStation c = Some bs" by (auto simp: handshake_inv_def)
  define ops where "ops = (case resume c of None \<Rightarrow> [] | Some off \<Rightarrow> offeredOps off)"
  obtain e s effs where p: "PersistSession (effect_ok svc) (persistAnswers svc) (sess c) = (e, s, effs)"
    by (metis prod_cases3)
  note f = persist_fields [OF p]
  let ?c1 = "c\<lparr>sess := s, resume := None, effects := effects c @ effs\<rparr>"
  have i1: "handshake_inv ?c1"
    by (rule inv_neutral [OF inv neutralI [where fs = "[]"]]) (simp_all add: f)
  have act: "activateSession svc (c\<lparr>resume := None\<rparr>) = (e = None \<and> RegisterConnection svc, ?c1)"
    using p by (cases e) (simp_all add: activateSession_def)
  have over: "handshake_inv (set_state ConnectStateTerminal ?c1)"
    using inv_terminal [OF i1] f hs by simp
  let ?c2 = "completeHandshake ?c1"
  let ?c3 = "if IsResumed (sess ?c2) then on_sess (reopenResumedBaseStationOperations ops) ?c2 else ?c2"
  have i2: "handshake_inv ?c2" using i1 st still bs f hs by (simp add: inv_simps completeHandshake_def)
  have i3: "handshake_inv ?c3"
    using i2 inv_neutral [OF i2 neutral_update] by simp
  have h3: "HandshakeComplete (sess ?c3)" by (simp add: completeHandshake_def)
  show ?thesis
  proof (cases "e = None \<and> RegisterConnection svc")
    case True
    then have "handleConnectComplete svc i c = reissueResumedOperations ops ?c3"
      using st i bs act by (simp add: handleConnectComplete_def Let_def flip: ops_def)
    then show ?thesis using inv_reissue [OF i3 h3, of ops] by simp
  next
    case False
    then have "activateSession svc (c\<lparr>resume := None\<rparr>) = (False, ?c1)" using act by simp
    then show ?thesis using over st i bs by (simp add: handleConnectComplete_def Let_def)
  qed
qed

lemma handshake_roles:
  "role registry CmdConnect = roleHandshake" "role registry CmdConnectComplete = roleHandshake"
  by code_simp+

lemma error_roles:
  "role registry CmdError = roleErrorExchange" "role registry CmdErrorAck = roleErrorExchange"
  by code_simp+

text \<open>The rows of the two roles: the connect pair, and the error pair.\<close>

lemma role_rows:
  "list_all (\<lambda>s. Role s = roleErrorExchange \<longrightarrow> SpecCommand s \<in> {CmdError, CmdErrorAck}) commandTable"
  "list_all (\<lambda>s. Role s = roleHandshake \<longrightarrow> SpecCommand s \<in> {CmdConnect, CmdConnectComplete}) commandTable"
  by code_simp+

lemma role_row:
  assumes "role registry command = r" "r \<noteq> roleUnset"
  obtains s where "s \<in> set commandTable" "SpecCommand s = command" "Role s = r"
  using assms registry_row [of command] by (auto simp: role_def split: option.splits)

lemma exchange_commands:
  assumes "role registry command = roleErrorExchange"
  shows "command = CmdError \<or> command = CmdErrorAck"
  using role_row [OF assms] role_rows(1) by (auto simp: list_all_iff)

lemma handshake_commands:
  assumes "role registry command = roleHandshake"
  shows "command = CmdConnect \<or> command = CmdConnectComplete"
  using role_row [OF assms] role_rows(2) by (auto simp: list_all_iff)

lemma inv_handled:
  "handshake_inv c \<Longrightarrow> HandshakeComplete (sess c) \<Longrightarrow> handshake_inv (c\<lparr>handled := h\<rparr>)"
  by (simp add: inv_simps)

lemma inv_dispatch:
  assumes inv: "handshake_inv c" and still: "\<not> closed c"
  shows "handshake_inv (snd (dispatch svc command i data c))"
proof (cases "HandshakeComplete (sess c)")
  case hs: True
  have run: "handshake_inv (snd (runHandler svc fn command i data c))"
    if "role registry command \<noteq> roleHandshake" for fn
    using that handshake_roles inv_handleError [OF inv still] inv_handleErrorAck [OF inv still] inv_handled [OF inv hs]
    by (auto simp: runHandler_def)
  show ?thesis
    using inv_report [OF inv] run hs by (simp add: dispatch_def Let_def split: option.splits)
next
  case hs: False
  have run: "handshake_inv (snd (runHandler svc fn command i data c))"
    if "role registry command = roleHandshake \<or> role registry command = roleErrorExchange"
      "inboundHandler registry command = Some fn" for fn
    using exchange_commands handshake_commands that inv_handleConnect [OF inv still hs] inv_handleConnectComplete [OF inv still hs]
      inv_handleError [OF inv still] inv_handleErrorAck [OF inv still]
    by (auto simp: runHandler_def)
  show ?thesis
    using inv_report [OF inv] inv_reject [OF inv hs still] run hs
    by (simp add: dispatch_def Let_def split: option.splits)
qed

lemma inv_handleMessage:
  assumes inv: "handshake_inv c" and still: "\<not> closed c"
  shows "handshake_inv (snd (handleMessage svc command i data c))"
  using inv_dispatch [OF assms] inv_report [OF inv] inv_reject [OF inv _ still]
  by (simp add: handleMessage_def split: sum.splits)

lemma inv_receive:
  assumes inv: "handshake_inv c" and still: "\<not> closed c"
  shows "handshake_inv (receive svc command i data c)"
proof -
  obtain e s where q: "sequenceOperation registry command i (sess c) = (e, s)" by force
  have i1: "handshake_inv (c\<lparr>sess := s\<rparr>)"
    by (rule inv_neutral [OF inv neutral_update]) (simp_all add: sequenceOperation_frame [OF q])
  have snd1: "handshake_inv (snd (sendError i code token (c\<lparr>sess := s\<rparr>)))" for code token
    using inv_report [OF i1, of i code token] by (simp add: report_def)
  show ?thesis
    using inv_finish [OF inv_handleMessage [OF i1]] inv_finish [OF inv_reject [OF i1]] inv_teardown [OF snd1] still q
    by (simp add: receive_def Let_def split: option.splits)
qed

lemma step_inv: "step c c' \<Longrightarrow> handshake_inv c \<Longrightarrow> handshake_inv c'"
  by (auto elim!: stepE simp: inv_receive inv_teardown)

lemma reachable_inv: "reachable c \<Longrightarrow> handshake_inv c"
  by (induction rule: reachable.induct) (simp_all add: inv_new step_inv)

end
