(* ===== verification/Handshake.thy ===== *)
theory Handshake
  imports Connection
begin

text \<open>
  The connect handshake as an automaton (\<^verbatim>\<open>connect_handlers.go\<close>, \<^verbatim>\<open>connect_complete.go\<close>,
  \<^verbatim>\<open>error_handlers.go\<close>): its phases and moves as an abstract specification, the proof that the
  connection of theory \<open>Connection\<close> refines it, and the theorems on every reachable connection:
  handlers wait for the handshake, a refused connection stays refused, a well-formed exchange
  completes, and acknowledgements of errors settle only what they were asked to.
\<close>

section \<open>The handshake as an automaton\<close>

text \<open>What the handshake promises, without the messages: its phases and the moves between them.\<close>

inductive handshake_next :: "ConnectState \<Rightarrow> ConnectState \<Rightarrow> bool" where
  responded: "handshake_next ConnectStateAwaitingConnect ConnectStateAwaitingConnectComplete"
| refused: "p \<in> {ConnectStateAwaitingConnect, ConnectStateAwaitingConnectComplete} \<Longrightarrow>
    handshake_next p ConnectStateAwaitingConnectErrorAck"
| completed: "handshake_next ConnectStateAwaitingConnectComplete ConnectStateComplete"
| ended: "p \<noteq> ConnectStateTerminal \<Longrightarrow> handshake_next p ConnectStateTerminal"

inductive_simps handshake_next_refused: "handshake_next ConnectStateAwaitingConnectErrorAck p"
inductive_simps handshake_next_terminal: "handshake_next ConnectStateTerminal p"
inductive_simps handshake_next_complete: "handshake_next ConnectStateComplete p"

abbreviation phase :: "conn \<Rightarrow> ConnectState" where
  "phase c \<equiv> connectState (sess c)"

abbreviation moves :: "ConnectState \<Rightarrow> ConnectState \<Rightarrow> bool" where
  "moves \<equiv> handshake_next\<^sup>*\<^sup>*"

abbreviation completes :: "conn \<Rightarrow> conn \<Rightarrow> bool" where
  "completes c c' \<equiv> HandshakeComplete (sess c') \<longrightarrow>
     HandshakeComplete (sess c) \<or> phase c = ConnectStateAwaitingConnectComplete"

text \<open>A handler's result follows the automaton and never leaves a dead connection in use.\<close>

definition follows :: "conn \<Rightarrow> bool \<times> conn \<Rightarrow> bool" where
  "follows c r \<longleftrightarrow> moves (phase c) (phase (snd r)) \<and> (\<not> fst r \<longrightarrow> phase (snd r) \<noteq> ConnectStateTerminal) \<and>
     completes c (snd r)"

lemma moves_terminal [simp]: "moves p ConnectStateTerminal"
  by (cases "p = ConnectStateTerminal") (auto intro: ended)

lemma moves_next: "handshake_next p q \<Longrightarrow> moves p q"
  by (rule r_into_rtranclp)

lemma moves_refused: "moves ConnectStateAwaitingConnectErrorAck p \<Longrightarrow>
    p = ConnectStateAwaitingConnectErrorAck \<or> p = ConnectStateTerminal"
  by (induction rule: rtranclp_induct) (auto simp: handshake_next_refused handshake_next_terminal)

lemma follows_stay: "phase c' = phase c \<Longrightarrow> HandshakeComplete (sess c') = HandshakeComplete (sess c) \<Longrightarrow> phase c \<noteq> ConnectStateTerminal \<Longrightarrow> follows c (b, c')"
  by (simp add: follows_def)

lemma follows_terminal:
  "HandshakeComplete (sess c') = HandshakeComplete (sess c) \<Longrightarrow>
   follows c (True, set_state ConnectStateTerminal c')"
  by (simp add: follows_def)

lemma follows_report:
  assumes "phase c \<noteq> ConnectStateTerminal"
  shows "follows c (report i code token c)"
proof -
  obtain ok c' where s: "sendError i code token c = (ok, c')" by force
  then show ?thesis using neutral_error [OF s] assms by (simp add: follows_def report_def neutral_def)
qed

lemma moves_to_ack:
  "p \<notin> {ConnectStateComplete, ConnectStateTerminal} \<Longrightarrow> moves p ConnectStateAwaitingConnectErrorAck"
  by (cases p) (auto intro: moves_next handshake_next.intros)

lemma follows_reject:
  assumes "phase c \<notin> {ConnectStateComplete, ConnectStateTerminal}"
    "HandshakeComplete (sess c') = HandshakeComplete (sess c)"
  shows "follows c (rejectConnect i code token c')"
proof -
  obtain ok c'' where s: "sendError i code token c' = (ok, c'')" by force
  then show ?thesis
    using moves_to_ack [OF assms(1)] neutral_error [OF s] assms(2)
    by (cases ok) (simp_all add: follows_def rejectConnect_def neutral_def)
qed

lemma follows_handleError:
  assumes "phase c \<noteq> ConnectStateTerminal"
  shows "follows c (handleError svc i c)"
proof (cases "i = 0 \<and> phase c = ConnectStateAwaitingConnectComplete")
  case True
  have "phase (retireRefusedResume svc c') = phase c' \<and> HandshakeComplete (sess (retireRefusedResume svc c')) = HandshakeComplete (sess c')" for c'
    using neutral_retire [of c' svc] by (simp add: neutral_def)
  then show ?thesis using True neutral_ack [of 0 c] by (simp add: handleError_def handleConnectRefusal_def follows_def)
next
  case False
  obtain ok c' where s: "sendErrorAck i c = (ok, c')" by force
  have ph: "phase c' = phase c" "HandshakeComplete (sess c') = HandshakeComplete (sess c)"
    using neutral_ack [OF s] by (simp_all add: neutral_def)
  have fin: "phase (finalizeErroredOperation svc i c') = phase c'"
    "HandshakeComplete (sess (finalizeErroredOperation svc i c')) = HandshakeComplete (sess c')"
    by (simp_all add: finalizeErroredOperation_def split: option.splits)
  have "handleError svc i c = (case sendErrorAck i c of (False, c1) \<Rightarrow> (True, c1)
      | (True, c1) \<Rightarrow> (False, finalizeErroredOperation svc i c1))"
    unfolding handleError_def if_not_P [OF False] ..
  then show ?thesis using s ph fin assms by (cases ok) (simp_all add: follows_def)
qed

lemma follows_handleErrorAck:
  assumes "phase c \<noteq> ConnectStateTerminal"
  shows "follows c (handleErrorAck svc i c)"
proof (cases "i = 0 \<and> phase c \<noteq> ConnectStateComplete")
  case True
  then show ?thesis
    using follows_reject [of c c] assms by (simp add: handleErrorAck_def follows_terminal)
next
  case False
  obtain d s where con: "consumePendingErrorAck i (sess c) = (d, s)" by force
  show ?thesis
    using False con consume_fields [OF con] assms
    by (auto simp: handleErrorAck_def Let_def follows_def split: option.splits)
qed

lemma follows_sendConnectResponse:
  assumes "phase c = ConnectStateAwaitingConnect" "HandshakeComplete (sess c') = HandshakeComplete (sess c)"
  shows "follows c (sendConnectResponse i c')"
proof -
  obtain ok c2 where s: "sendMessage (OutConnectResponse i (IsResumed (sess c')) (SessionUUID (sess c'))) c' = (ok, c2)"
    by force
  then have "HandshakeComplete (sess c2) = HandshakeComplete (sess c')"
    by (auto simp: sendMessage_def split: list.splits if_splits)
  then show ?thesis
    using assms s moves_next [OF responded] by (cases ok) (simp_all add: follows_def sendConnectResponse_def)
qed

lemma follows_handleConnect:
  assumes "phase c \<notin> {ConnectStateComplete, ConnectStateTerminal}"
  shows "follows c (handleConnect svc data i c)"
proof (cases "phase c \<noteq> ConnectStateAwaitingConnect \<or> i \<noteq> 0")
  case True
  then show ?thesis using follows_reject [OF assms] by (auto simp: handleConnect_def)
next
  case False
  then have st: "phase c = ConnectStateAwaitingConnect" and i: "i = 0" by simp_all
  obtain e s1 where r: "readConnectRequest svc data (sess c) = (e, s1)" by force
  obtain bs s2 where a: "admitStation svc s1 = (bs, s2)" by force
  obtain off s3 effs where n: "negotiateSession (resume_services.truncate svc) (sessionUUID svc) data s2 = (off, s3, effs)"
    by (metis prod_cases3)
  have f1: "HandshakeComplete s1 = HandshakeComplete (sess c)" using readConnectRequest_fields [OF r] by simp
  have f2: "HandshakeComplete s2 = HandshakeComplete (sess c)" using admitStation_fields [OF a] f1 by simp
  have f3: "HandshakeComplete s3 = HandshakeComplete (sess c)" using negotiateSession_fields [OF n] f2 by simp
  show ?thesis
  proof (cases e)
    case (Some tc)
    then show ?thesis using follows_reject [OF assms] f1 st i r by (cases tc) (simp add: handleConnect_def)
  next
    case e: None
    show ?thesis
      using follows_reject [OF assms] follows_sendConnectResponse [OF st] f2 f3 st i r a e n
      by (cases bs; cases off) (auto simp: handleConnect_def split: prod.splits)
  qed
qed

lemma phase_reissue:
  "phase (snd (reissueResumedOperations ops c)) = phase c"
proof (induction ops arbitrary: c)
  case (Cons op ops)
  have "phase (snd (sendMessage f c)) = phase c" for f c
    by (simp add: sendMessage_def split: list.splits)
  then have "phase c2 = phase c" if "sendMessage f c = (ok, c2)" for f c ok c2 using that by (metis snd_conv)
  from this [of _ "c\<lparr>tracked := AList.update (OperationID op) (OperationType op) (tracked c)\<rparr>"]
  show ?case using Cons.IH by (auto simp: Let_def split: prod.splits bool.splits)
qed simp

lemma follows_handleConnectComplete:
  assumes "phase c \<notin> {ConnectStateComplete, ConnectStateTerminal}"
  shows "follows c (handleConnectComplete svc i c)"
proof (cases "phase c \<noteq> ConnectStateAwaitingConnectComplete \<or> i \<noteq> 0")
  case True
  then show ?thesis using follows_reject [OF assms] by (auto simp: handleConnectComplete_def)
next
  case False
  then have st: "phase c = ConnectStateAwaitingConnectComplete" and i: "i = 0" by simp_all
  have fin: "follows c (reissueResumedOperations ops (if b then on_sess (reopenResumedBaseStationOperations ops) (completeHandshake c1) else completeHandshake c1))"
    for ops b c1
    using moves_next [OF completed] by (simp add: follows_def st phase_reissue) (simp add: completeHandshake_def)
  have act: "HandshakeComplete (sess c1) = HandshakeComplete (sess c)"
    if "activateSession svc (c\<lparr>resume := None\<rparr>) = (ok, c1)" for ok c1
    using that persist_fields(1) [of "effect_ok svc" "persistAnswers svc" "sess c"]
    by (auto simp: activateSession_def split: prod.splits option.splits)
  obtain ok c1 where a: "activateSession svc (c\<lparr>resume := None\<rparr>) = (ok, c1)" by force
  define ops where "ops = (case resume c of None \<Rightarrow> [] | Some off \<Rightarrow> offeredOps off)"
  show ?thesis
    using st i follows_terminal [of c c] follows_terminal [OF act [OF a]] fin [of ops "IsResumed (sess (completeHandshake c1))" c1] a
    by (cases "pendingBaseStation c"; cases ok) (simp_all add: handleConnectComplete_def Let_def flip: ops_def)
qed

lemma follows_dispatch:
  assumes "handshake_inv c" "\<not> closed c" "phase c \<noteq> ConnectStateTerminal"
  shows "follows c (dispatch svc command i data c)"
proof -
  have early: "phase c \<notin> {ConnectStateComplete, ConnectStateTerminal}" if "\<not> HandshakeComplete (sess c)"
    using that assms by (auto simp: handshake_inv_def)
  have run: "follows c (runHandler svc fn command i data c)"
    if "\<not> (HandshakeComplete (sess c) \<and> role registry command = roleHandshake)" for fn
  proof (cases "command = CmdConnect \<or> command = CmdConnectComplete")
    case True
    then have "phase c \<notin> {ConnectStateComplete, ConnectStateTerminal}" using that early handshake_roles by blast
    from follows_handleConnect [OF this] follows_handleConnectComplete [OF this]
    show ?thesis using True unfolding runHandler_def by (cases "command = CmdConnect") simp_all
  next
    case False
    then show ?thesis
      using follows_handleError [OF assms(3)] follows_handleErrorAck [OF assms(3)] assms(3)
      unfolding runHandler_def by (simp add: follows_stay)
  qed
  show ?thesis
    using early follows_reject [of c c] follows_report [OF assms(3)] run
    by (simp add: dispatch_def Let_def split: option.splits)
qed

lemma follows_handleMessage:
  assumes "handshake_inv c" "\<not> closed c" "phase c \<noteq> ConnectStateTerminal"
  shows "follows c (handleMessage svc command i data c)"
proof -
  have early: "phase c \<notin> {ConnectStateComplete, ConnectStateTerminal}" if "\<not> HandshakeComplete (sess c)"
    using that assms by (auto simp: handshake_inv_def)
  show ?thesis
    using early follows_reject [of c c] follows_report [OF assms(3)] follows_dispatch [OF assms]
    by (simp add: handleMessage_def split: sum.splits)
qed

lemma follows_finish:
  assumes "follows c r"
  shows "moves (phase c) (phase (finish_step r)) \<and> completes c (finish_step r) \<and>
    (\<not> closed (finish_step r) \<longrightarrow> phase (finish_step r) \<noteq> ConnectStateTerminal)"
  using assms by (auto simp: follows_def finish_step_def teardown_def split: if_splits)

lemma receive_follows:
  assumes inv: "handshake_inv c" and still: "\<not> closed c" and live: "phase c \<noteq> ConnectStateTerminal"
    and c': "c' = receive svc command i data c"
  shows "moves (phase c) (phase c') \<and> completes c c' \<and> (\<not> closed c' \<longrightarrow> phase c' \<noteq> ConnectStateTerminal)"
proof -
  obtain e s where q: "sequenceOperation registry command i (sess c) = (e, s)" by force
  let ?c = "c\<lparr>sess := s\<rparr>"
  have i1: "handshake_inv ?c"
    by (rule inv_neutral [OF inv neutral_update]) (simp_all add: sequenceOperation_frame [OF q])
  note ph = sequenceOperation_frame(1,2) [OF q]
  have early: "phase c \<notin> {ConnectStateComplete, ConnectStateTerminal}" if "\<not> HandshakeComplete s"
    using that live inv still ph by (auto simp: handshake_inv_def)
  have fm: "follows c (handleMessage svc command i data ?c)"
    using follows_handleMessage [OF i1] still live ph by (simp add: follows_def)
  have fr: "\<not> HandshakeComplete s \<Longrightarrow> follows c (rejectConnect i code token ?c)" for code token
    using follows_reject [OF early] ph by simp
  show ?thesis
    unfolding c' receive_def q using follows_finish [OF fm] follows_finish [OF fr] ph
    by (auto simp: Let_def teardown_def split: option.splits)
qed

lemma step_follows:
  assumes inv: "handshake_inv c" and live: "\<not> closed c \<Longrightarrow> phase c \<noteq> ConnectStateTerminal" and st: "step c c'"
  shows "moves (phase c) (phase c') \<and> completes c c' \<and> (\<not> closed c' \<longrightarrow> phase c' \<noteq> ConnectStateTerminal)"
  using st
proof (cases rule: step.cases)
  case (message svc command opId data)
  show ?thesis by (rule receive_follows [OF inv message(2) live [OF message(2)] message(1)])
next
  case hang_up
  then show ?thesis by (simp add: teardown_def)
qed

lemma reachable_live: "reachable c \<Longrightarrow> \<not> closed c \<Longrightarrow> phase c \<noteq> ConnectStateTerminal"
proof (induction rule: reachable.induct)
  case (start t ws)
  then show ?case by (simp add: newConnection_def newSession_def)
next
  case (more c c')
  then show ?case using step_follows [OF reachable_inv [OF more.hyps(1)] more.IH more.hyps(2)] by blast
qed

lemma step_moves:
  assumes "reachable c" "step c c'"
  shows "moves (phase c) (phase c')" "completes c c'"
  using step_follows [OF reachable_inv [OF assms(1)] reachable_live [OF assms(1)] assms(2)] by blast+

section \<open>A connection\<close>

text \<open>A registered station connects and completes; another is refused for its operation ID.\<close>

definition demo_services :: conn_services where
  "demo_services =
     \<lparr>FindResumableSession = (\<lambda>_ _ _. Row_NotFound), serviceTenant = 1, effect_ok = (\<lambda>_. True),
      PersistedOperations = (\<lambda>_. None), rebuild = (\<lambda>_. None), reconstitutable = (\<lambda>_. False),
      supportedVersions = [\<lparr>major = 1, minor = 0, patch = 0, canonical = ''1.0.0''\<rparr>],
      OrgEnforcementEnabled = False,
      GetBaseStationGlobal = (\<lambda>_. Some \<lparr>StationID = 3, StationTenantID = 1\<rparr>),
      BindStationCertificate = (\<lambda>_. True), GetDefaultOrgForTenant = (\<lambda>_. None),
      sessionUUID = replicate 16 2,
      persistAnswers = \<lparr>activeRow = None, retiredRows = Some [], createdRow = Some 9, counters_ok = True,
        rowByScUUID = None, claimedRow = None\<rparr>,
      RegisterConnection = True, handler_ok = True\<rparr>"

definition demo_connect :: gomap where
  "demo_connect =
     [(''version'', GString ''1.0.0''), (''bsEui'', GUint64 112), (''bidi'', GBool True),
      (''snBsUuid'', GBytes (replicate 16 7))]"

definition demo_connecting :: conn where
  "demo_connecting = receive demo_services CmdConnect 0 demo_connect (newConnection 1 (replicate 2 True))"

definition demo_connected :: conn where
  "demo_connected = receive demo_services CmdConnectComplete 0 [] demo_connecting"

definition demo_refused :: conn where
  "demo_refused = receive demo_services CmdConnect 5 demo_connect (newConnection 1 (replicate 2 True))"

lemma demo_evaluated:
  "(let c = demo_connecting in (closed c, connectState (sess c), HandshakeComplete (sess c))) =
     (False, ConnectStateAwaitingConnectComplete, False)"
  "(let c = demo_connected in (closed c, HandshakeComplete (sess c))) = (False, True)"
  "(let c = demo_refused in (closed c, connectState (sess c))) = (False, ConnectStateAwaitingConnectErrorAck)"
  by code_simp+

lemma demo_phases:
  "\<not> closed demo_connecting" "connectState (sess demo_connecting) = ConnectStateAwaitingConnectComplete"
  "\<not> HandshakeComplete (sess demo_connecting)"
  "\<not> closed demo_connected" "HandshakeComplete (sess demo_connected)"
  "\<not> closed demo_refused" "connectState (sess demo_refused) = ConnectStateAwaitingConnectErrorAck"
  using demo_evaluated unfolding Let_def by simp_all

lemma demo_reachable: "reachable demo_connecting" "reachable demo_refused"
  unfolding demo_connecting_def demo_refused_def
  by (rule more [OF start message]; simp add: newConnection_def)+

lemma demo_step: "step demo_connecting demo_connected"
  unfolding demo_connected_def by (rule message) (rule demo_phases)

section \<open>Theorems\<close>

text \<open>
  C16. Whatever a base station sends and whichever writes fail: until the handshake is complete no
  command handler has run, no service-center operation is tracked or reissued; at most one connect
  response is ever sent, and a completed handshake has sent exactly one for a registered station;
  the state machine is in its complete state exactly while the handshake is complete and the
  connection open.
\<close>

theorem handshake_gates_handlers:
  assumes "reachable c"
  shows "(\<not> HandshakeComplete (sess c) \<longrightarrow>
      handled c = [] \<and> tracked c = [] \<and> (\<forall>i op. OutReissue i op \<notin> set (outbox c)))
    \<and> connect_responses c \<le> 1
    \<and> (HandshakeComplete (sess c) \<longrightarrow> pendingBaseStation c \<noteq> None \<and> connect_responses c = 1)
    \<and> (connectState (sess c) = ConnectStateComplete \<longleftrightarrow> HandshakeComplete (sess c) \<and> \<not> closed c)"
proof -
  note inv = reachable_inv [OF assms, unfolded handshake_inv_def]
  have "\<not> HandshakeComplete (sess c) \<longrightarrow>
      handled c = [] \<and> tracked c = [] \<and> (\<forall>i op. OutReissue i op \<notin> set (outbox c))"
    using inv by (auto simp: list_all_iff)
  moreover have "connect_responses c \<le> 1"
    and "HandshakeComplete (sess c) \<longrightarrow> pendingBaseStation c \<noteq> None \<and> connect_responses c = 1"
    and "connectState (sess c) = ConnectStateComplete \<longleftrightarrow> HandshakeComplete (sess c) \<and> \<not> closed c"
    using inv by auto
  ultimately show ?thesis by blast
qed

theorem handshake_gates_handlers_witness:
  "reachable demo_connected \<and> connectState (sess demo_connected) = ConnectStateComplete
   \<and> connect_responses demo_connected = 1 \<and> handled demo_connecting = []"
  using handshake_gates_handlers [OF demo_reachable(1)] handshake_gates_handlers [OF more [OF demo_reachable(1) demo_step]]
    more [OF demo_reachable(1) demo_step] demo_phases
  by blast

text \<open>
  C20. Every message moves the connection along the handshake automaton: connect, response,
  completion or refusal, end, and never back; and only a connection that has sent its connect
  response completes its handshake.
\<close>

theorem connection_refines_handshake:
  assumes "reachable c" "step c c'"
  shows "handshake_next\<^sup>*\<^sup>* (connectState (sess c)) (connectState (sess c'))
    \<and> (HandshakeComplete (sess c') \<and> \<not> HandshakeComplete (sess c) \<longrightarrow>
         connectState (sess c) = ConnectStateAwaitingConnectComplete)"
  using step_moves [OF assms] by blast

theorem connection_refines_handshake_witness:
  "handshake_next\<^sup>*\<^sup>* (connectState (sess demo_connecting)) (connectState (sess demo_connected))
   \<and> HandshakeComplete (sess demo_connected)"
  using connection_refines_handshake [OF demo_reachable(1) demo_step] demo_phases by blast

text \<open>
  A refused connection stays refused: once the service center waits for the acknowledgement of
  a connect error, no further message completes the handshake or reaches a handler.
\<close>

theorem refused_connection_is_final:
  assumes "reachable c" "connectState (sess c) = ConnectStateAwaitingConnectErrorAck" "step\<^sup>*\<^sup>* c c'"
  shows "connectState (sess c') \<in> {ConnectStateAwaitingConnectErrorAck, ConnectStateTerminal}
    \<and> \<not> HandshakeComplete (sess c') \<and> handled c' = []"
proof -
  have "\<not> HandshakeComplete (sess c)" using reachable_inv [OF assms(1)] assms(2) by (auto simp: handshake_inv_def)
  from assms(3) this assms(1,2)
  have "reachable c' \<and> moves ConnectStateAwaitingConnectErrorAck (phase c') \<and> \<not> HandshakeComplete (sess c')"
  proof (induction rule: rtranclp_induct)
    case (step c1 c2)
    then have r: "reachable c1" "moves ConnectStateAwaitingConnectErrorAck (phase c1)" "\<not> HandshakeComplete (sess c1)"
      by simp_all
    show ?case
      using step_moves [OF r(1) step.hyps(2)] moves_refused [OF r(2)] r more [OF r(1) step.hyps(2)]
      by (auto intro: rtranclp_trans)
  qed simp
  moreover from this have "handled c' = []" using reachable_inv [of c'] by (simp add: handshake_inv_def)
  ultimately show ?thesis using moves_refused by auto
qed

theorem refused_connection_is_final_witness:
  "\<not> HandshakeComplete (sess (receive demo_services CmdConnect 0 demo_connect demo_refused))"
  by (rule refused_connection_is_final [OF demo_reachable(2) demo_phases(7) r_into_rtranclp [of step],
        OF message [OF demo_phases(6)], THEN conjunct2, THEN conjunct1])

section \<open>A well-formed exchange completes\<close>

abbreviation reissues :: "PendingOperation list \<Rightarrow> out_frame list" where
  "reissues ops \<equiv> map (\<lambda>op. OutReissue (OperationID op) (OperationType op))
     (filter (\<lambda>op. resumable registry (OperationID op) (OperationType op)) ops)"

lemma reissue_all:
  assumes "writes c = replicate n True" "length ops \<le> n"
  shows "\<exists>c'. reissueResumedOperations ops c = (False, c') \<and> outbox c' = outbox c @ reissues ops \<and>
    sess c' = sess c \<and> closed c' = closed c"
  using assms
proof (induction ops arbitrary: c n)
  case (Cons op ops)
  let ?c1 = "c\<lparr>tracked := AList.update (OperationID op) (OperationType op) (tracked c)\<rparr>"
  let ?f = "OutReissue (OperationID op) (OperationType op)"
  obtain m where w: "n = Suc m" "length ops \<le> m" "writes c = True # replicate m True"
    using Cons.prems by (cases n) auto
  show ?case
  proof (cases "resumable registry (OperationID op) (OperationType op)")
    case True
    then show ?thesis
      using Cons.IH [of "?c1\<lparr>outbox := outbox c @ [?f], writes := replicate m True\<rparr>" m] w by (auto simp: sendMessage_def Let_def)
  next
    case False
    then show ?thesis using Cons.IH [of ?c1 n] w by (auto simp: Let_def)
  qed
qed simp

lemma connect_distinct: "CmdConnectComplete \<noteq> CmdConnect"
  by code_simp

lemma shake_dispatch:
  assumes "\<not> HandshakeComplete (sess c)" "command = CmdConnect \<or> command = CmdConnectComplete"
    "normalizePayload command data = Inr d"
  shows "\<exists>fn. receive svc command 0 data c = finish_step (runHandler svc fn command 0 d c)"
proof -
  have cmd: "inboundHandler registry command \<noteq> None" "\<not> isServiceCenterCommand registry command"
      "CHR ''.'' \<notin> set command" "shouldNormalize registry command" "role registry command = roleHandshake"
    using assms(2) by (elim disjE; hypsubst; code_simp)+
  have "sequenceOperation registry command 0 (sess c) = (None, sess c)"
    by (rule sequence_free) (simp add: cmd)
  then show ?thesis
    using assms(1,3) cmd by (auto simp: receive_def handleMessage_def dispatch_def Let_def)
qed

text \<open>
  C32. A base station that connects correctly is connected: when its connect request passes
  normalization, reading, admission and session negotiation, the registration can be activated and
  the frames can be written, then the connect request and the connect completion leave the
  connection open with its handshake complete, one connect response sent, and after it the
  persisted service-center operations that can be reissued, in their order.
\<close>

theorem connect_completes:
  assumes c: "reachable c" "connectState (sess c) = ConnectStateAwaitingConnect"
    and con: "normalizePayload CmdConnect data = Inr d" "readConnectRequest svc d (sess c) = (None, s1)"
      "admitStation svc s1 = (Some bs, s2)"
      "negotiateSession (resume_services.truncate svc) (sessionUUID svc) d s2 = (Inr off, s3, effs)"
    and c1: "c1 = receive svc CmdConnect 0 data c"
    and cmp: "normalizePayload CmdConnectComplete data' = Inr d'"
      "fst (PersistSession (effect_ok svc') (persistAnswers svc') (sess c1)) = None" "RegisterConnection svc'"
    and ops: "ops = (case off of None \<Rightarrow> [] | Some r \<Rightarrow> offeredOps r)"
    and writes: "writes c = replicate n True" "length ops < n"
    and c2: "c2 = receive svc' CmdConnectComplete 0 data' c1"
  shows "\<not> closed c2 \<and> HandshakeComplete (sess c2) \<and> connectState (sess c2) = ConnectStateComplete
    \<and> outbox c2 = outbox c @ [OutConnectResponse 0 (IsResumed s3) (SessionUUID s3)] @ reissues ops"
proof -
  have open0: "\<not> closed c" "\<not> HandshakeComplete (sess c)"
    using reachable_inv [OF c(1)] c(2) by (auto simp: handshake_inv_def)
  obtain m where w: "writes c = True # replicate m True" "length ops \<le> m"
    using writes by (cases n) auto
  note f3 = readConnectRequest_fields [OF con(2)] admitStation_fields [OF con(3)] negotiateSession_fields [OF con(4)]
  let ?s = "s3\<lparr>connectState := ConnectStateAwaitingConnectComplete\<rparr>"
  let ?rsp = "OutConnectResponse 0 (IsResumed s3) (SessionUUID s3)"
  have "handleConnect svc d 0 c = (False, c\<lparr>sess := ?s, pendingBaseStation := Some bs, resume := off,
      effects := effects c @ effs, outbox := outbox c @ [?rsp], writes := replicate m True\<rparr>)"
    using c(2) con w(1) by (simp add: handleConnect_def sendConnectResponse_def sendMessage_def set_state_def)
  then have c1': "c1 = c\<lparr>sess := ?s, pendingBaseStation := Some bs, resume := off,
      effects := effects c @ effs, outbox := outbox c @ [?rsp], writes := replicate m True\<rparr>"
    using shake_dispatch [OF open0(2) _ con(1), of svc] by (auto simp: c1 runHandler_def finish_step_def)
  obtain s4 effs' where p: "PersistSession (effect_ok svc') (persistAnswers svc') ?s = (None, s4, effs')"
    using cmp(2) by (cases "PersistSession (effect_ok svc') (persistAnswers svc') ?s") (auto simp: c1')
  let ?c2 = "c1\<lparr>resume := None, effects := effects c1 @ effs',
      sess := s4\<lparr>HandshakeComplete := True, connectState := ConnectStateComplete\<rparr>\<rparr>"
  let ?c3 = "if IsResumed s4 then on_sess (reopenResumedBaseStationOperations ops) ?c2 else ?c2"
  have hc: "handleConnectComplete svc' 0 c1 = reissueResumedOperations ops ?c3"
    using p cmp(3) by (simp add: c1' handleConnectComplete_def activateSession_def completeHandshake_def Let_def ops)
  have "writes ?c3 = replicate m True" by (simp add: c1')
  from reissue_all [OF this w(2)] obtain c3 where r: "reissueResumedOperations ops ?c3 = (False, c3)"
      "outbox c3 = outbox ?c3 @ reissues ops" "sess c3 = sess ?c3" "closed c3 = closed ?c3"
    by blast
  have "\<not> HandshakeComplete (sess c1)" using f3 open0(2) by (simp add: c1')
  from shake_dispatch [OF this _ cmp(1), of svc']
  obtain fn where "c2 = finish_step (runHandler svc' fn CmdConnectComplete 0 d' c1)" unfolding c2 by blast
  then have "c2 = c3" by (simp add: runHandler_def finish_step_def connect_distinct hc r(1))
  then show ?thesis using r open0(1) by (simp add: c1')
qed

lemma demo_exchange:
  defines "d \<equiv> projr (normalizePayload CmdConnect demo_connect)" and "svc \<equiv> demo_services"
  defines "r1 \<equiv> readConnectRequest svc d (sess (newConnection 1 (replicate 2 True)))"
  defines "r2 \<equiv> admitStation svc (snd r1)"
  defines "r3 \<equiv> negotiateSession (resume_services.truncate svc) (sessionUUID svc) d (snd r2)"
  shows "\<not> isl (normalizePayload CmdConnect demo_connect)"
    "fst r1 = None" "fst r2 = Some \<lparr>StationID = 3, StationTenantID = 1\<rparr>" "fst r3 = Inr None"
    "IsResumed (fst (snd r3)) = False" "SessionUUID (fst (snd r3)) = replicate 16 2"
    "normalizePayload CmdConnectComplete [] = Inr []"
    "fst (PersistSession (effect_ok svc) (persistAnswers svc) (sess demo_connecting)) = None"
    "RegisterConnection svc"
  unfolding assms by code_simp+

theorem connect_completes_witness:
  "\<not> closed demo_connected \<and> HandshakeComplete (sess demo_connected)
   \<and> outbox demo_connected = [OutConnectResponse 0 False (replicate 16 2)]"
proof -
  let ?c = "newConnection 1 (replicate 2 True)"
  let ?d = "projr (normalizePayload CmdConnect demo_connect)"
  let ?r1 = "readConnectRequest demo_services ?d (sess ?c)"
  let ?r2 = "admitStation demo_services (snd ?r1)"
  let ?r3 = "negotiateSession (resume_services.truncate demo_services) (sessionUUID demo_services) ?d (snd ?r2)"
  let ?r4 = "PersistSession (effect_ok demo_services) (persistAnswers demo_services) (sess demo_connecting)"
  have n: "normalizePayload CmdConnect demo_connect = Inr ?d"
    using demo_exchange(1) by (cases "normalizePayload CmdConnect demo_connect") simp_all
  have r: "?r1 = (None, snd ?r1)" "?r2 = (Some \<lparr>StationID = 3, StationTenantID = 1\<rparr>, snd ?r2)" "?r3 = (Inr None, fst (snd ?r3), snd (snd ?r3))"
    using demo_exchange(2-4) by (simp_all add: prod_eq_iff)
  have s3: "IsResumed (fst (snd ?r3)) = False" "SessionUUID (fst (snd ?r3)) = replicate 16 2" by (rule demo_exchange)+
  have "outbox ?c = []" "connectState (sess ?c) = ConnectStateAwaitingConnect" "writes ?c = replicate 2 True"
    by (simp_all add: newConnection_def newSession_def)
  with connect_completes [OF start _ n r demo_connecting_def demo_exchange(7) demo_exchange(8) _ refl _ _ demo_connected_def]
  show ?thesis by (simp add: s3 demo_exchange(9))
qed

section \<open>Acknowledgements of errors\<close>

text \<open>
  A base station's acknowledgement of an error settles a service-center operation only when
  the service center had answered that operation with an error and asked for it: then exactly that
  operation's row and tracked copy go, at most once. An acknowledgement nobody waits for changes
  neither the session nor any operation.
\<close>

theorem errorAck_settles_what_was_asked:
  assumes "connectState (sess c) = ConnectStateComplete" "handleErrorAck svc i c = (failed, c')"
  shows "\<not> failed \<and> handled c' = handled c \<and> map_of (pendingErrorAcks (sess c')) i = None \<and>
    (map_of (pendingErrorAcks (sess c)) i = None \<longrightarrow> c' = c) \<and>
    (map_of (pendingErrorAcks (sess c)) i \<noteq> Some errorAckFinalizePendingOperation \<or> 0 \<le> sint i \<longrightarrow>
       tracked c' = tracked c \<and> effects c' = effects c) \<and>
    (map_of (pendingErrorAcks (sess c)) i = Some errorAckFinalizePendingOperation \<and> sint i < 0 \<longrightarrow>
       effects c' = effects c @ [RemovePendingOperation (DbSessionID (sess c)) i] \<and>
       (effect_ok svc (RemovePendingOperation (DbSessionID (sess c)) i) \<longrightarrow>
          map_of (tracked c') i = None \<and> (\<forall>j. j \<noteq> i \<longrightarrow> map_of (tracked c') j = map_of (tracked c) j)))"
proof (cases "map_of (pendingErrorAcks (sess c)) i")
  case None
  then show ?thesis using assms by (auto simp: handleErrorAck_def consumePendingErrorAck_def)
next
  case (Some d)
  let ?s = "(sess c)\<lparr>pendingErrorAcks := AList.delete i (pendingErrorAcks (sess c))\<rparr>"
  have "consumePendingErrorAck i (sess c) = (Some d, ?s)" using Some by (simp add: consumePendingErrorAck_def)
  then have c': "\<not> failed" "c' = (if d = errorAckFinalizePendingOperation \<and> sint i < 0
      then removePendingOperation svc i (c\<lparr>sess := ?s\<rparr>) else c\<lparr>sess := ?s\<rparr>)"
    using assms by (auto simp: handleErrorAck_def Let_def split: if_splits)
  show ?thesis
  proof (cases "d = errorAckFinalizePendingOperation \<and> sint i < 0")
    case True
    then have "c' = removePendingOperation svc i (c\<lparr>sess := ?s\<rparr>)" using c'(2) by simp
    then show ?thesis using c'(1) Some True by (simp add: removePendingOperation_def Let_def delete_conv')
  next
    case False
    then have "c' = c\<lparr>sess := ?s\<rparr>" using trans [OF c'(2) if_not_P [OF False]] by blast
    then show ?thesis using c'(1) Some False by (auto simp: delete_conv')
  qed
qed

theorem errorAck_settles_what_was_asked_witness:
  "let c = (newConnection 1 [])\<lparr>tracked := [(-1, ''attPrp''), (-2, ''attPrp'')],
        sess := (newSession 1)\<lparr>HandshakeComplete := True, connectState := ConnectStateComplete,
          pendingErrorAcks := [(-1, errorAckFinalizePendingOperation)]\<rparr>\<rparr>;
       c' = snd (handleErrorAck demo_services (-1) c)
   in map_of (tracked c') (-1) = None \<and> map_of (tracked c') (-2) = Some ''attPrp''"
proof -
  let ?c = "(newConnection 1 [])\<lparr>tracked := [(-1, ''attPrp''), (-2, ''attPrp'')],
        sess := (newSession 1)\<lparr>HandshakeComplete := True, connectState := ConnectStateComplete,
          pendingErrorAcks := [(-1, errorAckFinalizePendingOperation)]\<rparr>\<rparr>"
  obtain failed c' where h: "handleErrorAck demo_services (-1) ?c = (failed, c')" by force
  have st: "connectState (sess ?c) = ConnectStateComplete" by simp
  from errorAck_settles_what_was_asked [OF st h] h show ?thesis
    by (simp add: demo_services_def)
qed

end
