(* ===== verification/Pending_Store.thy ===== *)
theory Pending_Store
  imports Session_Resume
begin

text \<open>
  The recovery records of service-center operations: the table of
  \<^verbatim>\<open>KC-DB/storage/postgres/pending_operation_repository.go\<close> and the service in front of it,
  \<^verbatim>\<open>KC-Core/internal/services/bssci/status_service.go\<close>, which writes the table first and mirrors it in
  a cache keyed by the runtime session and the operation ID.

  The service sees the table through the interface \<open>PendingOperationStore\<close>, a record of its
  operations as in the code; the locale \<open>operation_store\<close> states what the service relies on and
  holds its invariant, and the PostgreSQL repository's model interprets it. Whether a statement
  succeeds is the environment's choice, \<open>ok\<close>; a statement that fails changes nothing.
  \<open>marshal\<close> stands for \<^verbatim>\<open>json.Marshal\<close>: every lemma holds for every such function.
\<close>

section \<open>The table\<close>

record op_row =
  RowSession :: i64
  RowOperation :: i64
  RowType :: string
  RowEndpoint :: "bytes option"
  RowData :: string
  RowMeta :: "string option"

abbreviation row_key :: "op_row \<Rightarrow> i64 \<times> i64" where
  "row_key r \<equiv> (RowSession r, RowOperation r)"

record 'db PendingOperationStore =
  Create :: "op_row \<Rightarrow> 'db \<Rightarrow> 'db"
  CreateBatch :: "op_row list \<Rightarrow> 'db \<Rightarrow> 'db"
  UpdateMetadata :: "i64 \<Rightarrow> i64 \<Rightarrow> string \<Rightarrow> 'db \<Rightarrow> 'db"
  DeleteBySessionAndOperation :: "i64 \<Rightarrow> i64 \<Rightarrow> 'db \<Rightarrow> 'db"
  DeleteBySession :: "i64 \<Rightarrow> 'db \<Rightarrow> 'db"
  GetBySession :: "i64 \<Rightarrow> 'db \<Rightarrow> op_row list"

text \<open>Rows stand in the order they were created in; an upsert keeps its row's place.\<close>

fun create_row :: "op_row \<Rightarrow> op_row list \<Rightarrow> op_row list" where
  "create_row r [] = [r]"
| "create_row r (q # qs) = (if row_key q = row_key r then r # qs else q # create_row r qs)"

definition create_rows :: "op_row list \<Rightarrow> op_row list \<Rightarrow> op_row list" where
  "create_rows rs db = fold create_row rs db"

definition update_metadata :: "i64 \<Rightarrow> i64 \<Rightarrow> string \<Rightarrow> op_row list \<Rightarrow> op_row list" where
  "update_metadata sid i m db = map (\<lambda>r. if row_key r = (sid, i) then r\<lparr>RowMeta := Some m\<rparr> else r) db"

definition delete_operation :: "i64 \<Rightarrow> i64 \<Rightarrow> op_row list \<Rightarrow> op_row list" where
  "delete_operation sid i db = filter (\<lambda>r. row_key r \<noteq> (sid, i)) db"

definition delete_session :: "i64 \<Rightarrow> op_row list \<Rightarrow> op_row list" where
  "delete_session sid db = filter (\<lambda>r. RowSession r \<noteq> sid) db"

definition session_rows :: "i64 \<Rightarrow> op_row list \<Rightarrow> op_row list" where
  "session_rows sid db = filter (\<lambda>r. RowSession r = sid) db"

definition PendingOperationRepository :: "op_row list PendingOperationStore" where
  "PendingOperationRepository =
     \<lparr>Create = create_row, CreateBatch = create_rows, UpdateMetadata = update_metadata,
      DeleteBySessionAndOperation = delete_operation, DeleteBySession = delete_session,
      GetBySession = session_rows\<rparr>"

section \<open>The status service\<close>

record FullOperation = PendingOperation +
  Endpoint :: "bytes option"
  MACType :: i64
  OpData :: bytes

datatype status_error = MarshalFailed | StoreFailed | ErrOperationNotFound

record 'db statusService =
  repo :: 'db
  pendingOps :: "((string \<times> i64) \<times> FullOperation) list"

text \<open>The session a call is made for: its runtime ID and its database row.\<close>

type_synonym session_ref = "string \<times> i64"

definition operation_row :: "(gomap \<Rightarrow> string option) \<Rightarrow> i64 \<Rightarrow> i64 \<Rightarrow> FullOperation \<Rightarrow> op_row option" where
  "operation_row marshal dbID opId op =
     (case marshal (Message op) of
        None \<Rightarrow> None
      | Some d \<Rightarrow>
          (case Metadata op of
             None \<Rightarrow> Some \<lparr>RowSession = dbID, RowOperation = opId, RowType = OperationType op,
                          RowEndpoint = Endpoint op, RowData = d, RowMeta = None\<rparr>
           | Some m \<Rightarrow>
               (case marshal m of
                  None \<Rightarrow> None
                | Some md \<Rightarrow> Some \<lparr>RowSession = dbID, RowOperation = opId, RowType = OperationType op,
                                RowEndpoint = Endpoint op, RowData = d, RowMeta = Some md\<rparr>)))"

definition cache_put :: "string \<Rightarrow> i64 \<Rightarrow> FullOperation \<Rightarrow> 'db statusService \<Rightarrow> 'db statusService" where
  "cache_put sid opId op st = st\<lparr>pendingOps := AList.update (sid, opId) op (pendingOps st)\<rparr>"

definition RecordPendingOperation ::
    "'db PendingOperationStore \<Rightarrow> (gomap \<Rightarrow> string option) \<Rightarrow> bool \<Rightarrow> session_ref \<Rightarrow> i64 \<Rightarrow> FullOperation \<Rightarrow>
     'db statusService \<Rightarrow> status_error option \<times> 'db statusService" where
  "RecordPendingOperation store marshal ok s opId op st =
     (case operation_row marshal (snd s) opId op of
        None \<Rightarrow> (Some MarshalFailed, st)
      | Some r \<Rightarrow>
          if \<not> ok then (Some StoreFailed, st)
          else (None, cache_put (fst s) opId op (st\<lparr>repo := Create store r (repo st)\<rparr>)))"

fun operation_rows :: "(gomap \<Rightarrow> string option) \<Rightarrow> i64 \<Rightarrow> FullOperation list \<Rightarrow> op_row list option" where
  "operation_rows marshal dbID [] = Some []"
| "operation_rows marshal dbID (op # ops) =
     (case operation_row marshal dbID (OperationID op) op of
        None \<Rightarrow> None
      | Some r \<Rightarrow> (case operation_rows marshal dbID ops of None \<Rightarrow> None | Some rs \<Rightarrow> Some (r # rs)))"

definition RecordPendingOperations ::
    "'db PendingOperationStore \<Rightarrow> (gomap \<Rightarrow> string option) \<Rightarrow> bool \<Rightarrow> session_ref \<Rightarrow> FullOperation list \<Rightarrow>
     'db statusService \<Rightarrow> status_error option \<times> 'db statusService" where
  "RecordPendingOperations store marshal ok s ops st =
     (case operation_rows marshal (snd s) ops of
        None \<Rightarrow> (Some MarshalFailed, st)
      | Some rs \<Rightarrow>
          if \<not> ok then (Some StoreFailed, st)
          else (None, fold (\<lambda>op. cache_put (fst s) (OperationID op) op) ops
                        (st\<lparr>repo := CreateBatch store rs (repo st)\<rparr>)))"

definition RestorePendingOperation :: "session_ref \<Rightarrow> i64 \<Rightarrow> FullOperation \<Rightarrow> 'db statusService \<Rightarrow> 'db statusService" where
  "RestorePendingOperation s opId op st = cache_put (fst s) opId op st"

definition GetPendingOperation :: "session_ref \<Rightarrow> i64 \<Rightarrow> 'db statusService \<Rightarrow> status_error + FullOperation" where
  "GetPendingOperation s opId st =
     (case map_of (pendingOps st) (fst s, opId) of None \<Rightarrow> Inl ErrOperationNotFound | Some op \<Rightarrow> Inr op)"

definition RemovePendingOperation ::
    "'db PendingOperationStore \<Rightarrow> bool \<Rightarrow> session_ref \<Rightarrow> i64 \<Rightarrow> 'db statusService \<Rightarrow> status_error option \<times> 'db statusService" where
  "RemovePendingOperation store ok s opId st =
     (if \<not> ok then (Some StoreFailed, st)
      else (None, st\<lparr>repo := DeleteBySessionAndOperation store (snd s) opId (repo st),
                     pendingOps := AList.delete (fst s, opId) (pendingOps st)\<rparr>))"

definition UpdatePendingOperationMetadata ::
    "'db PendingOperationStore \<Rightarrow> bool \<Rightarrow> session_ref \<Rightarrow> i64 \<Rightarrow> gomap \<Rightarrow> string \<Rightarrow>
     'db statusService \<Rightarrow> status_error option \<times> 'db statusService" where
  "UpdatePendingOperationMetadata store ok s opId metadata metadataJSON st =
     (if \<not> ok then (Some StoreFailed, st)
      else let st' = st\<lparr>repo := UpdateMetadata store (snd s) opId metadataJSON (repo st)\<rparr> in
           (None, case map_of (pendingOps st) (fst s, opId) of
                    None \<Rightarrow> st'
                  | Some op \<Rightarrow> cache_put (fst s) opId (op\<lparr>Metadata := Some metadata\<rparr>) st'))"

definition PersistedOperations ::
    "'db PendingOperationStore \<Rightarrow> bool \<Rightarrow> i64 \<Rightarrow> 'db statusService \<Rightarrow> status_error + op_row list" where
  "PersistedOperations store ok dbID st = (if \<not> ok then Inl StoreFailed else Inr (GetBySession store dbID (repo st)))"

definition EvictCachedOperations :: "session_ref \<Rightarrow> 'db statusService \<Rightarrow> 'db statusService" where
  "EvictCachedOperations s st = st\<lparr>pendingOps := filter (\<lambda>e. fst (fst e) \<noteq> fst s) (pendingOps st)\<rparr>"

definition DeletePendingOperations ::
    "'db PendingOperationStore \<Rightarrow> bool \<Rightarrow> session_ref \<Rightarrow> 'db statusService \<Rightarrow> status_error option \<times> 'db statusService" where
  "DeletePendingOperations store ok s st =
     (if \<not> ok then (Some StoreFailed, st)
      else (None, EvictCachedOperations s (st\<lparr>repo := DeleteBySession store (snd s) (repo st)\<rparr>)))"

definition SessionOperations :: "session_ref \<Rightarrow> 'db statusService \<Rightarrow> FullOperation list" where
  "SessionOperations s st = map snd (filter (\<lambda>e. fst (fst e) = fst s) (pendingOps st))"

section \<open>What the service relies on\<close>

locale operation_store =
  fixes store :: "'db PendingOperationStore"
    and wf :: "'db \<Rightarrow> bool"
  assumes wf_create: "wf db \<Longrightarrow> wf (Create store r db)"
    and wf_meta: "wf db \<Longrightarrow> wf (UpdateMetadata store s i m db)"
    and wf_delete: "wf db \<Longrightarrow> wf (DeleteBySessionAndOperation store s i db)"
    and wf_clear: "wf db \<Longrightarrow> wf (DeleteBySession store s db)"
    and batch: "CreateBatch store rs db = fold (Create store) rs db"
    and rows_create: "wf db \<Longrightarrow> q \<in> set (GetBySession store s (Create store r db)) \<longleftrightarrow>
      (if row_key r = (s, RowOperation q) then q = r else q \<in> set (GetBySession store s db))"
    and rows_meta: "q \<in> set (GetBySession store s (UpdateMetadata store s' i m db)) \<longleftrightarrow>
      (\<exists>r \<in> set (GetBySession store s db). q = (if (s, RowOperation r) = (s', i) then r\<lparr>RowMeta := Some m\<rparr> else r))"
    and rows_delete: "q \<in> set (GetBySession store s (DeleteBySessionAndOperation store s' i db)) \<longleftrightarrow>
      q \<in> set (GetBySession store s db) \<and> (s, RowOperation q) \<noteq> (s', i)"
    and rows_clear: "q \<in> set (GetBySession store s (DeleteBySession store s' db)) \<longleftrightarrow>
      q \<in> set (GetBySession store s db) \<and> s \<noteq> s'"
begin

definition recorded :: "'db \<Rightarrow> i64 \<Rightarrow> i64 \<Rightarrow> string \<Rightarrow> bool" where
  "recorded db s i ty \<longleftrightarrow> (\<exists>r \<in> set (GetBySession store s db). RowOperation r = i \<and> RowType r = ty)"

lemma recorded_create:
  assumes "wf db"
  shows "recorded (Create store r db) s i ty \<longleftrightarrow> (if row_key r = (s, i) then RowType r = ty else recorded db s i ty)"
  using rows_create [OF assms] unfolding recorded_def by (auto split: if_splits)

lemma wf_batch: "wf db \<Longrightarrow> wf (fold (Create store) rs db)"
  by (induction rs arbitrary: db) (simp_all add: wf_create)

lemma recorded_meta: "recorded (UpdateMetadata store s' i' m db) s i ty \<longleftrightarrow> recorded db s i ty"
proof
  assume "recorded db s i ty"
  then obtain r where r: "r \<in> set (GetBySession store s db)" "RowOperation r = i" "RowType r = ty"
    by (auto simp: recorded_def)
  let ?q = "if (s, RowOperation r) = (s', i') then r\<lparr>RowMeta := Some m\<rparr> else r"
  have "?q \<in> set (GetBySession store s (UpdateMetadata store s' i' m db))" using r(1) by (auto simp only: rows_meta)
  moreover have "RowOperation ?q = i \<and> RowType ?q = ty" using r by simp
  ultimately show "recorded (UpdateMetadata store s' i' m db) s i ty" unfolding recorded_def by blast
qed (auto simp: recorded_def rows_meta Bex_def split: if_splits)

lemma recorded_delete:
  "recorded (DeleteBySessionAndOperation store s' i' db) s i ty \<longleftrightarrow> recorded db s i ty \<and> (s, i) \<noteq> (s', i')"
  unfolding recorded_def by (auto simp: rows_delete)

lemma recorded_clear: "recorded (DeleteBySession store s' db) s i ty \<longleftrightarrow> recorded db s i ty \<and> s \<noteq> s'"
  unfolding recorded_def by (auto simp: rows_clear)

text \<open>Every operation the cache holds for a session of \<open>S\<close> has its recovery record.\<close>

definition durable :: "(string \<Rightarrow> i64) \<Rightarrow> string set \<Rightarrow> 'db statusService \<Rightarrow> bool" where
  "durable dbOf S st \<longleftrightarrow> wf (repo st) \<and>
     (\<forall>sid \<in> S. \<forall>i op. map_of (pendingOps st) (sid, i) = Some op \<longrightarrow> recorded (repo st) (dbOf sid) i (OperationType op))"

lemma durableI:
  assumes "wf (repo st)"
    and "\<And>sid i op. sid \<in> S \<Longrightarrow> map_of (pendingOps st) (sid, i) = Some op \<Longrightarrow> recorded (repo st) (dbOf sid) i (OperationType op)"
  shows "durable dbOf S st"
  using assms unfolding durable_def by blast

lemma durable_put:
  assumes "durable dbOf S st" "inj_on dbOf S" "sid \<in> S" "RowSession r = dbOf sid" "RowOperation r = i"
    "RowType r = OperationType op"
  shows "durable dbOf S (cache_put sid i op (st\<lparr>repo := Create store r (repo st)\<rparr>))"
proof (rule durableI)
  have wf: "wf (repo st)" using assms(1) by (simp add: durable_def)
  then show "wf (repo (cache_put sid i op (st\<lparr>repo := Create store r (repo st)\<rparr>)))"
    by (simp add: cache_put_def wf_create)
  fix sid' i' op'
  assume s': "sid' \<in> S" and "map_of (pendingOps (cache_put sid i op (st\<lparr>repo := Create store r (repo st)\<rparr>))) (sid', i') = Some op'"
  then have m: "(if (sid', i') = (sid, i) then Some op else map_of (pendingOps st) (sid', i')) = Some op'"
    by (auto simp: cache_put_def update_conv' split: if_splits)
  have "(dbOf sid', i') = (dbOf sid, i) \<longleftrightarrow> (sid', i') = (sid, i)"
    using assms(2,3) s' by (auto dest: inj_onD)
  then show "recorded (repo (cache_put sid i op (st\<lparr>repo := Create store r (repo st)\<rparr>))) (dbOf sid') i' (OperationType op')"
    using m assms(1,4-6) s' by (auto simp: cache_put_def recorded_create [OF wf] durable_def split: if_splits)
qed

text \<open>A cached entry with its row, without a write.\<close>

lemma durable_mirror:
  assumes "durable dbOf S st" "sid \<in> S" "recorded (repo st) (dbOf sid) i (OperationType op)"
  shows "durable dbOf S (cache_put sid i op st)"
  using assms by (auto simp: durable_def cache_put_def update_conv' split: if_splits)

lemma durable_drop:
  assumes "durable dbOf S st" "wf db" "\<And>k op. map_of ops k = Some op \<Longrightarrow> map_of (pendingOps st) k = Some op"
    and "\<And>sid i op. sid \<in> S \<Longrightarrow> map_of ops (sid, i) = Some op \<Longrightarrow>
      recorded (repo st) (dbOf sid) i (OperationType op) \<Longrightarrow> recorded db (dbOf sid) i (OperationType op)"
  shows "durable dbOf S (st\<lparr>repo := db, pendingOps := ops\<rparr>)"
  using assms unfolding durable_def by (auto simp: assms(4))

lemma durable_record:
  assumes "durable dbOf S st" "inj_on dbOf S" "sid \<in> S"
  shows "durable dbOf S (snd (RecordPendingOperation store marshal ok (sid, dbOf sid) i op st))"
proof (cases "operation_row marshal (dbOf sid) i op")
  case (Some r)
  then have "RowSession r = dbOf sid" "RowOperation r = i" "RowType r = OperationType op"
    by (auto simp: operation_row_def split: option.splits)
  from durable_put [OF assms this] show ?thesis using Some assms(1) by (simp add: RecordPendingOperation_def)
qed (simp add: RecordPendingOperation_def assms(1))

lemma durable_batch:
  assumes "durable dbOf S st" "inj_on dbOf S" "sid \<in> S" "operation_rows marshal (dbOf sid) ops = Some rs"
  shows "durable dbOf S (fold (\<lambda>op. cache_put sid (OperationID op) op) ops (st\<lparr>repo := fold (Create store) rs (repo st)\<rparr>))"
  using assms
proof (induction ops arbitrary: st rs)
  case (Cons op ops)
  then obtain r rs' where r: "operation_row marshal (dbOf sid) (OperationID op) op = Some r" "rs = r # rs'"
      "operation_rows marshal (dbOf sid) ops = Some rs'"
    by (auto split: option.splits)
  then have key: "RowSession r = dbOf sid" "RowOperation r = OperationID op" "RowType r = OperationType op"
    by (auto simp: operation_row_def split: option.splits)
  have swap: "(cache_put sid i op (st\<lparr>repo := d\<rparr>))\<lparr>repo := d'\<rparr> = cache_put sid i op (st\<lparr>repo := d'\<rparr>)"
      "repo (cache_put sid i op (st\<lparr>repo := d\<rparr>)) = d" for i d d'
    by (simp_all add: cache_put_def)
  from Cons.IH [OF durable_put [OF Cons.prems(1-3) key] Cons.prems(2,3) r(3)]
  show ?case by (simp add: r(2) swap)
qed simp

lemma durable_restore:
  assumes "durable dbOf S st" "sid \<in> S" "\<And>r. OperationType (op_of r) = RowType r"
    and "set rs \<subseteq> set (GetBySession store (dbOf sid) (repo st))"
  shows "durable dbOf S (fold (\<lambda>r. RestorePendingOperation (sid, dbOf sid) (RowOperation r) (op_of r)) rs st)"
  using assms
proof (induction rs arbitrary: st)
  case (Cons r rs)
  have "recorded (repo st) (dbOf sid) (RowOperation r) (OperationType (op_of r))"
    using Cons.prems(3,4) by (auto simp: recorded_def)
  from durable_mirror [OF Cons.prems(1,2) this] Cons.IH [of "cache_put sid (RowOperation r) (op_of r) st"] Cons.prems
  show ?case by (simp add: RestorePendingOperation_def cache_put_def)
qed simp

lemma durable_remove:
  assumes "durable dbOf S st" "inj_on dbOf S" "sid \<in> S"
  shows "durable dbOf S (snd (RemovePendingOperation store ok (sid, dbOf sid) i st))"
proof -
  have "durable dbOf S (st\<lparr>repo := DeleteBySessionAndOperation store (dbOf sid) i (repo st),
      pendingOps := AList.delete (sid, i) (pendingOps st)\<rparr>)"
  proof (rule durable_drop [OF assms(1)])
    show "wf (DeleteBySessionAndOperation store (dbOf sid) i (repo st))"
      using assms(1) by (simp add: durable_def wf_delete)
  qed (use assms(2,3) in \<open>auto simp: delete_conv' recorded_delete dest: inj_onD split: if_splits\<close>)
  then show ?thesis using assms(1) by (simp add: RemovePendingOperation_def)
qed

lemma durable_metadata:
  assumes "durable dbOf S st" "sid \<in> S"
  shows "durable dbOf S (snd (UpdatePendingOperationMetadata store ok (sid, dbOf sid) i m json st))"
proof -
  let ?st = "st\<lparr>repo := UpdateMetadata store (dbOf sid) i json (repo st)\<rparr>"
  have d: "durable dbOf S ?st" using assms(1) by (simp add: durable_def recorded_meta wf_meta)
  have "durable dbOf S (cache_put sid i (op\<lparr>Metadata := Some m\<rparr>) ?st)"
    if "map_of (pendingOps st) (sid, i) = Some op" for op
    using durable_mirror [OF d assms(2)] that d assms(2) by (simp add: durable_def)
  then show ?thesis
    using d assms(1) by (simp add: UpdatePendingOperationMetadata_def Let_def split: option.splits)
qed

lemma evict_lookup:
  "map_of (filter (\<lambda>e. fst (fst e) \<noteq> sid) ops) (sid', i) = (if sid' = sid then None else map_of ops (sid', i))"
  by (induction ops) auto

lemma durable_evict: "durable dbOf S st \<Longrightarrow> durable dbOf S (EvictCachedOperations s st)"
  by (simp add: durable_def EvictCachedOperations_def evict_lookup)

lemma durable_clear:
  assumes "durable dbOf S st" "inj_on dbOf S" "sid \<in> S"
  shows "durable dbOf S (snd (DeletePendingOperations store ok (sid, dbOf sid) st))"
  using assms
  by (auto simp: DeletePendingOperations_def EvictCachedOperations_def durable_def evict_lookup recorded_clear wf_clear
      dest: inj_onD split: if_splits)

end

section \<open>The repository keeps the contract\<close>

definition distinct_rows :: "op_row list \<Rightarrow> bool" where
  "distinct_rows db = distinct (map row_key db)"

lemma create_row_keys: "row_key ` set (create_row r db) = insert (row_key r) (row_key ` set db)"
  by (induction db) auto

lemma create_row_distinct: "distinct_rows db \<Longrightarrow> distinct_rows (create_row r db)"
proof (induction db)
  case (Cons q db)
  then show ?case using create_row_keys [of r db] by (auto simp: distinct_rows_def)
qed (simp add: distinct_rows_def)

lemma create_row_set:
  "distinct_rows db \<Longrightarrow> set (create_row r db) = insert r {q \<in> set db. row_key q \<noteq> row_key r}"
proof (induction db)
  case (Cons a db)
  then have "q \<in> set db \<Longrightarrow> row_key q \<noteq> row_key a" for q by (auto simp: distinct_rows_def image_iff)
  then show ?case using Cons by (auto simp: distinct_rows_def)
qed simp

lemma session_meta:
  "session_rows s (update_metadata s' i m db) =
     map (\<lambda>r. if (s, RowOperation r) = (s', i) then r\<lparr>RowMeta := Some m\<rparr> else r) (session_rows s db)"
  by (induction db) (simp_all add: session_rows_def update_metadata_def)

interpretation pg: operation_store PendingOperationRepository distinct_rows
proof
  fix db r q s s' i m
  show "distinct_rows db \<Longrightarrow> distinct_rows (Create PendingOperationRepository r db)"
    by (simp add: PendingOperationRepository_def create_row_distinct)
  have "map row_key (update_metadata s i m db) = map row_key db" by (simp add: update_metadata_def)
  then show "distinct_rows db \<Longrightarrow> distinct_rows (UpdateMetadata PendingOperationRepository s i m db)"
    by (simp add: PendingOperationRepository_def distinct_rows_def)
  show "q \<in> set (GetBySession PendingOperationRepository s (UpdateMetadata PendingOperationRepository s' i m db)) \<longleftrightarrow>
      (\<exists>r \<in> set (GetBySession PendingOperationRepository s db). q = (if (s, RowOperation r) = (s', i) then r\<lparr>RowMeta := Some m\<rparr> else r))"
    unfolding PendingOperationRepository_def PendingOperationStore.simps session_meta set_map image_iff ..
qed (auto simp: PendingOperationRepository_def distinct_rows_def delete_operation_def delete_session_def
    session_rows_def create_rows_def create_row_set [unfolded distinct_rows_def] distinct_map_filter)

lemma repository_rows: "GetBySession PendingOperationRepository = session_rows"
  by (simp add: PendingOperationRepository_def)

section \<open>Histories of calls\<close>

datatype status_call =
    Call_Record i64 FullOperation
  | Call_RecordBatch "FullOperation list"
  | Call_Restore
  | Call_Remove i64
  | Call_UpdateMetadata i64 gomap string
  | Call_Delete
  | Call_Evict

text \<open>
  A call for a session, with the outcome of its statement. A resumed session reads its rows and
  restores each; \<open>op_of\<close> rebuilds the operation from its row.
\<close>

fun status_step ::
    "(gomap \<Rightarrow> string option) \<Rightarrow> (op_row \<Rightarrow> FullOperation) \<Rightarrow> bool \<Rightarrow> session_ref \<Rightarrow> status_call \<Rightarrow>
     op_row list statusService \<Rightarrow> op_row list statusService" where
  "status_step marshal op_of ok s (Call_Record i op) st =
     snd (RecordPendingOperation PendingOperationRepository marshal ok s i op st)"
| "status_step marshal op_of ok s (Call_RecordBatch ops) st =
     snd (RecordPendingOperations PendingOperationRepository marshal ok s ops st)"
| "status_step marshal op_of ok s Call_Restore st =
     (case PersistedOperations PendingOperationRepository ok (snd s) st of
        Inl _ \<Rightarrow> st
      | Inr rs \<Rightarrow> fold (\<lambda>r. RestorePendingOperation s (RowOperation r) (op_of r)) rs st)"
| "status_step marshal op_of ok s (Call_Remove i) st =
     snd (RemovePendingOperation PendingOperationRepository ok s i st)"
| "status_step marshal op_of ok s (Call_UpdateMetadata i m j) st =
     snd (UpdatePendingOperationMetadata PendingOperationRepository ok s i m j st)"
| "status_step marshal op_of ok s Call_Delete st =
     snd (DeletePendingOperations PendingOperationRepository ok s st)"
| "status_step marshal op_of ok s Call_Evict st = EvictCachedOperations s st"

fun status_run ::
    "(gomap \<Rightarrow> string option) \<Rightarrow> (op_row \<Rightarrow> FullOperation) \<Rightarrow> (string \<Rightarrow> i64) \<Rightarrow>
     (bool \<times> string \<times> status_call) list \<Rightarrow> op_row list statusService \<Rightarrow> op_row list statusService" where
  "status_run marshal op_of dbOf [] st = st"
| "status_run marshal op_of dbOf ((ok, sid, c) # cs) st =
     status_run marshal op_of dbOf cs (status_step marshal op_of ok (sid, dbOf sid) c st)"

lemma status_step_durable:
  assumes "pg.durable dbOf S st" "inj_on dbOf S" "sid \<in> S" "\<And>r. OperationType (op_of r) = RowType r"
  shows "pg.durable dbOf S (status_step marshal op_of ok (sid, dbOf sid) c st)"
proof (cases c)
  case (Call_RecordBatch ops)
  have "CreateBatch PendingOperationRepository rs db = fold (Create PendingOperationRepository) rs db" for rs db
    by (rule pg.batch)
  then show ?thesis
    using pg.durable_batch [OF assms(1-3), of marshal ops] assms(1) Call_RecordBatch
    by (simp add: RecordPendingOperations_def split: option.splits)
next
  case Call_Restore
  then show ?thesis
    using pg.durable_restore [OF assms(1,3,4)] assms(1) by (simp add: PersistedOperations_def)
qed (use assms(1) pg.durable_record [OF assms(1-3)] pg.durable_remove [OF assms(1-3)] pg.durable_metadata [OF assms(1,3)]
      pg.durable_clear [OF assms(1-3)] pg.durable_evict [OF assms(1)] in simp_all)

lemma status_run_durable:
  assumes "inj_on dbOf S" "\<And>r. OperationType (op_of r) = RowType r"
    "pg.durable dbOf S st" "list_all (\<lambda>(ok, sid, c). sid \<in> S) cs"
  shows "pg.durable dbOf S (status_run marshal op_of dbOf cs st)"
  using assms(3,4)
proof (induction cs arbitrary: st)
  case (Cons a cs)
  obtain ok sid c where a: "a = (ok, sid, c)" by (metis prod_cases3)
  with Cons status_step_durable [OF Cons.prems(1) assms(1) _ assms(2), where sid = sid and ok = ok and c = c and marshal = marshal]
  show ?case by simp
qed simp


definition sample_operation :: "i64 \<Rightarrow> string \<Rightarrow> FullOperation" where
  "sample_operation i ty = \<lparr>OperationID = i, OperationType = ty, Message = [], Metadata = None,
     Endpoint = None, MACType = 0, OpData = []\<rparr>"


section \<open>Batches\<close>

lemma create_row_new: "row_key r \<notin> row_key ` set db \<Longrightarrow> create_row r db = db @ [r]"
  by (induction db) auto

lemma create_rows_new:
  "distinct (map row_key rs) \<Longrightarrow> row_key ` set rs \<inter> row_key ` set db = {} \<Longrightarrow> create_rows rs db = db @ rs"
  unfolding create_rows_def
proof (induction rs arbitrary: db)
  case (Cons r rs)
  then have "create_row r db = db @ [r]" by (intro create_row_new) auto
  then show ?case using Cons by (auto simp del: append_assoc)
qed simp

lemma operation_rows_fields:
  "operation_rows marshal db ops = Some rs \<Longrightarrow>
   map RowSession rs = replicate (length ops) db \<and> map RowOperation rs = map OperationID ops \<and>
   map RowType rs = map OperationType ops"
proof (induction ops arbitrary: rs)
  case (Cons op ops)
  then show ?case by (auto simp: operation_row_def split: option.splits)
qed simp

lemma cache_put_lookup:
  "map_of (pendingOps (cache_put sid i op st)) k = (if k = (sid, i) then Some op else map_of (pendingOps st) k)"
  by (simp add: cache_put_def update_conv')

lemma cached_other:
  "i \<notin> OperationID ` set ops \<Longrightarrow>
   map_of (pendingOps (fold (\<lambda>op. cache_put sid (OperationID op) op) ops st)) (sid, i) = map_of (pendingOps st) (sid, i)"
  by (induction ops arbitrary: st) (simp_all add: cache_put_lookup)

lemma cached_all:
  "distinct (map OperationID ops) \<Longrightarrow> op \<in> set ops \<Longrightarrow>
   map_of (pendingOps (fold (\<lambda>op. cache_put sid (OperationID op) op) ops st)) (sid, OperationID op) = Some op"
proof (induction ops arbitrary: st)
  case (Cons o1 ops)
  show ?case
  proof (cases "op \<in> set ops")
    case False
    then show ?thesis
      using Cons.prems by (auto simp: cached_other cache_put_lookup)
  qed (use Cons in simp)
qed simp

text \<open>
  A batch of new operations is recorded whole or not at all. Recorded, its operations are read
  back for a resume in the order they were given, after everything the session had pending before,
  and each is in flight.
\<close>

theorem recorded_batch_order:
  assumes "RecordPendingOperations PendingOperationRepository marshal ok (sid, db) ops st = (e, st')"
    and "distinct (map OperationID ops)"
    and "OperationID ` set ops \<inter> RowOperation ` set (session_rows db (repo st)) = {}"
  shows "if e = None
    then map RowOperation (session_rows db (repo st')) = map RowOperation (session_rows db (repo st)) @ map OperationID ops
      \<and> map RowType (session_rows db (repo st')) = map RowType (session_rows db (repo st)) @ map OperationType ops
      \<and> (\<forall>op \<in> set ops. GetPendingOperation (sid, db) (OperationID op) st' = Inr op)
    else st' = st"
proof (cases "operation_rows marshal db ops")
  case None
  then show ?thesis using assms(1) by (auto simp: RecordPendingOperations_def)
next
  case (Some rs)
  note f = operation_rows_fields [OF Some]
  have keys: "map row_key rs = map (Pair db) (map OperationID ops)"
  proof -
    have "map row_key rs = zip (map RowSession rs) (map RowOperation rs)" by (simp add: zip_map_map zip_same_conv_map)
    then show ?thesis using f by (simp add: zip_replicate1)
  qed
  have "distinct (map row_key rs)" unfolding keys using assms(2) by (simp add: distinct_map inj_on_def)
  moreover have "row_key ` set rs \<inter> row_key ` set (repo st) = {}"
  proof -
    have "row_key ` set rs = Pair db ` OperationID ` set ops" using arg_cong [OF keys, of set] by (simp add: image_image)
    then show ?thesis using assms(3) by (force simp: session_rows_def)
  qed
  ultimately have rows: "create_rows rs (repo st) = repo st @ rs" by (rule create_rows_new)
  have own: "session_rows db rs = rs"
    using f unfolding session_rows_def by (intro filter_True) (metis in_set_replicate list.set_map rev_image_eqI)
  have repo: "repo (fold (\<lambda>op. cache_put sid (OperationID op) op) os s0) = repo s0" for os and s0 :: "op_row list statusService"
    by (induction os arbitrary: s0) (simp_all add: cache_put_def)
  show ?thesis
  proof (cases ok)
    case True
    then have st': "e = None" "st' = fold (\<lambda>op. cache_put sid (OperationID op) op) ops (st\<lparr>repo := repo st @ rs\<rparr>)"
      using assms(1) Some rows by (auto simp: RecordPendingOperations_def PendingOperationRepository_def)
    have "session_rows db (repo st') = session_rows db (repo st) @ rs"
      using own by (simp add: st'(2) repo session_rows_def)
    moreover have "\<forall>op \<in> set ops. GetPendingOperation (sid, db) (OperationID op) st' = Inr op"
      by (intro ballI) (simp add: st'(2) GetPendingOperation_def cached_all [OF assms(2)])
    ultimately show ?thesis using f st'(1) by simp
  next
    case False
    then show ?thesis using assms(1) Some by (auto simp: RecordPendingOperations_def)
  qed
qed

theorem recorded_batch_order_witness:
  "let ops = [sample_operation (- 1) ''dlRxStatQry'', sample_operation (- 2) ''dlDataQue''];
       st' = snd (RecordPendingOperations PendingOperationRepository (\<lambda>_. Some []) True (''s'', 9) ops \<lparr>repo = [], pendingOps = []\<rparr>)
   in map RowOperation (session_rows 9 (repo st')) = [- 1, - 2]"
proof -
  let ?ops = "[sample_operation (- 1) ''dlRxStatQry'', sample_operation (- 2) ''dlDataQue'']"
  let ?st = "\<lparr>repo = [], pendingOps = []\<rparr>"
  obtain e st' where r: "RecordPendingOperations PendingOperationRepository (\<lambda>_. Some []) True (''s'', 9) ?ops ?st = (e, st')"
    by force
  have "e = None" using r by (auto simp: RecordPendingOperations_def operation_row_def sample_operation_def)
  with recorded_batch_order [OF r] r show ?thesis
    by (simp add: sample_operation_def session_rows_def)
qed

end
