(* ===== verification/Base64.thy ===== *)
theory Base64
  imports KC_Prelude
begin

text \<open>
  The standard base64 encoding of Go's \<^verbatim>\<open>encoding/base64\<close> as the sources use it
  (\<^verbatim>\<open>StdEncoding.EncodeToString\<close>, \<^verbatim>\<open>StdEncoding.DecodeString\<close>): padded, decoding skips carriage returns
  and line feeds and does not insist on zero trailing bits. The hexadecimal text of
  \<^verbatim>\<open>encoding/hex\<close> is here too. Shown: decoding inverts encoding, for both.
\<close>

definition alphabet :: string where
  "alphabet = ''ABCDEFGHIJKLMNOPQRSTUVWXYZabcdefghijklmnopqrstuvwxyz0123456789+/''"

definition sextet_char :: "nat \<Rightarrow> char" where
  "sextet_char n = alphabet ! (n mod 64)"

fun index_in :: "char \<Rightarrow> string \<Rightarrow> nat option" where
  "index_in c [] = None"
| "index_in c (d # ds) = (if c = d then Some 0 else map_option Suc (index_in c ds))"

definition char_sextet :: "char \<Rightarrow> nat option" where
  "char_sextet c = index_in c alphabet"

fun EncodeToString :: "bytes \<Rightarrow> string" where
  "EncodeToString [] = []"
| "EncodeToString [a] =
     [sextet_char (unat a div 4), sextet_char (unat a mod 4 * 16), CHR ''='', CHR ''='']"
| "EncodeToString [a, b] =
     [sextet_char (unat a div 4), sextet_char (unat a mod 4 * 16 + unat b div 16),
      sextet_char (unat b mod 16 * 4), CHR ''='']"
| "EncodeToString (a # b # c # rest) =
     [sextet_char (unat a div 4), sextet_char (unat a mod 4 * 16 + unat b div 16),
      sextet_char (unat b mod 16 * 4 + unat c div 64), sextet_char (unat c mod 64)] @ EncodeToString rest"

definition first_byte :: "nat \<Rightarrow> nat \<Rightarrow> byte" where
  "first_byte p q = of_nat (p * 4 + q div 16)"

definition second_byte :: "nat \<Rightarrow> nat \<Rightarrow> byte" where
  "second_byte q r = of_nat (q mod 16 * 16 + r div 4)"

definition third_byte :: "nat \<Rightarrow> nat \<Rightarrow> byte" where
  "third_byte r s = of_nat (r mod 4 * 64 + s)"

fun decode_quanta :: "string \<Rightarrow> bytes option" where
  "decode_quanta [] = Some []"
| "decode_quanta (p # q # r # s # rest) =
     (case (char_sextet p, char_sextet q) of
        (Some p', Some q') \<Rightarrow>
          if r = CHR ''='' \<and> s = CHR ''='' \<and> rest = [] then Some [first_byte p' q']
          else (case char_sextet r of
                  None \<Rightarrow> None
                | Some r' \<Rightarrow>
                    if s = CHR ''='' \<and> rest = [] then Some [first_byte p' q', second_byte q' r']
                    else (case char_sextet s of
                            None \<Rightarrow> None
                          | Some s' \<Rightarrow>
                              map_option (\<lambda>bs. first_byte p' q' # second_byte q' r' # third_byte r' s' # bs)
                                (decode_quanta rest)))
      | _ \<Rightarrow> None)"
| "decode_quanta _ = None"

definition DecodeString :: "string \<Rightarrow> bytes option" where
  "DecodeString s = decode_quanta (filter (\<lambda>c. c \<noteq> CHR 0x0D \<and> c \<noteq> CHR 0x0A) s)"

section \<open>Round trip\<close>

lemma alphabet_distinct: "distinct alphabet"
  by code_simp

lemma alphabet_length: "length alphabet = 64"
  by code_simp

lemma index_in_nth: "distinct xs \<Longrightarrow> n < length xs \<Longrightarrow> index_in (xs ! n) xs = Some n"
  by (induction xs arbitrary: n) (auto simp: nth_Cons split: nat.splits)

lemma char_sextet_char [simp]: "n < 64 \<Longrightarrow> char_sextet (sextet_char n) = Some n"
  by (simp add: char_sextet_def sextet_char_def index_in_nth alphabet_distinct alphabet_length)

lemma sextet_in_alphabet: "sextet_char n \<in> set alphabet"
  by (simp add: sextet_char_def alphabet_length)

lemma alphabet_plain: "c \<in> set alphabet \<Longrightarrow> c \<noteq> CHR ''='' \<and> c \<noteq> CHR 0x0D \<and> c \<noteq> CHR 0x0A"
proof -
  have "list_all (\<lambda>c. c \<noteq> CHR ''='' \<and> c \<noteq> CHR 0x0D \<and> c \<noteq> CHR 0x0A) alphabet" by code_simp
  then show "c \<in> set alphabet \<Longrightarrow> ?thesis" by (simp add: list_all_iff)
qed

lemmas sextet_plain [simp] = alphabet_plain [OF sextet_in_alphabet]

lemma byte_bound: "unat (b :: byte) < 256"
  using unsigned_less [of b, where ?'a = nat] by simp

lemma byte_of_nat: "n = unat b \<Longrightarrow> of_nat n = (b :: byte)"
  by simp

lemma first_byte_back: "q div 16 = unat a mod 4 \<Longrightarrow> first_byte (unat a div 4) q = a"
  unfolding first_byte_def by (rule byte_of_nat) (simp add: div_mod_decomp)

lemma second_byte_back: "q mod 16 = unat b div 16 \<Longrightarrow> r div 4 = unat b mod 16 \<Longrightarrow> second_byte q r = b"
  unfolding second_byte_def by (rule byte_of_nat) simp

lemma third_byte_back: "r mod 4 = unat c div 64 \<Longrightarrow> third_byte r (unat c mod 64) = c"
  unfolding third_byte_def by (rule byte_of_nat) simp

lemma encode_plain: "c \<in> set (EncodeToString bs) \<Longrightarrow> c \<noteq> CHR 0x0D \<and> c \<noteq> CHR 0x0A"
  by (induction bs rule: EncodeToString.induct) (auto simp: sextet_plain)

lemma decode_encode: "decode_quanta (EncodeToString bs) = Some bs"
proof (induction bs rule: EncodeToString.induct)
  case (2 a)
  show ?case using byte_bound [of a] by (simp add: first_byte_back)
next
  case (3 a b)
  show ?case using byte_bound [of a] byte_bound [of b] by (simp add: first_byte_back second_byte_back)
next
  case (4 a b c rest)
  then show ?case using byte_bound [of a] byte_bound [of b] byte_bound [of c]
    by (simp add: first_byte_back second_byte_back third_byte_back)
qed simp

lemma DecodeString_EncodeToString [simp]: "DecodeString (EncodeToString bs) = Some bs"
proof -
  have "filter (\<lambda>c. c \<noteq> CHR 0x0D \<and> c \<noteq> CHR 0x0A) (EncodeToString bs) = EncodeToString bs"
    by (rule filter_True) (use encode_plain in blast)
  then show ?thesis by (simp only: DecodeString_def decode_encode)
qed

lemma EncodeToString_length: "length (EncodeToString bs) = 4 * ((length bs + 2) div 3)"
proof (induction bs rule: EncodeToString.induct)
  case (4 a b c rest)
  have "(length (a # b # c # rest) + 2) div 3 = Suc ((length rest + 2) div 3)" by (simp add: div_if)
  then show ?case using 4 by simp
qed simp_all

section \<open>Hexadecimal text\<close>

text \<open>Hexadecimal text of \<^verbatim>\<open>encoding/hex\<close>; decoding accepts both cases.\<close>

definition hex_digits :: string where "hex_digits = ''0123456789abcdef''"

definition hex_value :: "char \<Rightarrow> nat option" where
  "hex_value c =
     (case index_in c hex_digits of
        Some n \<Rightarrow> Some n
      | None \<Rightarrow> map_option (\<lambda>n. n + 10) (index_in c ''ABCDEF''))"

definition hex_encode :: "bytes \<Rightarrow> string" where
  "hex_encode bs = concat (map (\<lambda>b. [hex_digits ! (unat b div 16), hex_digits ! (unat b mod 16)]) bs)"

fun hex_decode :: "string \<Rightarrow> bytes option" where
  "hex_decode [] = Some []"
| "hex_decode (a # b # rest) =
     (case (hex_value a, hex_value b) of
        (Some h, Some l) \<Rightarrow> map_option (\<lambda>bs. of_nat (16 * h + l) # bs) (hex_decode rest)
      | _ \<Rightarrow> None)"
| "hex_decode [_] = None"

lemma hex_value_digit: "n < 16 \<Longrightarrow> hex_value (hex_digits ! n) = Some n"
  using index_in_nth [of hex_digits n] by (simp add: hex_value_def hex_digits_def)

lemma hex_decode_encode: "hex_decode (hex_encode bs) = Some bs"
proof (induction bs)
  case (Cons b bs)
  have "unat b div 16 < 16" using byte_bound [of b] by simp
  then show ?case using Cons by (simp add: hex_encode_def hex_value_digit byte_of_nat)
qed (simp add: hex_encode_def)

lemma hex_encode_length [simp]: "length (hex_encode bs) = 2 * length bs"
  by (induction bs) (simp_all add: hex_encode_def)

end
