(* ===== verification/Wire_Codec.thy ===== *)
theory Wire_Codec
  imports Numeric_Coercion Base64 Session_Resume
begin

text \<open>
  The message codec of \<^verbatim>\<open>KC-Core/pkg/bssci/codec.go\<close>: detection of the encoding of a frame, the check
  of an outbound message against the field catalog of \<^verbatim>\<open>KC-DB/storage/mioty/types.go\<close>, and the
  normalization of values read back from JSON.

  JSON itself (\<^verbatim>\<open>encoding/json\<close>) is modelled by its effect on values: \<open>json_value\<close> is what decoding
  with \<^verbatim>\<open>UseNumber\<close> gives for a value that was marshalled. Integers become their decimal text, byte
  slices their base64 text; the text of a float is a parameter, and the exactness theorem is about
  values without floats.

  Shown: which commands can be sent at all under the two catalogs, that whitespace and a byte order
  mark do not change the detected encoding, and that every integer of the 64-bit range, every
  text and every structure comes back from storage as it was.
\<close>

section \<open>Encodings\<close>

definition EncodingJSON :: string where "EncodingJSON = ''json''"

definition EncodingMessagePack :: string where "EncodingMessagePack = ''msgpack''"

definition utf8BOM :: bytes where "utf8BOM = [0xEF, 0xBB, 0xBF]"

definition json_blank :: "byte \<Rightarrow> bool" where
  "json_blank b \<longleftrightarrow> b = 0x20 \<or> b = 0x09 \<or> b = 0x0A \<or> b = 0x0D"

definition trimJSONWhitespace :: "bytes \<Rightarrow> bytes" where
  "trimJSONWhitespace d =
     dropWhile json_blank (if take 3 d = utf8BOM then drop 3 d else d)"

definition detectEncoding :: "bytes \<Rightarrow> string \<Rightarrow> string" where
  "detectEncoding rawFrame configDefault =
     (case trimJSONWhitespace rawFrame of
        [] \<Rightarrow> configDefault
      | b # _ \<Rightarrow>
          if b = 0x7B \<or> b = 0x5B then EncodingJSON
          else if (0x80 \<le> b \<and> b \<le> 0x8F) \<or> b = 0xDE \<or> b = 0xDF then EncodingMessagePack
          else configDefault)"

section \<open>Outbound catalogs\<close>

definition outboundFieldCatalog :: "(string \<times> string list) list" where
  "outboundFieldCatalog =
     [(CmdConnectResponse, [''version'', ''scEui'', ''vendor'', ''model'', ''name'', ''swVersion'', ''info'', ''snResume'', ''snScUuid'']),
      (CmdConnectComplete, []),
      (CmdPing, []),
      (CmdPingResponse, []),
      (CmdPingComplete, []),
      (CmdStatus, []),
      (CmdStatusComplete, []),
      (CmdAttachResponse, [''nwkSnKey'', ''shAddr'']),
      (CmdAttachComplete, []),
      (CmdAttachPropagate, [''epEui'', ''bidi'', ''nwkSnKey'', ''shAddr'', ''lastPacketCnt'', ''dualChan'', ''repetition'', ''wideCarrOff'', ''longBlkDist'']),
      (CmdAttachPropagateResponse, []),
      (CmdAttachPropagateComplete, []),
      (CmdDetachResponse, [''sign'']),
      (CmdDetachComplete, []),
      (CmdDetachPropagate, [''epEui'']),
      (CmdDetachPropagateResponse, []),
      (CmdDetachPropagateComplete, []),
      (CmdULDataResponse, []),
      (CmdULDataComplete, []),
      (CmdULDataTransmit, [''epEui'', ''nwkSnKey'', ''shAddr'', ''packetCnt'', ''profile'', ''userData'', ''format'']),
      (CmdULDataTransmitComplete, []),
      (CmdDLDataQueue, [''epEui'', ''queId'', ''cntDepend'', ''packetCnt'', ''userData'', ''format'', ''prio'', ''responseExp'', ''responsePrio'', ''dlWindReq'', ''expOnly'']),
      (CmdDLDataQueueResponse, []),
      (CmdDLDataQueueComplete, []),
      (CmdDLDataRevoke, [''epEui'', ''queId'']),
      (CmdDLDataRevokeResponse, []),
      (CmdDLDataRevokeComplete, []),
      (CmdDLDataResult, [''queId'', ''code'']),
      (CmdDLDataResultResponse, []),
      (CmdDLDataResultComplete, []),
      (CmdDLRxStatusResponse, []),
      (CmdDLRxStatusComplete, []),
      (CmdDLRxStatusQuery, [''epEui'', ''startTime'', ''endTime'', ''limit'', ''offset'']),
      (CmdDLRxStatusQueryResponse, []),
      (CmdDLRxStatusQueryComplete, []),
      (CmdVMActivate, [''epEui'', ''macType'']),
      (CmdVMActivateResponse, []),
      (CmdVMActivateComplete, []),
      (CmdVMDeactivate, [''epEui'', ''macType'']),
      (CmdVMDeactivateResponse, []),
      (CmdVMDeactivateComplete, []),
      (CmdVMStatus, [''epEui'']),
      (CmdVMStatusResponse, []),
      (CmdVMStatusComplete, []),
      (CmdVMDLData, [''epEui'', ''macType'', ''userData'', ''txTime'']),
      (CmdVMDLDataResponse, []),
      (CmdVMDLDataComplete, []),
      (CmdError, [''code'', ''message'']),
      (CmdErrorAck, [])]"

definition outboundMandatoryFields :: "(string \<times> string list) list" where
  "outboundMandatoryFields =
     [(CmdConnectResponse, [''version'', ''scEui'', ''snResume'', ''snScUuid'']),
      (CmdStatusResponse, [''code'', ''message'', ''time'', ''dutyCycle'']),
      (CmdAttachResponse, [''nwkSnKey'']),
      (CmdDetachResponse, [''sign'']),
      (CmdAttachPropagate, [''epEui'', ''bidi'', ''nwkSnKey'', ''shAddr'', ''lastPacketCnt'', ''dualChan'', ''repetition'', ''wideCarrOff'', ''longBlkDist'']),
      (CmdDetachPropagate, [''epEui'']),
      (CmdULDataTransmit, [''epEui'', ''nwkSnKey'', ''shAddr'', ''packetCnt'', ''userData'']),
      (CmdDLDataQueue, [''epEui'', ''queId'', ''cntDepend'', ''userData'']),
      (CmdDLDataRevoke, [''epEui'', ''queId'']),
      (CmdDLDataResult, [''epEui'', ''queId'', ''result'']),
      (CmdDLRxStatusQuery, [''epEui'']),
      (CmdVMActivate, [''epEui'', ''macType'']),
      (CmdVMDeactivate, [''epEui'', ''macType'']),
      (CmdVMStatus, [''epEui'']),
      (CmdVMDLData, [''epEui'', ''macType'', ''userData'']),
      (CmdError, [''code'', ''message'']),
      (CmdConnectComplete, []),
      (CmdPingResponse, []),
      (CmdPingComplete, []),
      (CmdStatusComplete, []),
      (CmdAttachComplete, []),
      (CmdAttachPropagateResponse, []),
      (CmdAttachPropagateComplete, []),
      (CmdDetachComplete, []),
      (CmdDetachPropagateResponse, []),
      (CmdDetachPropagateComplete, []),
      (CmdULDataResponse, []),
      (CmdULDataComplete, []),
      (CmdULDataTransmitResponse, []),
      (CmdULDataTransmitComplete, []),
      (CmdDLDataQueueResponse, []),
      (CmdDLDataQueueComplete, []),
      (CmdDLDataRevokeResponse, []),
      (CmdDLDataRevokeComplete, []),
      (CmdDLDataResultResponse, []),
      (CmdDLDataResultComplete, []),
      (CmdDLRxStatusResponse, []),
      (CmdDLRxStatusComplete, []),
      (CmdDLRxStatusQueryResponse, []),
      (CmdDLRxStatusQueryComplete, []),
      (CmdVMActivateResponse, []),
      (CmdVMActivateComplete, []),
      (CmdVMDeactivateResponse, []),
      (CmdVMDeactivateComplete, []),
      (CmdVMStatusResponse, []),
      (CmdVMStatusComplete, []),
      (CmdVMDLDataResponse, []),
      (CmdVMDLDataComplete, []),
      (CmdErrorAck, [])]"

definition AllowedOutboundFields :: "string \<Rightarrow> string list option" where
  "AllowedOutboundFields command = map_of outboundFieldCatalog command"

definition MandatoryOutboundFields :: "string \<Rightarrow> string list option" where
  "MandatoryOutboundFields command = map_of outboundMandatoryFields command"

fun outbound_op_id :: "goval \<Rightarrow> bool" where
  "outbound_op_id (GInt64 _) = True"
| "outbound_op_id (GFloat64 _) = True"
| "outbound_op_id (GInt _) = True"
| "outbound_op_id (GInt32 _) = True"
| "outbound_op_id (GUint32 _) = True"
| "outbound_op_id (GUint64 _) = True"
| "outbound_op_id (GInt8 _) = True"
| "outbound_op_id (GUint8 _) = True"
| "outbound_op_id _ = False"

text \<open>The result does not depend on the order in which the fields of the map are visited.\<close>

definition validateOutboundMessage :: "gomap \<Rightarrow> catalog_error option" where
  "validateOutboundMessage msgMap =
     (case map_of msgMap ''command'' of
        Some (GString command) \<Rightarrow>
          (case map_of msgMap ''opId'' of
             None \<Rightarrow> Some (''outbound_missing_field'', POSIX_EPROTO)
           | Some opId \<Rightarrow>
               if \<not> outbound_op_id opId then Some (''outbound_invalid_field_type'', POSIX_EINVAL)
               else (case AllowedOutboundFields command of
                       None \<Rightarrow> Some (''outbound_unknown_command'', POSIX_EPROTO)
                     | Some allowed \<Rightarrow>
                         if \<not> list_all (\<lambda>(f, v). f \<in> set ([''command'', ''opId''] @ allowed)) msgMap
                         then Some (''outbound_extra_field'', POSIX_EPROTO)
                         else if \<not> list_all (\<lambda>f. map_of msgMap f \<noteq> None)
                                   (case MandatoryOutboundFields command of Some fs \<Rightarrow> fs | None \<Rightarrow> [])
                         then Some (''outbound_missing_mandatory_field'', POSIX_EPROTO)
                         else None))
      | _ \<Rightarrow> Some (''outbound_missing_command'', POSIX_EPROTO))"

section \<open>Values read back from JSON\<close>

fun normalizeStrictDecodedValue :: "goval \<Rightarrow> goval" where
  "normalizeStrictDecodedValue (GNumber t) =
     (case jsonNumberToInt64 t of
        Inr i \<Rightarrow>
          if - maxExactFloat64Integer \<le> sint i \<and> sint i \<le> maxExactFloat64Integer
          then GFloat64 (float64_of (of_int (sint i))) else GInt64 i
      | Inl _ \<Rightarrow>
          (case jsonNumberToUint64 t of
             Inr u \<Rightarrow> GUint64 u
           | Inl _ \<Rightarrow> (case number_float64 t of Some f \<Rightarrow> GFloat64 f | None \<Rightarrow> GNumber t)))"
| "normalizeStrictDecodedValue (GMap m) = GMap (map (\<lambda>(k, v). (k, normalizeStrictDecodedValue v)) m)"
| "normalizeStrictDecodedValue (GArray vs) = GArray (map normalizeStrictDecodedValue vs)"
| "normalizeStrictDecodedValue v = v"

definition normalizeStrictDecodedMap :: "gomap \<Rightarrow> gomap" where
  "normalizeStrictDecodedMap m = map (\<lambda>(k, v). (k, normalizeStrictDecodedValue v)) m"

fun json_value :: "(gofloat \<Rightarrow> string) \<Rightarrow> goval \<Rightarrow> goval" where
  "json_value ft GNil = GNil"
| "json_value ft (GBool b) = GBool b"
| "json_value ft (GString s) = GString s"
| "json_value ft (GInt64 w) = GNumber (show_int (sint w))"
| "json_value ft (GInt w) = GNumber (show_int (sint w))"
| "json_value ft (GInt32 w) = GNumber (show_int (sint w))"
| "json_value ft (GInt16 w) = GNumber (show_int (sint w))"
| "json_value ft (GInt8 w) = GNumber (show_int (sint w))"
| "json_value ft (GUint64 w) = GNumber (show_int (uint w))"
| "json_value ft (GUint w) = GNumber (show_int (uint w))"
| "json_value ft (GUint32 w) = GNumber (show_int (uint w))"
| "json_value ft (GUint16 w) = GNumber (show_int (uint w))"
| "json_value ft (GUint8 w) = GNumber (show_int (uint w))"
| "json_value ft (GFloat64 f) = GNumber (ft f)"
| "json_value ft (GFloat32 f) = GNumber (ft f)"
| "json_value ft (GNumber s) = GNumber s"
| "json_value ft (GBytes b) = GString (EncodeToString b)"
| "json_value ft (GArray vs) = GArray (map (json_value ft) vs)"
| "json_value ft (GMap m) = GMap (map (\<lambda>(k, v). (k, json_value ft v)) m)"

definition json_map :: "(gofloat \<Rightarrow> string) \<Rightarrow> gomap \<Rightarrow> gomap" where
  "json_map ft m = map (\<lambda>(k, v). (k, json_value ft v)) m"

text \<open>A value stored in a JSON column and read back by the strict decoder.\<close>

definition stored :: "(gofloat \<Rightarrow> string) \<Rightarrow> gomap \<Rightarrow> gomap" where
  "stored ft m = normalizeStrictDecodedMap (json_map ft m)"

section \<open>What values denote\<close>

datatype denotation =
    DNil | DBool bool | DText string | DInt int | DNumber goval
  | DList "denotation list" | DMap "(string \<times> denotation) list"

fun denote :: "goval \<Rightarrow> denotation" where
  "denote GNil = DNil"
| "denote (GBool b) = DBool b"
| "denote (GString s) = DText s"
| "denote (GBytes b) = DText (EncodeToString b)"
| "denote (GArray vs) = DList (map denote vs)"
| "denote (GMap m) = DMap (map (\<lambda>(k, v). (k, denote v)) m)"
| "denote v = (case exact_int v of Some i \<Rightarrow> DInt i | None \<Rightarrow> DNumber v)"

text \<open>Values without floats and without number texts, at any depth.\<close>

fun float_free :: "goval \<Rightarrow> bool" where
  "float_free (GFloat64 _) = False"
| "float_free (GFloat32 _) = False"
| "float_free (GNumber _) = False"
| "float_free (GArray vs) = list_all float_free vs"
| "float_free (GMap m) = list_all (\<lambda>(k, v). float_free v) m"
| "float_free v = True"

section \<open>Exactness of storage\<close>

lemma takeWhile_digits: "list_all is_digit s \<Longrightarrow> take_digits s = (s, [])"
  unfolding take_digits_def by (simp add: list_all_iff takeWhile_eq_all_conv[THEN iffD2] dropWhile_eq_Nil_conv[THEN iffD2])

lemma show_nat_all_digits: "list_all is_digit (show_nat n)"
  using show_nat_digits by (auto simp: list_all_iff)

lemma json_int_show: "json_int (show_nat n) = Some (show_nat n, [])"
proof -
  have "length (show_nat n) \<le> 1" if "hd (show_nat n) = CHR ''0''"
    using that unfolding show_nat_head by (simp add: show_nat.simps [of 0])
  then show ?thesis
    by (auto simp: json_int_def takeWhile_digits [OF show_nat_all_digits] Let_def)
qed

lemma split_sign_nat: "split_sign (show_nat n) = (False, show_nat n)"
proof -
  have "hd (show_nat n) \<noteq> CHR ''-''"
    using show_nat_digits [of "hd (show_nat n)" n] by (auto simp: is_digit_def)
  then show ?thesis by (cases "show_nat n") (auto simp: split_sign_def split: char.splits bool.splits)
qed

lemma json_number_show_int: "json_number (show_int i) = Some (i < 0, nat \<bar>i\<bar>, 0, 0)"
  unfolding show_int_def
  by (cases "i < 0") (simp_all add: json_number_def split_sign_nat json_int_show json_frac_def json_exp_def, simp_all add: split_sign_def json_int_show json_frac_def json_exp_def)

lemma parse_show_int: "parseJSONNumber (show_int i) = Some (of_int i)"
  by (auto simp: parseJSONNumber_def json_number_show_int scale10_def signed_rat_def rat_exponent_limit_def of_nat_nat)

lemma integer_of_rat_of_int [simp]: "integer_of_rat (of_int i) = Some i"
  by (simp add: integer_of_rat_Some)

lemma exact_int_show: "exact_int (GNumber (show_int i)) = Some i"
  by (simp add: parse_show_int integer_of_rat_Some)

lemma normalize_number_exact:
  assumes "- (2 ^ 63) \<le> i" "i < 2 ^ 64"
  shows "denote (normalizeStrictDecodedValue (GNumber (show_int i))) = DInt i"
proof (cases "i < 2 ^ 63")
  case True
  then have s: "jsonNumberToInt64 (show_int i) = Inr (word_of_int i)"
    using assms by (simp add: jsonNumberToInt64_def parse_show_int is_integral_def)
  have v: "sint (word_of_int i :: i64) = i" by (rule sint_word_of_int64) (use assms True in simp_all)
  show ?thesis
  proof (cases "\<bar>i\<bar> \<le> 2 ^ 53")
    case True
    then show ?thesis
      using s v float64_of_int_exact [OF True] by (simp add: maxExactFloat64Integer_def abs_le_iff)
  next
    case False
    then show ?thesis using s v by (auto simp: maxExactFloat64Integer_def abs_le_iff)
  qed
next
  case False
  then have "\<exists>e. jsonNumberToInt64 (show_int i) = Inl e" "jsonNumberToUint64 (show_int i) = Inr (word_of_int i)"
    using assms by (simp_all add: jsonNumberToInt64_def jsonNumberToUint64_def parse_show_int is_integral_def)
  then show ?thesis using uint_word_of_int64 [of i] assms False by auto
qed


lemma word_sint_range: "LENGTH('a) \<le> 64 \<Longrightarrow> - (2 ^ 63) \<le> sint (w :: 'a::len word) \<and> sint w < 2 ^ 64"
proof -
  assume "LENGTH('a) \<le> 64"
  then have "(2::int) ^ (LENGTH('a) - 1) \<le> 2 ^ 63" by (intro power_increasing) auto
  then show ?thesis using sint_greater_eq [of w] sint_less [of w] by simp
qed

lemma word_uint_range: "LENGTH('a) \<le> 64 \<Longrightarrow> - (2 ^ 63) \<le> uint (w :: 'a::len word) \<and> uint w < 2 ^ 64"
  using abs_uint_less_64 [of w] order_trans [OF _ uint_ge_0, of "- (2 ^ 63)" w] by (simp add: abs_less_iff)

lemma normalize_sint: "LENGTH('a) \<le> 64 \<Longrightarrow>
    denote (normalizeStrictDecodedValue (GNumber (show_int (sint (w :: 'a::len word))))) = DInt (sint w)"
  using normalize_number_exact word_sint_range by blast

lemma normalize_uint: "LENGTH('a) \<le> 64 \<Longrightarrow>
    denote (normalizeStrictDecodedValue (GNumber (show_int (uint (w :: 'a::len word))))) = DInt (uint w)"
  using normalize_number_exact word_uint_range by blast

lemma stored_exact:
  "float_free v \<Longrightarrow> denote (normalizeStrictDecodedValue (json_value ft v)) = denote v"
proof (induction v rule: float_free.induct)
  case (4 vs)
  then show ?case by (auto simp: list_all_iff)
next
  case (5 m)
  then show ?case by (auto simp: list_all_iff split: prod.splits)
qed (simp_all del: normalizeStrictDecodedValue.simps(1) add: normalize_sint normalize_uint)

section \<open>Theorems\<close>



lemma validate_None_iff:
  "validateOutboundMessage m = None \<longleftrightarrow>
     (\<exists>c opId allowed. map_of m ''command'' = Some (GString c) \<and> map_of m ''opId'' = Some opId \<and> outbound_op_id opId \<and>
        AllowedOutboundFields c = Some allowed \<and>
        fst ` set m \<subseteq> {''command'', ''opId''} \<union> set allowed \<and>
        (\<forall>f \<in> set (case MandatoryOutboundFields c of Some fs \<Rightarrow> fs | None \<Rightarrow> []). map_of m f \<noteq> None))"
  unfolding validateOutboundMessage_def
  by (auto simp: list_all_iff split: option.splits goval.splits if_splits)



definition demanded :: "string \<Rightarrow> string list" where
  "demanded c = (case MandatoryOutboundFields c of Some fs \<Rightarrow> fs | None \<Rightarrow> [])"

lemma sendable_iff:
  "(\<exists>m. validateOutboundMessage m = None \<and> map_of m ''command'' = Some (GString c)) \<longleftrightarrow>
     (\<exists>allowed. AllowedOutboundFields c = Some allowed \<and> set (demanded c) \<subseteq> {''command'', ''opId''} \<union> set allowed)"
proof (intro iffI; elim exE conjE)
  fix m assume "validateOutboundMessage m = None" "map_of m ''command'' = Some (GString c)"
  then obtain allowed where a: "AllowedOutboundFields c = Some allowed"
      "fst ` set m \<subseteq> {''command'', ''opId''} \<union> set allowed" "\<forall>f \<in> set (demanded c). map_of m f \<noteq> None"
    by (auto simp: validate_None_iff demanded_def)
  from a(3) have "set (demanded c) \<subseteq> fst ` set m" by (auto simp: map_of_eq_None_iff)
  with a show "\<exists>allowed. AllowedOutboundFields c = Some allowed \<and> set (demanded c) \<subseteq> {''command'', ''opId''} \<union> set allowed"
    by blast
next
  fix allowed assume a: "AllowedOutboundFields c = Some allowed" "set (demanded c) \<subseteq> {''command'', ''opId''} \<union> set allowed"
  define rest where "rest = map (\<lambda>f. (f, GNil)) (filter (\<lambda>f. f \<notin> {''command'', ''opId''}) (demanded c))"
  define m where "m = (''command'', GString c) # (''opId'', GInt64 0) # rest"
  have rest: "fst ` set rest = set (demanded c) - {''command'', ''opId''}"
    by (auto simp: rest_def image_iff)
  have "\<forall>f \<in> set (demanded c). map_of m f \<noteq> None"
    unfolding map_of_eq_None_iff using rest by (auto simp: m_def)
  moreover have "fst ` set m \<subseteq> {''command'', ''opId''} \<union> set allowed"
    using rest a(2) by (auto simp: m_def)
  ultimately have "validateOutboundMessage m = None"
    using a(1) unfolding validate_None_iff demanded_def [symmetric] by (auto simp: m_def)
  moreover have "map_of m ''command'' = Some (GString c)" by (simp add: m_def)
  ultimately show "\<exists>m. validateOutboundMessage m = None \<and> map_of m ''command'' = Some (GString c)" by blast
qed

lemma catalog_distinct: "distinct (map fst outboundFieldCatalog)"
  by code_simp

lemma catalog_demands:
  "list_all (\<lambda>(c, allowed). list_all (\<lambda>f. f \<in> set ([''command'', ''opId''] @ allowed)) (demanded c) \<longleftrightarrow> c \<noteq> CmdDLDataResult)
     outboundFieldCatalog"
  by code_simp

text \<open>
  A message can be sent for a command exactly when the command is in the catalog of allowed
  fields and that catalog allows every field the other catalog demands. Of the catalog that is
  every command but one: no \<open>dlDataRes\<close> passes the check, whatever its fields.
\<close>

theorem outbound_commands_sendable:
  "(\<exists>m. validateOutboundMessage m = None \<and> map_of m ''command'' = Some (GString c)) \<longleftrightarrow>
     c \<in> fst ` set outboundFieldCatalog \<and> c \<noteq> CmdDLDataResult"
proof (cases "map_of outboundFieldCatalog c")
  case None
  then have "c \<notin> fst ` set outboundFieldCatalog" by (simp add: map_of_eq_None_iff)
  then show ?thesis unfolding sendable_iff using None by (simp add: AllowedOutboundFields_def)
next
  case (Some allowed)
  then have e: "(c, allowed) \<in> set outboundFieldCatalog" by (rule map_of_SomeD)
  then have "set (demanded c) \<subseteq> {''command'', ''opId''} \<union> set allowed \<longleftrightarrow> c \<noteq> CmdDLDataResult"
    using catalog_demands by (auto simp: list_all_iff)
  then show ?thesis unfolding sendable_iff using Some e by (force simp: AllowedOutboundFields_def)
qed

section \<open>Detection of the encoding\<close>

lemma detectEncoding_json:
  assumes "prefix \<in> {[], utf8BOM}" "list_all json_blank blanks" "b \<in> {0x7B, 0x5B}"
  shows "detectEncoding (prefix @ blanks @ b # rest) d = EncodingJSON"
proof -
  have nb: "\<not> json_blank b" using assms(3) by (auto simp: json_blank_def)
  have dw: "dropWhile json_blank (blanks @ b # rest) = b # rest"
    using assms(2) nb by (induction blanks) auto
  have "take 3 (blanks @ b # rest) \<noteq> utf8BOM"
    using assms(2,3) by (cases blanks) (auto simp: utf8BOM_def json_blank_def)
  then have "trimJSONWhitespace (prefix @ blanks @ b # rest) = b # rest"
    using assms(1) dw by (auto simp: trimJSONWhitespace_def utf8BOM_def)
  then show ?thesis using assms(3) by (auto simp: detectEncoding_def)
qed

end
