(* ===== verification/EUI_Format.thy ===== *)
theory EUI_Format
  imports Base64 Numeric_Coercion
begin

unbundle bit_operations_syntax

text \<open>
  EUI-64 identifiers as numbers, bytes and text: \<^verbatim>\<open>KC-DB/storage/mioty/eui_format.go\<close>, the parsers of
  \<^verbatim>\<open>KC-DB/common/validation/validation.go\<close> and \<^verbatim>\<open>parseMetadataEUI\<close> of \<^verbatim>\<open>KC-Core/pkg/bssci/fields.go\<close>.

  Shown: the three text forms and the byte form name one EUI each, and the parser accepts exactly
  the spellings of sixteen hexadecimal digits, in either case, with dashes and colons anywhere.
\<close>

section \<open>Bytes\<close>

definition EUISize :: nat where "EUISize = 8"

text \<open>\<^verbatim>\<open>binary.BigEndian.PutUint64\<close> and \<^verbatim>\<open>binary.BigEndian.Uint64\<close>.\<close>

definition EUI64Bytes :: "u64 \<Rightarrow> bytes" where
  "EUI64Bytes w = map (\<lambda>i. ucast (drop_bit (8 * i) w)) [7, 6, 5, 4, 3, 2, 1, 0]"

definition be_uint64 :: "bytes \<Rightarrow> u64" where
  "be_uint64 bs = fold (\<lambda>b r. push_bit 8 r OR ucast b) bs 0"

definition EUI64FromBytes :: "bytes \<Rightarrow> u64" where
  "EUI64FromBytes b = (if length b \<noteq> EUISize then 0 else be_uint64 b)"

definition OptionalEUI64FromBytes :: "bytes \<Rightarrow> u64 option" where
  "OptionalEUI64FromBytes b = (if length b \<noteq> EUISize then None else Some (EUI64FromBytes b))"

section \<open>Text\<close>

text \<open>\<^verbatim>\<open>strings.ToUpper\<close> on hexadecimal text.\<close>

definition hex_upper :: "char \<Rightarrow> char" where
  "hex_upper c = (case index_in c ''abcdef'' of Some n \<Rightarrow> ''ABCDEF'' ! n | None \<Rightarrow> c)"

definition nibble :: "nat \<Rightarrow> u64 \<Rightarrow> nat" where
  "nibble i w = unat (drop_bit (4 * i) w) mod 16"

definition FormatEUI64Lower :: "u64 \<Rightarrow> string" where
  "FormatEUI64Lower w = map (\<lambda>i. hex_digits ! nibble i w) [15, 14, 13, 12, 11, 10, 9, 8, 7, 6, 5, 4, 3, 2, 1, 0]"

definition FormatEUI64 :: "u64 \<Rightarrow> string" where
  "FormatEUI64 w = map (\<lambda>i. hex_upper (hex_digits ! nibble i w)) [15, 14, 13, 12, 11, 10, 9, 8, 7, 6, 5, 4, 3, 2, 1, 0]"

fun join_pairs :: "string \<Rightarrow> string" where
  "join_pairs (a # b # c # rest) = a # b # CHR ''-'' # join_pairs (c # rest)"
| "join_pairs s = s"

definition FormatEUI64Dashed :: "u64 \<Rightarrow> string" where
  "FormatEUI64Dashed w = join_pairs (FormatEUI64 w)"

definition FormatEUIBytes :: "bytes \<Rightarrow> string" where
  "FormatEUIBytes b = map hex_upper (hex_encode b)"

section \<open>Parsing\<close>

datatype eui_error = ErrMissingField | ErrInvalidEUI

definition clean_eui :: "string \<Rightarrow> string" where
  "clean_eui s = filter (\<lambda>c. c \<noteq> CHR '':'') (filter (\<lambda>c. c \<noteq> CHR ''-'') s)"

definition euiRegex :: "string \<Rightarrow> bool" where
  "euiRegex s \<longleftrightarrow> length s = 16 \<and> list_all (\<lambda>c. c \<in> set ''0123456789abcdefABCDEF'') s"

definition validateEUI :: "string \<Rightarrow> eui_error option" where
  "validateEUI eui =
     (if eui = [] then Some ErrMissingField
      else if \<not> euiRegex (clean_eui eui) then Some ErrInvalidEUI else None)"

definition ParseEUI :: "string \<Rightarrow> eui_error + u64" where
  "ParseEUI eui =
     (case validateEUI eui of
        Some e \<Rightarrow> Inl e
      | None \<Rightarrow>
          (case hex_decode (clean_eui eui) of
             None \<Rightarrow> Inl ErrInvalidEUI
           | Some b \<Rightarrow> if length b \<noteq> EUISize then Inl ErrInvalidEUI else Inr (be_uint64 b)))"

definition ParseEUIBytes :: "string \<Rightarrow> eui_error + bytes" where
  "ParseEUIBytes eui = bind_result (ParseEUI eui) (\<lambda>v. Inr (EUI64Bytes v))"

definition parseMetadataEUI :: "goval \<Rightarrow> u64 option" where
  "parseMetadataEUI value =
     (case value of
        GString s \<Rightarrow> (case ParseEUI s of Inr e \<Rightarrow> Some e | Inl _ \<Rightarrow> None)
      | _ \<Rightarrow> (case coerceUint64 value of Inr e \<Rightarrow> Some e | Inl _ \<Rightarrow> None))"

section \<open>Digits\<close>

definition be_nat :: "bytes \<Rightarrow> nat" where
  "be_nat bs = fold (\<lambda>b r. r * 256 + unat b) bs 0"

lemma be_nat_snoc: "be_nat (bs @ [b]) = be_nat bs * 256 + unat b"
  by (simp add: be_nat_def)

lemma be_nat_bound: "be_nat bs < 256 ^ length bs"
proof (induction bs rule: rev_induct)
  case (snoc b bs)
  then have "be_nat bs * 256 + unat b < (be_nat bs + 1) * 256" using byte_bound [of b] by simp
  also have "\<dots> \<le> 256 ^ length bs * 256" using snoc by (intro mult_right_mono) auto
  finally show ?case by (simp add: be_nat_snoc mult.commute)
qed (simp add: be_nat_def)

lemma be_nat_inj: "length a = length b \<Longrightarrow> be_nat a = be_nat b \<Longrightarrow> a = b"
proof (induction a arbitrary: b rule: rev_induct)
  case (snoc x xs)
  then obtain y ys where b: "b = ys @ [y]" by (cases b rule: rev_cases) auto
  from snoc.prems b have e: "be_nat xs * 256 + unat x = be_nat ys * 256 + unat y" by (simp add: be_nat_snoc)
  have "(be_nat xs * 256 + unat x) mod 256 = unat x" "(be_nat ys * 256 + unat y) mod 256 = unat y"
    using byte_bound by simp_all
  with e have "unat x = unat y" by presburger
  then have "x = y" by (rule unsigned_word_eqI)
  moreover from e \<open>unat x = unat y\<close> have "be_nat xs = be_nat ys" by simp
  ultimately show ?case using snoc b by simp
qed simp

lemma shift_in_byte: "push_bit 8 (r :: u64) OR ucast (b :: byte) = r * 256 + ucast b"
proof -
  have "push_bit 8 r AND (ucast b :: u64) = 0"
    by (rule bit_word_eqI) (auto simp: bit_simps dest: bit_imp_le_length)
  then show ?thesis using disjunctive_add_eq_or [of "push_bit 8 r" "ucast b"] by (simp add: push_bit_eq_mult)
qed

lemma be_uint64_nat: "be_uint64 bs = of_nat (be_nat bs)"
  by (induction bs rule: rev_induct) (simp_all add: be_uint64_def be_nat_def shift_in_byte unsigned_ucast_eq)

lemma EUI64Bytes_length [simp]: "length (EUI64Bytes w) = 8"
  by (simp add: EUI64Bytes_def)

lemma unat_drop_bit: "unat (drop_bit k (w :: u64)) = unat w div 2 ^ k"
proof -
  have "unat w < 2 ^ 64" using unsigned_less [of w, where ?'a = nat] by simp
  then show ?thesis by (subst unsigned_drop_bit_eq) (simp add: drop_bit_eq_div take_bit_nat_eq_self)
qed

lemma unat_byte_at: "unat (ucast (drop_bit (8 * i) (w :: u64)) :: byte) = unat w div 256 ^ i mod 256"
proof -
  have "unat (ucast (drop_bit (8 * i) w) :: byte) = unat (drop_bit (8 * i) w) mod 256"
    by (simp add: unsigned_ucast_eq take_bit_eq_mod)
  then show ?thesis by (simp add: unat_drop_bit power_mult)
qed

lemma be_nat_Cons: "be_nat (b # bs) = unat b * 256 ^ length bs + be_nat bs"
  by (induction bs rule: rev_induct) (simp_all add: be_nat_def algebra_simps)

lemma be_nat_digits: "be_nat (map (\<lambda>i. ucast (drop_bit (8 * i) (w :: u64))) (rev [0..<k])) = unat w mod 256 ^ k"
proof (induction k)
  case (Suc k)
  have "unat w mod (256 ^ k * 256) = 256 ^ k * (unat w div 256 ^ k mod 256) + unat w mod 256 ^ k"
    by (rule mod_mult2_eq)
  then show ?case using Suc by (simp add: be_nat_Cons unat_byte_at) (simp add: mult.commute)
qed (simp add: be_nat_def)

lemma byte_indices: "[7, 6, 5, 4, 3, 2, 1, 0] = rev [0..<8]"
  by (simp add: upt_rec)

lemma be_nat_EUI64Bytes: "be_nat (EUI64Bytes w) = unat w"
proof -
  have "unat w < 2 ^ 64" using unsigned_less [of w, where ?'a = nat] by simp
  then show ?thesis unfolding EUI64Bytes_def byte_indices be_nat_digits by simp
qed

lemma be_uint64_EUI64Bytes [simp]: "be_uint64 (EUI64Bytes w) = w"
  by (simp add: be_uint64_nat be_nat_EUI64Bytes)

lemma EUI64Bytes_be_uint64: "length b = 8 \<Longrightarrow> EUI64Bytes (be_uint64 b) = b"
  using be_nat_bound [of b]
  by (intro be_nat_inj) (simp_all add: be_nat_EUI64Bytes be_uint64_nat unat_of_nat_bounded)

section \<open>Hexadecimal forms\<close>

lemma nibble_div: "nibble i w = unat w div 16 ^ i mod 16"
  by (simp add: nibble_def unat_drop_bit power_mult)

lemma byte_nibbles:
  "unat (ucast (drop_bit (8 * i) (w :: u64)) :: byte) div 16 = nibble (2 * i + 1) w"
  "unat (ucast (drop_bit (8 * i) (w :: u64)) :: byte) mod 16 = nibble (2 * i) w"
proof -
  have p: "256 ^ i = (16::nat) ^ (2 * i)" by (simp add: power_mult)
  have "x mod 256 div 16 = x div 16 mod 16" for x :: nat using mod_mult2_eq [of x 16 16] by simp
  then show "unat (ucast (drop_bit (8 * i) w) :: byte) div 16 = nibble (2 * i + 1) w"
    by (simp add: unat_byte_at nibble_div p flip: div_mult2_eq) (simp add: mult.commute)
  show "unat (ucast (drop_bit (8 * i) w) :: byte) mod 16 = nibble (2 * i) w"
    using mod_mod_cancel [of 16 256 "unat w div 256 ^ i"] by (simp add: unat_byte_at nibble_div p)
qed

lemma hex_encode_indices: "hex_encode (map (\<lambda>i. ucast (drop_bit (8 * i) (w :: u64))) is) =
    concat (map (\<lambda>i. [hex_digits ! nibble (2 * i + 1) w, hex_digits ! nibble (2 * i) w]) is)"
  unfolding hex_encode_def map_map comp_def byte_nibbles ..

lemma lower_hex: "FormatEUI64Lower w = hex_encode (EUI64Bytes w)"
  unfolding FormatEUI64Lower_def EUI64Bytes_def hex_encode_indices by simp

lemma upper_lower: "FormatEUI64 w = map hex_upper (FormatEUI64Lower w)"
  by (simp add: FormatEUI64_def FormatEUI64Lower_def)

lemma hex_upper_digit: "n < 16 \<Longrightarrow> hex_value (hex_upper (hex_digits ! n)) = Some n"
proof -
  have "list_all (\<lambda>n. hex_value (hex_upper (hex_digits ! n)) = Some n) [0..<16]" by code_simp
  then show "n < 16 \<Longrightarrow> hex_value (hex_upper (hex_digits ! n)) = Some n" by (simp add: list_all_iff)
qed

lemma hex_value_cases:
  "hex_value c = Some n \<Longrightarrow> n < 16 \<and> hex_upper c = hex_upper (hex_digits ! n) \<and> c \<in> set ''0123456789abcdefABCDEF''"
proof -
  have all: "list_all (\<lambda>c. case hex_value c of Some n \<Rightarrow> n < 16 \<and> hex_upper c = hex_upper (hex_digits ! n) | None \<Rightarrow> False)
      ''0123456789abcdefABCDEF''" by code_simp
  have in_set: "index_in c xs = Some m \<Longrightarrow> c \<in> set xs" for m xs
    by (induction xs arbitrary: m) (auto split: if_splits)
  assume v: "hex_value c = Some n"
  have "c \<in> set hex_digits \<union> set ''ABCDEF''"
  proof (cases "index_in c hex_digits")
    case None
    with v obtain m where "index_in c ''ABCDEF'' = Some m"
      by (simp only: hex_value_def option.case map_option_eq_Some) blast
    then show ?thesis by (rule in_set [THEN UnI2])
  qed (blast dest: in_set)
  then have "c \<in> set ''0123456789abcdefABCDEF''" by (auto simp: hex_digits_def)
  with all v show ?thesis unfolding list_all_iff by (fastforce split: option.splits)
qed

lemma hex_value_upper: "hex_value (hex_upper c) = hex_value c"
proof (cases "c \<in> set ''abcdef''")
  case True
  have "list_all (\<lambda>c. hex_value (hex_upper c) = hex_value c) ''abcdef''" by code_simp
  with True show ?thesis by (auto simp: list_all_iff)
next
  case False
  have "c \<notin> set xs \<Longrightarrow> index_in c xs = None" for xs by (induction xs) auto
  with False show ?thesis by (simp add: hex_upper_def)
qed

lemma hex_decode_upper: "hex_decode (map hex_upper s) = hex_decode s"
  by (induction s rule: hex_decode.induct) (simp_all add: hex_value_upper split: option.splits)

lemma hex_decode_Some:
  "hex_decode s = Some b \<Longrightarrow> map hex_upper s = map hex_upper (hex_encode b)
     \<and> list_all (\<lambda>c. c \<in> set ''0123456789abcdefABCDEF'') s"
proof (induction s arbitrary: b rule: hex_decode.induct)
  case (2 x y rest)
  then obtain h l bs where v: "hex_value x = Some h" "hex_value y = Some l" "hex_decode rest = Some bs"
      "b = of_nat (16 * h + l) # bs"
    by (auto split: option.splits prod.splits)
  note hv = hex_value_cases [OF v(1)] hex_value_cases [OF v(2)]
  then have "unat (of_nat (16 * h + l) :: byte) = 16 * h + l" by (intro unat_of_nat_bounded) simp
  with hv 2 v show ?case by (simp add: hex_encode_def)
qed (simp_all add: hex_encode_def)

lemma parse_decoded:
  "ParseEUI s = Inr e \<longleftrightarrow> hex_decode (clean_eui s) = Some (EUI64Bytes e)"
proof
  assume "ParseEUI s = Inr e"
  then obtain b where "hex_decode (clean_eui s) = Some b" "length b = 8" "e = be_uint64 b"
    by (auto simp: ParseEUI_def EUISize_def split: option.splits if_splits)
  then show "hex_decode (clean_eui s) = Some (EUI64Bytes e)" by (simp add: EUI64Bytes_be_uint64)
next
  assume h: "hex_decode (clean_eui s) = Some (EUI64Bytes e)"
  note d = hex_decode_Some [OF h]
  from arg_cong [OF d [THEN conjunct1], of length] have "length (clean_eui s) = 16" by simp
  moreover note d [THEN conjunct2]
  moreover from \<open>length (clean_eui s) = 16\<close> have "s \<noteq> []" by (auto simp: clean_eui_def)
  ultimately show "ParseEUI s = Inr e" using h by (simp add: ParseEUI_def validateEUI_def euiRegex_def EUISize_def)
qed

lemma clean_upper: "c \<in> set (FormatEUI64 w) \<Longrightarrow> c \<noteq> CHR ''-'' \<and> c \<noteq> CHR '':''"
proof -
  have "list_all (\<lambda>n. hex_upper (hex_digits ! n) \<noteq> CHR ''-'' \<and> hex_upper (hex_digits ! n) \<noteq> CHR '':'') [0..<16]" by code_simp
  moreover have "nibble i w < 16" for i by (simp add: nibble_def)
  ultimately have "hex_upper (hex_digits ! nibble i w) \<noteq> CHR ''-'' \<and> hex_upper (hex_digits ! nibble i w) \<noteq> CHR '':''" for i
    unfolding list_all_iff set_upt by simp
  then show "c \<in> set (FormatEUI64 w) \<Longrightarrow> c \<noteq> CHR ''-'' \<and> c \<noteq> CHR '':''"
    unfolding FormatEUI64_def set_map by (elim imageE) simp
qed

lemma clean_join: "clean_eui (join_pairs s) = clean_eui s"
  by (induction s rule: join_pairs.induct) (simp_all add: clean_eui_def)

lemma clean_id: "(\<And>c. c \<in> set s \<Longrightarrow> c \<noteq> CHR ''-'' \<and> c \<noteq> CHR '':'') \<Longrightarrow> clean_eui s = s"
  by (simp add: clean_eui_def filter_id_conv)

lemma upper_upper: "map hex_upper (FormatEUI64 e) = FormatEUI64 e"
proof -
  have "list_all (\<lambda>n. hex_upper (hex_upper (hex_digits ! n)) = hex_upper (hex_digits ! n)) [0..<16]" by code_simp
  moreover have "nibble i e < 16" for i by (simp add: nibble_def)
  ultimately have "hex_upper (hex_upper (hex_digits ! nibble i e)) = hex_upper (hex_digits ! nibble i e)" for i
    unfolding list_all_iff set_upt by simp
  then show ?thesis by (simp add: FormatEUI64_def)
qed

lemma parse_iff: "ParseEUI s = Inr e \<longleftrightarrow> map hex_upper (clean_eui s) = FormatEUI64 e"
proof -
  have "map hex_upper (clean_eui s) = FormatEUI64 e \<Longrightarrow> hex_decode (clean_eui s) = Some (EUI64Bytes e)"
    using hex_decode_upper [of "clean_eui s"] hex_decode_upper [of "hex_encode (EUI64Bytes e)"]
    by (simp add: upper_lower lower_hex hex_decode_encode)
  then show ?thesis
    using hex_decode_Some [of "clean_eui s" "EUI64Bytes e"] unfolding parse_decoded upper_lower lower_hex by blast
qed

lemma clean_display: "clean_eui (FormatEUI64 e) = FormatEUI64 e"
  by (rule clean_id) (rule clean_upper)

lemma clean_lower: "clean_eui (FormatEUI64Lower e) = FormatEUI64Lower e"
proof (rule clean_id)
  fix c assume c: "c \<in> set (FormatEUI64Lower e)"
  have "hex_upper c \<noteq> CHR ''-'' \<and> hex_upper c \<noteq> CHR '':''" using clean_upper [of "hex_upper c" e] c by (simp add: upper_lower)
  then show "c \<noteq> CHR ''-'' \<and> c \<noteq> CHR '':''" by (auto simp: hex_upper_def)
qed

lemma parse_display: "ParseEUI (FormatEUI64 e) = Inr e"
  by (simp add: parse_iff clean_display upper_upper)

section \<open>Theorems\<close>

text \<open>
  An EUI text is accepted as the identifier \<open>e\<close> exactly when, dashes and colons removed and
  letters raised, it reads like the display form of \<open>e\<close>: so the display form, the lower-case form
  and the dashed form of every identifier read back as that identifier, and no text reads as two.
\<close>

theorem ParseEUI_spellings:
  "(ParseEUI s = Inr e \<longleftrightarrow> map hex_upper (clean_eui s) = FormatEUI64 e) \<and>
   ParseEUI (FormatEUI64 e) = Inr e \<and> ParseEUI (FormatEUI64Lower e) = Inr e \<and> ParseEUI (FormatEUI64Dashed e) = Inr e"
  using parse_iff parse_display
  by (simp add: parse_iff FormatEUI64Dashed_def clean_join clean_display clean_lower upper_upper upper_lower)

text \<open>
  The byte form and the number determine each other, eight bytes at a time; bytes of any other
  length read as no EUI. The text of the bytes is the text of the number.
\<close>

lemma EUI64_bytes_roundtrip:
  "EUI64FromBytes (EUI64Bytes e) = e \<and> OptionalEUI64FromBytes (EUI64Bytes e) = Some e \<and>
   (OptionalEUI64FromBytes b = Some e \<longleftrightarrow> b = EUI64Bytes e) \<and>
   FormatEUIBytes (EUI64Bytes e) = FormatEUI64 e \<and> ParseEUIBytes (FormatEUIBytes (EUI64Bytes e)) = Inr (EUI64Bytes e)"
  using parse_display [of e]
  by (auto simp: EUI64FromBytes_def OptionalEUI64FromBytes_def EUISize_def EUI64Bytes_be_uint64 FormatEUIBytes_def
      upper_lower lower_hex ParseEUIBytes_def)

end
