(* ===== verification/Service_Requests.thy ===== *)
theory Service_Requests
  imports Pending_Store Wire_Codec EUI_Format
begin

text \<open>
  Operations the service center starts: the journal of \<^verbatim>\<open>KC-Core/pkg/bssci/pending_ops.go\<close> and the
  requests built on it in \<^verbatim>\<open>status_requests.go\<close>, \<^verbatim>\<open>ping_handlers.go\<close>, \<^verbatim>\<open>downlink_queue_send.go\<close> and
  \<^verbatim>\<open>ul_transmit.go\<close>. Each allocates its operation ID, persists the session counters
  (\<^verbatim>\<open>UpdateSessionCounters\<close>, \<^verbatim>\<open>UpdateOperationIDs\<close>), writes the recovery record and only then the
  frame; a frame that was certainly not written takes its record back, one that may have been
  keeps it and closes the transport.

  The environment decides which statements and writes succeed. The row of the session may be gone
  (its station was deleted): the counter update then passes silently and the foreign key refuses
  the recovery record. \<open>marshal\<close> stands for \<^verbatim>\<open>json.Marshal\<close>, \<open>encrypt\<close> for the key cipher.

  Here are the operations and the lemmas that a frame is preceded by its recovery record and its
  counter; \<open>Propagation\<close> adds the other requests and states the durability of all of them.
\<close>

section \<open>State\<close>

record journal =
  sid :: string
  live :: Session
  row :: "(i64 \<times> i64) option"
  status :: "op_row list statusService"
  wire :: "(i64 \<times> string) list"
  partial :: "(i64 \<times> string) list"
  shut :: bool

datatype journal_error =
    SessionNotPersisted | CountersNotPersisted | RecordNotPersisted status_error
  | CorrelationNotPersisted | KeyNotEncrypted | FrameNotSent | FrameAmbiguous
  | SessionNotFound | HandshakeNotComplete | NotBidirectional | BadKeyLength
  | CounterPayloadMismatch | TooManyPayloads | PayloadTooLarge
  | OwnerLookupFailed | AttachmentNotPersisted

datatype send_outcome = Written | NotWritten | MaybeWritten

record request_env =
  marshal :: "gomap \<Rightarrow> string option"
  countersOk :: bool
  recordOk :: bool
  correlateOk :: bool
  removeOk :: "i64 \<Rightarrow> bool"
  outcomeOf :: "i64 \<Rightarrow> send_outcome"
  encrypt :: "bytes \<Rightarrow> string option"

section \<open>Counters\<close>

definition UpdateOperationIDs :: "i64 \<Rightarrow> i64 \<Rightarrow> i64 \<times> i64 \<Rightarrow> i64 \<times> i64" where
  "UpdateOperationIDs bsOpId scOpId r =
     (if sint (fst r) < sint bsOpId then bsOpId else fst r,
      if sint scOpId < sint (snd r) then scOpId else snd r)"

definition UpdateSessionCounters :: "bool \<Rightarrow> journal \<Rightarrow> journal_error option \<times> journal" where
  "UpdateSessionCounters ok j =
     (if DbSessionID (live j) = 0 then (Some SessionNotPersisted, j)
      else case row j of
             None \<Rightarrow> (None, j)
           | Some r \<Rightarrow>
               if \<not> ok then (Some CountersNotPersisted, j)
               else (None, j\<lparr>row := Some (UpdateOperationIDs (fst (OperationCounters (live j)))
                                         (snd (OperationCounters (live j))) r)\<rparr>))"

definition allocate :: "journal \<Rightarrow> i64 \<times> journal" where
  "allocate j = (fst (NextScOpID (live j)), j\<lparr>live := snd (NextScOpID (live j))\<rparr>)"

section \<open>The journal\<close>

definition begin_op :: "request_env \<Rightarrow> journal \<Rightarrow> (journal_error + i64) \<times> journal" where
  "begin_op env j =
     (case allocate j of
        (opId, j1) \<Rightarrow>
          (case UpdateSessionCounters (countersOk env) j1 of
             (Some e, j2) \<Rightarrow> (Inl e, j2)
           | (None, j2) \<Rightarrow> (Inr opId, j2)))"

definition truncate_float :: "gofloat \<Rightarrow> i64" where
  "truncate_float f = (case f of FFin q \<Rightarrow> word_of_int (if 0 \<le> q then \<lfloor>q\<rfloor> else \<lceil>q\<rceil>) | _ \<Rightarrow> 0)"

definition op_mac_type :: "gomap option \<Rightarrow> i64" where
  "op_mac_type metadata =
     (case metadata of
        None \<Rightarrow> 0
      | Some m \<Rightarrow>
          (case lookup m ''macType'' of
             GInt mt \<Rightarrow> mt
           | GUint8 mt \<Rightarrow> ucast mt
           | GFloat64 mt \<Rightarrow> truncate_float mt
           | _ \<Rightarrow> 0))"

definition op_data :: "string \<Rightarrow> gomap option \<Rightarrow> bytes" where
  "op_data opType metadata =
     (case metadata of
        None \<Rightarrow> []
      | Some m \<Rightarrow>
          (case lookup m ''data'' of
             GBytes d \<Rightarrow> d
           | GString s \<Rightarrow> (case DecodeString s of Some d \<Rightarrow> d | None \<Rightarrow> [])
           | _ \<Rightarrow>
               (case lookup m ''userData'' of
                  GString u \<Rightarrow>
                    if opType = CmdULDataTransmit then (case DecodeString u of Some d \<Rightarrow> d | None \<Rightarrow> []) else []
                | _ \<Rightarrow> [])))"

definition build :: "i64 \<Rightarrow> string \<Rightarrow> gomap \<Rightarrow> bytes option \<Rightarrow> gomap option \<Rightarrow> FullOperation" where
  "build opId opType message euiBytes metadata =
     \<lparr>OperationID = opId, OperationType = opType, Message = message, Metadata = metadata,
      Endpoint = euiBytes, MACType = op_mac_type metadata, OpData = op_data opType metadata\<rparr>"

definition session_of :: "journal \<Rightarrow> session_ref" where
  "session_of j = (sid j, DbSessionID (live j))"

definition persist ::
    "request_env \<Rightarrow> i64 \<Rightarrow> string \<Rightarrow> gomap \<Rightarrow> bytes option \<Rightarrow> gomap option \<Rightarrow> journal \<Rightarrow> journal_error option \<times> journal" where
  "persist env opId opType message euiBytes metadata j =
     (if DbSessionID (live j) = 0 then (Some SessionNotPersisted, j)
      else case RecordPendingOperation PendingOperationRepository (marshal env) (recordOk env \<and> row j \<noteq> None)
                  (session_of j) opId (build opId opType message euiBytes metadata) (status j) of
             (Some e, st) \<Rightarrow> (Some (RecordNotPersisted e), j\<lparr>status := st\<rparr>)
           | (None, st) \<Rightarrow> (None, j\<lparr>status := st\<rparr>))"

definition persistBatch :: "request_env \<Rightarrow> FullOperation list \<Rightarrow> journal \<Rightarrow> journal_error option \<times> journal" where
  "persistBatch env ops j =
     (if DbSessionID (live j) = 0 then (Some SessionNotPersisted, j)
      else case RecordPendingOperations PendingOperationRepository (marshal env) (recordOk env \<and> row j \<noteq> None)
                  (session_of j) ops (status j) of
             (Some e, st) \<Rightarrow> (Some (RecordNotPersisted e), j\<lparr>status := st\<rparr>)
           | (None, st) \<Rightarrow> (None, j\<lparr>status := st\<rparr>))"

definition remove :: "request_env \<Rightarrow> i64 \<Rightarrow> journal \<Rightarrow> journal" where
  "remove env opId j =
     j\<lparr>status := snd (RemovePendingOperation PendingOperationRepository (removeOk env opId) (session_of j) opId (status j))\<rparr>"

section \<open>Writing a frame\<close>

text \<open>
  \<^verbatim>\<open>sendMessage\<close>: a message that fails the outbound check is not written; a write that failed after
  bytes may have left is ambiguous.
\<close>

definition send :: "request_env \<Rightarrow> i64 \<Rightarrow> string \<Rightarrow> gomap \<Rightarrow> journal \<Rightarrow> send_outcome \<times> journal" where
  "send env opId command msg j =
     (if validateOutboundMessage msg \<noteq> None then (NotWritten, j)
      else case outcomeOf env opId of
             Written \<Rightarrow> (Written, j\<lparr>wire := wire j @ [(opId, command)]\<rparr>)
           | NotWritten \<Rightarrow> (NotWritten, j)
           | MaybeWritten \<Rightarrow> (MaybeWritten, j\<lparr>partial := partial j @ [(opId, command)]\<rparr>))"

definition closeTransportAfterWriteFailure :: "journal \<Rightarrow> journal" where
  "closeTransportAfterWriteFailure j = j\<lparr>shut := True\<rparr>"

definition settleUnsentFrame :: "request_env \<Rightarrow> send_outcome \<Rightarrow> i64 list \<Rightarrow> journal \<Rightarrow> journal" where
  "settleUnsentFrame env outcome unsentOpIDs j =
     (if outcome = MaybeWritten then closeTransportAfterWriteFailure j
      else fold (remove env) unsentOpIDs j)"

fun send_error :: "send_outcome \<Rightarrow> journal_error" where
  "send_error MaybeWritten = FrameAmbiguous"
| "send_error _ = FrameNotSent"

section \<open>Status requests and pings\<close>

definition statusMessage :: "i64 \<Rightarrow> gomap" where
  "statusMessage opId = [(''command'', GString CmdStatus), (''opId'', GInt64 opId)]"

definition prepareStatusRequest :: "request_env \<Rightarrow> gomap option \<Rightarrow> journal \<Rightarrow> (journal_error + i64) \<times> journal" where
  "prepareStatusRequest env metadata j =
     (case begin_op env j of
        (Inl e, j1) \<Rightarrow> (Inl e, j1)
      | (Inr opId, j1) \<Rightarrow>
          (case persist env opId CmdStatus (statusMessage opId) None metadata j1 of
             (Some e, j2) \<Rightarrow> (Inl e, j2)
           | (None, j2) \<Rightarrow> (Inr opId, j2)))"

definition writeStatusRequest :: "request_env \<Rightarrow> i64 \<Rightarrow> journal \<Rightarrow> journal_error option \<times> journal" where
  "writeStatusRequest env opId j =
     (case send env opId CmdStatus (statusMessage opId) j of
        (Written, j1) \<Rightarrow> (None, j1)
      | (outcome, j1) \<Rightarrow> (Some (send_error outcome), settleUnsentFrame env outcome [opId] j1))"

definition SendStatusRequest :: "request_env \<Rightarrow> gomap option \<Rightarrow> journal \<Rightarrow> (journal_error + i64) \<times> journal" where
  "SendStatusRequest env metadata j =
     (case prepareStatusRequest env metadata j of
        (Inl e, j1) \<Rightarrow> (Inl e, j1)
      | (Inr opId, j1) \<Rightarrow>
          (case writeStatusRequest env opId j1 of
             (Some e, j2) \<Rightarrow> (Inl e, j2)
           | (None, j2) \<Rightarrow> (Inr opId, j2)))"

definition pingMessage :: "i64 \<Rightarrow> gomap" where
  "pingMessage opId = [(''command'', GString CmdPing), (''opId'', GInt64 opId)]"

definition InitiatePing :: "request_env \<Rightarrow> journal \<Rightarrow> (journal_error + i64) \<times> journal" where
  "InitiatePing env j =
     (case begin_op env j of
        (Inl e, j1) \<Rightarrow> (Inl e, j1)
      | (Inr opId, j1) \<Rightarrow>
          (case send env opId CmdPing (pingMessage opId) j1 of
             (Written, j2) \<Rightarrow> (Inr opId, j2)
           | (MaybeWritten, j2) \<Rightarrow> (Inl FrameAmbiguous, closeTransportAfterWriteFailure j2)
           | (NotWritten, j2) \<Rightarrow> (Inl FrameNotSent, j2)))"

section \<open>Downlink queue\<close>

record dlDataQueueRequest =
  epEui :: u64
  queId :: i64
  payloads :: "bytes list"
  cntDepend :: bool
  packetCnt :: "i64 list"
  format :: byte
  prio :: gofloat
  responseExp :: bool
  responsePrio :: bool
  dlWindReq :: bool
  expOnly :: bool
  tenantID :: i64
  orgID :: "string option"

definition MaxDLUserDataBytes :: nat where
  "MaxDLUserDataBytes = 200"

definition validatePayloadSizes :: "bytes list \<Rightarrow> journal_error option" where
  "validatePayloadSizes ps = (if list_all (\<lambda>p. length p \<le> MaxDLUserDataBytes) ps then None else Some PayloadTooLarge)"

definition validateQueuedUserData :: "bytes list \<Rightarrow> bool \<Rightarrow> i64 list \<Rightarrow> journal_error option" where
  "validateQueuedUserData ps dep cnts =
     (if dep \<and> length cnts \<noteq> length ps then Some CounterPayloadMismatch
      else if \<not> dep \<and> length ps > 1 then Some TooManyPayloads
      else validatePayloadSizes ps)"

definition queueingSession :: "Session option \<Rightarrow> journal_error option" where
  "queueingSession s =
     (case s of
        None \<Rightarrow> Some SessionNotFound
      | Some s \<Rightarrow>
          if \<not> HandshakeComplete s then Some HandshakeNotComplete
          else if \<not> Bidirectional s then Some NotBidirectional else None)"

definition bytesToNumericArray :: "bytes \<Rightarrow> goval" where
  "bytesToNumericArray d = GArray (map GUint8 d)"

definition buildDLDataQueUserData :: "bytes list \<Rightarrow> bool \<Rightarrow> goval" where
  "buildDLDataQueUserData ps dep =
     (let entries = (if dep then ps else if ps = [] then [[]] else take 1 ps)
      in GArray (map bytesToNumericArray entries))"

definition flag :: "string \<Rightarrow> bool \<Rightarrow> gomap" where
  "flag k b = (if b then [(k, GBool True)] else [])"

definition dlDataQueueMessage :: "i64 \<Rightarrow> dlDataQueueRequest \<Rightarrow> gomap" where
  "dlDataQueueMessage opID req =
     [(''command'', GString CmdDLDataQueue), (''opId'', GInt64 opID), (''epEui'', GUint64 (epEui req)),
      (''queId'', GInt64 (queId req)), (''userData'', buildDLDataQueUserData (payloads req) (cntDepend req)),
      (''prio'', GFloat32 (prio req)), (''cntDepend'', GBool (cntDepend req))]
     @ (if cntDepend req then [(''packetCnt'', GArray (map GInt64 (packetCnt req)))] else [])
     @ (if format req > 0 then [(''format'', GUint8 (format req))] else [])
     @ flag ''responseExp'' (responseExp req) @ flag ''responsePrio'' (responsePrio req)
     @ flag ''dlWindReq'' (dlWindReq req) @ flag ''expOnly'' (expOnly req)"

definition dlDataQueueMetadata :: "u64 \<Rightarrow> dlDataQueueRequest \<Rightarrow> gomap" where
  "dlDataQueueMetadata bsEUI req =
     [(''bsEui'', GUint64 bsEUI), (''epEui'', GUint64 (epEui req)), (''queId'', GInt64 (queId req)),
      (''prio'', GFloat32 (prio req)), (''payloads'', GArray (map (GString \<circ> EncodeToString) (payloads req))),
      (''cntDepend'', GBool (cntDepend req)), (''packetCnt'', GArray (map GInt64 (packetCnt req))),
      (''format'', GUint8 (format req)), (''responseExp'', GBool (responseExp req)),
      (''responsePrio'', GBool (responsePrio req)), (''dlWindReq'', GBool (dlWindReq req)),
      (''expOnly'', GBool (expOnly req)), (''tenantID'', GString (show_int (sint (tenantID req))))]
     @ (case orgID req of None \<Rightarrow> [] | Some o' \<Rightarrow> [(''organizationID'', GString o')])"

definition dlRxStatusQueryMessage :: "i64 \<Rightarrow> u64 \<Rightarrow> gomap" where
  "dlRxStatusQueryMessage opID eui =
     [(''command'', GString CmdDLRxStatusQuery), (''opId'', GInt64 opID), (''epEui'', GUint64 eui)]"

record dlDataQueueOps =
  queueID :: i64
  queryID :: i64
  paired :: bool

definition persistDLDataQueue ::
    "request_env \<Rightarrow> dlDataQueueRequest \<Rightarrow> bool \<Rightarrow> journal \<Rightarrow> (journal_error + dlDataQueueOps) \<times> journal" where
  "persistDLDataQueue env req dlRxStatQry j =
     (let (q, j1) = (if dlRxStatQry then allocate j else (0, j));
          (i, j2) = allocate j1
      in case UpdateSessionCounters (countersOk env) j2 of
           (Some e, j3) \<Rightarrow> (Inl e, j3)
         | (None, j3) \<Rightarrow>
             (let ops = \<lparr>queueID = i, queryID = q, paired = dlRxStatQry\<rparr>;
                  eui = Some (EUI64Bytes (epEui req));
                  msg = dlDataQueueMessage i req;
                  metadata = Some (dlDataQueueMetadata (BaseStationEUI (live j)) req)
              in if \<not> dlRxStatQry then
                   (case persist env i CmdDLDataQueue msg eui metadata j3 of
                      (Some e, j4) \<Rightarrow> (Inl e, j4) | (None, j4) \<Rightarrow> (Inr ops, j4))
                 else if \<not> correlateOk env then (Inl CorrelationNotPersisted, j3)
                 else (case persistBatch env
                              [build q CmdDLRxStatusQuery (dlRxStatusQueryMessage q (epEui req)) eui None,
                               build i CmdDLDataQueue msg eui metadata] j3 of
                         (Some e, j4) \<Rightarrow> (Inl e, j4) | (None, j4) \<Rightarrow> (Inr ops, j4))))"

definition writeDLDataQueue ::
    "request_env \<Rightarrow> dlDataQueueRequest \<Rightarrow> dlDataQueueOps \<Rightarrow> journal \<Rightarrow> journal_error option \<times> journal" where
  "writeDLDataQueue env req ops j =
     (let (o1, j1) = (if paired ops
            then send env (queryID ops) CmdDLRxStatusQuery (dlRxStatusQueryMessage (queryID ops) (epEui req)) j
            else (Written, j))
      in if o1 \<noteq> Written
         then (Some (send_error o1), settleUnsentFrame env o1 [queryID ops, queueID ops] j1)
         else (case send env (queueID ops) CmdDLDataQueue (dlDataQueueMessage (queueID ops) req) j1 of
                 (Written, j2) \<Rightarrow> (None, j2)
               | (o2, j2) \<Rightarrow> (Some (send_error o2), settleUnsentFrame env o2 [queueID ops] j2)))"

definition SendDLDataQueue ::
    "request_env \<Rightarrow> dlDataQueueRequest \<Rightarrow> bool \<Rightarrow> journal \<Rightarrow> journal_error option \<times> journal" where
  "SendDLDataQueue env req dlRxStatQry j =
     (case queueingSession (Some (live j)) of
        Some e \<Rightarrow> (Some e, j)
      | None \<Rightarrow>
          (case validateQueuedUserData (payloads req) (cntDepend req) (packetCnt req) of
             Some e \<Rightarrow> (Some e, j)
           | None \<Rightarrow>
               (case persistDLDataQueue env req dlRxStatQry j of
                  (Inl e, j1) \<Rightarrow> (Some e, j1)
                | (Inr ops, j1) \<Rightarrow> writeDLDataQueue env req ops j1)))"

section \<open>Uplink transmission\<close>

record ulDataTxRequest =
  ulEui :: u64
  nwkSnKey :: bytes
  shAddr :: u16
  ulPacketCnt :: u32
  userData :: bytes
  profile :: string
  ulFormat :: byte

definition validateULTransmitSession :: "Session option \<Rightarrow> bytes \<Rightarrow> journal_error option" where
  "validateULTransmitSession s key =
     (case queueingSession s of
        Some e \<Rightarrow> Some e
      | None \<Rightarrow> if length key \<noteq> 16 then Some BadKeyLength else None)"

definition buildULDataTxMessage :: "i64 \<Rightarrow> ulDataTxRequest \<Rightarrow> gomap" where
  "buildULDataTxMessage opId r =
     [(''command'', GString CmdULDataTransmit), (''opId'', GInt64 opId), (''epEui'', GUint64 (ulEui r)),
      (''nwkSnKey'', bytesToNumericArray (nwkSnKey r)), (''shAddr'', GUint16 (shAddr r)),
      (''packetCnt'', GUint32 (ulPacketCnt r)), (''userData'', bytesToNumericArray (userData r))]
     @ (if ulFormat r > 0 then [(''format'', GUint8 (ulFormat r))] else [])
     @ (if profile r \<noteq> [] then [(''profile'', GString (profile r))] else [])"

definition buildULDataTxMetadata :: "ulDataTxRequest \<Rightarrow> string \<Rightarrow> gomap" where
  "buildULDataTxMetadata r encryptedKey =
     [(''packetCnt'', GUint32 (ulPacketCnt r)), (''shAddr'', GUint16 (shAddr r)), (''format'', GUint8 (ulFormat r)),
      (''profile'', GString (profile r)), (''encryptedKey'', GString encryptedKey),
      (''userData'', GString (EncodeToString (userData r))), (''data'', GString (EncodeToString (userData r)))]"

definition buildSanitizedULDataTxMessage :: "i64 \<Rightarrow> ulDataTxRequest \<Rightarrow> gomap" where
  "buildSanitizedULDataTxMessage opId r =
     [(''command'', GString CmdULDataTransmit), (''opId'', GInt64 opId), (''epEui'', GUint64 (ulEui r)),
      (''shAddr'', GUint16 (shAddr r)), (''packetCnt'', GUint32 (ulPacketCnt r)), (''format'', GUint8 (ulFormat r))]
     @ (if profile r \<noteq> [] then [(''profile'', GString (profile r))] else [])"

definition SendULDataTransmit :: "request_env \<Rightarrow> ulDataTxRequest \<Rightarrow> journal \<Rightarrow> (journal_error + i64) \<times> journal" where
  "SendULDataTransmit env r j =
     (case validateULTransmitSession (Some (live j)) (nwkSnKey r) of
        Some e \<Rightarrow> (Inl e, j)
      | None \<Rightarrow>
          (case begin_op env j of
             (Inl e, j1) \<Rightarrow> (Inl e, j1)
           | (Inr opId, j1) \<Rightarrow>
               (case encrypt env (nwkSnKey r) of
                  None \<Rightarrow> (Inl KeyNotEncrypted, j1)
                | Some key \<Rightarrow>
                    (case persist env opId CmdULDataTransmit (buildSanitizedULDataTxMessage opId r)
                            (Some (EUI64Bytes (ulEui r))) (Some (buildULDataTxMetadata r key)) j1 of
                       (Some e, j2) \<Rightarrow> (Inl e, j2)
                     | (None, j2) \<Rightarrow>
                         (case send env opId CmdULDataTransmit (buildULDataTxMessage opId r) j2 of
                            (Written, j3) \<Rightarrow> (Inr opId, j3)
                          | (outcome, j3) \<Rightarrow> (Inl (send_error outcome), settleUnsentFrame env outcome [opId] j3))))))"

section \<open>Frames pass the outbound check\<close>

lemma validate_known:
  assumes "map_of m ''command'' = Some (GString c)" "map_of m ''opId'' = Some (GInt64 i)"
    and "AllowedOutboundFields c = Some allowed" "fst ` set m \<subseteq> {''command'', ''opId''} \<union> set allowed"
    and "set (demanded c) \<subseteq> fst ` set m"
  shows "validateOutboundMessage m = None"
proof -
  have "map_of m f \<noteq> None" if "f \<in> set (demanded c)" for f
    using that assms(5) by (auto simp: map_of_eq_None_iff)
  then show ?thesis
    using assms(1-4) unfolding validate_None_iff demanded_def by (intro exI conjI) auto
qed

lemma catalog_rows:
  "AllowedOutboundFields CmdStatus = Some []" "demanded CmdStatus = []"
  "AllowedOutboundFields CmdPing = Some []" "demanded CmdPing = []"
  "AllowedOutboundFields CmdDLRxStatusQuery = Some [''epEui'', ''startTime'', ''endTime'', ''limit'', ''offset'']"
  "demanded CmdDLRxStatusQuery = [''epEui'']"
  "AllowedOutboundFields CmdDLDataQueue = Some [''epEui'', ''queId'', ''cntDepend'', ''packetCnt'', ''userData'', ''format'',
     ''prio'', ''responseExp'', ''responsePrio'', ''dlWindReq'', ''expOnly'']"
  "demanded CmdDLDataQueue = [''epEui'', ''queId'', ''cntDepend'', ''userData'']"
  "AllowedOutboundFields CmdULDataTransmit = Some [''epEui'', ''nwkSnKey'', ''shAddr'', ''packetCnt'', ''profile'', ''userData'', ''format'']"
  "demanded CmdULDataTransmit = [''epEui'', ''nwkSnKey'', ''shAddr'', ''packetCnt'', ''userData'']"
  by code_simp+

lemma status_valid: "validateOutboundMessage (statusMessage i) = None"
  by (rule validate_known [of _ CmdStatus i, OF _ _ catalog_rows(1)]) (simp_all add: statusMessage_def catalog_rows)

lemma ping_valid: "validateOutboundMessage (pingMessage i) = None"
  by (rule validate_known [of _ CmdPing i, OF _ _ catalog_rows(3)]) (simp_all add: pingMessage_def catalog_rows)

lemma query_valid: "validateOutboundMessage (dlRxStatusQueryMessage i eui) = None"
  by (rule validate_known [of _ CmdDLRxStatusQuery i, OF _ _ catalog_rows(5)])
    (simp_all add: dlRxStatusQueryMessage_def catalog_rows)

lemma queue_valid: "validateOutboundMessage (dlDataQueueMessage i req) = None"
  by (rule validate_known [of _ CmdDLDataQueue i, OF _ _ catalog_rows(7)])
    (auto simp: dlDataQueueMessage_def flag_def catalog_rows)

lemma transmit_valid: "validateOutboundMessage (buildULDataTxMessage i r) = None"
  by (rule validate_known [of _ CmdULDataTransmit i, OF _ _ catalog_rows(9)])
    (auto simp: buildULDataTxMessage_def catalog_rows)

lemmas frames_valid = status_valid ping_valid query_valid queue_valid transmit_valid

section \<open>Durable before written\<close>

definition in_table :: "journal \<Rightarrow> i64 \<Rightarrow> string \<Rightarrow> bool" where
  "in_table j i ty \<longleftrightarrow>
     (\<exists>r \<in> set (session_rows (DbSessionID (live j)) (repo (status j))). RowOperation r = i \<and> RowType r = ty)"

definition counter_covers :: "journal \<Rightarrow> i64 \<Rightarrow> bool" where
  "counter_covers j i \<longleftrightarrow> (case row j of None \<Rightarrow> True | Some (b, c) \<Rightarrow> sint c \<le> sint i)"

text \<open>A frame on the wire, or perhaps on it, is backed by the database; a ping needs its counter only.\<close>

definition backed :: "journal \<Rightarrow> i64 \<times> string \<Rightarrow> bool" where
  "backed j f \<longleftrightarrow> counter_covers j (fst f) \<and> (snd f = CmdPing \<or> row j \<noteq> None \<and> in_table j (fst f) (snd f))"

definition quiet :: "journal \<Rightarrow> journal \<Rightarrow> bool" where
  "quiet j j' \<longleftrightarrow> wire j' = wire j \<and> partial j' = partial j \<and> DbSessionID (live j') = DbSessionID (live j) \<and> sid j' = sid j"

lemma quiet_refl [simp]: "quiet j j"
  by (simp add: quiet_def)

lemma quiet_trans: "quiet j j1 \<Longrightarrow> quiet j1 j2 \<Longrightarrow> quiet j j2"
  by (simp add: quiet_def)

lemma allocate_fields:
  "allocate j = (i, j') \<Longrightarrow> i = LastScOpId (live j) - 1 \<and> LastScOpId (live j') = i \<and> quiet j j' \<and> row j' = row j \<and> status j' = status j"
  by (auto simp: allocate_def NextScOpID_def quiet_def)

lemma counters_fields:
  assumes "UpdateSessionCounters ok j = (e, j')"
  shows "quiet j j' \<and> live j' = live j \<and> status j' = status j \<and> (row j' = None \<longleftrightarrow> row j = None)
    \<and> (e = None \<longrightarrow> (\<forall>i. sint (LastScOpId (live j)) \<le> sint i \<longrightarrow> counter_covers j' i))"
  using assms
  by (auto simp: UpdateSessionCounters_def quiet_def counter_covers_def UpdateOperationIDs_def OperationCounters_def
      split: option.splits if_splits)

lemma begin_fields:
  assumes "begin_op env j = (r, j')"
  shows "quiet j j' \<and> status j' = status j \<and> (\<forall>i. r = Inr i \<longrightarrow> counter_covers j' i)"
proof -
  obtain i j1 where a: "allocate j = (i, j1)" by force
  obtain e j2 where u: "UpdateSessionCounters (countersOk env) j1 = (e, j2)" by force
  note fa = allocate_fields [OF a] and fu = counters_fields [OF u]
  have "quiet j j2" using fa fu quiet_trans by blast
  moreover have "status j2 = status j" using fa fu by simp
  moreover have "e = None \<longrightarrow> counter_covers j2 i" using fa fu by simp
  ultimately show ?thesis
    using assms a u by (cases e) (auto simp: begin_op_def)
qed

lemma create_row_mem: "r \<in> set (create_row r db)"
  by (induction db) auto

lemma recorded_fields:
  assumes "persist env i ty msg eui metadata j = (e, j')"
  shows "quiet j j' \<and> row j' = row j \<and> (e = None \<longrightarrow> row j \<noteq> None \<and> in_table j' i ty)"
proof (cases "DbSessionID (live j) = 0")
  case False
  let ?op = "build i ty msg eui metadata"
  obtain e1 st where r: "RecordPendingOperation PendingOperationRepository (marshal env) (recordOk env \<and> row j \<noteq> None)
      (session_of j) i ?op (status j) = (e1, st)" by force
  have rec: "row j \<noteq> None \<and> (\<exists>q \<in> set (session_rows (DbSessionID (live j)) (repo st)). RowOperation q = i \<and> RowType q = ty)"
    if "e1 = None"
  proof -
    from r that obtain q where q: "operation_row (marshal env) (DbSessionID (live j)) i ?op = Some q"
        "repo st = create_row q (repo (status j))" "row j \<noteq> None"
      by (auto simp: RecordPendingOperation_def session_of_def cache_put_def PendingOperationRepository_def
          split: option.splits if_splits)
    then have "RowSession q = DbSessionID (live j)" "RowOperation q = i" "RowType q = ty"
      by (auto simp: operation_row_def build_def split: option.splits)
    then show ?thesis using q create_row_mem [of q] by (auto simp: session_rows_def)
  qed
  then show ?thesis
    using assms r False by (cases e1) (auto simp: persist_def quiet_def in_table_def)
qed (use assms in \<open>auto simp: persist_def\<close>)

lemma send_cases:
  assumes "send env i c msg j = (r, j')" "validateOutboundMessage msg = None"
  shows "(r = Written \<and> j' = j\<lparr>wire := wire j @ [(i, c)]\<rparr>) \<or> (r = NotWritten \<and> j' = j) \<or>
    (r = MaybeWritten \<and> j' = j\<lparr>partial := partial j @ [(i, c)]\<rparr>)"
  using assms by (auto simp: send_def split: send_outcome.splits)

lemma remove_fields:
  "quiet j (remove env i j)" "row (remove env i j) = row j" "live (remove env i j) = live j"
  "i' \<noteq> i \<Longrightarrow> in_table (remove env i j) i' ty = in_table j i' ty"
  by (auto simp: remove_def quiet_def in_table_def RemovePendingOperation_def PendingOperationRepository_def
      session_of_def session_rows_def delete_operation_def)

definition new_backed :: "journal \<Rightarrow> journal \<Rightarrow> bool" where
  "new_backed j j' \<longleftrightarrow> (\<exists>ws ps. wire j' = wire j @ ws \<and> partial j' = partial j @ ps \<and> (\<forall>f \<in> set ws \<union> set ps. backed j' f))"

lemma new_backedI:
  "wire j' = wire j @ ws \<Longrightarrow> partial j' = partial j @ ps \<Longrightarrow> (\<And>f. f \<in> set ws \<union> set ps \<Longrightarrow> backed j' f) \<Longrightarrow> new_backed j j'"
  unfolding new_backed_def by blast

lemma new_backed_quiet: "quiet j j1 \<Longrightarrow> new_backed j1 j' \<Longrightarrow> new_backed j j'"
  by (auto simp: new_backed_def quiet_def)

lemma quiet_backed: "quiet j j' \<Longrightarrow> new_backed j j'"
  by (rule new_backedI [where ws = "[]" and ps = "[]"]) (simp_all add: quiet_def)

lemma backed_update [simp]:
  "backed (j\<lparr>wire := w\<rparr>) f = backed j f" "backed (j\<lparr>partial := w\<rparr>) f = backed j f" "backed (j\<lparr>shut := b\<rparr>) f = backed j f"
  by (simp_all add: backed_def counter_covers_def in_table_def)

lemma settle_one:
  "settleUnsentFrame env r [i] j = (if r = MaybeWritten then j\<lparr>shut := True\<rparr> else remove env i j)"
  by (simp add: settleUnsentFrame_def closeTransportAfterWriteFailure_def)

lemma sent_backed:
  assumes "send env i c msg j = (r, j1)" "validateOutboundMessage msg = None" "backed j (i, c)"
  shows "new_backed j (if r = Written then j1 else settleUnsentFrame env r [i] j1)"
  using send_cases [OF assms(1,2)]
proof (elim disjE conjE)
  assume "r = Written" "j1 = j\<lparr>wire := wire j @ [(i, c)]\<rparr>"
  then show ?thesis using assms(3) by (auto intro: new_backedI [where ws = "[(i, c)]" and ps = "[]"])
next
  assume "r = NotWritten" "j1 = j"
  then show ?thesis by (simp add: settle_one quiet_backed remove_fields)
next
  assume "r = MaybeWritten" "j1 = j\<lparr>partial := partial j @ [(i, c)]\<rparr>"
  then show ?thesis using assms(3)
    by (auto simp: settle_one intro: new_backedI [where ws = "[]" and ps = "[(i, c)]"])
qed

lemma persisted_backed:
  assumes "persist env i c msg eui metadata j = (None, j')" "counter_covers j i"
  shows "backed j' (i, c)"
  using recorded_fields [OF assms(1)] assms(2) by (simp add: backed_def counter_covers_def)

text \<open>The batch of a paired downlink.\<close>

lemma create_row_keeps: "q \<in> set db \<Longrightarrow> row_key q \<noteq> row_key r \<Longrightarrow> q \<in> set (create_row r db)"
  by (induction db) auto

lemma create_rows_keeps: "q \<in> set db \<Longrightarrow> row_key q \<notin> row_key ` set rs \<Longrightarrow> q \<in> set (create_rows rs db)"
  unfolding create_rows_def by (induction rs arbitrary: db) (auto simp: create_row_keeps)

lemma created_rows:
  assumes "operation_rows mar db ops = Some rs" "distinct (map OperationID ops)" "op \<in> set ops"
  shows "\<exists>q \<in> set (session_rows db (create_rows rs rows0)). RowOperation q = OperationID op \<and> RowType q = OperationType op"
  using assms
proof (induction ops arbitrary: rs rows0)
  case (Cons o1 ops)
  then obtain r rs' where r: "operation_row mar db (OperationID o1) o1 = Some r" "operation_rows mar db ops = Some rs'" "rs = r # rs'"
    by (auto split: option.splits)
  have f: "RowSession r = db" "RowOperation r = OperationID o1" "RowType r = OperationType o1"
    using r(1) by (auto simp: operation_row_def split: option.splits)
  have step: "create_rows rs rows0 = create_rows rs' (create_row r rows0)" by (simp add: r(3) create_rows_def)
  show ?case
  proof (cases "op \<in> set ops")
    case True
    then show ?thesis using Cons.IH [OF r(2)] Cons.prems(2) unfolding step by simp
  next
    case False
    then have "op = o1" using Cons.prems(3) by simp
    have "RowOperation ` set rs' = OperationID ` set ops"
      using operation_rows_fields [OF r(2)] by (metis list.set_map)
    then have "row_key r \<notin> row_key ` set rs'" using Cons.prems(2) f by force
    from create_rows_keeps [OF create_row_mem this] show ?thesis
      using f \<open>op = o1\<close> unfolding step by (auto simp: session_rows_def)
  qed
qed simp

lemma batch_fields:
  assumes "persistBatch env ops j = (e, j')"
  shows "quiet j j' \<and> row j' = row j \<and>
    (e = None \<longrightarrow> row j \<noteq> None \<and>
       (distinct (map OperationID ops) \<longrightarrow> (\<forall>op \<in> set ops. in_table j' (OperationID op) (OperationType op))))"
proof (cases "DbSessionID (live j) = 0")
  case False
  obtain e1 st where r: "RecordPendingOperations PendingOperationRepository (marshal env) (recordOk env \<and> row j \<noteq> None)
      (session_of j) ops (status j) = (e1, st)" by force
  have rec: "row j \<noteq> None \<and> (distinct (map OperationID ops) \<longrightarrow> (\<forall>op \<in> set ops.
      \<exists>q \<in> set (session_rows (DbSessionID (live j)) (repo st)). RowOperation q = OperationID op \<and> RowType q = OperationType op))"
    if "e1 = None"
  proof -
    have repo: "repo (fold (\<lambda>op. cache_put s (OperationID op) op) os s0) = repo s0" for s os and s0 :: "op_row list statusService"
      by (induction os arbitrary: s0) (simp_all add: cache_put_def)
    from r that obtain rs where q: "operation_rows (marshal env) (DbSessionID (live j)) ops = Some rs"
        "repo st = create_rows rs (repo (status j))" "row j \<noteq> None"
      by (auto simp: RecordPendingOperations_def session_of_def repo PendingOperationRepository_def
          split: option.splits if_splits)
    then show ?thesis using created_rows [OF q(1)] by auto
  qed
  then show ?thesis
    using assms r False by (cases e1) (auto simp: persistBatch_def quiet_def in_table_def)
qed (use assms in \<open>auto simp: persistBatch_def\<close>)

lemma status_backed: "new_backed j (snd (SendStatusRequest env metadata j))"
proof -
  obtain r j1 where b: "begin_op env j = (r, j1)" by force
  note fb = begin_fields [OF b]
  show ?thesis
  proof (cases r)
    case (Inl e)
    then show ?thesis using fb b by (simp add: SendStatusRequest_def prepareStatusRequest_def quiet_backed)
  next
    case (Inr i)
    obtain e j2 where p: "persist env i CmdStatus (statusMessage i) None metadata j1 = (e, j2)" by force
    have q: "quiet j j2" using fb recorded_fields [OF p] quiet_trans by blast
    show ?thesis
    proof (cases e)
      case (Some e')
      then show ?thesis using Inr b p q by (simp add: SendStatusRequest_def prepareStatusRequest_def quiet_backed)
    next
      case None
      obtain o3 j3 where s: "send env i CmdStatus (statusMessage i) j2 = (o3, j3)" by force
      from persisted_backed [OF p [unfolded None]] fb Inr have "backed j2 (i, CmdStatus)" by simp
      from new_backed_quiet [OF q sent_backed [OF s status_valid this]]
      show ?thesis using Inr None b p s
        by (cases o3) (simp_all add: SendStatusRequest_def prepareStatusRequest_def writeStatusRequest_def)
    qed
  qed
qed

lemma ping_backed: "new_backed j (snd (InitiatePing env j))"
proof -
  obtain r j1 where b: "begin_op env j = (r, j1)" by force
  note fb = begin_fields [OF b]
  show ?thesis
  proof (cases r)
    case (Inl e)
    then show ?thesis using fb b by (simp add: InitiatePing_def quiet_backed)
  next
    case (Inr i)
    obtain o2 j2 where s: "send env i CmdPing (pingMessage i) j1 = (o2, j2)" by force
    have "backed j1 (i, CmdPing)" using fb Inr by (simp add: backed_def)
    then have "new_backed j1 (snd (InitiatePing env j))"
      using send_cases [OF s ping_valid] Inr b s
      by (auto simp: InitiatePing_def closeTransportAfterWriteFailure_def quiet_backed
          intro: new_backedI [where ws = "[(i, CmdPing)]" and ps = "[]"] new_backedI [where ws = "[]" and ps = "[(i, CmdPing)]"])
    then show ?thesis using fb new_backed_quiet by blast
  qed
qed

lemma transmit_backed: "new_backed j (snd (SendULDataTransmit env r j))"
proof (cases "validateULTransmitSession (Some (live j)) (nwkSnKey r)")
  case ok: None
  obtain x j1 where b: "begin_op env j = (x, j1)" by force
  note fb = begin_fields [OF b]
  show ?thesis
  proof (cases "\<exists>i key. x = Inr i \<and> encrypt env (nwkSnKey r) = Some key")
    case False
    then show ?thesis using fb b ok
      by (cases x; cases "encrypt env (nwkSnKey r)") (auto simp: SendULDataTransmit_def quiet_backed)
  next
    case True
    then obtain i key where x: "x = Inr i" "encrypt env (nwkSnKey r) = Some key" by blast
    obtain e j2 where p: "persist env i CmdULDataTransmit (buildSanitizedULDataTxMessage i r)
        (Some (EUI64Bytes (ulEui r))) (Some (buildULDataTxMetadata r key)) j1 = (e, j2)" by force
    have q: "quiet j j2" using fb recorded_fields [OF p] quiet_trans by blast
    show ?thesis
    proof (cases e)
      case (Some e')
      then show ?thesis using x b p q ok by (simp add: SendULDataTransmit_def quiet_backed)
    next
      case None
      obtain o3 j3 where s: "send env i CmdULDataTransmit (buildULDataTxMessage i r) j2 = (o3, j3)" by force
      from persisted_backed [OF p [unfolded None]] fb x have "backed j2 (i, CmdULDataTransmit)" by simp
      from new_backed_quiet [OF q sent_backed [OF s transmit_valid this]]
      show ?thesis using x None b p s ok by (cases o3) (simp_all add: SendULDataTransmit_def)
    qed
  qed
qed (simp add: SendULDataTransmit_def quiet_backed)

lemma sint_pred: "- (2 ^ 63) < sint w \<Longrightarrow> sint (w - 1 :: i64) = sint w - 1"
  using sint64_bounds [of w] by (subst sint_word_of_int64 [symmetric, of "sint w - 1"]) (simp_all add: of_int_sint)

lemma queue_persisted:
  assumes "persistDLDataQueue env req pair j = (x, j')" "- (2 ^ 63) + 2 \<le> sint (LastScOpId (live j))"
  shows "quiet j j' \<and> (\<forall>ops. x = Inr ops \<longrightarrow> paired ops = pair \<and> backed j' (queueID ops, CmdDLDataQueue) \<and>
    (pair \<longrightarrow> backed j' (queryID ops, CmdDLRxStatusQuery) \<and> queryID ops \<noteq> queueID ops))"
proof -
  obtain q j1 where a1: "(if pair then allocate j else (0, j)) = (q, j1)" by force
  obtain i j2 where a2: "allocate j1 = (i, j2)" by force
  obtain e3 j3 where u: "UpdateSessionCounters (countersOk env) j2 = (e3, j3)" by force
  have q1: "quiet j j1" using a1 allocate_fields [of j q j1] by (cases pair) auto
  have q3: "quiet j j3" using q1 allocate_fields [OF a2] counters_fields [OF u] quiet_trans by blast
  have ci: "e3 = None \<Longrightarrow> counter_covers j3 i" using counters_fields [OF u] allocate_fields [OF a2] by simp
  have cq: "e3 = None \<Longrightarrow> pair \<Longrightarrow> counter_covers j3 q \<and> q \<noteq> i"
  proof -
    assume e: "e3 = None" "pair"
    have f: "q = LastScOpId (live j) - 1" "i = q - 1" "LastScOpId (live j2) = i"
      using a1 e(2) allocate_fields [of j q j1] allocate_fields [OF a2] by auto
    have "sint q = sint (LastScOpId (live j)) - 1" using assms(2) by (simp add: f(1) sint_pred)
    then have "sint i \<le> sint q" using assms(2) by (simp add: f(2) sint_pred)
    then show ?thesis using counters_fields [OF u] e(1) f by auto
  qed
  define eui msg metadata where "eui = Some (EUI64Bytes (epEui req))" "msg = dlDataQueueMessage i req"
    "metadata = Some (dlDataQueueMetadata (BaseStationEUI (live j)) req)"
  define b where "b = [build q CmdDLRxStatusQuery (dlRxStatusQueryMessage q (epEui req)) eui None, build i CmdDLDataQueue msg eui metadata]"
  have eq: "persistDLDataQueue env req pair j =
      (case e3 of Some e \<Rightarrow> (Inl e, j3)
       | None \<Rightarrow> if \<not> pair then (case persist env i CmdDLDataQueue msg eui metadata j3 of
             (Some e, j4) \<Rightarrow> (Inl e, j4) | (None, j4) \<Rightarrow> (Inr \<lparr>queueID = i, queryID = q, paired = pair\<rparr>, j4))
           else if \<not> correlateOk env then (Inl CorrelationNotPersisted, j3)
           else (case persistBatch env b j3 of
             (Some e, j4) \<Rightarrow> (Inl e, j4) | (None, j4) \<Rightarrow> (Inr \<lparr>queueID = i, queryID = q, paired = pair\<rparr>, j4)))"
    unfolding persistDLDataQueue_def b_def eui_msg_metadata_def using a1 a2 u by (cases e3) (simp_all add: Let_def)
  show ?thesis
  proof (cases "e3 = None \<and> (pair \<longrightarrow> correlateOk env)")
    case False
    then show ?thesis using assms(1) eq q3 by (cases e3) auto
  next
    case True
    show ?thesis
    proof (cases pair)
      case False
      obtain e4 j4 where p: "persist env i CmdDLDataQueue msg eui metadata j3 = (e4, j4)" by force
      have "quiet j j4" using q3 recorded_fields [OF p] quiet_trans by blast
      then show ?thesis
        using assms(1) eq True False p persisted_backed [of env i CmdDLDataQueue msg eui metadata j3 j4] ci by (cases e4) auto
    next
      case pair: True
      obtain e4 j4 where p: "persistBatch env b j3 = (e4, j4)" by force
      note fp = batch_fields [OF p]
      have "distinct (map OperationID b)" using cq True pair by (simp add: b_def build_def)
      then have "e4 = None \<Longrightarrow> backed j4 (i, CmdDLDataQueue) \<and> backed j4 (q, CmdDLRxStatusQuery)"
        using fp ci cq True pair by (auto simp: backed_def counter_covers_def b_def build_def)
      moreover have "quiet j j4" using q3 fp quiet_trans by blast
      ultimately show ?thesis using assms(1) eq True pair p cq by (cases e4) auto
    qed
  qed
qed

lemma write_backed:
  assumes "paired ops \<Longrightarrow> backed j (queryID ops, CmdDLRxStatusQuery) \<and> queryID ops \<noteq> queueID ops" "backed j (queueID ops, CmdDLDataQueue)"
  shows "new_backed j (snd (writeDLDataQueue env req ops j))"
proof (cases "paired ops")
  case False
  obtain o2 j2 where s: "send env (queueID ops) CmdDLDataQueue (dlDataQueueMessage (queueID ops) req) j = (o2, j2)" by force
  from sent_backed [OF s queue_valid assms(2)] show ?thesis
    using s False by (cases o2) (simp_all add: writeDLDataQueue_def)
next
  case True
  let ?q = "(queryID ops, CmdDLRxStatusQuery)" and ?i = "(queueID ops, CmdDLDataQueue)"
  obtain o1 j1 where s1: "send env (queryID ops) CmdDLRxStatusQuery (dlRxStatusQueryMessage (queryID ops) (epEui req)) j = (o1, j1)"
    by force
  from send_cases [OF s1 query_valid] show ?thesis
  proof (elim disjE conjE)
    assume w: "o1 = Written" "j1 = j\<lparr>wire := wire j @ [?q]\<rparr>"
    obtain o2 j2 where s: "send env (queueID ops) CmdDLDataQueue (dlDataQueueMessage (queueID ops) req) j1 = (o2, j2)" by force
    have r: "snd (writeDLDataQueue env req ops j) = (if o2 = Written then j2 else settleUnsentFrame env o2 [queueID ops] j2)"
      using s s1 w True by (cases o2) (simp_all add: writeDLDataQueue_def)
    show ?thesis
      using send_cases [OF s queue_valid]
    proof (elim disjE conjE)
      assume "o2 = Written" "j2 = j1\<lparr>wire := wire j1 @ [?i]\<rparr>"
      then show ?thesis using r w assms True
        by (auto intro!: new_backedI [where ws = "[?q, ?i]" and ps = "[]"])
    next
      assume "o2 = NotWritten" "j2 = j1"
      moreover have "backed (remove env (queueID ops) j1) ?q"
        using assms True w remove_fields [where env = env and j = j1 and i = "queueID ops"]
        by (auto simp: backed_def counter_covers_def in_table_def)
      ultimately show ?thesis using r w remove_fields(1) [of j1 env "queueID ops"]
        by (auto simp: settle_one quiet_def intro!: new_backedI [where ws = "[?q]" and ps = "[]"])
    next
      assume "o2 = MaybeWritten" "j2 = j1\<lparr>partial := partial j1 @ [?i]\<rparr>"
      then show ?thesis using r w assms True
        by (auto simp: settle_one intro!: new_backedI [where ws = "[?q]" and ps = "[?i]"])
    qed
  next
    assume "o1 = NotWritten" "j1 = j"
    moreover have "quiet j (remove env (queueID ops) (remove env (queryID ops) j))"
      using remove_fields(1) quiet_trans by blast
    ultimately show ?thesis using s1 True
      by (simp add: writeDLDataQueue_def settleUnsentFrame_def quiet_backed)
  next
    assume "o1 = MaybeWritten" "j1 = j\<lparr>partial := partial j @ [?q]\<rparr>"
    then show ?thesis using s1 True assms
      by (auto simp: writeDLDataQueue_def settleUnsentFrame_def closeTransportAfterWriteFailure_def
          intro!: new_backedI [where ws = "[]" and ps = "[?q]"])
  qed
qed

lemma queue_backed:
  assumes "- (2 ^ 63) + 2 \<le> sint (LastScOpId (live j))"
  shows "new_backed j (snd (SendDLDataQueue env req pair j))"
proof -
  obtain x j1 where p: "persistDLDataQueue env req pair j = (x, j1)" by force
  note fp = queue_persisted [OF p assms]
  have "x = Inr ops \<Longrightarrow> new_backed j (snd (writeDLDataQueue env req ops j1))" for ops
    using fp write_backed [of ops j1] new_backed_quiet by blast
  then show ?thesis
    using p fp by (cases x) (auto simp: SendDLDataQueue_def quiet_backed split: option.splits)
qed

end
