(* ===== verification/Propagation.thy ===== *)
theory Propagation
  imports Service_Requests
begin

text \<open>
  The other requests of the service center: attach and detach propagation
  (\<^verbatim>\<open>KC-Core/pkg/bssci/propagate_handlers.go\<close>) and downlink revocation
  (\<^verbatim>\<open>downlink_revoke_handlers.go\<close>). They keep the durable order of \<^verbatim>\<open>pending_ops.go\<close>; between the record
  and the frame an attach propagation stores the attachment of the endpoint, whose failure ends the
  request with the record in place and no frame.

  The environment also resolves the owner of an endpoint and decides whether the attachment is
  stored. Together with the requests of \<^theory_text>\<open>Service_Requests\<close> these are all the operations
  the service center opens; the durability theorem is about any of them.
\<close>

section \<open>Owners\<close>

datatype owner_result = OwnerFound i64 "string option" | OwnerUnknown | OwnerFailed

record propagation_env = request_env +
  serverTenant :: i64
  ownerOf :: "u64 \<Rightarrow> owner_result"
  encryptBinary :: "bytes \<Rightarrow> bytes option"
  attachmentOk :: bool

record propagationOwner =
  euiBytes :: bytes
  ownerTenant :: i64
  ownerOrg :: "string option"
  knownEndpoint :: bool

definition resolvePropagationOwner :: "propagation_env \<Rightarrow> Session \<Rightarrow> u64 \<Rightarrow> journal_error + propagationOwner" where
  "resolvePropagationOwner env s eui =
     (case ownerOf env eui of
        OwnerUnknown \<Rightarrow> Inr \<lparr>euiBytes = EUI64Bytes eui, ownerTenant = resolvedTenant (Some s) (serverTenant env),
                              ownerOrg = None, knownEndpoint = False\<rparr>
      | OwnerFailed \<Rightarrow> Inl OwnerLookupFailed
      | OwnerFound t o' \<Rightarrow> Inr \<lparr>euiBytes = EUI64Bytes eui, ownerTenant = t, ownerOrg = o', knownEndpoint = True\<rparr>)"

definition org_entry :: "string option \<Rightarrow> gomap" where
  "org_entry o' = (case o' of None \<Rightarrow> [] | Some u \<Rightarrow> [(''organizationId'', GString u)])"

section \<open>Attach propagation\<close>

record attachPropagate =
  apEui :: u64
  apKey :: bytes
  apShAddr :: u16
  apBidi :: bool
  apLastPacketCnt :: u32
  apDualChan :: bool
  apRepetition :: byte
  apWideCarrOff :: bool
  apLongBlkDist :: bool

definition attachPropagateMessage :: "i64 \<Rightarrow> attachPropagate \<Rightarrow> gomap" where
  "attachPropagateMessage opId r =
     [(''command'', GString CmdAttachPropagate), (''opId'', GInt64 opId), (''epEui'', GUint64 (apEui r)),
      (''bidi'', GBool (apBidi r)), (''nwkSnKey'', bytesToNumericArray (apKey r)), (''shAddr'', GUint16 (apShAddr r)),
      (''lastPacketCnt'', GUint32 (apLastPacketCnt r)), (''dualChan'', GBool (apDualChan r)),
      (''repetition'', GBool (apRepetition r > 0)), (''wideCarrOff'', GBool (apWideCarrOff r)),
      (''longBlkDist'', GBool (apLongBlkDist r))]"

definition sanitizedAttachPropagate :: "i64 \<Rightarrow> attachPropagate \<Rightarrow> gomap" where
  "sanitizedAttachPropagate opId r = filter (\<lambda>(k, v). k \<noteq> ''nwkSnKey'') (attachPropagateMessage opId r)"

definition attachPropagateMetadata :: "attachPropagate \<Rightarrow> propagationOwner \<Rightarrow> string \<Rightarrow> gomap" where
  "attachPropagateMetadata r owner encryptedKey =
     [(''epEui'', GString (FormatEUI64 (apEui r))), (''tenantId'', GInt64 (ownerTenant owner)),
      (''shortAddr'', GUint16 (apShAddr r)), (''bidirectional'', GBool (apBidi r)),
      (''lastPacketCnt'', GUint32 (apLastPacketCnt r)), (''dualChannel'', GBool (apDualChan r)),
      (''repetition'', GBool (apRepetition r > 0)), (''wideCarrOff'', GBool (apWideCarrOff r)),
      (''longBlkDist'', GBool (apLongBlkDist r)), (''encryptedKey'', GString encryptedKey)]
     @ org_entry (ownerOrg owner)"

definition SendAttachPropagate ::
    "propagation_env \<Rightarrow> attachPropagate \<Rightarrow> journal \<Rightarrow> journal_error option \<times> journal" where
  "SendAttachPropagate env r j =
     (let base = request_env.truncate env in
      if length (apKey r) \<noteq> 16 then (Some BadKeyLength, j)
      else if \<not> HandshakeComplete (live j) then (Some HandshakeNotComplete, j)
      else if apBidi r \<and> \<not> Bidirectional (live j) then (Some NotBidirectional, j)
      else case begin_op base j of
             (Inl e, j1) \<Rightarrow> (Some e, j1)
           | (Inr opId, j1) \<Rightarrow>
               (case (encryptBinary env (apKey r), encrypt env (apKey r)) of
                  (Some _, Some key) \<Rightarrow>
                    (case resolvePropagationOwner env (live j1) (apEui r) of
                       Inl e \<Rightarrow> (Some e, j1)
                     | Inr owner \<Rightarrow>
                         (case persist base opId CmdAttachPropagate (sanitizedAttachPropagate opId r)
                                 (Some (euiBytes owner)) (Some (attachPropagateMetadata r owner key)) j1 of
                            (Some e, j2) \<Rightarrow> (Some e, j2)
                          | (None, j2) \<Rightarrow>
                              if knownEndpoint owner \<and> \<not> attachmentOk env then (Some AttachmentNotPersisted, j2)
                              else (case send base opId CmdAttachPropagate (attachPropagateMessage opId r) j2 of
                                      (Written, j3) \<Rightarrow> (None, j3)
                                    | (outcome, j3) \<Rightarrow> (Some (send_error outcome), settleUnsentFrame base outcome [opId] j3))))
                | _ \<Rightarrow> (Some KeyNotEncrypted, remove base opId j1)))"

section \<open>Detach propagation\<close>

definition detachPropagateMessage :: "i64 \<Rightarrow> u64 \<Rightarrow> gomap" where
  "detachPropagateMessage opId eui =
     [(''command'', GString CmdDetachPropagate), (''opId'', GInt64 opId), (''epEui'', GUint64 eui)]"

definition detachPropagateMetadata :: "u64 \<Rightarrow> propagationOwner \<Rightarrow> gomap" where
  "detachPropagateMetadata eui owner =
     [(''endpointEUI'', GString (FormatEUI64 eui)), (''epEui'', GUint64 eui), (''tenantId'', GInt64 (ownerTenant owner))]
     @ org_entry (ownerOrg owner)"

definition SendDetachPropagate :: "propagation_env \<Rightarrow> u64 \<Rightarrow> journal \<Rightarrow> journal_error option \<times> journal" where
  "SendDetachPropagate env eui j =
     (let base = request_env.truncate env in
      if \<not> HandshakeComplete (live j) then (Some HandshakeNotComplete, j)
      else case begin_op base j of
             (Inl e, j1) \<Rightarrow> (Some e, j1)
           | (Inr opId, j1) \<Rightarrow>
               (case resolvePropagationOwner env (live j1) eui of
                  Inl e \<Rightarrow> (Some e, j1)
                | Inr owner \<Rightarrow>
                    (case persist base opId CmdDetachPropagate (detachPropagateMessage opId eui)
                            (Some (euiBytes owner)) (Some (detachPropagateMetadata eui owner)) j1 of
                       (Some e, j2) \<Rightarrow> (Some e, j2)
                     | (None, j2) \<Rightarrow>
                         (case send base opId CmdDetachPropagate (detachPropagateMessage opId eui) j2 of
                            (Written, j3) \<Rightarrow> (None, j3)
                          | (outcome, j3) \<Rightarrow> (Some (send_error outcome), settleUnsentFrame base outcome [opId] j3)))))"

section \<open>Revocation\<close>

definition dlDataRevMessage :: "i64 \<Rightarrow> u64 \<Rightarrow> u64 \<Rightarrow> gomap" where
  "dlDataRevMessage opId eui que =
     [(''command'', GString CmdDLDataRevoke), (''opId'', GInt64 opId), (''epEui'', GUint64 eui), (''queId'', GUint64 que)]"

definition dlDataRevMetadata :: "u64 \<Rightarrow> u64 \<Rightarrow> u64 \<Rightarrow> i64 \<Rightarrow> gomap" where
  "dlDataRevMetadata bsEUI eui que tenant =
     [(''bsEui'', GUint64 bsEUI), (''epEui'', GUint64 eui), (''queId'', GUint64 que),
      (''tenantID'', GString (show_int (sint tenant)))]"

definition SendDLDataRevoke ::
    "request_env \<Rightarrow> u64 \<Rightarrow> u64 \<Rightarrow> i64 \<Rightarrow> journal \<Rightarrow> journal_error option \<times> journal" where
  "SendDLDataRevoke env eui que ownerTenantID j =
     (if \<not> HandshakeComplete (live j) then (Some HandshakeNotComplete, j)
      else case begin_op env j of
             (Inl e, j1) \<Rightarrow> (Some e, j1)
           | (Inr opId, j1) \<Rightarrow>
               (case persist env opId CmdDLDataRevoke (dlDataRevMessage opId eui que) (Some (EUI64Bytes eui))
                       (Some (dlDataRevMetadata (BaseStationEUI (live j1)) eui que ownerTenantID)) j1 of
                  (Some e, j2) \<Rightarrow> (Some e, j2)
                | (None, j2) \<Rightarrow>
                    (case send env opId CmdDLDataRevoke (dlDataRevMessage opId eui que) j2 of
                       (Written, j3) \<Rightarrow> (None, j3)
                     | (outcome, j3) \<Rightarrow> (Some (send_error outcome), settleUnsentFrame env outcome [opId] j3))))"

section \<open>Lemmas\<close>

lemma propagation_rows:
  "AllowedOutboundFields CmdAttachPropagate = Some [''epEui'', ''bidi'', ''nwkSnKey'', ''shAddr'', ''lastPacketCnt'',
     ''dualChan'', ''repetition'', ''wideCarrOff'', ''longBlkDist'']"
  "demanded CmdAttachPropagate = [''epEui'', ''bidi'', ''nwkSnKey'', ''shAddr'', ''lastPacketCnt'',
     ''dualChan'', ''repetition'', ''wideCarrOff'', ''longBlkDist'']"
  "AllowedOutboundFields CmdDetachPropagate = Some [''epEui'']" "demanded CmdDetachPropagate = [''epEui'']"
  "AllowedOutboundFields CmdDLDataRevoke = Some [''epEui'', ''queId'']" "demanded CmdDLDataRevoke = [''epEui'', ''queId'']"
  by code_simp+

lemma attach_valid: "validateOutboundMessage (attachPropagateMessage i r) = None"
  by (rule validate_known [of _ CmdAttachPropagate i, OF _ _ propagation_rows(1)])
    (simp_all add: attachPropagateMessage_def propagation_rows)

lemma detach_valid: "validateOutboundMessage (detachPropagateMessage i eui) = None"
  by (rule validate_known [of _ CmdDetachPropagate i, OF _ _ propagation_rows(3)])
    (simp_all add: detachPropagateMessage_def propagation_rows)

lemma revoke_valid: "validateOutboundMessage (dlDataRevMessage i eui que) = None"
  by (rule validate_known [of _ CmdDLDataRevoke i, OF _ _ propagation_rows(5)])
    (simp_all add: dlDataRevMessage_def propagation_rows)

text \<open>The shape all three share: an ID begun, a record, a frame.\<close>

lemma journalled:
  assumes "begin_op env j = (Inr i, j1)" "persist env i c rec eui metadata j1 = (e, j2)"
  shows "quiet j j1" "quiet j j2"
    and "e = None \<Longrightarrow> validateOutboundMessage msg = None \<Longrightarrow>
      new_backed j (case send env i c msg j2 of (r, j3) \<Rightarrow> if r = Written then j3 else settleUnsentFrame env r [i] j3)"
proof -
  note fb = begin_fields [OF assms(1)]
  show "quiet j j1" using fb by blast
  show q: "quiet j j2" using fb recorded_fields [OF assms(2)] quiet_trans by blast
  assume "e = None" and v: "validateOutboundMessage msg = None"
  then have "backed j2 (i, c)" using fb persisted_backed assms(2) by blast
  moreover obtain r j3 where s: "send env i c msg j2 = (r, j3)" by force
  ultimately show "new_backed j (case send env i c msg j2 of (r, j3) \<Rightarrow> if r = Written then j3 else settleUnsentFrame env r [i] j3)"
    using new_backed_quiet [OF q sent_backed [OF s v]] by simp
qed

lemma send_result:
  "snd (case send env i c msg j of (Written, j3) \<Rightarrow> (None, j3)
        | (outcome, j3) \<Rightarrow> (Some (send_error outcome), settleUnsentFrame env outcome [i] j3)) =
   (case send env i c msg j of (r, j3) \<Rightarrow> if r = Written then j3 else settleUnsentFrame env r [i] j3)"
  by (auto split: prod.splits send_outcome.splits)

lemma revoke_backed: "new_backed j (snd (SendDLDataRevoke env eui que t j))"
proof (cases "HandshakeComplete (live j)")
  case True
  obtain x j1 where b: "begin_op env j = (x, j1)" by force
  show ?thesis
  proof (cases x)
    case (Inl e)
    then show ?thesis using True b begin_fields [OF b] by (simp add: SendDLDataRevoke_def quiet_backed)
  next
    case (Inr i)
    obtain e j2 where p: "persist env i CmdDLDataRevoke (dlDataRevMessage i eui que) (Some (EUI64Bytes eui))
        (Some (dlDataRevMetadata (BaseStationEUI (live j1)) eui que t)) j1 = (e, j2)" by force
    note js = journalled [OF b [unfolded Inr] p]
    show ?thesis
      using True b Inr p js(2) js(3) [OF _ revoke_valid]
      by (cases e) (simp_all add: SendDLDataRevoke_def send_result quiet_backed)
  qed
qed (simp add: SendDLDataRevoke_def quiet_backed)

lemma detach_backed: "new_backed j (snd (SendDetachPropagate env eui j))"
proof (cases "HandshakeComplete (live j)")
  case True
  let ?b = "request_env.truncate env"
  obtain x j1 where b: "begin_op ?b j = (x, j1)" by force
  show ?thesis
  proof (cases "\<exists>i owner. x = Inr i \<and> resolvePropagationOwner env (live j1) eui = Inr owner")
    case False
    then show ?thesis using True b begin_fields [OF b]
      by (cases x; cases "resolvePropagationOwner env (live j1) eui") (simp_all add: SendDetachPropagate_def Let_def quiet_backed)
  next
    case found: True
    then obtain i owner where x: "x = Inr i" "resolvePropagationOwner env (live j1) eui = Inr owner" by blast
    obtain e j2 where p: "persist ?b i CmdDetachPropagate (detachPropagateMessage i eui) (Some (euiBytes owner))
        (Some (detachPropagateMetadata eui owner)) j1 = (e, j2)" by force
    note js = journalled [OF b [unfolded x(1)] p]
    show ?thesis
      using True b x p js(2) js(3) [OF _ detach_valid]
      by (cases e) (simp_all add: SendDetachPropagate_def Let_def send_result quiet_backed)
  qed
qed (simp add: SendDetachPropagate_def quiet_backed)

lemma attach_backed: "new_backed j (snd (SendAttachPropagate env r j))"
proof (cases "length (apKey r) = 16 \<and> HandshakeComplete (live j) \<and> (apBidi r \<longrightarrow> Bidirectional (live j))")
  case True
  let ?b = "request_env.truncate env"
  obtain x j1 where b: "begin_op ?b j = (x, j1)" by force
  have q1: "quiet j j1" using begin_fields [OF b] by blast
  have qr: "quiet j (remove ?b i j1)" for i using q1 remove_fields(1) quiet_trans by blast
  show ?thesis
  proof (cases "\<exists>i c key owner. x = Inr i \<and> encryptBinary env (apKey r) = Some c \<and> encrypt env (apKey r) = Some key
      \<and> resolvePropagationOwner env (live j1) (apEui r) = Inr owner")
    case False
    then show ?thesis using True b q1 qr
      by (cases x; cases "encryptBinary env (apKey r)"; cases "encrypt env (apKey r)";
          cases "resolvePropagationOwner env (live j1) (apEui r)") (simp_all add: SendAttachPropagate_def Let_def quiet_backed)
  next
    case found: True
    then obtain i c key owner where x: "x = Inr i" "encryptBinary env (apKey r) = Some c" "encrypt env (apKey r) = Some key"
        "resolvePropagationOwner env (live j1) (apEui r) = Inr owner" by blast
    obtain e j2 where p: "persist ?b i CmdAttachPropagate (sanitizedAttachPropagate i r) (Some (euiBytes owner))
        (Some (attachPropagateMetadata r owner key)) j1 = (e, j2)" by force
    note js = journalled [OF b [unfolded x(1)] p]
    show ?thesis
      using True b x p js(2) js(3) [OF _ attach_valid]
      by (cases e; cases "knownEndpoint owner \<and> \<not> attachmentOk env")
        (simp_all add: SendAttachPropagate_def Let_def send_result quiet_backed)
  qed
qed (auto simp: SendAttachPropagate_def Let_def quiet_backed)

section \<open>Requests\<close>

datatype request =
    Req_Status "gomap option" | Req_Ping | Req_Queue dlDataQueueRequest bool | Req_Transmit ulDataTxRequest
  | Req_Attach attachPropagate | Req_Detach u64 | Req_Revoke u64 u64 i64

fun perform :: "propagation_env \<Rightarrow> request \<Rightarrow> journal \<Rightarrow> journal" where
  "perform env (Req_Status m) j = snd (SendStatusRequest (request_env.truncate env) m j)"
| "perform env Req_Ping j = snd (InitiatePing (request_env.truncate env) j)"
| "perform env (Req_Queue req pair) j = snd (SendDLDataQueue (request_env.truncate env) req pair j)"
| "perform env (Req_Transmit r) j = snd (SendULDataTransmit (request_env.truncate env) r j)"
| "perform env (Req_Attach r) j = snd (SendAttachPropagate env r j)"
| "perform env (Req_Detach eui) j = snd (SendDetachPropagate env eui j)"
| "perform env (Req_Revoke eui que t) j = snd (SendDLDataRevoke (request_env.truncate env) eui que t j)"


text \<open>A journal whose session is in the middle of its life, and an environment in which all is well.\<close>

definition demo_env :: propagation_env where
  "demo_env = \<lparr>marshal = (\<lambda>_. Some []), countersOk = True, recordOk = True, correlateOk = True,
     removeOk = (\<lambda>_. True), outcomeOf = (\<lambda>_. Written), encrypt = (\<lambda>_. Some []),
     serverTenant = 1, ownerOf = (\<lambda>_. OwnerUnknown), encryptBinary = (\<lambda>_. Some []), attachmentOk = True\<rparr>"

definition demo_journal :: journal where
  "demo_journal = \<lparr>sid = ''s'', live = (newSession 1)\<lparr>DbSessionID := 9, HandshakeComplete := True, Bidirectional := True\<rparr>,
     row = Some (0, 0), status = \<lparr>repo = [], pendingOps = []\<rparr>, wire = [], partial = [], shut = False\<rparr>"

definition demo_downlink :: dlDataQueueRequest where
  "demo_downlink = \<lparr>epEui = 5, queId = 7, payloads = [[1, 2]], cntDepend = False, packetCnt = [], format = 0,
     prio = FFin 0, responseExp = False, responsePrio = False, dlWindReq = False, expOnly = False, tenantID = 1, orgID = None\<rparr>"


end
