(* ===== verification/Key_Envelope.thy ===== *)
theory Key_Envelope
  imports Base64
begin

text \<open>
  Encryption of key material at rest, \<^verbatim>\<open>pkg/keycrypto\<close>: the binary envelope
  (magic, version, algorithm, key slot, nonce, sealed body), its text form and the parsing of the
  master key. The authenticated cipher of \<^verbatim>\<open>crypto/cipher\<close> is a parameter, a pair of functions
  \<open>seal\<close> and \<open>unseal\<close>; what the sources rely on is \<open>aead\<close>: a sealed body opens to what was sealed,
  nothing else opens, and sealing adds a tag of sixteen bytes. The random nonce is an argument.

  Shown: both forms round trip, an envelope that opens is one \<open>Encrypt\<close> wrote for that plaintext
  (so no header byte, no nonce and no ciphertext can be altered unnoticed), and both spellings of a
  master key parse to the key.
\<close>

section \<open>The cipher\<close>

record AEAD =
  seal :: "bytes \<Rightarrow> bytes \<Rightarrow> bytes \<Rightarrow> bytes"  \<comment> \<open>nonce, plaintext, additional data\<close>
  unseal :: "bytes \<Rightarrow> bytes \<Rightarrow> bytes \<Rightarrow> bytes option"  \<comment> \<open>nonce, ciphertext, additional data\<close>

definition tagLen :: nat where "tagLen = 16"

definition nonceLen :: nat where "nonceLen = 12"

definition headerLen :: nat where "headerLen = 7"

definition magicLen :: nat where "magicLen = 4"

definition keyLen :: nat where "keyLen = 32"

definition aead :: "AEAD \<Rightarrow> bool" where
  "aead c \<longleftrightarrow> (\<forall>n p h b. unseal c n b h = Some p \<longleftrightarrow> b = seal c n p h)
     \<and> (\<forall>n p h. length (seal c n p h) = length p + tagLen)"

section \<open>Envelopes\<close>

datatype envelope_error = ErrBadEnvelope | ErrUnsupportedVersion | ErrDecrypt | ErrEntropy | ErrKeyLength

definition magic :: bytes where "magic = [0x4B, 0x43, 0x45, 0x31]"

definition versionV1 :: byte where "versionV1 = 1"

definition algoAESGCM :: byte where "algoAESGCM = 1"

definition textPrefix :: string where "textPrefix = ''kcenc:v1:''"

definition header :: "byte \<Rightarrow> bytes" where
  "header keyID = magic @ [versionV1, algoAESGCM, keyID]"

text \<open>\<open>None\<close> is a failing entropy source.\<close>

definition Encrypt :: "AEAD \<Rightarrow> byte \<Rightarrow> bytes option \<Rightarrow> bytes \<Rightarrow> envelope_error + bytes" where
  "Encrypt c keyID nonce plaintext =
     (case nonce of
        None \<Rightarrow> Inl ErrEntropy
      | Some n \<Rightarrow> Inr (header keyID @ n @ seal c n plaintext (header keyID)))"

definition Decrypt :: "AEAD \<Rightarrow> bytes \<Rightarrow> envelope_error + bytes" where
  "Decrypt c envelope =
     (if length envelope < headerLen + nonceLen + tagLen then Inl ErrBadEnvelope
      else if take magicLen envelope \<noteq> magic then Inl ErrBadEnvelope
      else if envelope ! magicLen \<noteq> versionV1 \<or> envelope ! (magicLen + 1) \<noteq> algoAESGCM then Inl ErrUnsupportedVersion
      else case unseal c (take nonceLen (drop headerLen envelope)) (drop (headerLen + nonceLen) envelope)
                  (take headerLen envelope) of
             None \<Rightarrow> Inl ErrDecrypt
           | Some plaintext \<Rightarrow> Inr plaintext)"

definition EncryptString :: "AEAD \<Rightarrow> byte \<Rightarrow> bytes option \<Rightarrow> bytes \<Rightarrow> envelope_error + string" where
  "EncryptString c keyID nonce plaintext =
     bind_result (Encrypt c keyID nonce plaintext) (\<lambda>env. Inr (textPrefix @ EncodeToString env))"

definition IsEnvelope :: "bytes \<Rightarrow> bool" where
  "IsEnvelope b \<longleftrightarrow> length b \<ge> magicLen \<and> take magicLen b = magic"

definition IsTextEnvelope :: "string \<Rightarrow> bool" where
  "IsTextEnvelope s \<longleftrightarrow> length s \<ge> length textPrefix \<and> take (length textPrefix) s = textPrefix"

definition DecryptString :: "AEAD \<Rightarrow> string \<Rightarrow> envelope_error + bytes" where
  "DecryptString c s =
     (if length s < length textPrefix \<or> take (length textPrefix) s \<noteq> textPrefix then Inl ErrBadEnvelope
      else case DecodeString (drop (length textPrefix) s) of
             None \<Rightarrow> Inl ErrBadEnvelope
           | Some env \<Rightarrow> Decrypt c env)"

section \<open>Master keys\<close>

text \<open>\<^verbatim>\<open>strings.TrimSpace\<close> on ASCII text.\<close>

definition ascii_space :: "char \<Rightarrow> bool" where
  "ascii_space c \<longleftrightarrow> c \<in> set [CHR '' '', CHR 0x09, CHR 0x0A, CHR 0x0B, CHR 0x0C, CHR 0x0D]"

definition trim_space :: "string \<Rightarrow> string" where
  "trim_space s = rev (dropWhile ascii_space (rev (dropWhile ascii_space s)))"

definition ParseMasterKey :: "string \<Rightarrow> envelope_error + bytes" where
  "ParseMasterKey s0 =
     (let s = trim_space s0;
          exactly = (\<lambda>r. case r of Some raw \<Rightarrow> length raw = keyLen | None \<Rightarrow> False)
      in if s = [] then Inl ErrKeyLength
         else if length s = 2 * keyLen \<and> exactly (hex_decode s) then Inr (the (hex_decode s))
         else if exactly (DecodeString s) then Inr (the (DecodeString s))
         else Inl ErrKeyLength)"

section \<open>Lemmas\<close>

lemmas envelope_lengths = tagLen_def nonceLen_def headerLen_def magicLen_def keyLen_def

lemma magic_length [simp]: "length magic = magicLen"
  by (simp add: magic_def magicLen_def)

lemma header_length [simp]: "length (header k) = headerLen"
  by (simp add: header_def envelope_lengths)

lemma take_header: "n \<le> 4 \<Longrightarrow> take n (header k) = take n magic"
  by (simp add: header_def magicLen_def)

lemma header_bytes: "header k ! magicLen = versionV1" "header k ! (magicLen + 1) = algoAESGCM"
  by (simp_all add: header_def nth_append)

lemma envelope_header:
  assumes "headerLen \<le> length e" "take magicLen e = magic" "e ! magicLen = versionV1" "e ! (magicLen + 1) = algoAESGCM"
  shows "take headerLen e = header (e ! 6)"
proof -
  have "take headerLen e = take magicLen e @ [e ! 4, e ! 5, e ! 6]"
    using assms(1) by (simp add: headerLen_def magicLen_def list_eq_iff_nth_eq nth_append less_Suc_eq eval_nat_numeral)
  then show ?thesis using assms(2-4) by (simp add: header_def magicLen_def)
qed

lemma aead_open: "aead c \<Longrightarrow> unseal c n b h = Some p \<longleftrightarrow> b = seal c n p h"
  by (simp add: aead_def)

lemma Decrypt_Encrypt:
  assumes "aead c" "length n = nonceLen"
  shows "Decrypt c (header k @ n @ seal c n p (header k)) = Inr p"
proof -
  let ?e = "header k @ n @ seal c n p (header k)"
  have len: "length ?e = headerLen + nonceLen + (length p + tagLen)" using assms by (simp add: aead_def)
  have "take magicLen ?e = magic" "?e ! magicLen = versionV1" "?e ! (magicLen + 1) = algoAESGCM"
    by (simp_all add: header_def nth_append magicLen_def magic_def)
  moreover have "take headerLen ?e = header k" "take nonceLen (drop headerLen ?e) = n"
      "drop (headerLen + nonceLen) ?e = seal c n p (header k)"
    using assms(2) by simp_all
  moreover have "unseal c n (seal c n p (header k)) (header k) = Some p" by (simp add: aead_open [OF assms(1)])
  ultimately show ?thesis unfolding Decrypt_def using len by simp
qed

lemma Decrypt_Inr:
  assumes "aead c" "Decrypt c e = Inr p"
  shows "\<exists>k n. length n = nonceLen \<and> Encrypt c k (Some n) p = Inr e"
proof -
  define n where "n = take nonceLen (drop headerLen e)"
  from assms(2) have l: "headerLen + nonceLen + tagLen \<le> length e"
      and m: "take magicLen e = magic" "e ! magicLen = versionV1" "e ! (magicLen + 1) = algoAESGCM"
      and o': "unseal c n (drop (headerLen + nonceLen) e) (take headerLen e) = Some p"
    unfolding Decrypt_def n_def by (auto split: if_splits option.splits)
  have h: "take headerLen e = header (e ! 6)" by (rule envelope_header) (use l m in auto)
  have "e = take headerLen e @ n @ drop (headerLen + nonceLen) e"
    by (metis append_take_drop_id drop_drop add.commute n_def)
  moreover have "drop (headerLen + nonceLen) e = seal c n p (header (e ! 6))"
    using o' by (simp add: h aead_open [OF assms(1)])
  moreover have "length n = nonceLen" using l by (simp add: n_def envelope_lengths)
  ultimately have "length n = nonceLen \<and> Encrypt c (e ! 6) (Some n) p = Inr e" using h by (simp add: Encrypt_def)
  then show ?thesis by blast
qed

lemma hex_solid: "c \<in> set (hex_encode bs) \<Longrightarrow> \<not> ascii_space c"
proof -
  have "list_all (\<lambda>c. \<not> ascii_space c) hex_digits" by code_simp
  then have "n < 16 \<Longrightarrow> \<not> ascii_space (hex_digits ! n)" for n
    by (simp add: list_all_length hex_digits_def)
  moreover have "unat b div 16 < 16" for b :: byte using byte_bound [of b] by simp
  ultimately show "c \<in> set (hex_encode bs) \<Longrightarrow> \<not> ascii_space c" by (auto simp: hex_encode_def)
qed

lemma alphabet_solid: "c \<in> set (CHR ''='' # alphabet) \<Longrightarrow> \<not> ascii_space c"
proof -
  have "list_all (\<lambda>c. \<not> ascii_space c) (CHR ''='' # alphabet)" by code_simp
  then show "c \<in> set (CHR ''='' # alphabet) \<Longrightarrow> \<not> ascii_space c" by (auto simp: list_all_iff)
qed

lemma base64_solid: "c \<in> set (EncodeToString bs) \<Longrightarrow> \<not> ascii_space c"
  using sextet_in_alphabet alphabet_solid by (induction bs rule: EncodeToString.induct) auto

lemma trim_solid:
  assumes "\<And>c. c \<in> set s \<Longrightarrow> \<not> ascii_space c" "s \<noteq> []" "list_all ascii_space l" "list_all ascii_space r"
  shows "trim_space (l @ s @ r) = s"
proof -
  have "dropWhile ascii_space (l @ s @ r) = s @ r"
    using assms by (cases s) (auto simp: dropWhile_append list_all_iff dropWhile_eq_Nil_conv)
  moreover have "dropWhile ascii_space (rev r @ rev s) = rev s"
    using assms by (cases "rev s") (auto simp: dropWhile_append list_all_iff dropWhile_eq_Nil_conv dest: arg_cong [of _ _ set])
  ultimately show ?thesis by (simp add: trim_space_def)
qed

section \<open>Theorems\<close>

text \<open>
  C27. An envelope opens to a plaintext exactly when it is what \<^verbatim>\<open>Encrypt\<close> writes for that plaintext
  under some key slot and nonce: every envelope written can be read back, and bytes of any other
  shape, version or algorithm are refused. The text form reads back as well and is recognised as one.
\<close>

theorem envelopes_authentic:
  assumes "aead c"
  shows "(Decrypt c e = Inr p \<longleftrightarrow> (\<exists>k n. length n = nonceLen \<and> Encrypt c k (Some n) p = Inr e)) \<and>
    (\<forall>k n s. length n = nonceLen \<and> EncryptString c k (Some n) p = Inr s \<longrightarrow>
       IsTextEnvelope s \<and> DecryptString c s = Inr p)"
proof (intro conjI allI impI iffI)
  assume "\<exists>k n. length n = nonceLen \<and> Encrypt c k (Some n) p = Inr e"
  then show "Decrypt c e = Inr p" using Decrypt_Encrypt [OF assms] by (auto simp: Encrypt_def)
next
  fix k n s assume a: "length n = nonceLen \<and> EncryptString c k (Some n) p = Inr s"
  then have s: "s = textPrefix @ EncodeToString (header k @ n @ seal c n p (header k))"
    by (auto simp: EncryptString_def Encrypt_def)
  then show "IsTextEnvelope s" by (simp add: IsTextEnvelope_def)
  show "DecryptString c s = Inr p" using Decrypt_Encrypt [OF assms] a by (simp add: DecryptString_def s)
qed (rule Decrypt_Inr [OF assms])

definition demo_aead :: AEAD where
  "demo_aead = \<lparr>seal = (\<lambda>n p h. map (\<lambda>b. b + 7) p @ take 16 (n @ h @ replicate 16 0)),
     unseal = (\<lambda>n b h. if length b < 16 \<or> drop (length b - 16) b \<noteq> take 16 (n @ h @ replicate 16 0) then None
        else Some (map (\<lambda>b. b - 7) (take (length b - 16) b)))\<rparr>"

lemma demo_aead_lawful: "aead demo_aead"
proof -
  have "unseal demo_aead n b h = Some p \<longleftrightarrow> b = seal demo_aead n p h" for n p h b
  proof
    let ?t = "take 16 (n @ h @ replicate 16 0)"
    assume "unseal demo_aead n b h = Some p"
    then have l: "16 \<le> length b" and t: "drop (length b - 16) b = ?t" and p: "p = map (\<lambda>b. b - 7) (take (length b - 16) b)"
      by (auto simp: demo_aead_def split: if_splits)
    have "map (\<lambda>b. b + 7) p = take (length b - 16) b" unfolding p by (simp add: comp_def)
    then have "b = map (\<lambda>b. b + 7) p @ ?t" using t append_take_drop_id [of "length b - 16" b] by simp
    then show "b = seal demo_aead n p h" by (simp add: demo_aead_def)
  qed (simp add: demo_aead_def comp_def)
  then show ?thesis by (auto simp: aead_def demo_aead_def tagLen_def)
qed

theorem envelopes_authentic_witness:
  "Decrypt demo_aead (header 0 @ replicate 12 3 @ seal demo_aead (replicate 12 3) [1, 2] (header 0)) = Inr [1, 2]"
proof -
  let ?n = "replicate 12 3 :: bytes"
  have "length ?n = nonceLen \<and> Encrypt demo_aead 0 (Some ?n) [1, 2] = Inr (header 0 @ ?n @ seal demo_aead ?n [1, 2] (header 0))"
    by (simp add: Encrypt_def nonceLen_def)
  then show ?thesis using envelopes_authentic [OF demo_aead_lawful, THEN conjunct1] by blast
qed

text \<open>
  A master key is read from either spelling, with or without surrounding blanks, and whatever is
  accepted has exactly 32 bytes; the sixty-four characters of the hexadecimal spelling are never
  taken for base64.
\<close>

theorem master_key_spellings:
  "(ParseMasterKey s = Inr key \<longrightarrow> length key = keyLen) \<and>
   (length key = keyLen \<and> list_all ascii_space l \<and> list_all ascii_space r \<longrightarrow>
      ParseMasterKey (l @ hex_encode key @ r) = Inr key \<and> ParseMasterKey (l @ EncodeToString key @ r) = Inr key)"
proof (intro conjI impI)
  assume "ParseMasterKey s = Inr key"
  then show "length key = keyLen" by (auto simp: ParseMasterKey_def Let_def split: if_splits option.splits)
next
  assume a: "length key = keyLen \<and> list_all ascii_space l \<and> list_all ascii_space r"
  then have "trim_space (l @ hex_encode key @ r) = hex_encode key"
    by (intro trim_solid hex_solid) (auto simp: keyLen_def simp flip: length_0_conv)
  then show "ParseMasterKey (l @ hex_encode key @ r) = Inr key"
    using a by (simp add: ParseMasterKey_def hex_decode_encode keyLen_def flip: length_0_conv)
  have len: "length (EncodeToString key) = 44" using a by (simp add: EncodeToString_length keyLen_def)
  then have "trim_space (l @ EncodeToString key @ r) = EncodeToString key"
    using a by (intro trim_solid base64_solid) auto
  then show "ParseMasterKey (l @ EncodeToString key @ r) = Inr key"
    using a len by (auto simp: ParseMasterKey_def keyLen_def Let_def)
qed

theorem master_key_spellings_witness:
  "ParseMasterKey ('' '' @ hex_encode (replicate 32 0xAB) @ []) = Inr (replicate 32 0xAB)"
  using master_key_spellings [of _ "replicate 32 0xAB" "'' ''" "[]"] by (simp add: keyLen_def ascii_space_def)

end
