(* ===== verification/Operation_Recovery.thy ===== *)
theory Operation_Recovery
  imports Propagation Key_Envelope
begin

text \<open>
  What a resumed session sends again. A recovery record holds a message and its metadata as JSON;
  on resume \<^verbatim>\<open>reconstituteResumeOperations\<close> (\<^verbatim>\<open>session_resume.go\<close>) rebuilds the message with the
  command's \<^verbatim>\<open>Reconstitute\<close> hook and \<^verbatim>\<open>reissueResumedOperation\<close> (\<^verbatim>\<open>connect_complete.go\<close>) sends it through
  \<^verbatim>\<open>commandRegistry.normalize\<close>. Modelled here: the hooks of \<^verbatim>\<open>downlink_queue_resume.go\<close>, \<^verbatim>\<open>ul_transmit.go\<close>,
  \<^verbatim>\<open>downlink_revoke_handlers.go\<close> and \<^verbatim>\<open>propagate_handlers.go\<close>, and the normalizers of
  \<^verbatim>\<open>normalize_outbound.go\<close> and \<^verbatim>\<open>command_spec.go\<close>. The branches for values that never went through the
  database (\<^verbatim>\<open>[]string\<close>, \<^verbatim>\<open>[]int64\<close>) read the same elements as the branches for decoded arrays and
  share them.

  Shown: whatever was recorded for a downlink, an uplink transmission, a revocation, a detach
  propagation, a status request or a status query, the reissued frame carries the values of the
  original one; of an attach propagation it carries every value but the network session key, which
  is lost.
\<close>

section \<open>Normalizers\<close>

definition parseOpID :: "goval \<Rightarrow> i64 option" where
  "parseOpID v = (case coerceInt64 v of Inr i \<Rightarrow> Some i | Inl _ \<Rightarrow> None)"

text \<open>The conversions \<^verbatim>\<open>int64(f)\<close>, \<^verbatim>\<open>uint64(f)\<close> and so on of a field that decoded as \<^verbatim>\<open>float64\<close>.\<close>

definition repair :: "(i64 \<Rightarrow> goval) \<Rightarrow> gomap \<Rightarrow> string \<Rightarrow> gomap \<Rightarrow> gomap" where
  "repair conv msg k normalized =
     (case map_of msg k of
        Some (GFloat64 f) \<Rightarrow> AList.update k (conv (truncate_float f)) normalized
      | _ \<Rightarrow> normalized)"

definition normalizeOpIDOnly :: "gomap \<Rightarrow> gomap" where
  "normalizeOpIDOnly msg = repair GInt64 msg ''opId'' msg"

definition getBool :: "gomap \<Rightarrow> string \<Rightarrow> bool" where
  "getBool msg key =
     (case lookup msg key of GBool b \<Rightarrow> b | GFloat64 f \<Rightarrow> f \<noteq> FFin 0 | _ \<Rightarrow> False)"

definition SessionKeySize :: nat where "SessionKeySize = 16"

fun key_byte :: "goval \<Rightarrow> byte" where
  "key_byte (GFloat64 f) = ucast (truncate_float f)"
| "key_byte _ = 0"

definition normalizedKey :: "gomap \<Rightarrow> goval" where
  "normalizedKey msg =
     (case lookup msg ''nwkSnKey'' of
        GArray keyArray \<Rightarrow>
          GArray (map (\<lambda>i. GUint8 (if i < length keyArray then key_byte (keyArray ! i) else 0)) [0..<SessionKeySize])
      | _ \<Rightarrow> GArray (replicate SessionKeySize (GUint8 0)))"

definition normalizeAttPrpMessage :: "gomap \<Rightarrow> gomap" where
  "normalizeAttPrpMessage msg =
     (repair (\<lambda>w. GUint32 (ucast w)) msg ''lastPacketCnt'' \<circ> repair (\<lambda>w. GUint16 (ucast w)) msg ''shAddr''
      \<circ> AList.update ''nwkSnKey'' (normalizedKey msg)
      \<circ> AList.update ''longBlkDist'' (GBool (getBool msg ''longBlkDist''))
      \<circ> AList.update ''wideCarrOff'' (GBool (getBool msg ''wideCarrOff''))
      \<circ> AList.update ''repetition'' (GBool (getBool msg ''repetition''))
      \<circ> AList.update ''dualChan'' (GBool (getBool msg ''dualChan''))
      \<circ> AList.update ''bidi'' (GBool (getBool msg ''bidi''))
      \<circ> repair GUint64 msg ''epEui'' \<circ> repair GInt64 msg ''opId'') msg"

definition normalizeDetPrpMessage :: "gomap \<Rightarrow> gomap" where
  "normalizeDetPrpMessage msg = repair GUint64 msg ''epEui'' (repair GInt64 msg ''opId'' msg)"

definition normalizeDlDataRevMessage :: "gomap \<Rightarrow> gomap" where
  "normalizeDlDataRevMessage msg =
     (let m = repair GUint64 msg ''epEui'' (repair GInt64 msg ''opId'' (AList.update ''command'' (GString CmdDLDataRevoke) msg))
      in case map_of msg ''queId'' of
           Some (GFloat64 f) \<Rightarrow> AList.update ''queId'' (GUint64 (truncate_float f)) m
         | Some (GInt64 q) \<Rightarrow> AList.update ''queId'' (GUint64 (case safeUint64 q of Some u \<Rightarrow> u | None \<Rightarrow> 0)) m
         | _ \<Rightarrow> m)"

definition normalize :: "string \<Rightarrow> gomap \<Rightarrow> gomap" where
  "normalize command msg =
     (if command = CmdAttachPropagate then normalizeAttPrpMessage msg
      else if command = CmdDetachPropagate then normalizeDetPrpMessage msg
      else if command = CmdDLDataRevoke then normalizeDlDataRevMessage msg
      else normalizeOpIDOnly msg)"

section \<open>Reconstitution\<close>

datatype recovery_error =
    MissingEncryptedKey | CipherRequired | KeyNotDecrypted envelope_error | PayloadNotDecoded
  | PayloadsRefused journal_error | FormatOutOfRange | MissingEpEui | MissingQueId

text \<open>An element of \<^verbatim>\<open>payloads\<close> that is no text leaves its entry empty.\<close>

definition decode_payload :: "goval \<Rightarrow> recovery_error + bytes" where
  "decode_payload v =
     (case v of
        GString s \<Rightarrow> (case DecodeString s of Some d \<Rightarrow> Inr d | None \<Rightarrow> Inl PayloadNotDecoded)
      | _ \<Rightarrow> Inr [])"

definition recorded_payloads :: "gomap \<Rightarrow> bytes \<Rightarrow> recovery_error + bytes list" where
  "recorded_payloads metadata opData =
     (case lookup metadata ''payloads'' of
        GArray encoded \<Rightarrow> map_result decode_payload encoded
      | _ \<Rightarrow> Inr [opData])"

fun counter_entry :: "goval \<Rightarrow> goval" where
  "counter_entry (GFloat64 f) = GInt64 (truncate_float f)"
| "counter_entry (GInt64 v) = GInt64 v"
| "counter_entry (GInt v) = GInt64 v"
| "counter_entry _ = GNil"

definition restore_flag :: "gomap \<Rightarrow> string \<Rightarrow> gomap \<Rightarrow> gomap" where
  "restore_flag metadata k msg =
     (if lookup metadata k = GBool True then AList.update k (GBool True) msg else msg)"

definition restore_counters :: "gomap \<Rightarrow> gomap \<Rightarrow> gomap" where
  "restore_counters metadata msg =
     (case lookup metadata ''packetCnt'' of
        GArray cnts \<Rightarrow> AList.update ''packetCnt'' (GArray (map counter_entry cnts)) msg
      | _ \<Rightarrow> msg)"

definition restore_format :: "gomap \<Rightarrow> gomap \<Rightarrow> recovery_error + gomap" where
  "restore_format metadata msg =
     (case coerceInt64 (lookup metadata ''format'') of
        Inr f \<Rightarrow>
          if sint f > 0 then
            (case safeUint8 f of Some u \<Rightarrow> Inr (AList.update ''format'' (GUint8 u) msg) | None \<Rightarrow> Inl FormatOutOfRange)
          else Inr msg
      | Inl _ \<Rightarrow> Inr msg)"

definition reconstitueDLDataQueMessage :: "gomap \<Rightarrow> gomap \<Rightarrow> bytes \<Rightarrow> recovery_error + gomap" where
  "reconstitueDLDataQueMessage sanitizedMsg metadata opData =
     bind_result (recorded_payloads metadata opData) (\<lambda>ps.
       case validatePayloadSizes ps of
         Some e \<Rightarrow> Inl (PayloadsRefused e)
       | None \<Rightarrow>
           (let dep = (lookup metadata ''cntDepend'' = GBool True) in
            if \<not> dep \<and> length ps > 1 then Inl (PayloadsRefused TooManyPayloads)
            else
              (let m1 = AList.update ''userData'' (buildDLDataQueUserData ps dep) sanitizedMsg;
                   m2 = (if dep then restore_counters metadata (AList.update ''cntDepend'' (GBool True) m1) else m1)
               in bind_result (restore_format metadata m2) (\<lambda>m3. Inr
                    (restore_flag metadata ''expOnly'' (restore_flag metadata ''dlWindReq''
                      (restore_flag metadata ''responsePrio'' (restore_flag metadata ''responseExp'' m3))))))))"

text \<open>A key of the wrong length leaves missing elements of the array unset.\<close>

definition key_array :: "bytes \<Rightarrow> goval" where
  "key_array key = GArray (map (\<lambda>i. if i < length key then GUint8 (key ! i) else GNil) [0..<SessionKeySize])"

definition restored_user_data :: "gomap \<Rightarrow> bytes \<Rightarrow> recovery_error + goval" where
  "restored_user_data metadata opData =
     (case lookup metadata ''userData'' of
        GString s \<Rightarrow> (case DecodeString s of Some d \<Rightarrow> Inr (bytesToNumericArray d) | None \<Rightarrow> Inl PayloadNotDecoded)
      | _ \<Rightarrow> Inr (bytesToNumericArray opData))"

definition reconstitueULDataTxMessage :: "AEAD option \<Rightarrow> gomap \<Rightarrow> gomap \<Rightarrow> bytes \<Rightarrow> recovery_error + gomap" where
  "reconstitueULDataTxMessage cipher sanitizedMsg metadata opData =
     bind_result
       (case lookup metadata ''encryptedKey'' of
          GString enc \<Rightarrow>
            (case cipher of
               None \<Rightarrow> Inl CipherRequired
             | Some c \<Rightarrow>
                 (case DecryptString c enc of
                    Inl e \<Rightarrow> Inl (KeyNotDecrypted e)
                  | Inr key \<Rightarrow> Inr (AList.update ''nwkSnKey'' (key_array key) sanitizedMsg)))
        | _ \<Rightarrow> if has_key sanitizedMsg ''nwkSnKey'' then Inr sanitizedMsg else Inl MissingEncryptedKey)
       (\<lambda>msg. bind_result (restored_user_data metadata opData) (\<lambda>d. Inr (AList.update ''userData'' d msg)))"

definition reconstitueDLDataRevMessage :: "gomap \<Rightarrow> gomap \<Rightarrow> recovery_error + gomap" where
  "reconstitueDLDataRevMessage msg metadata =
     (case coerceUint64 (lookup metadata ''epEui'') of
        Inl _ \<Rightarrow> Inl MissingEpEui
      | Inr eui \<Rightarrow>
          (case coerceUint64 (lookup metadata ''queId'') of
             Inl _ \<Rightarrow> Inl MissingQueId
           | Inr que \<Rightarrow>
               (let m = AList.update ''queId'' (GUint64 que) (AList.update ''epEui'' (GUint64 eui)
                          (AList.update ''command'' (GString CmdDLDataRevoke) msg))
                in Inr (case parseOpID (lookup msg ''opId'') of Some i \<Rightarrow> AList.update ''opId'' (GInt64 i) m | None \<Rightarrow> m))))"

definition reconstitueAttachPropagateMessage :: "AEAD option \<Rightarrow> gomap \<Rightarrow> gomap \<Rightarrow> recovery_error + gomap" where
  "reconstitueAttachPropagateMessage cipher sanitizedMsg metadata =
     (case lookup metadata ''encryptedKey'' of
        GString enc \<Rightarrow>
          (case cipher of
             None \<Rightarrow> Inl CipherRequired
           | Some c \<Rightarrow>
               (case (if IsTextEnvelope enc then DecryptString c enc
                      else case DecodeString enc of None \<Rightarrow> Inl ErrBadEnvelope | Some env \<Rightarrow> Decrypt c env) of
                  Inl e \<Rightarrow> Inl (KeyNotDecrypted e)
                | Inr key \<Rightarrow> Inr (AList.update ''nwkSnKey'' (key_array key) sanitizedMsg)))
      | _ \<Rightarrow> if has_key sanitizedMsg ''nwkSnKey'' then Inr sanitizedMsg else Inl MissingEncryptedKey)"

text \<open>
  The frame sent for a recovered record: \<^verbatim>\<open>Reconstitute\<close> where the command has one and the record has
  metadata, then \<^verbatim>\<open>normalize\<close>.
\<close>

definition reissued ::
    "AEAD option \<Rightarrow> string \<Rightarrow> gomap \<Rightarrow> gomap option \<Rightarrow> bytes \<Rightarrow> recovery_error + gomap" where
  "reissued cipher command msg metadata opData =
     bind_result
       (case metadata of
          None \<Rightarrow> Inr msg
        | Some md \<Rightarrow>
            if command = CmdULDataTransmit then reconstitueULDataTxMessage cipher msg md opData
            else if command = CmdAttachPropagate then reconstitueAttachPropagateMessage cipher msg md
            else if command = CmdDLDataRevoke then reconstitueDLDataRevMessage msg md
            else if command = CmdDLDataQueue then reconstitueDLDataQueMessage msg md opData
            else Inr msg)
       (\<lambda>m. Inr (normalize command m))"

section \<open>Agreement\<close>

text \<open>
  \<open>agrees m msg\<close>: the two messages have the same fields, and every field of \<open>msg\<close> without floats
  has the same denotation in \<open>m\<close>.
\<close>

definition agrees :: "gomap \<Rightarrow> gomap \<Rightarrow> bool" where
  "agrees m msg \<longleftrightarrow>
     (\<forall>k. (map_of m k = None \<longleftrightarrow> map_of msg k = None) \<and>
          (\<forall>v. map_of msg k = Some v \<and> float_free v \<longrightarrow> (\<exists>w. map_of m k = Some w \<and> denote w = denote v)))"

text \<open>A single value, stored and read back.\<close>

definition read_back :: "(gofloat \<Rightarrow> string) \<Rightarrow> goval \<Rightarrow> goval" where
  "read_back ft v = normalizeStrictDecodedValue (json_value ft v)"

lemma read_back_simps [simp]:
  "read_back ft (GBool b) = GBool b" "read_back ft (GString s) = GString s"
  "read_back ft (GArray vs) = GArray (map (read_back ft) vs)"
  by (simp_all add: read_back_def comp_def)

lemma map_of_stored: "map_of (stored ft m) k = map_option (read_back ft) (map_of m k)"
  by (induction m) (auto simp: stored_def normalizeStrictDecodedMap_def json_map_def read_back_def)

lemma agrees_stored: "agrees (stored ft msg) msg"
  by (auto simp: agrees_def map_of_stored read_back_def stored_exact)

lemma agrees_update:
  assumes "agrees m msg" "map_of msg k = Some v" "float_free v \<longrightarrow> denote w = denote v"
  shows "agrees (AList.update k w m) msg"
  unfolding agrees_def
proof
  fix k'
  show "(map_of (AList.update k w m) k' = None \<longleftrightarrow> map_of msg k' = None) \<and>
    (\<forall>v. map_of msg k' = Some v \<and> float_free v \<longrightarrow> (\<exists>w'. map_of (AList.update k w m) k' = Some w' \<and> denote w' = denote v))"
    using assms by (cases "k' = k") (auto simp: agrees_def)
qed

lemma agrees_repair:
  assumes "agrees n msg" "map_of msg k = Some v" "\<And>f. map_of m k = Some (GFloat64 f) \<Longrightarrow> float_free v \<longrightarrow> denote (conv (truncate_float f)) = denote v"
  shows "agrees (repair conv m k n) msg"
  using assms by (auto simp: repair_def intro!: agrees_update split: option.splits goval.splits)

lemma agrees_keys: "agrees m msg \<Longrightarrow> fst ` set m = fst ` set msg"
  by (auto simp: agrees_def has_key_iff set_eq_iff)

lemma agrees_valid:
  assumes "agrees m msg" "validateOutboundMessage msg = None"
    and "map_of m ''command'' = map_of msg ''command''" "map_of m ''opId'' = Some (GInt64 i)"
  shows "validateOutboundMessage m = None"
proof -
  from assms(2) obtain c allowed where c: "map_of msg ''command'' = Some (GString c)" "AllowedOutboundFields c = Some allowed"
      "fst ` set msg \<subseteq> {''command'', ''opId''} \<union> set allowed"
      "\<forall>f \<in> set (demanded c). map_of msg f \<noteq> None"
    unfolding validate_None_iff demanded_def by blast
  moreover have "set (demanded c) \<subseteq> fst ` set msg" using c(4) by (auto simp: has_key_iff)
  ultimately show ?thesis
    using assms(3,4) agrees_keys [OF assms(1)] by (intro validate_known [of m c i allowed]) simp_all
qed

section \<open>Stored integers\<close>

lemma truncate_int [simp]: "truncate_float (FFin (of_int n)) = word_of_int n"
  by (simp add: truncate_float_def)

lemma word_of_sint [simp]: "word_of_int (sint (i :: i64)) = i"
  by (simp add: of_int_sint)

lemma word_of_uint [simp]: "word_of_int (uint (u :: i64)) = u"
  by (rule word_of_int_uint_id)

lemma stored_number:
  assumes "- (2 ^ 63) \<le> n" "n < 2 ^ 64"
  shows "normalizeStrictDecodedValue (GNumber (show_int n)) =
    (if \<bar>n\<bar> \<le> 2 ^ 53 then GFloat64 (FFin (of_int n)) else if n < 2 ^ 63 then GInt64 (word_of_int n) else GUint64 (word_of_int n))"
proof (cases "n < 2 ^ 63")
  case True
  then have s: "jsonNumberToInt64 (show_int n) = Inr (word_of_int n)" "sint (word_of_int n :: i64) = n"
    using assms sint_word_of_int64 [of n] by (simp_all add: jsonNumberToInt64_def parse_show_int is_integral_def)
  then show ?thesis
    using True float64_of_int_exact [of n] by (auto simp: maxExactFloat64Integer_def abs_le_iff)
next
  case False
  then have "\<exists>e. jsonNumberToInt64 (show_int n) = Inl e" "jsonNumberToUint64 (show_int n) = Inr (word_of_int n)"
    using assms by (simp_all add: jsonNumberToInt64_def jsonNumberToUint64_def parse_show_int is_integral_def)
  then show ?thesis using assms False by (auto simp: abs_le_iff)
qed

lemma stored_int64:
  "read_back ft (GInt64 i) =
     (if \<bar>sint i\<bar> \<le> 2 ^ 53 then GFloat64 (FFin (of_int (sint i))) else GInt64 i)"
  using stored_number [of "sint i"] sint64_bounds [of i] by (simp add: read_back_def word_of_int_eq_sint)

lemma stored_uint64:
  "read_back ft (GUint64 u) =
     (if uint u \<le> 2 ^ 53 then GFloat64 (FFin (of_int (uint u))) else if uint u < 2 ^ 63 then GInt64 u else GUint64 u)"
  using stored_number [of "uint u"] uint64_bounds [of u] by (simp add: read_back_def word_of_int_uint_id)

lemma stored_small:
  assumes "LENGTH('a) \<le> 32"
  shows "normalizeStrictDecodedValue (GNumber (show_int (uint (w :: 'a::len word)))) = GFloat64 (FFin (of_int (uint w)))"
proof -
  have "(2::int) ^ LENGTH('a) \<le> 2 ^ 32" using assms by (intro power_increasing) auto
  then have "uint w < 2 ^ 32" using uint_lt2p [of w] by linarith
  then show ?thesis using stored_number [of "uint w"] uint_ge_0 [of w] by simp
qed

text \<open>The operation ID of a record, whatever its size, is repaired to the \<^verbatim>\<open>int64\<close> it was.\<close>

lemma repair_other [simp]: "k' \<noteq> k \<Longrightarrow> map_of (repair conv m k n) k' = map_of n k'"
  by (auto simp: repair_def split: option.splits goval.splits)

lemma repair_lookup:
  "map_of (repair conv m k n) k' =
     (if k' = k then (case map_of m k of Some (GFloat64 f) \<Rightarrow> Some (conv (truncate_float f)) | _ \<Rightarrow> map_of n k') else map_of n k')"
  by (auto simp: repair_def split: option.splits goval.splits)

lemma repair_opId:
  assumes "map_of m ''opId'' = Some (read_back ft (GInt64 i))" "map_of n ''opId'' = map_of m ''opId''"
  shows "map_of (repair GInt64 m ''opId'' n) ''opId'' = Some (GInt64 i)"
  using assms unfolding stored_int64 by (auto simp: repair_def split: if_splits)

lemma agrees_opId:
  assumes "agrees n msg" "map_of msg ''opId'' = Some (GInt64 i)" "map_of m ''opId'' = Some (read_back ft (GInt64 i))"
  shows "agrees (repair GInt64 m ''opId'' n) msg"
  using assms(1,2) by (rule agrees_repair) (use assms(3) in \<open>auto simp: stored_int64 split: if_splits\<close>)

lemma agrees_uint64:
  assumes "agrees n msg" "map_of msg k = Some (GUint64 u)" "map_of m k = Some (read_back ft (GUint64 u))"
  shows "agrees (repair GUint64 m k n) msg"
  using assms(1,2) by (rule agrees_repair) (use assms(3) in \<open>auto simp: stored_uint64 split: if_splits\<close>)

lemma recover_uint64: "coerceUint64 (read_back ft (GUint64 u)) = Inr u"
  unfolding coerceUint64_exact stored_uint64 using uint64_bounds [of u] sint_eq_uint64 [of u]
  by (simp add: integer_of_rat_Some maxExactFloat64Integer_def)

lemma recover_opId: "parseOpID (read_back ft (GInt64 i)) = Some i"
proof -
  have "coerceInt64 (read_back ft (GInt64 i)) = Inr i"
    unfolding coerceInt64_exact stored_int64 using abs_of_int_gt [of "2 ^ 53" "sint i"]
    by (simp add: integer_of_rat_Some maxExactFloat64Integer_def)
  then show ?thesis by (simp add: parseOpID_def)
qed

lemma recover_byte: "coerceInt64 (read_back ft (GUint8 b)) = Inr (ucast b)"
proof -
  have "uint b < 2 ^ 8" using uint_lt2p [of b] by simp
  then show ?thesis
    using uint_ge_0 [of b] unfolding coerceInt64_exact
    by (simp del: normalizeStrictDecodedValue.simps(1) add: read_back_def stored_small sint_ucast64 integer_of_rat_Some maxExactFloat64Integer_def)
qed

lemma counter_recovered: "counter_entry (read_back ft (GInt64 c)) = GInt64 c"
  unfolding stored_int64 by simp

section \<open>Downlinks\<close>

lemma restore_flag_agrees:
  assumes "agrees m msg" "lookup md k = GBool b" "b \<Longrightarrow> map_of msg k = Some (GBool True)"
  shows "agrees (restore_flag md k m) msg"
  using assms by (cases b) (auto simp: restore_flag_def intro: agrees_update)

lemma restore_flag_other [simp]: "k' \<noteq> k \<Longrightarrow> map_of (restore_flag md k m) k' = map_of m k'"
  by (simp add: restore_flag_def)

lemma lookup_stored: "map_of m k = Some v \<Longrightarrow> lookup (stored ft m) k = read_back ft v"
  by (simp add: lookup_def map_of_stored)

lemma queue_metadata:
  fixes ft bs req
  defines "md \<equiv> stored ft (dlDataQueueMetadata bs req)"
  shows "lookup md ''payloads'' = GArray (map (GString \<circ> EncodeToString) (payloads req))"
    and "lookup md ''cntDepend'' = GBool (cntDepend req)"
    and "lookup md ''packetCnt'' = GArray (map (\<lambda>c. read_back ft (GInt64 c)) (packetCnt req))"
    and "lookup md ''format'' = read_back ft (GUint8 (format req))"
    and "lookup md ''responseExp'' = GBool (responseExp req)" and "lookup md ''responsePrio'' = GBool (responsePrio req)"
    and "lookup md ''dlWindReq'' = GBool (dlWindReq req)" and "lookup md ''expOnly'' = GBool (expOnly req)"
  unfolding md_def
  by (subst lookup_stored, simp add: dlDataQueueMetadata_def, simp)+

lemma queue_fields:
  fixes i req
  defines "msg \<equiv> dlDataQueueMessage i req"
  shows "map_of msg ''command'' = Some (GString CmdDLDataQueue)" "map_of msg ''opId'' = Some (GInt64 i)"
    "map_of msg ''userData'' = Some (buildDLDataQueUserData (payloads req) (cntDepend req))"
    "map_of msg ''cntDepend'' = Some (GBool (cntDepend req))"
    "cntDepend req \<Longrightarrow> map_of msg ''packetCnt'' = Some (GArray (map GInt64 (packetCnt req)))"
    "format req > 0 \<Longrightarrow> map_of msg ''format'' = Some (GUint8 (format req))"
    "responseExp req \<Longrightarrow> map_of msg ''responseExp'' = Some (GBool True)"
    "responsePrio req \<Longrightarrow> map_of msg ''responsePrio'' = Some (GBool True)"
    "dlWindReq req \<Longrightarrow> map_of msg ''dlWindReq'' = Some (GBool True)"
    "expOnly req \<Longrightarrow> map_of msg ''expOnly'' = Some (GBool True)"
  unfolding msg_def by (simp_all add: dlDataQueueMessage_def flag_def map_add_def)

lemma payloads_recovered:
  "lookup md ''payloads'' = GArray (map (GString \<circ> EncodeToString) ps) \<Longrightarrow> recorded_payloads md d = Inr ps"
proof -
  have "map_result decode_payload (map (GString \<circ> EncodeToString) ps) = Inr ps"
    by (induction ps) (simp_all add: decode_payload_def)
  then show "lookup md ''payloads'' = GArray (map (GString \<circ> EncodeToString) ps) \<Longrightarrow> recorded_payloads md d = Inr ps"
    by (simp add: recorded_payloads_def)
qed

lemma format_recovered:
  assumes "lookup md ''format'' = read_back ft (GUint8 b)"
  shows "restore_format md m = Inr (if b > 0 then AList.update ''format'' (GUint8 b) m else m)"
proof -
  have "sint (ucast b :: i64) = uint b" by (simp add: sint_ucast64)
  moreover have "b > 0 \<longleftrightarrow> 0 < uint b" by (simp add: word_less_def)
  moreover have "ucast (ucast b :: i64) = b"
    by (rule bit_word_eqI) (auto simp: bit_simps dest: bit_imp_le_length)
  then have "safeUint8 (ucast b) = Some b"
    using uint_lt2p [of b] by (simp add: safeUint8_def safeUint_def sint_ucast64)
  ultimately show ?thesis by (simp add: restore_format_def assms recover_byte)
qed

lemma sizes_accepted: "validateQueuedUserData ps dep cnts = None \<Longrightarrow> validatePayloadSizes ps = None \<and> (\<not> dep \<longrightarrow> \<not> 1 < length ps)"
  by (auto simp: validateQueuedUserData_def split: if_splits)

lemma queue_rebuilt:
  assumes "validateQueuedUserData (payloads req) (cntDepend req) (packetCnt req) = None"
  shows "\<exists>m. reconstitueDLDataQueMessage (stored ft (dlDataQueueMessage i req)) (stored ft (dlDataQueueMetadata bs req)) d = Inr m \<and>
    agrees m (dlDataQueueMessage i req) \<and> map_of m ''command'' = Some (GString CmdDLDataQueue) \<and>
    map_of m ''opId'' = Some (read_back ft (GInt64 i)) \<and>
    map_of m ''userData'' = map_of (dlDataQueueMessage i req) ''userData''"
proof -
  define md where "md = stored ft (dlDataQueueMetadata bs req)"
  define msg where "msg = dlDataQueueMessage i req"
  note qm = queue_metadata [where ft = ft and bs = bs and req = req, folded md_def] and qf = queue_fields [where i = i and req = req, folded msg_def]
  define m1 where "m1 = AList.update ''userData'' (buildDLDataQueUserData (payloads req) (cntDepend req)) (stored ft msg)"
  define m2 where "m2 = (if cntDepend req then AList.update ''packetCnt'' (GArray (map GInt64 (packetCnt req)))
      (AList.update ''cntDepend'' (GBool True) m1) else m1)"
  define m3 where "m3 = (if format req > 0 then AList.update ''format'' (GUint8 (format req)) m2 else m2)"
  define m4 where "m4 = restore_flag md ''expOnly'' (restore_flag md ''dlWindReq''
      (restore_flag md ''responsePrio'' (restore_flag md ''responseExp'' m3)))"
  have a1: "agrees m1 msg" unfolding m1_def using agrees_stored qf(3) by (rule agrees_update) simp
  have a2: "agrees m2 msg" unfolding m2_def using a1 qf(4,5) by (auto intro!: agrees_update)
  have a3: "agrees m3 msg" unfolding m3_def using a2 qf(6) by (auto intro!: agrees_update)
  have a4: "agrees m4 msg" unfolding m4_def 
    by (rule restore_flag_agrees [OF _ qm(8) qf(10)], rule restore_flag_agrees [OF _ qm(7) qf(9)],
        rule restore_flag_agrees [OF _ qm(6) qf(8)], rule restore_flag_agrees [OF a3 qm(5) qf(7)])
  have cnts: "restore_counters md n = AList.update ''packetCnt'' (GArray (map GInt64 (packetCnt req))) n" for n
    by (simp add: restore_counters_def qm(3) comp_def counter_recovered)
  have "reconstitueDLDataQueMessage (stored ft msg) md d = Inr m4"
    unfolding reconstitueDLDataQueMessage_def
    using sizes_accepted [OF assms]
    by (simp add: payloads_recovered [OF qm(1)] qm(2) Let_def cnts format_recovered [OF qm(4)] m4_def m3_def m2_def m1_def)
  moreover have keep: "map_of m4 k = map_of m1 k" if "k \<in> {''command'', ''opId'', ''userData''}" for k
    using that by (auto simp: m4_def m3_def m2_def)
  have "map_of m4 ''command'' = Some (GString CmdDLDataQueue)" "map_of m4 ''opId'' = Some (read_back ft (GInt64 i))"
      "map_of m4 ''userData'' = map_of msg ''userData''"
    using qf(1-3) by (simp_all add: keep m1_def map_of_stored)
  ultimately show ?thesis using a4 unfolding md_def msg_def by blast
qed

lemma repaired:
  assumes "agrees m msg" "validateOutboundMessage msg = None" "map_of msg ''opId'' = Some (GInt64 i)"
    and "map_of m ''command'' = map_of msg ''command''" "map_of m ''opId'' = Some (read_back ft (GInt64 i))"
  defines "out \<equiv> normalizeOpIDOnly m"
  shows "agrees out msg \<and> map_of out ''opId'' = Some (GInt64 i) \<and> validateOutboundMessage out = None"
proof -
  have a: "agrees out msg" unfolding out_def normalizeOpIDOnly_def using assms(1,3,5) by (rule agrees_opId)
  have o': "map_of out ''opId'' = Some (GInt64 i)"
    unfolding out_def normalizeOpIDOnly_def using assms(5) by (rule repair_opId) simp
  have "map_of out ''command'' = map_of msg ''command''" by (simp add: out_def normalizeOpIDOnly_def assms(4))
  with a o' show ?thesis using agrees_valid [OF a assms(2)] by blast
qed

lemma command_names:
  "CmdDLDataQueue \<noteq> CmdULDataTransmit" "CmdDLDataQueue \<noteq> CmdAttachPropagate" "CmdDLDataQueue \<noteq> CmdDLDataRevoke"
  "CmdDLDataQueue \<noteq> CmdDetachPropagate" "CmdULDataTransmit \<noteq> CmdAttachPropagate" "CmdULDataTransmit \<noteq> CmdDLDataRevoke"
  "CmdULDataTransmit \<noteq> CmdDetachPropagate" "CmdDLDataRevoke \<noteq> CmdAttachPropagate" "CmdDLDataRevoke \<noteq> CmdDetachPropagate"
  "CmdDLDataRevoke \<noteq> CmdULDataTransmit" "CmdAttachPropagate \<noteq> CmdULDataTransmit"
  by code_simp+

section \<open>Uplink transmissions\<close>

text \<open>
  The record of an uplink transmission always holds the format, the first frame only a nonzero one:
  the reissued frame is compared with the first one, the format spelled out.
\<close>

definition explicitULDataTxMessage :: "i64 \<Rightarrow> ulDataTxRequest \<Rightarrow> gomap" where
  "explicitULDataTxMessage i r = buildULDataTxMessage i r @ (if ulFormat r = 0 then [(''format'', GUint8 0)] else [])"

lemma transmit_fields:
  fixes i r
  defines "msg \<equiv> explicitULDataTxMessage i r"
  shows "map_of msg ''command'' = Some (GString CmdULDataTransmit)" "map_of msg ''opId'' = Some (GInt64 i)"
    "map_of msg ''nwkSnKey'' = Some (bytesToNumericArray (nwkSnKey r))"
    "map_of msg ''userData'' = Some (bytesToNumericArray (userData r))"
  unfolding msg_def by (simp_all add: explicitULDataTxMessage_def buildULDataTxMessage_def)

lemma explicit_valid: "validateOutboundMessage (explicitULDataTxMessage i r) = None"
  by (rule validate_known [of _ CmdULDataTransmit i, OF _ _ catalog_rows(9)])
    (auto simp: explicitULDataTxMessage_def buildULDataTxMessage_def catalog_rows)

lemma sanitized_lookup:
  "map_of (buildSanitizedULDataTxMessage i r) k =
     (if k \<in> {''nwkSnKey'', ''userData''} then None else map_of (explicitULDataTxMessage i r) k)"
  by (auto simp: buildSanitizedULDataTxMessage_def explicitULDataTxMessage_def buildULDataTxMessage_def map_add_def word_gt_0)

lemma agrees_completed:
  assumes "\<And>k. map_of rec k = (if k \<in> set (map fst extra) then None else map_of msg k)"
    and "\<And>k w. map_of extra k = Some w \<Longrightarrow> \<exists>v. map_of msg k = Some v \<and> denote w = denote v"
    and "\<And>k. map_of m k = (case map_of extra k of Some w \<Rightarrow> Some w | None \<Rightarrow> map_of (stored ft rec) k)"
  shows "agrees m msg"
  unfolding agrees_def
proof
  fix k
  have "map_of extra k = None \<Longrightarrow> map_of rec k = map_of msg k"
    using assms(1) [of k] by (simp add: map_of_eq_None_iff)
  then show "(map_of m k = None \<longleftrightarrow> map_of msg k = None) \<and>
      (\<forall>v. map_of msg k = Some v \<and> float_free v \<longrightarrow> (\<exists>w. map_of m k = Some w \<and> denote w = denote v))"
    using assms(2) [of k] assms(3) [of k]
    by (cases "map_of extra k") (auto simp: map_of_stored read_back_def stored_exact)
qed

lemma key_array_full: "length key = SessionKeySize \<Longrightarrow> key_array key = bytesToNumericArray key"
proof -
  assume l: "length key = SessionKeySize"
  then have "map (\<lambda>i. if i < length key then GUint8 (key ! i) else GNil) [0..<SessionKeySize] = map GUint8 (map ((!) key) [0..<length key])"
    by simp
  then show "key_array key = bytesToNumericArray key" by (simp only: key_array_def bytesToNumericArray_def map_nth)
qed

lemma transmit_metadata:
  fixes ft r key
  defines "md \<equiv> stored ft (buildULDataTxMetadata r key)"
  shows "lookup md ''encryptedKey'' = GString key" "lookup md ''userData'' = GString (EncodeToString (userData r))"
  unfolding md_def by (subst lookup_stored, simp add: buildULDataTxMetadata_def, simp)+

lemma decrypts: "aead c \<Longrightarrow> length n = nonceLen \<Longrightarrow> EncryptString c k (Some n) p = Inr s \<Longrightarrow> DecryptString c s = Inr p \<and> IsTextEnvelope s"
  using Decrypt_Encrypt [of c n k p] by (auto simp: EncryptString_def Encrypt_def DecryptString_def IsTextEnvelope_def)

lemma transmit_rebuilt:
  assumes "DecryptString c key = Inr (nwkSnKey r)" "length (nwkSnKey r) = SessionKeySize"
  shows "\<exists>m. reconstitueULDataTxMessage (Some c) (stored ft (buildSanitizedULDataTxMessage i r)) (stored ft (buildULDataTxMetadata r key)) d = Inr m \<and>
    agrees m (explicitULDataTxMessage i r) \<and> map_of m ''command'' = Some (GString CmdULDataTransmit) \<and>
    map_of m ''opId'' = Some (read_back ft (GInt64 i))"
proof -
  let ?s = "stored ft (buildSanitizedULDataTxMessage i r)" and ?msg = "explicitULDataTxMessage i r"
  let ?k = "bytesToNumericArray (nwkSnKey r)" and ?u = "bytesToNumericArray (userData r)"
  define m where "m = AList.update ''userData'' ?u (AList.update ''nwkSnKey'' ?k ?s)"
  have "agrees m ?msg"
  proof (rule agrees_completed [where rec = "buildSanitizedULDataTxMessage i r" and extra = "[(''nwkSnKey'', ?k), (''userData'', ?u)]"])
    show "map_of m k = (case map_of [(''nwkSnKey'', ?k), (''userData'', ?u)] k of Some w \<Rightarrow> Some w | None \<Rightarrow> map_of ?s k)" for k
      by (auto simp: m_def)
  qed (auto simp: sanitized_lookup transmit_fields split: if_splits)
  moreover have "map_of m ''command'' = Some (GString CmdULDataTransmit)" "map_of m ''opId'' = Some (read_back ft (GInt64 i))"
    by (simp_all add: m_def map_of_stored sanitized_lookup transmit_fields)
  moreover have "reconstitueULDataTxMessage (Some c) ?s (stored ft (buildULDataTxMetadata r key)) d = Inr m"
    by (simp add: reconstitueULDataTxMessage_def transmit_metadata restored_user_data_def assms key_array_full m_def)
  ultimately show ?thesis by blast
qed

section \<open>Revocations and propagations\<close>

definition same_frame :: "recovery_error + gomap \<Rightarrow> i64 \<Rightarrow> gomap \<Rightarrow> bool" where
  "same_frame r i msg \<longleftrightarrow>
     (\<exists>m. r = Inr m \<and> agrees m msg \<and> map_of m ''opId'' = Some (GInt64 i) \<and> validateOutboundMessage m = None)"

lemma same_frame_plain:
  assumes "map_of msg ''opId'' = Some (GInt64 i)" "map_of msg ''command'' = Some (GString c)" "validateOutboundMessage msg = None"
  shows "same_frame (Inr (normalizeOpIDOnly (stored ft msg))) i msg"
  using repaired [OF agrees_stored assms(3,1)] assms(1,2) by (simp add: same_frame_def map_of_stored)

lemma plain_commands:
  "c \<in> {CmdStatus, CmdDLRxStatusQuery} \<Longrightarrow> reissued cipher c msg md d = Inr (normalizeOpIDOnly msg)"
proof -
  have "CmdStatus \<notin> {CmdULDataTransmit, CmdAttachPropagate, CmdDLDataRevoke, CmdDLDataQueue, CmdDetachPropagate}"
    "CmdDLRxStatusQuery \<notin> {CmdULDataTransmit, CmdAttachPropagate, CmdDLDataRevoke, CmdDLDataQueue, CmdDetachPropagate}"
    by code_simp+
  then show "c \<in> {CmdStatus, CmdDLRxStatusQuery} \<Longrightarrow> reissued cipher c msg md d = Inr (normalizeOpIDOnly msg)"
    by (auto simp: reissued_def normalize_def split: option.splits)
qed

lemma detach_reissued:
  "same_frame (reissued cipher CmdDetachPropagate (stored ft (detachPropagateMessage i eui)) md d) i (detachPropagateMessage i eui)"
proof -
  let ?msg = "detachPropagateMessage i eui" and ?s = "stored ft (detachPropagateMessage i eui)"
  have f: "map_of ?msg ''opId'' = Some (GInt64 i)" "map_of ?msg ''epEui'' = Some (GUint64 eui)"
      "map_of ?msg ''command'' = Some (GString CmdDetachPropagate)"
    by (simp_all add: detachPropagateMessage_def)
  define m where "m = normalizeDetPrpMessage ?s"
  have a: "agrees m ?msg" unfolding m_def normalizeDetPrpMessage_def
    by (rule agrees_uint64 [where ft = ft], rule agrees_opId [OF agrees_stored f(1), where ft = ft]) (simp_all add: f map_of_stored)
  have o': "map_of m ''opId'' = Some (GInt64 i)"
    unfolding m_def normalizeDetPrpMessage_def by (simp add: repair_opId f map_of_stored)
  have "map_of m ''command'' = map_of ?msg ''command''"
    by (simp add: m_def normalizeDetPrpMessage_def f map_of_stored)
  then have "validateOutboundMessage m = None" using agrees_valid [OF a detach_valid _ o'] by blast
  moreover have "CmdDetachPropagate \<notin> {CmdULDataTransmit, CmdAttachPropagate, CmdDLDataRevoke, CmdDLDataQueue}" by code_simp
  then have "reissued cipher CmdDetachPropagate ?s md d = Inr m"
    by (auto simp: reissued_def normalize_def m_def split: option.splits)
  ultimately show ?thesis using a o' by (simp add: same_frame_def)
qed

lemma revoke_reissued:
  "same_frame (reissued cipher CmdDLDataRevoke (stored ft (dlDataRevMessage i eui que))
     (Some (stored ft (dlDataRevMetadata bs eui que t))) d) i (dlDataRevMessage i eui que)"
proof -
  let ?msg = "dlDataRevMessage i eui que" and ?md = "stored ft (dlDataRevMetadata bs eui que t)"
  have f: "map_of ?msg ''opId'' = Some (GInt64 i)" "map_of ?msg ''epEui'' = Some (GUint64 eui)"
      "map_of ?msg ''command'' = Some (GString CmdDLDataRevoke)" "map_of ?msg ''queId'' = Some (GUint64 que)"
    by (simp_all add: dlDataRevMessage_def)
  have md: "lookup ?md ''epEui'' = read_back ft (GUint64 eui)" "lookup ?md ''queId'' = read_back ft (GUint64 que)"
    by (subst lookup_stored, simp add: dlDataRevMetadata_def, simp)+
  define m where "m = AList.update ''opId'' (GInt64 i) (AList.update ''queId'' (GUint64 que) (AList.update ''epEui'' (GUint64 eui)
      (AList.update ''command'' (GString CmdDLDataRevoke) (stored ft ?msg))))"
  have a: "agrees m ?msg" unfolding m_def
    by (intro agrees_update [where v = "GInt64 i"] agrees_update [where v = "GUint64 que"] agrees_update [where v = "GUint64 eui"]
        agrees_update [where v = "GString CmdDLDataRevoke"] agrees_stored) (simp_all add: f)
  have mf: "map_of m ''opId'' = Some (GInt64 i)" "map_of m ''epEui'' = Some (GUint64 eui)"
      "map_of m ''queId'' = Some (GUint64 que)" "map_of m ''command'' = Some (GString CmdDLDataRevoke)"
    by (simp_all add: m_def)
  have "reconstitueDLDataRevMessage (stored ft ?msg) ?md = Inr m"
    by (simp add: reconstitueDLDataRevMessage_def md recover_uint64 lookup_stored [OF f(1)] recover_opId m_def)
  then have r: "reissued cipher CmdDLDataRevoke (stored ft ?msg) (Some ?md) d = Inr (AList.update ''command'' (GString CmdDLDataRevoke) m)"
    by (simp add: reissued_def normalize_def command_names normalizeDlDataRevMessage_def repair_def mf)
  have a': "agrees (AList.update ''command'' (GString CmdDLDataRevoke) m) ?msg" using a f(3) by (rule agrees_update) simp
  moreover have "validateOutboundMessage (AList.update ''command'' (GString CmdDLDataRevoke) m) = None"
    by (rule agrees_valid [OF a' revoke_valid, where i = i]) (simp_all add: f mf)
  ultimately show ?thesis using r mf by (simp add: same_frame_def)
qed

section \<open>Attach propagation\<close>

lemma read_back_narrow:
  "read_back ft (GUint16 w) = GFloat64 (FFin (of_int (uint w)))" "read_back ft (GUint32 v) = GFloat64 (FFin (of_int (uint v)))"
  by (simp_all del: normalizeStrictDecodedValue.simps(1) add: read_back_def stored_small)

lemma agrees_narrow:
  assumes "agrees n msg" "map_of msg k = Some v" "map_of m k = Some (read_back ft v)"
    and "v = GUint16 a \<and> conv = (\<lambda>w. GUint16 (ucast w)) \<or> v = GUint32 b \<and> conv = (\<lambda>w. GUint32 (ucast w))"
  shows "agrees (repair conv m k n) msg"
proof -
  have "ucast (ucast a :: i64) = a" "ucast (ucast b :: i64) = b"
    by (rule bit_word_eqI, auto simp: bit_simps dest: bit_imp_le_length)+
  then have "uint (ucast (word_of_int (uint a) :: i64) :: u16) = uint a" "uint (ucast (word_of_int (uint b) :: i64) :: u32) = uint b"
    by (simp_all add: of_int_uint)
  then show ?thesis
    using assms(1,2) by (rule_tac agrees_repair) (use assms(3,4) in \<open>auto simp: read_back_narrow\<close>)
qed

lemma attach_fields:
  fixes i r
  defines "msg \<equiv> attachPropagateMessage i r"
  shows "map_of msg ''command'' = Some (GString CmdAttachPropagate)" "map_of msg ''opId'' = Some (GInt64 i)"
    "map_of msg ''epEui'' = Some (GUint64 (apEui r))" "map_of msg ''bidi'' = Some (GBool (apBidi r))"
    "map_of msg ''nwkSnKey'' = Some (bytesToNumericArray (apKey r))" "map_of msg ''shAddr'' = Some (GUint16 (apShAddr r))"
    "map_of msg ''lastPacketCnt'' = Some (GUint32 (apLastPacketCnt r))" "map_of msg ''dualChan'' = Some (GBool (apDualChan r))"
    "map_of msg ''repetition'' = Some (GBool (apRepetition r > 0))" "map_of msg ''wideCarrOff'' = Some (GBool (apWideCarrOff r))"
    "map_of msg ''longBlkDist'' = Some (GBool (apLongBlkDist r))"
  unfolding msg_def by (simp_all add: attachPropagateMessage_def)

lemma attach_sanitized:
  "map_of (sanitizedAttachPropagate i r) k = (if k = ''nwkSnKey'' then None else map_of (attachPropagateMessage i r) k)"
  by (simp add: sanitizedAttachPropagate_def attachPropagateMessage_def)

text \<open>Maps that differ at the key at most.\<close>

definition off_key :: "gomap \<Rightarrow> gomap \<Rightarrow> bool" where
  "off_key m n \<longleftrightarrow> (\<forall>k. k \<noteq> ''nwkSnKey'' \<longrightarrow> map_of m k = map_of n k)"

lemma off_key_update: "off_key m n \<Longrightarrow> off_key (AList.update k v m) (AList.update k v n)"
  by (simp add: off_key_def update_conv')

lemma off_key_repair: "off_key m n \<Longrightarrow> off_key (repair conv x k m) (repair conv x k n)"
  by (auto simp: off_key_def repair_def update_conv' split: option.splits goval.splits)

lemma off_key_eq: "off_key m n \<Longrightarrow> map_of (AList.update ''nwkSnKey'' v m) = map_of (AList.update ''nwkSnKey'' v n)"
  by (auto simp: off_key_def update_conv')

lemma off_key_repair_eq: "map_of m = map_of n \<Longrightarrow> map_of (repair conv x k m) = map_of (repair conv x k n)"
  by (auto simp: repair_def update_conv' split: option.splits goval.splits)

text \<open>
  Normalizing a decoded attach propagation: the other fields come out as they were sent, the key as
  \<open>normalizedKey\<close> reads it.
\<close>

lemma attach_normalized:
  assumes "\<And>k. k \<noteq> ''nwkSnKey'' \<Longrightarrow> map_of m k = map_of (stored ft (attachPropagateMessage i r)) k"
    and "normalizedKey m = bytesToNumericArray key"
  defines "out \<equiv> normalizeAttPrpMessage m" and "msg \<equiv> attachPropagateMessage i (r\<lparr>apKey := key\<rparr>)"
  shows "agrees out msg \<and> map_of out ''opId'' = Some (GInt64 i) \<and> validateOutboundMessage out = None"
proof -
  note f = attach_fields [of i "r\<lparr>apKey := key\<rparr>", folded msg_def, simplified]
  have st: "map_of m k = Some (read_back ft v)" if "map_of msg k = Some v" "k \<noteq> ''nwkSnKey''" for k v
    using that assms(1) [of k] unfolding msg_def by (auto simp: map_of_stored attachPropagateMessage_def split: if_splits)
  have b: "getBool m k = b" if "map_of msg k = Some (GBool b)" "k \<noteq> ''nwkSnKey''" for k b
    using st [OF that] by (simp add: getBool_def lookup_def)
  define m0 where "m0 = AList.update ''nwkSnKey'' (bytesToNumericArray key) m"
  have a0: "agrees m0 msg"
  proof (rule agrees_completed [where rec = "sanitizedAttachPropagate i r" and extra = "[(''nwkSnKey'', bytesToNumericArray key)]" and ft = ft])
    show "map_of m0 k = (case map_of [(''nwkSnKey'', bytesToNumericArray key)] k of Some w \<Rightarrow> Some w
        | None \<Rightarrow> map_of (stored ft (sanitizedAttachPropagate i r)) k)" for k
      using assms(1) [of k] by (auto simp: m0_def map_of_stored attach_sanitized)
  qed (auto simp: attach_sanitized msg_def attachPropagateMessage_def f split: if_splits)
  define m1 where "m1 = repair GUint64 m ''epEui'' (repair GInt64 m ''opId'' m0)"
  have a1: "agrees m1 msg" unfolding m1_def
    by (rule agrees_uint64 [where ft = ft], rule agrees_opId [OF a0 f(2), where ft = ft]) (simp_all add: f st)
  define m2 where "m2 = (AList.update ''nwkSnKey'' (normalizedKey m)
      \<circ> AList.update ''longBlkDist'' (GBool (getBool m ''longBlkDist'')) \<circ> AList.update ''wideCarrOff'' (GBool (getBool m ''wideCarrOff''))
      \<circ> AList.update ''repetition'' (GBool (getBool m ''repetition'')) \<circ> AList.update ''dualChan'' (GBool (getBool m ''dualChan''))
      \<circ> AList.update ''bidi'' (GBool (getBool m ''bidi''))) m1"
  have a2: "agrees m2 msg"
    unfolding m2_def comp_apply assms(2) b [OF f(4), simplified] b [OF f(8), simplified] b [OF f(9), simplified]
      b [OF f(10), simplified] b [OF f(11), simplified]
    by (intro agrees_update [OF _ f(5)] agrees_update [OF _ f(11)] agrees_update [OF _ f(10)] agrees_update [OF _ f(9)]
        agrees_update [OF _ f(8)] agrees_update [OF _ f(4)] a1 impI refl)
  define m3 where "m3 = repair (\<lambda>w. GUint32 (ucast w)) m ''lastPacketCnt'' (repair (\<lambda>w. GUint16 (ucast w)) m ''shAddr'' m2)"
  have a3: "agrees m3 msg" unfolding m3_def
    by (rule agrees_narrow [where ft = ft], rule agrees_narrow [OF a2, where ft = ft]) (auto simp: f st)
  have "off_key m m0" by (simp add: off_key_def m0_def)
  then have same: "map_of out = map_of m3"
    unfolding out_def normalizeAttPrpMessage_def m3_def m2_def m1_def comp_apply
    by (intro off_key_repair_eq off_key_eq off_key_update off_key_repair)
  have a: "agrees out msg" using a3 by (simp add: agrees_def same)
  have o': "map_of out ''opId'' = Some (GInt64 i)"
    unfolding same by (simp add: m3_def m2_def m1_def, rule repair_opId) (simp_all add: st f m0_def)
  have "map_of out ''command'' = map_of msg ''command''"
    unfolding same by (simp add: m3_def m2_def m1_def m0_def st f)
  then show ?thesis using a o' agrees_valid [OF a attach_valid [of i "r\<lparr>apKey := key\<rparr>", folded msg_def]] by blast
qed

lemma legacy_attach:
  assumes "length (apKey r) = SessionKeySize"
  shows "same_frame (reissued None CmdAttachPropagate (stored ft (attachPropagateMessage i r)) (Some []) d) i (attachPropagateMessage i r)"
proof -
  let ?s = "stored ft (attachPropagateMessage i r)"
  have k: "map_of ?s ''nwkSnKey'' = Some (GArray (map (\<lambda>b. read_back ft (GUint8 b)) (apKey r)))"
    by (simp add: map_of_stored attach_fields bytesToNumericArray_def comp_def)
  have e: "key_byte (read_back ft (GUint8 b)) = b" for b
  proof -
    have "read_back ft (GUint8 b) = GFloat64 (FFin (of_int (uint b)))"
      by (simp del: normalizeStrictDecodedValue.simps(1) add: read_back_def stored_small)
    moreover have "ucast (ucast b :: i64) = b" by (rule bit_word_eqI) (auto simp: bit_simps dest: bit_imp_le_length)
    then have "ucast (word_of_int (uint b) :: i64) = b" by (simp add: of_int_uint)
    ultimately show ?thesis by simp
  qed
  have n: "normalizedKey ?s = bytesToNumericArray (apKey r)"
    using assms by (auto simp: normalizedKey_def lookup_def k e bytesToNumericArray_def intro!: nth_equalityI)
  have "has_key ?s ''nwkSnKey''" using k by (simp add: has_key_iff)
  then have "reissued None CmdAttachPropagate ?s (Some []) d = Inr (normalizeAttPrpMessage ?s)"
    by (simp add: reissued_def normalize_def command_names reconstitueAttachPropagateMessage_def lookup_def [of "[]"])
  then show ?thesis using attach_normalized [OF refl n] by (simp add: same_frame_def)
qed

section \<open>Theorems\<close>



text \<open>
  C28. An uplink transmission is sent again as it was, although its record never held the key in
  clear: the envelope kept in the metadata is opened, and the reissued frame has the fields and the
  values of the first one (with a zero format spelled out), the same operation ID, and passes the
  outbound check. Without the cipher, or with a record that names no key, the operation is dropped
  and no frame is sent.
\<close>

theorem transmission_reissued:
  assumes "aead c" "length n = nonceLen" "EncryptString c slot (Some n) (nwkSnKey r) = Inr key" "length (nwkSnKey r) = SessionKeySize"
  shows "(\<exists>m. reissued (Some c) CmdULDataTransmit (stored ft (buildSanitizedULDataTxMessage i r))
      (Some (stored ft (buildULDataTxMetadata r key))) d = Inr m \<and>
    agrees m (explicitULDataTxMessage i r) \<and> map_of m ''opId'' = Some (GInt64 i) \<and> validateOutboundMessage m = None) \<and>
    reissued None CmdULDataTransmit (stored ft (buildSanitizedULDataTxMessage i r))
      (Some (stored ft (buildULDataTxMetadata r key))) d = Inl CipherRequired \<and>
    reissued (Some c) CmdULDataTransmit (stored ft (buildSanitizedULDataTxMessage i r)) (Some []) d = Inl MissingEncryptedKey"
proof -
  from transmit_rebuilt [OF decrypts [OF assms(1-3), THEN conjunct1] assms(4)] obtain m where
      m: "reconstitueULDataTxMessage (Some c) (stored ft (buildSanitizedULDataTxMessage i r)) (stored ft (buildULDataTxMetadata r key)) d = Inr m"
      "agrees m (explicitULDataTxMessage i r)" "map_of m ''command'' = Some (GString CmdULDataTransmit)"
      "map_of m ''opId'' = Some (read_back ft (GInt64 i))" by blast
  have "agrees (normalizeOpIDOnly m) (explicitULDataTxMessage i r) \<and> map_of (normalizeOpIDOnly m) ''opId'' = Some (GInt64 i) \<and>
      validateOutboundMessage (normalizeOpIDOnly m) = None"
    by (rule repaired [OF m(2) explicit_valid transmit_fields(2) _ m(4)]) (simp add: m(3) transmit_fields(1))
  moreover have "reissued (Some c) CmdULDataTransmit (stored ft (buildSanitizedULDataTxMessage i r))
      (Some (stored ft (buildULDataTxMetadata r key))) d = Inr (normalizeOpIDOnly m)"
    by (simp add: reissued_def normalize_def command_names m(1))
  moreover have "\<not> has_key (stored ft (buildSanitizedULDataTxMessage i r)) ''nwkSnKey''"
    by (simp add: has_key_iff map_of_stored sanitized_lookup)
  ultimately show ?thesis
    by (simp add: reissued_def reconstitueULDataTxMessage_def transmit_metadata lookup_def [of "[]"])
qed

definition demo_transmission :: ulDataTxRequest where
  "demo_transmission = \<lparr>ulEui = 5, nwkSnKey = replicate 16 9, shAddr = 3, ulPacketCnt = 4, userData = [1], profile = [], ulFormat = 0\<rparr>"

theorem transmission_reissued_witness:
  "\<exists>key m. EncryptString demo_aead 0 (Some (replicate 12 3)) (replicate 16 9) = Inr key \<and>
     reissued (Some demo_aead) CmdULDataTransmit (stored (\<lambda>_. ''0'') (buildSanitizedULDataTxMessage (- 1) demo_transmission))
      (Some (stored (\<lambda>_. ''0'') (buildULDataTxMetadata demo_transmission key))) [] = Inr m \<and>
     map_of m ''opId'' = Some (GInt64 (- 1))"
proof -
  obtain key where k: "EncryptString demo_aead 0 (Some (replicate 12 3)) (nwkSnKey demo_transmission) = Inr key"
    by (simp add: EncryptString_def Encrypt_def)
  have d: "nwkSnKey demo_transmission = replicate 16 9" by (simp add: demo_transmission_def)
  from transmission_reissued [OF demo_aead_lawful _ k, of "\<lambda>_. ''0''" "- 1" "[]"] k
  show ?thesis by (auto simp: d nonceLen_def SessionKeySize_def)
qed

text \<open>
  Revocations, detach propagations, status requests and status queries are sent again with their
  fields, values and operation ID, over the whole range of 64-bit identifiers, and pass the outbound
  check, whatever metadata accompanied the records that need none.
\<close>

theorem plain_operations_reissued:
  "same_frame (reissued cipher CmdDLDataRevoke (stored ft (dlDataRevMessage i eui que))
      (Some (stored ft (dlDataRevMetadata bs eui que t))) d) i (dlDataRevMessage i eui que) \<and>
   same_frame (reissued cipher CmdDetachPropagate (stored ft (detachPropagateMessage i eui)) md d) i (detachPropagateMessage i eui) \<and>
   same_frame (reissued cipher CmdStatus (stored ft (statusMessage i)) md d) i (statusMessage i) \<and>
   same_frame (reissued cipher CmdDLRxStatusQuery (stored ft (dlRxStatusQueryMessage i eui)) md d) i (dlRxStatusQueryMessage i eui)"
  using revoke_reissued detach_reissued
    same_frame_plain [of "statusMessage i" i CmdStatus ft, OF _ _ status_valid]
    same_frame_plain [of "dlRxStatusQueryMessage i eui" i CmdDLRxStatusQuery ft, OF _ _ query_valid]
  by (simp add: plain_commands statusMessage_def dlRxStatusQueryMessage_def)

text \<open>
  C34. An attach propagation is sent again without its key. The hook restores the key of sixteen bytes
  from its envelope, but as \<^verbatim>\<open>uint8\<close> elements, and the normalizer, which knows only elements decoded as
  \<^verbatim>\<open>float64\<close>, writes zero for each: for every key the reissued frame propagates the all-zero key. It
  is the original frame in every other field, so it is the original frame exactly when the key was
  all zero. A record from before key sanitization, which holds the key itself, keeps it.
\<close>

theorem attach_key_lost:
  assumes "aead c" "length n = nonceLen" "EncryptString c slot (Some n) (apKey r) = Inr key" "length (apKey r) = SessionKeySize"
  shows "(\<exists>m. reconstitueAttachPropagateMessage (Some c) (stored ft (sanitizedAttachPropagate i r))
        (stored ft (attachPropagateMetadata r owner key)) = Inr m \<and> map_of m ''nwkSnKey'' = Some (bytesToNumericArray (apKey r))) \<and>
    (\<exists>m. reissued (Some c) CmdAttachPropagate (stored ft (sanitizedAttachPropagate i r))
        (Some (stored ft (attachPropagateMetadata r owner key))) d = Inr m \<and> validateOutboundMessage m = None \<and>
      agrees m (attachPropagateMessage i (r\<lparr>apKey := replicate SessionKeySize 0\<rparr>)) \<and>
      (agrees m (attachPropagateMessage i r) \<longleftrightarrow> apKey r = replicate SessionKeySize 0)) \<and>
    same_frame (reissued None CmdAttachPropagate (stored ft (attachPropagateMessage i r)) (Some []) d) i (attachPropagateMessage i r)"
proof -
  let ?s = "stored ft (sanitizedAttachPropagate i r)" and ?md = "stored ft (attachPropagateMetadata r owner key)"
  let ?rebuilt = "reconstitueAttachPropagateMessage (Some c) ?s ?md"
  let ?zero = "replicate SessionKeySize (0 :: byte)"
  define m where "m = AList.update ''nwkSnKey'' (bytesToNumericArray (apKey r)) ?s"
  have "lookup ?md ''encryptedKey'' = GString key"
    by (subst lookup_stored) (simp add: attachPropagateMetadata_def, simp)
  then have m: "?rebuilt = Inr m"
    using decrypts [OF assms(1-3)] by (simp add: reconstitueAttachPropagateMessage_def key_array_full assms(4) m_def)
  have z: "normalizedKey m = bytesToNumericArray ?zero"
    using assms(4) by (auto simp: normalizedKey_def lookup_def m_def bytesToNumericArray_def SessionKeySize_def
        intro!: nth_equalityI)
  define out where "out = normalizeAttPrpMessage m"
  have n: "agrees out (attachPropagateMessage i (r\<lparr>apKey := ?zero\<rparr>)) \<and> map_of out ''opId'' = Some (GInt64 i) \<and> validateOutboundMessage out = None"
    unfolding out_def by (rule attach_normalized [OF _ z, where ft = ft]) (simp add: m_def map_of_stored attach_sanitized)
  have key: "map_of out ''nwkSnKey'' = Some (bytesToNumericArray ?zero)"
    by (simp add: out_def normalizeAttPrpMessage_def z)
  have "agrees out (attachPropagateMessage i r) \<longleftrightarrow> apKey r = ?zero"
  proof
    assume a: "agrees out (attachPropagateMessage i r)"
    have "float_free (bytesToNumericArray (apKey r))" by (simp add: bytesToNumericArray_def list_all_iff)
    then have "denote (bytesToNumericArray ?zero) = denote (bytesToNumericArray (apKey r))"
      using a key attach_fields(5) [of i r] unfolding agrees_def by (metis option.inject)
    then have "map DInt (map uint ?zero) = map DInt (map uint (apKey r))" by (simp add: bytesToNumericArray_def comp_def)
    moreover have "inj DInt" by (simp add: inj_def)
    ultimately have "map uint ?zero = map uint (apKey r)" using inj_map_eq_map by blast
    then show "apKey r = ?zero" using inj_map_eq_map [of "uint :: byte \<Rightarrow> int" ?zero "apKey r"] by (metis injI uint_inj)
  qed (use n in \<open>metis attachPropagate.surjective attachPropagate.update_convs(2)\<close>)
  moreover have "reissued (Some c) CmdAttachPropagate ?s (Some ?md) d = Inr out"
    using m by (simp add: reissued_def normalize_def command_names out_def)
  moreover have "\<exists>m. ?rebuilt = Inr m \<and> map_of m ''nwkSnKey'' = Some (bytesToNumericArray (apKey r))"
    using m by (simp add: m_def)
  moreover have "same_frame (reissued None CmdAttachPropagate (stored ft (attachPropagateMessage i r)) (Some []) d) i (attachPropagateMessage i r)"
    by (rule legacy_attach [OF assms(4)])
  ultimately show ?thesis using n by auto
qed

definition demo_attach :: attachPropagate where
  "demo_attach = \<lparr>apEui = 5, apKey = replicate 16 9, apShAddr = 3, apBidi = True, apLastPacketCnt = 4,
     apDualChan = False, apRepetition = 0, apWideCarrOff = False, apLongBlkDist = False\<rparr>"

definition demo_owner :: propagationOwner where
  "demo_owner = \<lparr>euiBytes = EUI64Bytes 5, ownerTenant = 1, ownerOrg = None, knownEndpoint = True\<rparr>"

theorem attach_key_lost_witness:
  "\<exists>key m. EncryptString demo_aead 0 (Some (replicate 12 3)) (replicate 16 9) = Inr key \<and>
     reissued (Some demo_aead) CmdAttachPropagate (stored (\<lambda>_. ''0'') (sanitizedAttachPropagate (- 1) demo_attach))
       (Some (stored (\<lambda>_. ''0'') (attachPropagateMetadata demo_attach demo_owner key))) [] = Inr m \<and>
     \<not> agrees m (attachPropagateMessage (- 1) demo_attach)"
proof -
  obtain key where k: "EncryptString demo_aead 0 (Some (replicate 12 3)) (apKey demo_attach) = Inr key"
    by (simp add: EncryptString_def Encrypt_def)
  have d: "apKey demo_attach = replicate 16 9" by (simp add: demo_attach_def)
  from attach_key_lost [OF demo_aead_lawful _ k, of "\<lambda>_. ''0''" "- 1" demo_owner "[]"] k
  show ?thesis by (auto simp: d nonceLen_def SessionKeySize_def)
qed

end
