(* ===== verification/Session_Registry.thy ===== *)
theory Session_Registry
  imports EUI_Format Session_State "HOL-Library.Multiset"
begin

text \<open>
  The live sessions of the server, \<^verbatim>\<open>KC-Core/pkg/bssci/session_registry.go\<close>, with the map of sessions by
  UUID that the session service keeps beside it (\<^verbatim>\<open>session_service.go\<close>), the publication of a session
  at the end of the handshake (\<^verbatim>\<open>connect_complete.go\<close>) and the teardown of a connection
  (\<^verbatim>\<open>server.go\<close>).

  A Go map is an association list with distinct keys; its order is the order of one iteration, which
  Go leaves open, so the results that matter are shown for every order. The fields of a published
  session go on changing (its handshake completes after publication), but its EUI does not.

  Shown: at every moment a base station has at most one live session, whatever connections are
  published, torn down or closed in whatever order, and so the lookups by EUI and the choice of a
  station for an uplink transmission do not depend on the iteration order; tearing down a displaced
  connection does not disturb its successor.
\<close>

section \<open>The registry\<close>

type_synonym sessions = "(string \<times> Session) list"

definition get_session :: "string \<Rightarrow> sessions \<Rightarrow> Session option" where
  "get_session i r = map_of r i"

definition remove_session :: "string \<Rightarrow> sessions \<Rightarrow> bool \<times> sessions" where
  "remove_session i r = (map_of r i \<noteq> None, AList.delete i r)"

definition byEUI :: "u64 \<Rightarrow> (Session \<Rightarrow> bool) \<Rightarrow> sessions \<Rightarrow> (string \<times> Session) option" where
  "byEUI bsEui accept r = find (\<lambda>(i, s). BaseStationEUI s = bsEui \<and> accept s) r"

definition displace :: "string \<Rightarrow> Session \<Rightarrow> sessions \<Rightarrow> sessions \<times> sessions" where
  "displace i s r =
     (filter (\<lambda>(j, x). j \<noteq> i \<and> BaseStationEUI x = BaseStationEUI s) r,
      (i, s) # AList.delete i (filter (\<lambda>(j, x). \<not> (j \<noteq> i \<and> BaseStationEUI x = BaseStationEUI s)) r))"

definition GetSessionByEUI :: "u64 \<Rightarrow> sessions \<Rightarrow> (string \<times> Session) option" where
  "GetSessionByEUI bsEui r = byEUI bsEui HandshakeComplete r"

definition ConnectedStations :: "sessions \<Rightarrow> u64 list" where
  "ConnectedStations r = map (BaseStationEUI \<circ> snd) (filter (HandshakeComplete \<circ> snd) r)"

definition handshakeCompleteSessionIDs :: "string \<Rightarrow> sessions \<Rightarrow> string list" where
  "handshakeCompleteSessionIDs excluded r =
     map fst (filter (\<lambda>(i, s). HandshakeComplete s \<and> i \<noteq> excluded) r)"

section \<open>Choosing a session\<close>

datatype selection_error =
    ErrBaseStationTenantMismatch | ErrBaseStationUnavailable | ErrNoBidirectionalBaseStations
  | ErrSessionNotFound | ErrSessionNotReady | ErrSessionNotBidirectional

definition transmits :: "Session \<Rightarrow> bool" where
  "transmits s \<longleftrightarrow> HandshakeComplete s \<and> Bidirectional s"

text \<open>The loop over the snapshot; the empty ID stands for no candidate yet.\<close>

definition candidate_step :: "i64 \<Rightarrow> string \<times> Session \<Rightarrow> string \<times> u64 \<Rightarrow> string \<times> u64" where
  "candidate_step t e c =
     (case e of (i, s) \<Rightarrow>
        if transmits s \<and> ResolvedTenantID s = t \<and> (fst c = [] \<or> BaseStationEUI s < snd c)
        then (i, BaseStationEUI s) else c)"

definition SelectBidirectionalSession :: "i64 \<Rightarrow> u64 option \<Rightarrow> sessions \<Rightarrow> selection_error + (string \<times> u64)" where
  "SelectBidirectionalSession t target r =
     (case target of
        Some eui \<Rightarrow>
          (case find (\<lambda>(i, s). BaseStationEUI s = eui \<and> transmits s) r of
             Some (i, s) \<Rightarrow>
               if ResolvedTenantID s \<noteq> t then Inl ErrBaseStationTenantMismatch else Inr (i, BaseStationEUI s)
           | None \<Rightarrow> Inl ErrBaseStationUnavailable)
      | None \<Rightarrow>
          (let c = fold (candidate_step t) r ([], 0)
           in if fst c \<noteq> [] then Inr c else Inl ErrNoBidirectionalBaseStations))"

definition FindSessionForEndpointAttachment :: "u64 \<Rightarrow> sessions \<Rightarrow> selection_error + string" where
  "FindSessionForEndpointAttachment bsEui r =
     (case find (\<lambda>(i, s). BaseStationEUI s = bsEui) r of
        None \<Rightarrow> Inl ErrSessionNotFound
      | Some (i, s) \<Rightarrow>
          if \<not> HandshakeComplete s then Inl ErrSessionNotReady
          else if \<not> Bidirectional s then Inl ErrSessionNotBidirectional else Inr i)"

section \<open>The server\<close>

record server =
  byID :: sessions
  sessionsByUUID :: "(bytes \<times> string) list"
  closed :: "string list"
  terminated :: "i64 list"
  offline :: "string list"

definition newServer :: server where
  "newServer = \<lparr>byID = [], sessionsByUUID = [], closed = [], terminated = [], offline = []\<rparr>"

definition StoreSessionByUUID :: "string \<Rightarrow> Session \<Rightarrow> server \<Rightarrow> server" where
  "StoreSessionByUUID i s v = v\<lparr>sessionsByUUID := AList.update (SessionUUID s) i (sessionsByUUID v)\<rparr>"

definition RemoveSession :: "string \<times> Session \<Rightarrow> server \<Rightarrow> server" where
  "RemoveSession e v =
     (case e of (i, s) \<Rightarrow>
        if SessionUUID s = [] then v
        else if map_of (sessionsByUUID v) (SessionUUID s) = Some i
        then v\<lparr>sessionsByUUID := AList.delete (SessionUUID s) (sessionsByUUID v)\<rparr>
        else v)"

definition retire :: "string \<times> Session \<Rightarrow> server \<Rightarrow> server" where
  "retire e v = (RemoveSession e v)\<lparr>closed := closed v @ [fst e]\<rparr>"

definition publishLiveSession :: "string \<Rightarrow> Session \<Rightarrow> server \<Rightarrow> server" where
  "publishLiveSession i s v =
     (case displace i s (byID v) of (stale, r) \<Rightarrow> fold retire stale (v\<lparr>byID := r\<rparr>))"

definition CloseSessionByEUI :: "u64 \<Rightarrow> server \<Rightarrow> bool \<times> server" where
  "CloseSessionByEUI eui v =
     (case byEUI eui (\<lambda>_. True) (byID v) of
        None \<Rightarrow> (False, v)
      | Some (i, s) \<Rightarrow>
          (let v1 = (if DbSessionID s \<noteq> 0 then v\<lparr>terminated := terminated v @ [DbSessionID s]\<rparr> else v);
               v2 = RemoveSession (i, s) v1
           in (True, v2\<lparr>byID := snd (remove_session i (byID v2)), closed := closed v2 @ [i]\<rparr>)))"

text \<open>The maps' part of the deferred cleanup of \<^verbatim>\<open>handleConnection\<close>.\<close>

definition teardownConnection :: "string \<Rightarrow> Session \<Rightarrow> server \<Rightarrow> server" where
  "teardownConnection i s v =
     (case remove_session i (byID v) of (wasLive, r) \<Rightarrow>
        (let v1 = RemoveSession (i, s) (v\<lparr>byID := r\<rparr>)
         in if wasLive then v1\<lparr>offline := offline v1 @ [i]\<rparr> else v1))"

text \<open>A change of a published session that keeps its EUI.\<close>

definition change :: "string \<Rightarrow> (Session \<Rightarrow> Session) \<Rightarrow> server \<Rightarrow> server" where
  "change i f v =
     v\<lparr>byID := map (\<lambda>(j, s). (j, if j = i then (f s)\<lparr>BaseStationEUI := BaseStationEUI s\<rparr> else s)) (byID v)\<rparr>"

datatype server_event =
    Ev_Activate string Session | Ev_Close u64 | Ev_Teardown string Session | Ev_Change string "Session \<Rightarrow> Session"

fun server_step :: "server_event \<Rightarrow> server \<Rightarrow> server" where
  "server_step (Ev_Activate i s) v = StoreSessionByUUID i s (publishLiveSession i s v)"
| "server_step (Ev_Close eui) v = snd (CloseSessionByEUI eui v)"
| "server_step (Ev_Teardown i s) v = teardownConnection i s v"
| "server_step (Ev_Change i f) v = change i f v"

definition server_run :: "server_event list \<Rightarrow> server" where
  "server_run evs = fold server_step evs newServer"

section \<open>The contract of a directory of live sessions\<close>

text \<open>
  What the server relies on: publishing a session leaves it as the only one of its station, removing
  one removes nothing else. In such a directory a station has one session, whatever is done.
\<close>

locale session_directory =
  fixes entries :: "'r \<Rightarrow> (string \<times> Session) set"
    and publish :: "string \<Rightarrow> Session \<Rightarrow> 'r \<Rightarrow> 'r"
    and drop_id :: "string \<Rightarrow> 'r \<Rightarrow> 'r"
    and empty :: 'r
  assumes entries_empty: "entries empty = {}"
    and entries_publish: "entries (publish i s r) =
      insert (i, s) {(j, x) \<in> entries r. j \<noteq> i \<and> BaseStationEUI x \<noteq> BaseStationEUI s}"
    and entries_drop: "entries (drop_id i r) = {(j, x) \<in> entries r. j \<noteq> i}"
begin

definition one_per_station :: "'r \<Rightarrow> bool" where
  "one_per_station r \<longleftrightarrow>
     (\<forall>i s j x. (i, s) \<in> entries r \<and> (j, x) \<in> entries r \<and> (i = j \<or> BaseStationEUI s = BaseStationEUI x) \<longrightarrow> i = j \<and> s = x)"

lemma one_empty: "one_per_station empty"
  by (simp add: one_per_station_def entries_empty)

lemma one_publish: "one_per_station r \<Longrightarrow> one_per_station (publish i s r)"
  unfolding one_per_station_def entries_publish by auto

lemma one_drop: "one_per_station r \<Longrightarrow> one_per_station (drop_id i r)"
  unfolding one_per_station_def entries_drop by auto

lemma published: "(i, s) \<in> entries (publish i s r)"
  by (simp add: entries_publish)

lemma drop_other: "one_per_station r \<Longrightarrow> j \<noteq> i \<Longrightarrow> (j, x) \<in> entries (drop_id i r) \<longleftrightarrow> (j, x) \<in> entries r"
  by (simp add: entries_drop)

end

interpretation dir: session_directory set "\<lambda>i s r. snd (displace i s r)" "\<lambda>i r. snd (remove_session i r)" "[]"
  by unfold_locales (auto simp: displace_def remove_session_def AList.delete_eq)

section \<open>Lemmas\<close>

lemma one_map_of: "dir.one_per_station r \<Longrightarrow> map_of r i = Some s \<longleftrightarrow> (i, s) \<in> set r"
  using map_of_SomeD [of r i s] weak_map_of_SomeI [of i s r] map_of_SomeD [of r i]
  unfolding dir.one_per_station_def by blast

text \<open>A search by EUI finds the one entry there is, in whatever order the entries are visited.\<close>

lemma find_SomeD: "find P xs = Some e \<Longrightarrow> e \<in> set xs \<and> P e"
  by (induction xs) (auto split: if_splits)

lemma one_entry: "dir.one_per_station r \<Longrightarrow> e \<in> set r \<Longrightarrow> e' \<in> set r \<Longrightarrow> BaseStationEUI (snd e) = BaseStationEUI (snd e') \<Longrightarrow> e = e'"
  unfolding dir.one_per_station_def by (metis prod.collapse)

lemma find_one:
  assumes "dir.one_per_station r"
  shows "find (\<lambda>(i, s). BaseStationEUI s = eui \<and> P s) r = Some e \<longleftrightarrow> e \<in> set r \<and> BaseStationEUI (snd e) = eui \<and> P (snd e)"
proof (cases "find (\<lambda>(i, s). BaseStationEUI s = eui \<and> P s) r")
  case None
  then have "\<not> (e \<in> set r \<and> (case e of (i, s) \<Rightarrow> BaseStationEUI s = eui \<and> P s))" unfolding find_None_iff by blast
  then show ?thesis using None by (cases e) simp
next
  case (Some e')
  from find_SomeD [OF this] have e': "e' \<in> set r" "BaseStationEUI (snd e') = eui" "P (snd e')" by (auto simp: case_prod_beta)
  then show ?thesis using Some one_entry [OF assms, of e e'] by auto
qed

lemma find_reordered:
  assumes "dir.one_per_station r" "mset r' = mset r"
  shows "find (\<lambda>(i, s). BaseStationEUI s = eui \<and> P s) r' = find (\<lambda>(i, s). BaseStationEUI s = eui \<and> P s) r"
proof -
  have s: "set r' = set r" using assms(2) by (rule mset_eq_setD)
  then have o': "dir.one_per_station r'" using assms(1) by (simp add: dir.one_per_station_def)
  show ?thesis
  proof (cases "find (\<lambda>(i, s). BaseStationEUI s = eui \<and> P s) r")
    case None
    then have "find (\<lambda>(i, s). BaseStationEUI s = eui \<and> P s) r' = None" unfolding find_None_iff s .
    with None show ?thesis by simp
  next
    case (Some e)
    then have "find (\<lambda>(i, s). BaseStationEUI s = eui \<and> P s) r' = Some e"
      unfolding find_one [OF o'] find_one [OF assms(1)] s .
    with Some show ?thesis by simp
  qed
qed

definition eligible :: "i64 \<Rightarrow> sessions \<Rightarrow> (string \<times> u64) set" where
  "eligible t r = {(i, BaseStationEUI s) | i s. (i, s) \<in> set r \<and> transmits s \<and> ResolvedTenantID s = t}"

text \<open>The candidate after the loop: none, or an eligible one of least EUI.\<close>

definition best :: "string \<times> u64 \<Rightarrow> (string \<times> u64) set \<Rightarrow> bool" where
  "best c E \<longleftrightarrow> (if fst c = [] then E = {} else c \<in> E \<and> (\<forall>x \<in> E. snd c \<le> snd x))"

lemma best_insert:
  assumes "best c E" "i \<noteq> []"
  shows "best (if fst c = [] \<or> e < snd c then (i, e) else c) (insert (i, e) E)"
proof (cases "fst c = [] \<or> e < snd c")
  case True
  then have "x \<in> E \<Longrightarrow> e \<le> snd x" for x using assms(1) by (fastforce simp: best_def split: if_splits)
  then show ?thesis using True assms(2) by (auto simp: best_def)
next
  case False
  then show ?thesis using assms by (auto simp: best_def)
qed

lemma candidate_step_pair:
  "candidate_step t (i, s) c =
     (if transmits s \<and> ResolvedTenantID s = t
      then (if fst c = [] \<or> BaseStationEUI s < snd c then (i, BaseStationEUI s) else c) else c)"
  by (simp add: candidate_step_def)

lemma candidate_fold: "[] \<notin> fst ` set r \<Longrightarrow> best (fold (candidate_step t) r ([], 0)) (eligible t r)"
proof (induction r rule: rev_induct)
  case (snoc e r)
  obtain i s where e: "e = (i, s)" by force
  let ?c = "fold (candidate_step t) r ([], 0)"
  have ih: "best ?c (eligible t r)" and i: "i \<noteq> []" using snoc e by auto
  show ?case
  proof (cases "transmits s \<and> ResolvedTenantID s = t")
    case True
    then have "eligible t (r @ [e]) = insert (i, BaseStationEUI s) (eligible t r)" by (auto simp: eligible_def e)
    then show ?thesis using best_insert [OF ih i, of "BaseStationEUI s"] True by (simp add: candidate_step_pair e)
  next
    case False
    then have "eligible t (r @ [e]) = eligible t r" by (auto simp: eligible_def e)
    then show ?thesis using ih False unfolding e by (simp only: fold_append fold.simps candidate_step_pair if_False o_apply id_apply)
  qed
qed (simp add: best_def eligible_def)

lemma eligible_one:
  "dir.one_per_station r \<Longrightarrow> (i, e) \<in> eligible t r \<Longrightarrow> (j, e) \<in> eligible t r \<Longrightarrow> i = j"
  unfolding eligible_def dir.one_per_station_def by blast

lemma remove_byID [simp]: "byID (RemoveSession e v) = byID v"
  by (simp add: RemoveSession_def split: prod.splits)

lemma retire_byID [simp]: "byID (fold retire es v) = byID v"
  by (induction es arbitrary: v) (simp_all add: retire_def)

lemma publish_byID: "byID (publishLiveSession i s v) = snd (displace i s (byID v))"
  by (simp add: publishLiveSession_def displace_def)

lemma close_byID:
  "byID (snd (CloseSessionByEUI eui v)) =
     (case byEUI eui (\<lambda>_. True) (byID v) of None \<Rightarrow> byID v | Some (i, s) \<Rightarrow> snd (remove_session i (byID v)))"
  by (auto simp: CloseSessionByEUI_def Let_def split: option.splits)

lemma teardown_byID: "byID (teardownConnection i s v) = snd (remove_session i (byID v))"
  by (simp add: teardownConnection_def remove_session_def Let_def)

lemma change_one:
  assumes "dir.one_per_station (byID v)"
  shows "dir.one_per_station (byID (change i f v))"
proof -
  define g where "g j s = (if j = i then (f s)\<lparr>BaseStationEUI := BaseStationEUI s\<rparr> else s)" for j s
  have "BaseStationEUI (g j s) = BaseStationEUI s" for j s by (simp add: g_def)
  moreover have "byID (change i f v) = map (\<lambda>(j, s). (j, g j s)) (byID v)" by (simp add: change_def g_def)
  ultimately show ?thesis using assms unfolding dir.one_per_station_def by fastforce
qed

lemma step_one: "dir.one_per_station (byID v) \<Longrightarrow> dir.one_per_station (byID (server_step ev v))"
proof (cases ev)
  case (Ev_Close eui)
  then show "dir.one_per_station (byID v) \<Longrightarrow> ?thesis"
    by (auto simp: close_byID dir.one_drop split: option.splits)
qed (simp_all add: StoreSessionByUUID_def publish_byID dir.one_publish teardown_byID dir.one_drop change_one)

lemma fold_one: "dir.one_per_station (byID v) \<Longrightarrow> dir.one_per_station (byID (fold server_step evs v))"
  by (induction evs arbitrary: v) (simp_all add: step_one)

lemma run_one: "dir.one_per_station (byID (server_run evs))"
  unfolding server_run_def by (rule fold_one) (simp add: newServer_def dir.one_empty)

lemma remove_uuid:
  "map_of (sessionsByUUID (RemoveSession (i, s) v)) u =
     (if u = SessionUUID s \<and> u \<noteq> [] \<and> map_of (sessionsByUUID v) u = Some i then None else map_of (sessionsByUUID v) u)"
  by (auto simp: RemoveSession_def delete_conv')

lemma eligible_iff:
  "(i, e) \<in> eligible t r \<longleftrightarrow> (\<exists>s. (i, s) \<in> set r \<and> BaseStationEUI s = e \<and> transmits s \<and> ResolvedTenantID s = t)"
  by (auto simp: eligible_def)

lemma pick_iff:
  assumes "dir.one_per_station r" "[] \<notin> fst ` set r"
  shows "SelectBidirectionalSession t None r = Inr (i, e) \<longleftrightarrow> (i, e) \<in> eligible t r \<and> (\<forall>x \<in> eligible t r. e \<le> snd x)"
proof -
  define c where "c = fold (candidate_step t) r ([], 0)"
  have b: "best c (eligible t r)" unfolding c_def by (rule candidate_fold [OF assms(2)])
  have sel: "SelectBidirectionalSession t None r = (if fst c \<noteq> [] then Inr c else Inl ErrNoBidirectionalBaseStations)"
    by (simp add: SelectBidirectionalSession_def c_def Let_def)
  show ?thesis
  proof (cases "fst c = []")
    case True
    then show ?thesis using b sel by (simp add: best_def)
  next
    case False
    then have c: "c \<in> eligible t r" "\<forall>x \<in> eligible t r. snd c \<le> snd x" using b by (simp_all add: best_def)
    have "c = (i, e)" if ie: "(i, e) \<in> eligible t r" "\<forall>x \<in> eligible t r. e \<le> snd x"
    proof -
      have "snd c \<le> e" "e \<le> snd c" using c(2) ie(1) c(1) ie(2) by force+
      then have "snd c = e" by (rule order_antisym)
      moreover from this have "fst c = i" using eligible_one [OF assms(1) _ ie(1), of "fst c"] c(1) by (metis prod.collapse)
      ultimately show ?thesis by (simp add: prod_eq_iff)
    qed
    then show ?thesis using False c sel by auto
  qed
qed

lemma pick_none:
  "[] \<notin> fst ` set r \<Longrightarrow> SelectBidirectionalSession t None r = Inl ErrNoBidirectionalBaseStations \<longleftrightarrow> eligible t r = {}"
  using candidate_fold [of r t] by (cases "fst (fold (candidate_step t) r ([], 0)) = []")
    (auto simp: SelectBidirectionalSession_def Let_def best_def)

lemma pick_other: "SelectBidirectionalSession t None r = Inl x \<Longrightarrow> x = ErrNoBidirectionalBaseStations"
  by (simp add: SelectBidirectionalSession_def Let_def split: if_splits)

lemma target_cases:
  assumes "dir.one_per_station r"
  obtains (none) "SelectBidirectionalSession t (Some eui) r = Inl ErrBaseStationUnavailable" "\<And>t' j. (j, eui) \<notin> eligible t' r"
  | (found) j t' where "\<And>i u. (i, eui) \<in> eligible u r \<longleftrightarrow> i = j \<and> u = t'"
      "SelectBidirectionalSession t (Some eui) r = (if t' = t then Inr (j, eui) else Inl ErrBaseStationTenantMismatch)"
proof (cases "find (\<lambda>(i, s). BaseStationEUI s = eui \<and> transmits s) r")
  case None
  then have "\<And>t' j. (j, eui) \<notin> eligible t' r" unfolding find_None_iff eligible_iff by blast
  then show ?thesis using none None by (simp add: SelectBidirectionalSession_def)
next
  case (Some e)
  obtain j s where e: "e = (j, s)" by force
  have js: "(j, s) \<in> set r" "BaseStationEUI s = eui" "transmits s"
    using Some unfolding find_one [OF assms] e by simp_all
  have "(i, eui) \<in> eligible u r \<longleftrightarrow> i = j \<and> u = ResolvedTenantID s" for i u
  proof
    assume "(i, eui) \<in> eligible u r"
    then obtain s' where s': "(i, s') \<in> set r" "BaseStationEUI s' = eui" "ResolvedTenantID s' = u" unfolding eligible_iff by blast
    with one_entry [OF assms s'(1) js(1)] js(2) show "i = j \<and> u = ResolvedTenantID s" by simp
  next
    assume "i = j \<and> u = ResolvedTenantID s"
    with js show "(i, eui) \<in> eligible u r" unfolding eligible_iff by blast
  qed
  moreover have "SelectBidirectionalSession t (Some eui) r =
      (if ResolvedTenantID s = t then Inr (j, eui) else Inl ErrBaseStationTenantMismatch)"
    using Some js(2) by (simp add: SelectBidirectionalSession_def e)
  ultimately show ?thesis by (rule found)
qed

lemma select_reordered:
  assumes "dir.one_per_station r" "[] \<notin> fst ` set r" "mset r' = mset r"
  shows "SelectBidirectionalSession t target r' = SelectBidirectionalSession t target r"
proof (cases target)
  case None
  have s: "set r' = set r" using assms(3) by (rule mset_eq_setD)
  then have q: "dir.one_per_station r'" "[] \<notin> fst ` set r'" and e: "eligible t r' = eligible t r"
    using assms(1,2) by (simp_all add: dir.one_per_station_def eligible_def)
  show ?thesis
  proof (cases "SelectBidirectionalSession t None r")
    case (Inr a)
    then have "SelectBidirectionalSession t None r' = Inr (fst a, snd a)" unfolding pick_iff [OF q] e
      using pick_iff [OF assms(1,2), of t "fst a" "snd a"] by simp
    then show ?thesis using None Inr by simp
  next
    case (Inl a)
    with pick_other have "SelectBidirectionalSession t None r = Inl ErrNoBidirectionalBaseStations" by blast
    then show ?thesis unfolding None using pick_none [OF q(2), of t] pick_none [OF assms(2), of t] e by simp
  qed
qed (simp add: SelectBidirectionalSession_def find_reordered [OF assms(1,3)])

section \<open>Theorems\<close>

text \<open>
  C19. Whatever connections are activated, closed, torn down or changed, in whatever order, a base
  station has at most one live session and an ID names one: so the lookup by EUI answers the same
  session in every iteration order of the map, and after an activation it is the one just published.
\<close>

theorem one_live_session_per_station:
  "((i, s) \<in> set (byID (server_run evs)) \<and> (j, x) \<in> set (byID (server_run evs)) \<and> BaseStationEUI s = BaseStationEUI x
      \<longrightarrow> i = j \<and> s = x) \<and>
   (mset r = mset (byID (server_run evs)) \<longrightarrow> byEUI eui accept r = byEUI eui accept (byID (server_run evs))) \<and>
   byEUI (BaseStationEUI s) (\<lambda>_. True) (byID (server_run (evs @ [Ev_Activate i s]))) = Some (i, s)"
proof (intro conjI impI)
  assume "(i, s) \<in> set (byID (server_run evs)) \<and> (j, x) \<in> set (byID (server_run evs)) \<and> BaseStationEUI s = BaseStationEUI x"
  then show "i = j" "s = x" using run_one [of evs] unfolding dir.one_per_station_def by blast+
next
  assume "mset r = mset (byID (server_run evs))"
  then show "byEUI eui accept r = byEUI eui accept (byID (server_run evs))"
    unfolding byEUI_def by (rule find_reordered [OF run_one])
next
  have "(i, s) \<in> set (byID (server_run (evs @ [Ev_Activate i s])))"
    by (simp add: server_run_def StoreSessionByUUID_def publish_byID dir.published)
  then show "byEUI (BaseStationEUI s) (\<lambda>_. True) (byID (server_run (evs @ [Ev_Activate i s]))) = Some (i, s)"
    unfolding byEUI_def by (subst find_one [OF run_one]) simp
qed

definition demo_live :: "u64 \<Rightarrow> Session" where
  "demo_live eui = (newSession 1)\<lparr>BaseStationEUI := eui, SessionUUID := replicate 16 7, ResolvedTenantID := 1,
     HandshakeComplete := True, Bidirectional := True\<rparr>"

theorem one_live_session_per_station_witness:
  "let r = byID (server_run [Ev_Activate ''a'' (demo_live 5), Ev_Activate ''b'' (demo_live 6)])
   in mset (rev r) = mset r \<and> byEUI 5 (\<lambda>_. True) (rev r) = byEUI 5 (\<lambda>_. True) r"
proof -
  define evs where "evs = [Ev_Activate ''a'' (demo_live 5), Ev_Activate ''b'' (demo_live 6)]"
  have "mset (rev (byID (server_run evs))) = mset (byID (server_run evs))" by simp
  with one_live_session_per_station [of _ _ evs] show ?thesis unfolding evs_def [symmetric] Let_def by blast
qed

text \<open>
  The station for an uplink transmission is chosen within the tenant and by its EUI alone. With
  no station requested it is the eligible one of least EUI, and there is an answer exactly when one
  is eligible; with a station requested it is that station, refused as another tenant's or as
  unavailable. No answer depends on the iteration order of the map.
\<close>

theorem SelectBidirectionalSession_choice:
  assumes "r = byID (server_run evs)" "[] \<notin> fst ` set r"
  shows "(SelectBidirectionalSession t None r = Inr (i, e) \<longleftrightarrow> (i, e) \<in> eligible t r \<and> (\<forall>x \<in> eligible t r. e \<le> snd x)) \<and>
    (SelectBidirectionalSession t None r = Inl ErrNoBidirectionalBaseStations \<longleftrightarrow> eligible t r = {}) \<and>
    (SelectBidirectionalSession t (Some eui) r = Inr (i, e) \<longleftrightarrow> e = eui \<and> (i, e) \<in> eligible t r) \<and>
    (SelectBidirectionalSession t (Some eui) r = Inl ErrBaseStationTenantMismatch \<longleftrightarrow>
       (\<exists>t' j. t' \<noteq> t \<and> (j, eui) \<in> eligible t' r)) \<and>
    (mset r' = mset r \<longrightarrow> SelectBidirectionalSession t target r' = SelectBidirectionalSession t target r)"
proof -
  have one: "dir.one_per_station r" using assms(1) run_one by simp
  have t: "SelectBidirectionalSession t (Some eui) r = Inr (i, e) \<longleftrightarrow> e = eui \<and> (i, e) \<in> eligible t r"
    by (rule target_cases [OF one, of t eui]) auto
  have m: "SelectBidirectionalSession t (Some eui) r = Inl ErrBaseStationTenantMismatch \<longleftrightarrow> (\<exists>t' j. t' \<noteq> t \<and> (j, eui) \<in> eligible t' r)"
    by (rule target_cases [OF one, of t eui]) auto
  show ?thesis
    by (intro conjI impI pick_iff [OF one assms(2)] pick_none [OF assms(2)] t m select_reordered [OF one assms(2)])
qed

theorem SelectBidirectionalSession_choice_witness:
  "let r = byID (server_run [Ev_Activate ''a'' (demo_live 6), Ev_Activate ''b'' (demo_live 5)])
   in SelectBidirectionalSession 1 None r = Inr (''b'', 5) \<and> SelectBidirectionalSession 1 None (rev r) = Inr (''b'', 5)"
proof -
  let ?r = "byID (server_run [Ev_Activate ''a'' (demo_live 6), Ev_Activate ''b'' (demo_live 5)])"
  have c: "SelectBidirectionalSession 1 None ?r = Inr (''b'', 5)" "[] \<notin> fst ` set ?r" by code_simp+
  have "SelectBidirectionalSession 1 None (rev ?r) = SelectBidirectionalSession 1 None ?r"
    using SelectBidirectionalSession_choice [OF refl c(2), of 1 _ _ _ "rev ?r" None] by simp
  then show ?thesis using c(1) by (simp add: Let_def)
qed

text \<open>
  C30. Tearing down a connection undoes nothing of another: its successor for the same station, once
  published, stays live and findable by UUID, the displaced connection has been closed, and only the
  connection that was live takes the station offline.
\<close>

theorem teardown_spares_successor:
  assumes "i \<noteq> j" "BaseStationEUI s = BaseStationEUI x" "(i, s) \<in> set (byID (server_run evs))"
  defines "v \<equiv> server_run (evs @ [Ev_Activate j x])"
  defines "v' \<equiv> teardownConnection i s v"
  shows "(j, x) \<in> set (byID v') \<and> (i, s) \<notin> set (byID v) \<and> i \<in> set (closed v) \<and>
    map_of (sessionsByUUID v') (SessionUUID x) = Some j \<and> offline v' = offline v"
proof -
  let ?w = "server_run evs"
  have v: "v = StoreSessionByUUID j x (publishLiveSession j x ?w)" by (simp add: v_def server_run_def)
  have b: "byID v = snd (displace j x (byID ?w))" by (simp add: v StoreSessionByUUID_def publish_byID)
  have gone: "(i, y) \<notin> set (byID v)" for y
  proof
    assume y: "(i, y) \<in> set (byID v)"
    with b assms(1) have "(i, y) \<in> set (byID ?w)" "BaseStationEUI y \<noteq> BaseStationEUI x" by (auto simp: displace_def AList.delete_eq)
    then show False using run_one [of evs] assms(2,3) unfolding dir.one_per_station_def by metis
  qed
  have closes: "set (closed (fold retire es u)) = set (closed u) \<union> fst ` set es" for es u
    by (induction es arbitrary: u) (auto simp: retire_def)
  have "i \<in> set (closed v)" using assms(1-3)
    by (force simp: v StoreSessionByUUID_def publishLiveSession_def displace_def closes)
  moreover have "(j, x) \<in> set (byID v')"
    unfolding v'_def teardown_byID dir.entries_drop b using assms(1) dir.published by auto
  moreover have "map_of (sessionsByUUID v') (SessionUUID x) = Some j"
    using assms(1) by (simp add: v'_def teardownConnection_def remove_session_def Let_def remove_uuid) (simp add: v StoreSessionByUUID_def)
  moreover have "map_of (byID v) i = None" using gone by (force simp: map_of_eq_None_iff)
  then have "offline v' = offline v"
    by (simp add: v'_def teardownConnection_def remove_session_def Let_def RemoveSession_def)
  ultimately show ?thesis using gone by blast
qed

theorem teardown_spares_successor_witness:
  "let v = server_run [Ev_Activate ''a'' (demo_live 5), Ev_Activate ''b'' (demo_live 5)];
       v' = teardownConnection ''a'' (demo_live 5) v
   in (''b'', demo_live 5) \<in> set (byID v') \<and> offline v' = offline v"
proof -
  have "(''a'', demo_live 5) \<in> set (byID (server_run [Ev_Activate ''a'' (demo_live 5)]))"
    by (simp add: server_run_def StoreSessionByUUID_def publish_byID dir.published)
  from teardown_spares_successor [OF _ refl this, of "''b''"] show ?thesis by (simp add: Let_def)
qed

end
