(* ===== verification/Operation_Journal.thy ===== *)
theory Operation_Journal
  imports Service_Requests
begin

text \<open>
  One persisted session over its whole life: the tasks that start operations on it concurrently, the
  loss of its connection, restarts of the service center and resumes. \<^theory_text>\<open>Service_Requests\<close> runs one
  request at a time; here every statement of a request is a step of its own and the steps interleave.

  A task takes an ID from the counter of its connection (\<^verbatim>\<open>NextScOpID\<close>), reads the counters, writes
  them (\<^verbatim>\<open>UpdateOperationIDs\<close>), records the operation and writes the frame; a frame that was not written
  takes the record back by its ID. The counter lives in the session object of the connection, so a
  task that outlives its connection goes on with the old counter. A resume loads the records, reads
  the counter of the row and then claims the row with one update that writes that value back
  (\<^verbatim>\<open>PersistSession\<close>, \<^verbatim>\<open>ActivateSessionIfResumable\<close>).

  Shown: when no task of an earlier connection is left at a resume and the row has not moved since it
  was read, no two operations of the session ever get the same ID and every frame on the wire keeps
  its own record until it is answered; without that, an interleaving exists in which a frame is on
  the wire and its record is gone.
\<close>

section \<open>State\<close>

datatype task_phase = Idle | Allocated i64 | Snapped i64 i64 | Counted i64 | Recorded i64

record jsys =
  rowSc :: i64
  resumableRow :: bool
  rowOwner :: nat
  counters :: "(nat \<times> i64) list"
  openConns :: "nat list"
  opTable :: "(i64 \<times> nat) list"
  loadedOps :: "(nat \<times> (i64 \<times> nat) list) list"
  rowReads :: "(nat \<times> i64) list"
  tasks :: "(nat \<times> nat \<times> task_phase) list"
  onwire :: "(nat \<times> i64 \<times> nat) list"
  answered :: "nat list"
  history :: "(i64 \<times> nat) list"
  usedOps :: "nat list"

text \<open>A new session: its row, its first connection and nothing in flight.\<close>

definition newJournal :: jsys where
  "newJournal = \<lparr>rowSc = 0, resumableRow = False, rowOwner = 0, counters = [(0, 0)], openConns = [0], opTable = [],
     loadedOps = [], rowReads = [], tasks = [], onwire = [], answered = [], history = [], usedOps = []\<rparr>"

definition set_phase :: "nat \<Rightarrow> nat \<Rightarrow> task_phase \<Rightarrow> jsys \<Rightarrow> jsys" where
  "set_phase op c p s = s\<lparr>tasks := AList.update op (c, p) (tasks s)\<rparr>"

definition end_task :: "nat \<Rightarrow> jsys \<Rightarrow> jsys" where
  "end_task op s = s\<lparr>tasks := AList.delete op (tasks s)\<rparr>"

section \<open>Steps of a task\<close>

text \<open>A task gets hold of a session that is in the registry.\<close>

definition start_task :: "nat \<Rightarrow> nat \<Rightarrow> jsys \<Rightarrow> jsys option" where
  "start_task op c s =
     (if c \<in> set (openConns s) \<and> op \<notin> set (usedOps s)
      then Some (set_phase op c Idle (s\<lparr>usedOps := op # usedOps s\<rparr>)) else None)"

definition alloc_id :: "nat \<Rightarrow> jsys \<Rightarrow> jsys option" where
  "alloc_id op s =
     (case map_of (tasks s) op of
        Some (c, Idle) \<Rightarrow>
          (case map_of (counters s) c of
             Some l \<Rightarrow>
               if - (2 ^ 63) < sint l
               then Some (set_phase op c (Allocated (l - 1)) (s\<lparr>counters := AList.update c (l - 1) (counters s)\<rparr>))
               else None
           | None \<Rightarrow> None)
      | _ \<Rightarrow> None)"

definition read_counters :: "nat \<Rightarrow> jsys \<Rightarrow> jsys option" where
  "read_counters op s =
     (case map_of (tasks s) op of
        Some (c, Allocated i) \<Rightarrow> map_option (\<lambda>l. set_phase op c (Snapped i l) s) (map_of (counters s) c)
      | _ \<Rightarrow> None)"

definition lower_row :: "i64 \<Rightarrow> jsys \<Rightarrow> jsys" where
  "lower_row v s = s\<lparr>rowSc := snd (UpdateOperationIDs 0 v (0, rowSc s))\<rparr>"

definition write_counters :: "nat \<Rightarrow> bool \<Rightarrow> jsys \<Rightarrow> jsys option" where
  "write_counters op ok s =
     (case map_of (tasks s) op of
        Some (c, Snapped i v) \<Rightarrow> Some (if ok then set_phase op c (Counted i) (lower_row v s) else end_task op s)
      | _ \<Rightarrow> None)"

definition record_op :: "nat \<Rightarrow> bool \<Rightarrow> jsys \<Rightarrow> jsys option" where
  "record_op op ok s =
     (case map_of (tasks s) op of
        Some (c, Counted i) \<Rightarrow>
          Some (if ok then set_phase op c (Recorded i)
                  (s\<lparr>opTable := AList.update i op (opTable s), history := (i, op) # history s\<rparr>)
                else end_task op s)
      | _ \<Rightarrow> None)"

text \<open>On a closed connection a frame is certainly not written.\<close>

definition write_frame :: "nat \<Rightarrow> send_outcome \<Rightarrow> jsys \<Rightarrow> jsys option" where
  "write_frame op outcome s =
     (case map_of (tasks s) op of
        Some (c, Recorded i) \<Rightarrow>
          (case outcome of
             NotWritten \<Rightarrow> Some ((end_task op s)\<lparr>opTable := AList.delete i (opTable s)\<rparr>)
           | Written \<Rightarrow>
               if c \<in> set (openConns s) then Some ((end_task op s)\<lparr>onwire := (c, i, op) # onwire s\<rparr>) else None
           | MaybeWritten \<Rightarrow>
               if c \<in> set (openConns s)
               then Some ((end_task op s)\<lparr>onwire := (c, i, op) # onwire s, openConns := removeAll c (openConns s)\<rparr>) else None)
      | _ \<Rightarrow> None)"

section \<open>Answers, disconnection, resume\<close>

definition answer_op :: "nat \<times> i64 \<times> nat \<Rightarrow> jsys \<Rightarrow> jsys option" where
  "answer_op f s =
     (case f of (c, i, op) \<Rightarrow>
        if f \<in> set (onwire s) \<and> c \<in> set (openConns s)
        then Some (s\<lparr>opTable := AList.delete i (opTable s), answered := op # answered s\<rparr>) else None)"

definition lose_connection :: "nat \<Rightarrow> jsys \<Rightarrow> jsys" where
  "lose_connection c s = s\<lparr>openConns := removeAll c (openConns s)\<rparr>"

text \<open>The teardown's own counter write, which may fail, and the release of the row.\<close>

definition flush_counters :: "nat \<Rightarrow> jsys \<Rightarrow> jsys option" where
  "flush_counters c s = (if c \<in> set (openConns s) then None else map_option (\<lambda>l. lower_row l s) (map_of (counters s) c))"

definition mark_disconnected :: "nat \<Rightarrow> jsys \<Rightarrow> jsys option" where
  "mark_disconnected c s =
     (if c \<in> set (openConns s) then None else Some (if rowOwner s = c then s\<lparr>resumableRow := True\<rparr> else s))"

definition load_ops :: "nat \<Rightarrow> jsys \<Rightarrow> jsys" where
  "load_ops n s = s\<lparr>loadedOps := AList.update n (opTable s) (loadedOps s)\<rparr>"

definition read_row :: "nat \<Rightarrow> jsys \<Rightarrow> jsys" where
  "read_row n s = s\<lparr>rowReads := AList.update n (rowSc s) (rowReads s)\<rparr>"

text \<open>
  The claim of the row by a new connection, and the reissue of what it loaded. \<open>strict\<close> adds the
  proviso of the safety theorem: nothing of an earlier connection is in progress, and the row and the
  records are as they were read.
\<close>

definition activate :: "bool \<Rightarrow> nat \<Rightarrow> jsys \<Rightarrow> jsys option" where
  "activate strict n s =
     (case (map_of (rowReads s) n, map_of (loadedOps s) n) of
        (Some v, Some ops) \<Rightarrow>
          if resumableRow s \<and> map_of (counters s) n = None \<and>
             (strict \<longrightarrow> tasks s = [] \<and> rowSc s = v \<and> opTable s = ops)
          then Some (s\<lparr>rowSc := v, resumableRow := False, rowOwner := n, counters := (n, v) # counters s,
                       openConns := n # openConns s, onwire := map (\<lambda>(i, op). (n, i, op)) ops @ onwire s\<rparr>)
          else None
      | _ \<Rightarrow> None)"

text \<open>A restart of the service center: only the database survives, and its row is resumable.\<close>

definition restart :: "jsys \<Rightarrow> jsys" where
  "restart s = s\<lparr>tasks := [], openConns := [], loadedOps := [], rowReads := [], resumableRow := True,
     counters := []\<rparr>"

datatype journal_event =
    Start nat nat | Alloc nat | ReadCounters nat | WriteCounters nat bool | Record nat bool | Frame nat send_outcome
  | Answer "nat \<times> i64 \<times> nat" | Lose nat | Flush nat | Mark nat | Load nat | ReadRow nat | Activate nat | Restart

fun journal_step :: "bool \<Rightarrow> journal_event \<Rightarrow> jsys \<Rightarrow> jsys option" where
  "journal_step strict (Start op c) s = start_task op c s"
| "journal_step strict (Alloc op) s = alloc_id op s"
| "journal_step strict (ReadCounters op) s = read_counters op s"
| "journal_step strict (WriteCounters op ok) s = write_counters op ok s"
| "journal_step strict (Record op ok) s = record_op op ok s"
| "journal_step strict (Frame op r) s = write_frame op r s"
| "journal_step strict (Answer f) s = answer_op f s"
| "journal_step strict (Lose c) s = Some (lose_connection c s)"
| "journal_step strict (Flush c) s = flush_counters c s"
| "journal_step strict (Mark c) s = mark_disconnected c s"
| "journal_step strict (Load n) s = Some (load_ops n s)"
| "journal_step strict (ReadRow n) s = Some (read_row n s)"
| "journal_step strict (Activate n) s = activate strict n s"
| "journal_step strict Restart s = Some (restart s)"

fun journal_run :: "bool \<Rightarrow> journal_event list \<Rightarrow> jsys \<Rightarrow> jsys option" where
  "journal_run strict [] s = Some s"
| "journal_run strict (e # es) s = (case journal_step strict e s of Some s' \<Rightarrow> journal_run strict es s' | None \<Rightarrow> None)"

section \<open>Invariant\<close>

fun fresh_id :: "task_phase \<Rightarrow> i64 option" where
  "fresh_id (Allocated i) = Some i"
| "fresh_id (Snapped i v) = Some i"
| "fresh_id (Counted i) = Some i"
| "fresh_id _ = None"

text \<open>What a task in a phase has secured: \<open>l\<close> is its connection's counter, \<open>r\<close> the row's.\<close>

fun phase_ok :: "i64 \<Rightarrow> i64 \<Rightarrow> (i64 \<times> nat) list \<Rightarrow> (i64 \<times> nat) list \<Rightarrow> nat \<Rightarrow> task_phase \<Rightarrow> bool" where
  "phase_ok l r h tab op Idle = True"
| "phase_ok l r h tab op (Allocated i) = (sint l \<le> sint i)"
| "phase_ok l r h tab op (Snapped i v) = (sint l \<le> sint v \<and> sint v \<le> sint i)"
| "phase_ok l r h tab op (Counted i) = (sint l \<le> sint i \<and> sint r \<le> sint i)"
| "phase_ok l r h tab op (Recorded i) = ((i, op) \<in> set h \<and> map_of tab i = Some op)"

definition task_ok :: "jsys \<Rightarrow> nat \<Rightarrow> nat \<Rightarrow> task_phase \<Rightarrow> bool" where
  "task_ok s op c p \<longleftrightarrow> c = rowOwner s \<and> op \<in> set (usedOps s) \<and>
     (\<exists>l. map_of (counters s) c = Some l \<and> phase_ok l (rowSc s) (history s) (opTable s) op p) \<and>
     (\<forall>i. fresh_id p = Some i \<longrightarrow> i \<notin> fst ` set (history s))"

definition fresh_unique :: "(nat \<times> nat \<times> task_phase) list \<Rightarrow> bool" where
  "fresh_unique ts \<longleftrightarrow>
     (\<forall>op c p op' c' p' i. map_of ts op = Some (c, p) \<and> map_of ts op' = Some (c', p') \<and>
        fresh_id p = Some i \<and> fresh_id p' = Some i \<longrightarrow> op = op')"

definition tasks_inv :: "jsys \<Rightarrow> bool" where
  "tasks_inv s \<longleftrightarrow> (\<forall>op c p. map_of (tasks s) op = Some (c, p) \<longrightarrow> task_ok s op c p) \<and> fresh_unique (tasks s)"

definition ids_inv :: "jsys \<Rightarrow> bool" where
  "ids_inv s \<longleftrightarrow> distinct (map fst (history s)) \<and> distinct (map fst (opTable s)) \<and> set (opTable s) \<subseteq> set (history s) \<and>
     snd ` set (history s) \<subseteq> set (usedOps s) \<and>
     (\<forall>(i, op) \<in> set (history s). sint (rowSc s) \<le> sint i \<and>
        (\<forall>l. map_of (counters s) (rowOwner s) = Some l \<longrightarrow> sint l \<le> sint i))"

definition wire_inv :: "jsys \<Rightarrow> bool" where
  "wire_inv s \<longleftrightarrow>
     (\<forall>(c, i, op) \<in> set (onwire s). (i, op) \<in> set (history s) \<and> map_of (tasks s) op = None \<and>
        (op \<notin> set (answered s) \<longrightarrow> map_of (opTable s) i = Some op))"

definition conns_inv :: "jsys \<Rightarrow> bool" where
  "conns_inv s \<longleftrightarrow> set (openConns s) \<subseteq> {rowOwner s} \<and> (resumableRow s \<longrightarrow> openConns s = []) \<and>
     (openConns s \<noteq> [] \<longrightarrow> map_of (counters s) (rowOwner s) \<noteq> None)"

definition journal_inv :: "jsys \<Rightarrow> bool" where
  "journal_inv s \<longleftrightarrow> tasks_inv s \<and> ids_inv s \<and> wire_inv s \<and> conns_inv s"

text \<open>Which parts of the state each clause does not read.\<close>

lemma clause_fields [simp]:
  "task_ok (s\<lparr>resumableRow := b\<rparr>) = task_ok s" "task_ok (s\<lparr>openConns := cs\<rparr>) = task_ok s" "task_ok (s\<lparr>onwire := w\<rparr>) = task_ok s"
  "task_ok (s\<lparr>answered := a\<rparr>) = task_ok s" "task_ok (s\<lparr>loadedOps := m\<rparr>) = task_ok s" "task_ok (s\<lparr>rowReads := m'\<rparr>) = task_ok s"
  "ids_inv (s\<lparr>resumableRow := b\<rparr>) = ids_inv s" "ids_inv (s\<lparr>openConns := cs\<rparr>) = ids_inv s" "ids_inv (s\<lparr>onwire := w\<rparr>) = ids_inv s"
  "ids_inv (s\<lparr>answered := a\<rparr>) = ids_inv s" "ids_inv (s\<lparr>loadedOps := m\<rparr>) = ids_inv s" "ids_inv (s\<lparr>rowReads := m'\<rparr>) = ids_inv s"
  "wire_inv (s\<lparr>resumableRow := b\<rparr>) = wire_inv s" "wire_inv (s\<lparr>openConns := cs\<rparr>) = wire_inv s"
  "wire_inv (s\<lparr>loadedOps := m\<rparr>) = wire_inv s" "wire_inv (s\<lparr>rowReads := m'\<rparr>) = wire_inv s"
  by (simp_all add: fun_eq_iff task_ok_def ids_inv_def wire_inv_def)

lemma journal_inv_new: "journal_inv newJournal"
  by (simp add: journal_inv_def tasks_inv_def fresh_unique_def ids_inv_def wire_inv_def conns_inv_def newJournal_def)

lemma same_id: "ids_inv s \<Longrightarrow> (i, op) \<in> set (history s) \<Longrightarrow> (i, op') \<in> set (history s) \<Longrightarrow> op = op'"
  unfolding ids_inv_def by (meson eq_key_imp_eq_value)

lemma map_of_tasks [simp]:
  "map_of (tasks (set_phase op c p s)) op' = (if op' = op then Some (c, p) else map_of (tasks s) op')"
  "map_of (tasks (end_task op s)) op' = (if op' = op then None else map_of (tasks s) op')"
  by (simp_all add: set_phase_def end_task_def update_conv' delete_conv')

lemma phase_fields [simp]:
  "rowSc (set_phase op c p s) = rowSc s" "rowSc (end_task op s) = rowSc s"
  "resumableRow (set_phase op c p s) = resumableRow s" "resumableRow (end_task op s) = resumableRow s"
  "rowOwner (set_phase op c p s) = rowOwner s" "rowOwner (end_task op s) = rowOwner s"
  "counters (set_phase op c p s) = counters s" "counters (end_task op s) = counters s"
  "openConns (set_phase op c p s) = openConns s" "openConns (end_task op s) = openConns s"
  "opTable (set_phase op c p s) = opTable s" "opTable (end_task op s) = opTable s"
  "onwire (set_phase op c p s) = onwire s" "onwire (end_task op s) = onwire s"
  "answered (set_phase op c p s) = answered s" "answered (end_task op s) = answered s"
  "history (set_phase op c p s) = history s" "history (end_task op s) = history s"
  "usedOps (set_phase op c p s) = usedOps s" "usedOps (end_task op s) = usedOps s"
  by (simp_all add: set_phase_def end_task_def)

lemma lower_fields [simp]:
  "resumableRow (lower_row v s) = resumableRow s" "rowOwner (lower_row v s) = rowOwner s" "counters (lower_row v s) = counters s"
  "openConns (lower_row v s) = openConns s" "opTable (lower_row v s) = opTable s" "onwire (lower_row v s) = onwire s"
  "answered (lower_row v s) = answered s" "history (lower_row v s) = history s" "usedOps (lower_row v s) = usedOps s"
  "tasks (lower_row v s) = tasks s"
  by (simp_all add: lower_row_def)

lemma lower_row_sint: "sint (rowSc (lower_row v s)) = min (sint v) (sint (rowSc s))"
  by (simp add: lower_row_def UpdateOperationIDs_def min_def)

text \<open>Lowering the row keeps every bound.\<close>

lemma phase_ok_mono:
  "phase_ok l r h tab op p \<Longrightarrow> sint l' \<le> sint l \<Longrightarrow> sint r' \<le> sint r \<Longrightarrow> set h \<subseteq> set h' \<Longrightarrow>
     (\<And>i. p = Recorded i \<Longrightarrow> map_of tab' i = map_of tab i) \<Longrightarrow> phase_ok l' r' h' tab' op p"
  by (cases p) auto

text \<open>What a task has secured survives every step that only lowers counters and keeps its record.\<close>

lemma task_ok_mono:
  assumes "task_ok s op c p" "rowOwner s' = rowOwner s" "set (usedOps s) \<subseteq> set (usedOps s')"
    and "\<And>l. map_of (counters s) c = Some l \<Longrightarrow> \<exists>l'. map_of (counters s') c = Some l' \<and> sint l' \<le> sint l"
    and "sint (rowSc s') \<le> sint (rowSc s)" "set (history s) \<subseteq> set (history s')"
    and "\<And>i. fresh_id p = Some i \<Longrightarrow> i \<in> fst ` set (history s') \<Longrightarrow> i \<in> fst ` set (history s)"
    and "\<And>i. p = Recorded i \<Longrightarrow> map_of (opTable s') i = map_of (opTable s) i"
  shows "task_ok s' op c p"
proof -
  from assms(1) obtain l where l: "map_of (counters s) c = Some l" "phase_ok l (rowSc s) (history s) (opTable s) op p"
    unfolding task_ok_def by blast
  with assms(4) obtain l' where "map_of (counters s') c = Some l'" "sint l' \<le> sint l" by blast
  with phase_ok_mono [OF l(2) _ assms(5,6)] assms(8) have "\<exists>l. map_of (counters s') c = Some l \<and> phase_ok l (rowSc s') (history s') (opTable s') op p"
    by blast
  moreover have "\<forall>i. fresh_id p = Some i \<longrightarrow> i \<notin> fst ` set (history s')" using assms(1,7) unfolding task_ok_def by blast
  moreover have "c = rowOwner s'" "op \<in> set (usedOps s')" using assms(1-3) by (auto simp: task_ok_def)
  ultimately show ?thesis unfolding task_ok_def by blast
qed

lemma task_ok_phase [simp]: "task_ok (set_phase op c q s) o1 c1 p1 = task_ok s o1 c1 p1"
  by (simp add: task_ok_def)

lemma tasks_phase:
  assumes "\<And>o1 c1 p1. o1 \<noteq> op \<Longrightarrow> map_of (tasks s) o1 = Some (c1, p1) \<Longrightarrow> task_ok s o1 c1 p1"
    and "task_ok s op c q" "fresh_unique (AList.update op (c, q) (tasks s))"
  shows "tasks_inv (set_phase op c q s)"
  unfolding tasks_inv_def
proof (intro conjI allI impI)
  fix o1 c1 p1 assume "map_of (tasks (set_phase op c q s)) o1 = Some (c1, p1)"
  then show "task_ok (set_phase op c q s) o1 c1 p1" using assms(1,2) by (cases "o1 = op") simp_all
qed (simp add: set_phase_def assms(3))

lemma unique_end: "fresh_unique ts \<Longrightarrow> fresh_unique (AList.delete op ts)"
  unfolding fresh_unique_def delete_conv' by (auto split: if_splits)

lemma unique_keep:
  assumes "fresh_unique ts" "map_of ts op = Some (c, p)" "fresh_id q = fresh_id p \<or> fresh_id q = None"
  shows "fresh_unique (AList.update op (c', q) ts)"
  unfolding fresh_unique_def update_conv'
proof (intro allI impI, elim conjE)
  fix o1 c1 p1 o2 c2 p2 i
  assume "((map_of ts)(op \<mapsto> (c', q))) o1 = Some (c1, p1)" "((map_of ts)(op \<mapsto> (c', q))) o2 = Some (c2, p2)"
    "fresh_id p1 = Some i" "fresh_id p2 = Some i"
  then have "\<exists>c p. map_of ts o1 = Some (c, p) \<and> fresh_id p = Some i" "\<exists>c p. map_of ts o2 = Some (c, p) \<and> fresh_id p = Some i"
    using assms(2,3) by (auto split: if_splits)
  then show "o1 = o2" using assms(1) unfolding fresh_unique_def by blast
qed

lemma unique_new:
  assumes "fresh_unique ts" "\<And>op' c' p'. map_of ts op' = Some (c', p') \<Longrightarrow> fresh_id p' \<noteq> fresh_id q \<or> fresh_id q = None"
  shows "fresh_unique (AList.update op (c, q) ts)"
  using assms unfolding fresh_unique_def update_conv' by (auto split: if_splits)

lemma inv_lower:
  assumes "journal_inv s"
  shows "journal_inv (lower_row v s)"
proof -
  have r: "sint (rowSc (lower_row v s)) \<le> sint (rowSc s)" by (simp add: lower_row_sint)
  have "tasks_inv (lower_row v s)"
    using assms task_ok_mono [where s = s and s' = "lower_row v s"] r unfolding journal_inv_def tasks_inv_def by auto
  moreover have "ids_inv (lower_row v s)" using assms r unfolding journal_inv_def ids_inv_def by fastforce
  ultimately show ?thesis using assms unfolding journal_inv_def wire_inv_def conns_inv_def by simp
qed

lemma inv_end: "journal_inv s \<Longrightarrow> journal_inv (end_task op s)"
  unfolding journal_inv_def tasks_inv_def ids_inv_def wire_inv_def conns_inv_def
  by (auto simp: task_ok_def unique_end end_task_def delete_conv' split: if_splits)

lemma inv_start:
  assumes "journal_inv s" "start_task op c s = Some s'"
  shows "journal_inv s'"
proof -
  from assms(2) have c: "c \<in> set (openConns s)" and op: "op \<notin> set (usedOps s)"
      and s': "s' = set_phase op c Idle (s\<lparr>usedOps := op # usedOps s\<rparr>)"
    by (auto simp: start_task_def split: if_splits)
  have o': "c = rowOwner s" "\<exists>l. map_of (counters s) c = Some l" using assms(1) c by (auto simp: journal_inv_def conns_inv_def)
  let ?u = "s\<lparr>usedOps := op # usedOps s\<rparr>"
  have "tasks_inv s'"
    unfolding s'
  proof (rule tasks_phase)
    fix o1 c1 p1 assume "map_of (tasks ?u) o1 = Some (c1, p1)"
    then have "task_ok s o1 c1 p1" using assms(1) by (simp add: journal_inv_def tasks_inv_def)
    then show "task_ok ?u o1 c1 p1" by (rule task_ok_mono) auto
  qed (use assms(1) o' in \<open>auto simp: task_ok_def journal_inv_def tasks_inv_def intro: unique_new\<close>)
  moreover have "ids_inv s'" using assms(1) by (auto simp: s' journal_inv_def ids_inv_def)
  moreover have "wire_inv s'" using assms(1) op unfolding s' journal_inv_def wire_inv_def ids_inv_def by force
  moreover have "conns_inv s'" using assms(1) by (simp add: s' journal_inv_def conns_inv_def)
  ultimately show ?thesis by (simp add: journal_inv_def)
qed

text \<open>A task that moves on without touching anything else.\<close>

lemma inv_phase:
  assumes "journal_inv s" "map_of (tasks s) op = Some (c, p)" "task_ok s op c q" "fresh_id q = fresh_id p \<or> fresh_id q = None"
  shows "journal_inv (set_phase op c q s)"
proof -
  have "tasks_inv (set_phase op c q s)"
    using assms by (intro tasks_phase) (auto simp: journal_inv_def tasks_inv_def intro: unique_keep)
  moreover have "wire_inv (set_phase op c q s)" using assms(1,2) by (auto simp: journal_inv_def wire_inv_def)
  ultimately show ?thesis using assms(1) by (simp add: journal_inv_def ids_inv_def conns_inv_def)
qed

lemma task_okD: "journal_inv s \<Longrightarrow> map_of (tasks s) op = Some (c, p) \<Longrightarrow> task_ok s op c p"
  by (simp add: journal_inv_def tasks_inv_def)

lemma inv_alloc:
  assumes "journal_inv s" "alloc_id op s = Some s'"
  shows "journal_inv s'"
proof -
  from assms(2) obtain c l where t: "map_of (tasks s) op = Some (c, Idle)" and l: "map_of (counters s) c = Some l"
      and b: "- (2 ^ 63) < sint l"
      and s': "s' = set_phase op c (Allocated (l - 1)) (s\<lparr>counters := AList.update c (l - 1) (counters s)\<rparr>)"
    by (auto simp: alloc_id_def split: option.splits task_phase.splits prod.splits if_splits)
  let ?u = "s\<lparr>counters := AList.update c (l - 1) (counters s)\<rparr>"
  have d: "sint (l - 1) = sint l - 1" using b by (rule sint_pred)
  have c: "c = rowOwner s" "op \<in> set (usedOps s)" using task_okD [OF assms(1) t] by (simp_all add: task_ok_def)
  have h: "\<forall>x \<in> set (history s). sint l \<le> sint (fst x)"
    using assms(1) l c(1) by (auto simp: journal_inv_def ids_inv_def)
  then have new: "l - 1 \<notin> fst ` set (history s)" using d by force
  have other: "fresh_id p1 \<noteq> Some (l - 1)" if "map_of (tasks s) o1 = Some (c1, p1)" for o1 c1 p1
    using task_okD [OF assms(1) that] l c(1) d by (cases p1) (auto simp: task_ok_def)
  have "tasks_inv s'"
    unfolding s'
  proof (rule tasks_phase)
    fix o1 c1 p1 assume "map_of (tasks ?u) o1 = Some (c1, p1)"
    then have "task_ok s o1 c1 p1" using assms(1) by (simp add: journal_inv_def tasks_inv_def)
    then show "task_ok ?u o1 c1 p1" by (rule task_ok_mono) (auto simp: update_conv' l d)
  next
    show "task_ok ?u op c (Allocated (l - 1))" using c new by (auto simp: task_ok_def update_conv')
    show "fresh_unique (AList.update op (c, Allocated (l - 1)) (tasks ?u))"
      using assms(1) other by (intro unique_new) (auto simp: journal_inv_def tasks_inv_def)
  qed
  moreover have "ids_inv s'" using assms(1) h d c(1) by (force simp: s' journal_inv_def ids_inv_def update_conv')
  moreover have "wire_inv s'" using assms(1) t by (auto simp: s' journal_inv_def wire_inv_def)
  moreover have "conns_inv s'" using assms(1) by (simp add: s' journal_inv_def conns_inv_def update_conv')
  ultimately show ?thesis by (simp add: journal_inv_def)
qed

lemma inv_read:
  assumes "journal_inv s" "read_counters op s = Some s'"
  shows "journal_inv s'"
proof -
  from assms(2) obtain c i l where t: "map_of (tasks s) op = Some (c, Allocated i)" and l: "map_of (counters s) c = Some l"
      and s': "s' = set_phase op c (Snapped i l) s"
    by (auto simp: read_counters_def split: option.splits task_phase.splits prod.splits)
  show ?thesis
    unfolding s' using assms(1) t by (rule inv_phase) (use task_okD [OF assms(1) t] l in \<open>simp_all add: task_ok_def\<close>)
qed

lemma inv_write:
  assumes "journal_inv s" "write_counters op ok s = Some s'"
  shows "journal_inv s'"
proof (cases ok)
  case False
  with assms show ?thesis by (auto simp: write_counters_def inv_end split: option.splits task_phase.splits prod.splits)
next
  case True
  with assms(2) obtain c i v where t: "map_of (tasks s) op = Some (c, Snapped i v)"
      and s': "s' = set_phase op c (Counted i) (lower_row v s)"
    by (auto simp: write_counters_def split: option.splits task_phase.splits prod.splits)
  from inv_lower [OF assms(1)] have j: "journal_inv (lower_row v s)" .
  have t': "map_of (tasks (lower_row v s)) op = Some (c, Snapped i v)" using t by simp
  show ?thesis
    unfolding s' using j t' by (rule inv_phase) (use task_okD [OF j t'] in \<open>auto simp: task_ok_def lower_row_sint\<close>)
qed

lemma inv_record:
  assumes "journal_inv s" "record_op op ok s = Some s'"
  shows "journal_inv s'"
proof (cases ok)
  case False
  with assms show ?thesis by (auto simp: record_op_def inv_end split: option.splits task_phase.splits prod.splits)
next
  case True
  with assms(2) obtain c i where t: "map_of (tasks s) op = Some (c, Counted i)"
      and s': "s' = set_phase op c (Recorded i) (s\<lparr>opTable := AList.update i op (opTable s), history := (i, op) # history s\<rparr>)"
    by (auto simp: record_op_def split: option.splits task_phase.splits prod.splits)
  let ?u = "s\<lparr>opTable := AList.update i op (opTable s), history := (i, op) # history s\<rparr>"
  have k: "task_ok s op c (Counted i)" using assms(1) t by (rule task_okD)
  then have new: "i \<notin> fst ` set (history s)" by (simp add: task_ok_def)
  have other: "fresh_id p1 \<noteq> Some i" if "o1 \<noteq> op" "map_of (tasks s) o1 = Some (c1, p1)" for o1 c1 p1
    using assms(1) t that unfolding journal_inv_def tasks_inv_def fresh_unique_def by (metis fresh_id.simps(3))
  have kept: "j \<noteq> i" if "(j, o1) \<in> set (history s)" for j o1 using new that by force
  have "tasks_inv s'"
    unfolding s'
  proof (rule tasks_phase)
    fix o1 c1 p1 assume o1: "o1 \<noteq> op" "map_of (tasks ?u) o1 = Some (c1, p1)"
    then have ok1: "task_ok s o1 c1 p1" using assms(1) by (simp add: journal_inv_def tasks_inv_def)
    then show "task_ok ?u o1 c1 p1"
    proof (rule task_ok_mono)
      show "map_of (opTable ?u) j = map_of (opTable s) j" if "p1 = Recorded j" for j
        using ok1 that kept by (auto simp: task_ok_def update_conv')
      show "j \<in> fst ` set (history s)" if "fresh_id p1 = Some j" "j \<in> fst ` set (history ?u)" for j
        using other [OF o1(1)] o1(2) that by auto
    qed auto
  next
    show "task_ok ?u op c (Recorded i)" using k by (auto simp: task_ok_def update_conv')
    show "fresh_unique (AList.update op (c, Recorded i) (tasks ?u))"
      using assms(1) by (intro unique_new) (auto simp: journal_inv_def tasks_inv_def)
  qed
  moreover have "ids_inv s'"
    using assms(1) k new unfolding s' journal_inv_def ids_inv_def task_ok_def
    by (auto simp: distinct_update dest: subsetD [OF set_alist_update])
  moreover have "wire_inv s'" using assms(1) t kept unfolding s' journal_inv_def wire_inv_def by (auto simp: update_conv')
  moreover have "conns_inv s'" using assms(1) by (simp add: s' journal_inv_def conns_inv_def)
  ultimately show ?thesis by (simp add: journal_inv_def)
qed

text \<open>Dropping the record of an operation that no task holds and no unanswered frame carries.\<close>

lemma inv_drop_record:
  assumes "journal_inv s" "(i, op) \<in> set (history s)" "map_of (tasks s) op = None"
    and "\<And>c. (c, i, op) \<in> set (onwire s) \<Longrightarrow> op \<in> set (answered s)"
  shows "journal_inv (s\<lparr>opTable := AList.delete i (opTable s)\<rparr>)"
proof -
  let ?u = "s\<lparr>opTable := AList.delete i (opTable s)\<rparr>"
  have ids: "ids_inv s" using assms(1) by (simp add: journal_inv_def)
  have "task_ok ?u o1 c1 p1" if t: "map_of (tasks s) o1 = Some (c1, p1)" for o1 c1 p1
  proof -
    have k: "task_ok s o1 c1 p1" using assms(1) t by (rule task_okD)
    have "j \<noteq> i" if "p1 = Recorded j" for j
      using k that same_id [OF ids assms(2), of o1] assms(3) t by (auto simp: task_ok_def)
    show ?thesis using k by (rule task_ok_mono) (use \<open>\<And>j. p1 = Recorded j \<Longrightarrow> j \<noteq> i\<close> in \<open>auto simp: delete_conv'\<close>)
  qed
  then have "tasks_inv ?u" using assms(1) by (simp add: journal_inv_def tasks_inv_def)
  moreover have "ids_inv ?u" using ids by (auto simp: ids_inv_def AList.delete_eq distinct_map_filter)
  moreover have "wire_inv ?u"
    unfolding wire_inv_def
  proof (clarify, intro conjI impI)
    fix c j o1 assume f: "(c, j, o1) \<in> set (onwire ?u)"
    then have w: "(j, o1) \<in> set (history s)" "map_of (tasks s) o1 = None" "o1 \<notin> set (answered s) \<Longrightarrow> map_of (opTable s) j = Some o1"
      using assms(1) by (auto simp: journal_inv_def wire_inv_def)
    then show "(j, o1) \<in> set (history ?u)" "map_of (tasks ?u) o1 = None" by simp_all
    assume "o1 \<notin> set (answered ?u)"
    then show "map_of (opTable ?u) j = Some o1"
      using w assms(4) [of c] f same_id [OF ids assms(2)] by (cases "j = i") (auto simp: delete_conv')
  qed
  moreover have "conns_inv ?u" using assms(1) by (simp add: journal_inv_def conns_inv_def)
  ultimately show ?thesis by (simp add: journal_inv_def)
qed

lemma inv_lose: "journal_inv s \<Longrightarrow> journal_inv (lose_connection c s)"
  by (auto simp: journal_inv_def tasks_inv_def conns_inv_def lose_connection_def)

text \<open>A frame of a recorded operation goes on the wire.\<close>

lemma inv_onwire:
  assumes "journal_inv s" "(i, op) \<in> set (history s)" "map_of (opTable s) i = Some op"
  shows "journal_inv ((end_task op s)\<lparr>onwire := (c, i, op) # onwire s\<rparr>)"
  using inv_end [OF assms(1), of op] assms(2,3) by (simp add: journal_inv_def tasks_inv_def conns_inv_def) (simp add: wire_inv_def)

lemma inv_frame:
  assumes "journal_inv s" "write_frame op r s = Some s'"
  shows "journal_inv s'"
proof -
  from assms(2) obtain c i where t: "map_of (tasks s) op = Some (c, Recorded i)"
    by (auto simp: write_frame_def split: option.splits task_phase.splits prod.splits)
  then have k: "(i, op) \<in> set (history s)" "map_of (opTable s) i = Some op"
    using task_okD [OF assms(1) t] by (simp_all add: task_ok_def)
  have w: "(c', i, op) \<notin> set (onwire s)" for c' using assms(1) t by (force simp: journal_inv_def wire_inv_def)
  show ?thesis
  proof (cases r)
    case Written
    then have "s' = (end_task op s)\<lparr>onwire := (c, i, op) # onwire s\<rparr>"
      using assms(2) t by (simp add: write_frame_def split: if_splits)
    then show ?thesis using inv_onwire [OF assms(1) k] by simp
  next
    case MaybeWritten
    then have "s' = lose_connection c ((end_task op s)\<lparr>onwire := (c, i, op) # onwire s\<rparr>)"
      using assms(2) t by (simp add: write_frame_def lose_connection_def split: if_splits)
    then show ?thesis using inv_lose [OF inv_onwire [OF assms(1) k]] by simp
  next
    case NotWritten
    then have "s' = (end_task op s)\<lparr>opTable := AList.delete i (opTable (end_task op s))\<rparr>"
      using assms(2) t by (simp add: write_frame_def)
    then show ?thesis using inv_drop_record [OF inv_end [OF assms(1)], of i op op] k(1) w by simp
  qed
qed

lemma inv_answer:
  assumes "journal_inv s" "answer_op f s = Some s'"
  shows "journal_inv s'"
proof -
  from assms(2) obtain c i op where f: "(c, i, op) \<in> set (onwire s)"
      and s': "s' = s\<lparr>answered := op # answered s, opTable := AList.delete i (opTable s)\<rparr>"
    by (auto simp: answer_op_def split: prod.splits if_splits)
  let ?u = "s\<lparr>answered := op # answered s\<rparr>"
  have "journal_inv ?u"
    using assms(1) by (simp add: journal_inv_def tasks_inv_def conns_inv_def) (auto simp: wire_inv_def)
  then have "journal_inv (?u\<lparr>opTable := AList.delete i (opTable ?u)\<rparr>)"
    using assms(1) f by (intro inv_drop_record [where op = op]) (auto simp: journal_inv_def wire_inv_def)
  then show ?thesis by (simp add: s')
qed

lemma inv_mark:
  assumes "journal_inv s" "mark_disconnected c s = Some s'"
  shows "journal_inv s'"
proof (cases "rowOwner s = c")
  case True
  then have "openConns s = []"
    using assms by (cases "openConns s") (auto simp: mark_disconnected_def journal_inv_def conns_inv_def split: if_splits)
  moreover have "s' = s\<lparr>resumableRow := True\<rparr>" using assms(2) True by (simp add: mark_disconnected_def split: if_splits)
  ultimately show ?thesis
    using assms(1) by (simp add: journal_inv_def tasks_inv_def conns_inv_def)
qed (use assms in \<open>auto simp: mark_disconnected_def split: if_splits\<close>)

lemma inv_activate:
  assumes "journal_inv s" "activate True n s = Some s'"
  shows "journal_inv s'"
proof -
  from assms(2) have r: "resumableRow s" "tasks s = []"
      and s': "s' = s\<lparr>resumableRow := False, rowOwner := n, counters := (n, rowSc s) # counters s, openConns := n # openConns s,
        onwire := map (\<lambda>(i, op). (n, i, op)) (opTable s) @ onwire s\<rparr>"
    by (auto simp: activate_def split: option.splits if_splits)
  have o': "openConns s = []" using assms(1) r by (simp add: journal_inv_def conns_inv_def)
  have "tasks_inv s'" by (simp add: s' tasks_inv_def r fresh_unique_def)
  moreover have "ids_inv s'" using assms(1) by (auto simp: s' journal_inv_def ids_inv_def)
  moreover have "wire_inv s'" using assms(1) r by (auto simp: s' journal_inv_def ids_inv_def wire_inv_def)
  moreover have "conns_inv s'" using o' by (simp add: s' conns_inv_def)
  ultimately show ?thesis by (simp add: journal_inv_def)
qed

lemma inv_restart: "journal_inv s \<Longrightarrow> journal_inv (restart s)"
  by (auto simp: journal_inv_def tasks_inv_def fresh_unique_def ids_inv_def wire_inv_def conns_inv_def restart_def)

lemma inv_reads: "journal_inv s \<Longrightarrow> journal_inv (load_ops n s)" "journal_inv s \<Longrightarrow> journal_inv (read_row n s)"
  by (simp_all add: journal_inv_def tasks_inv_def conns_inv_def load_ops_def read_row_def)

lemma inv_flush: "journal_inv s \<Longrightarrow> flush_counters c s = Some s' \<Longrightarrow> journal_inv s'"
  by (auto simp: flush_counters_def inv_lower split: if_splits)

lemma journal_step_inv: "journal_inv s \<Longrightarrow> journal_step True e s = Some s' \<Longrightarrow> journal_inv s'"
  by (cases e; simp;
      (erule (1) inv_start inv_alloc inv_read inv_write inv_record inv_frame inv_answer inv_flush inv_mark inv_activate
       | erule subst, erule inv_lose inv_reads inv_restart))

lemma journal_run_inv: "journal_inv s \<Longrightarrow> journal_run True es s = Some s' \<Longrightarrow> journal_inv s'"
  by (induction es arbitrary: s) (auto split: option.splits dest: journal_step_inv)

section \<open>What the journal keeps\<close>

text \<open>
  C1. Whatever the interleaving of the tasks of a session, the failures of its database writes and of
  its connections, the restarts and the resumes: as long as a resume finds no task of an earlier
  connection in progress and the row and records as it read them, the recorded operations of the
  session have pairwise different IDs, and an operation whose frame is on the wire and not answered
  has its own record, so that the next resume reissues it.
\<close>

theorem unanswered_frames_recorded:
  assumes "journal_run True es newJournal = Some s"
  shows "distinct (map fst (history s)) \<and>
    (\<forall>(c, i, op) \<in> set (onwire s). op \<in> set (answered s) \<or> map_of (opTable s) i = Some op)"
  using journal_run_inv [OF journal_inv_new assms] unfolding journal_inv_def ids_inv_def wire_inv_def by fast

definition demo_task :: "nat \<Rightarrow> nat \<Rightarrow> journal_event list" where
  "demo_task op c = [Start op c, Alloc op, ReadCounters op, WriteCounters op True, Record op True, Frame op Written]"

definition demo_resume :: "nat \<Rightarrow> nat \<Rightarrow> journal_event list" where
  "demo_resume c n = [Lose c, Mark c, Load n, ReadRow n, Activate n]"

definition demo_run :: "journal_event list" where
  "demo_run = demo_task 0 0 @ [Start 1 0, Start 2 0, Alloc 1, Alloc 2, ReadCounters 2, WriteCounters 2 True, ReadCounters 1,
     WriteCounters 1 False, Record 2 True, Frame 2 MaybeWritten] @ demo_resume 0 1 @ demo_task 3 1 @ [Answer (1, - 1, 0)]"

theorem unanswered_frames_recorded_witness:
  "\<exists>s. journal_run True demo_run newJournal = Some s \<and> rowSc s = - 4 \<and> distinct (map fst (history s)) \<and>
    (\<forall>(c, i, op) \<in> set (onwire s). op \<in> set (answered s) \<or> map_of (opTable s) i = Some op)"
proof -
  have "\<not> Option.is_none (journal_run True demo_run newJournal)" "rowSc (the (journal_run True demo_run newJournal)) = - 4" by code_simp+
  then obtain s where "journal_run True demo_run newJournal = Some s" "rowSc s = - 4"
    by (cases "journal_run True demo_run newJournal") auto
  then show ?thesis using unanswered_frames_recorded [of demo_run s] by blast
qed

definition stale_run :: "journal_event list" where
  "stale_run = [Start 0 0] @ demo_resume 0 1 @ [Alloc 0, ReadCounters 0, WriteCounters 0 True] @ demo_task 1 1 @
     [Record 0 True, Frame 0 NotWritten]"

text \<open>
  C33. The code does not wait for the tasks of the old connection. There is an interleaving in which a
  task that took hold of the session before the connection was lost gets from the old counter the ID
  that a new operation gets after the resume, finds its connection closed, and removes the record of
  the new operation, whose frame is on the wire of the open connection and not answered.
\<close>

theorem stale_task_removes_record:
  "\<exists>es s c i op. journal_run False es newJournal = Some s \<and> c \<in> set (openConns s) \<and> (c, i, op) \<in> set (onwire s) \<and>
     op \<notin> set (answered s) \<and> map_of (opTable s) i = None \<and> \<not> distinct (map fst (history s))"
proof -
  let ?r = "journal_run False stale_run newJournal"
  have "\<not> Option.is_none ?r" "openConns (the ?r) = [1]" "onwire (the ?r) = [(1, - 1, 1)]" "answered (the ?r) = []"
    "opTable (the ?r) = []" "map fst (history (the ?r)) = [- 1, - 1]"
    by code_simp+
  then have "?r = Some (the ?r) \<and> 1 \<in> set (openConns (the ?r)) \<and> (1, - 1, 1) \<in> set (onwire (the ?r)) \<and>
     1 \<notin> set (answered (the ?r)) \<and> map_of (opTable (the ?r)) (- 1) = None \<and> \<not> distinct (map fst (history (the ?r)))"
    by (auto simp: Option.is_none_def)
  then show ?thesis by blast
qed

end
