(* ===== verification/Go_Text.thy ===== *)
theory Go_Text
  imports Go_Values
begin

text \<open>
  The parts of Go's \<^verbatim>\<open>strings\<close>, \<^verbatim>\<open>strconv\<close>, \<^verbatim>\<open>math\<close> and \<^verbatim>\<open>fmt\<close> that the blueprint decoder uses. A string
  is its bytes. A \<open>f64\<close> is a double with the sign of its zero, because text formatting shows it: its
  value is the rational of \<^theory_text>\<open>Go_Values\<close>, rounded to the nearest, ties to even, after every operation.
\<close>

section \<open>Strings\<close>

definition starts_with :: "string \<Rightarrow> string \<Rightarrow> bool" where
  "starts_with p s = (take (length p) s = p)"

text \<open>\<^verbatim>\<open>strings.SplitN(s, sep, 2)\<close> with a separator that occurs, and \<^verbatim>\<open>strings.Contains\<close>.\<close>

fun break_at :: "string \<Rightarrow> string \<Rightarrow> (string \<times> string) option" where
  "break_at sep s =
     (if starts_with sep s then Some ([], drop (length sep) s)
      else case s of [] \<Rightarrow> None | c # cs \<Rightarrow> map_option (\<lambda>(a, b). (c # a, b)) (break_at sep cs))"

declare break_at.simps [simp del]

definition contains :: "string \<Rightarrow> string \<Rightarrow> bool" where
  "contains s sub = (break_at sub s \<noteq> None)"

text \<open>\<^verbatim>\<open>strings.ReplaceAll\<close> of a pattern that is not empty.\<close>

function replace_all :: "string \<Rightarrow> string \<Rightarrow> string \<Rightarrow> string" where
  "replace_all old new s =
     (if old = [] then s
      else if starts_with old s \<and> s \<noteq> [] then new @ replace_all old new (drop (length old) s)
      else case s of [] \<Rightarrow> [] | c # cs \<Rightarrow> c # replace_all old new cs)"
  by pat_completeness auto
termination
  by (relation "measure (\<lambda>(_, _, s). length s)") auto

declare replace_all.simps [simp del]

text \<open>The UTF-8 encodings of Unicode white space.\<close>

definition white_space :: "string list" where
  "white_space =
     [[CHR 0x09], [CHR 0x0A], [CHR 0x0B], [CHR 0x0C], [CHR 0x0D], [CHR 0x20], [CHR 0xC2, CHR 0x85], [CHR 0xC2, CHR 0xA0],
      [CHR 0xE1, CHR 0x9A, CHR 0x80], [CHR 0xE2, CHR 0x80, CHR 0xA8], [CHR 0xE2, CHR 0x80, CHR 0xA9],
      [CHR 0xE2, CHR 0x80, CHR 0xAF], [CHR 0xE2, CHR 0x81, CHR 0x9F], [CHR 0xE3, CHR 0x80, CHR 0x80]] @
     map (\<lambda>c. [CHR 0xE2, CHR 0x80, c])
       [CHR 0x80, CHR 0x81, CHR 0x82, CHR 0x83, CHR 0x84, CHR 0x85, CHR 0x86, CHR 0x87, CHR 0x88, CHR 0x89, CHR 0x8A]"

function trim_left :: "string \<Rightarrow> string" where
  "trim_left s =
     (case find (\<lambda>w. w \<noteq> [] \<and> starts_with w s \<and> s \<noteq> []) white_space of
        None \<Rightarrow> s | Some w \<Rightarrow> trim_left (drop (length w) s))"
  by pat_completeness auto
termination
  by (relation "measure length") (auto simp: find_Some_iff)

declare trim_left.simps [simp del]

function trim_right :: "string \<Rightarrow> string" where
  "trim_right s =
     (case find (\<lambda>w. w \<noteq> [] \<and> starts_with (rev w) (rev s) \<and> s \<noteq> []) white_space of
        None \<Rightarrow> s | Some w \<Rightarrow> trim_right (take (length s - length w) s))"
  by pat_completeness auto
termination
  by (relation "measure length") (auto simp: find_Some_iff)

declare trim_right.simps [simp del]

definition TrimSpace :: "string \<Rightarrow> string" where
  "TrimSpace s = trim_right (trim_left s)"

text \<open>Byte order, as \<^verbatim>\<open><\<close> on Go strings compares.\<close>

fun string_less :: "string \<Rightarrow> string \<Rightarrow> bool" where
  "string_less [] t = (t \<noteq> [])"
| "string_less (c # cs) [] = False"
| "string_less (c # cs) (d # ds) = (if c = d then string_less cs ds else (of_char c :: nat) < of_char d)"

section \<open>Doubles\<close>

text \<open>Powers are computed on integers.\<close>

lemma pow2_code [code]: "pow2 e = (if 0 \<le> e then of_int (2 ^ nat e) else Fract 1 (2 ^ nat (- e)))"
  by (simp add: pow2_def Fract_of_int_quotient)

lemma round_float_code [code]:
  "round_float p emin emax q =
     (if q = 0 then FFin 0
      else let ulp = pow2 (max (binade q - (int p - 1)) emin);
               r = of_int (round_half_even (q / ulp)) * ulp
           in if \<bar>r\<bar> \<ge> of_int (2 ^ emax) then FInf (q < 0) else FFin r)"
  by (simp add: round_float_def)

datatype f64 = NaN | Inf bool | Fin bool rat

definition signed_of :: "bool \<Rightarrow> rat \<Rightarrow> rat" where
  "signed_of s q = (if s then - q else q)"

text \<open>The double nearest to a rational; \<open>z\<close> is the sign of an exact zero.\<close>

definition nearest :: "bool \<Rightarrow> rat \<Rightarrow> f64" where
  "nearest z r =
     (case float64_of r of
        FFin q \<Rightarrow> Fin (if r = 0 then z else r < 0) \<bar>q\<bar>
      | FInf s \<Rightarrow> Inf s
      | FNaN \<Rightarrow> NaN)"

fun neg_f64 :: "f64 \<Rightarrow> f64" where
  "neg_f64 NaN = NaN"
| "neg_f64 (Inf s) = Inf (\<not> s)"
| "neg_f64 (Fin s q) = Fin (\<not> s) q"

fun add_f64 :: "f64 \<Rightarrow> f64 \<Rightarrow> f64" where
  "add_f64 (Inf s) (Inf t) = (if s = t then Inf s else NaN)"
| "add_f64 (Inf s) (Fin t q) = Inf s"
| "add_f64 (Fin s p) (Inf t) = Inf t"
| "add_f64 (Fin s p) (Fin t q) = nearest (s \<and> t) (signed_of s p + signed_of t q)"
| "add_f64 _ _ = NaN"

definition sub_f64 :: "f64 \<Rightarrow> f64 \<Rightarrow> f64" where
  "sub_f64 a b = add_f64 a (neg_f64 b)"

fun mul_f64 :: "f64 \<Rightarrow> f64 \<Rightarrow> f64" where
  "mul_f64 (Inf s) (Inf t) = Inf (s \<noteq> t)"
| "mul_f64 (Inf s) (Fin t q) = (if q = 0 then NaN else Inf (s \<noteq> t))"
| "mul_f64 (Fin s p) (Inf t) = (if p = 0 then NaN else Inf (s \<noteq> t))"
| "mul_f64 (Fin s p) (Fin t q) = nearest (s \<noteq> t) (signed_of s p * signed_of t q)"
| "mul_f64 _ _ = NaN"

fun div_f64 :: "f64 \<Rightarrow> f64 \<Rightarrow> f64" where
  "div_f64 (Inf s) (Inf t) = NaN"
| "div_f64 (Inf s) (Fin t q) = Inf (s \<noteq> t)"
| "div_f64 (Fin s p) (Inf t) = Fin (s \<noteq> t) 0"
| "div_f64 (Fin s p) (Fin t q) =
     (if q = 0 then if p = 0 then NaN else Inf (s \<noteq> t)
      else nearest (s \<noteq> t) (signed_of s p / signed_of t q))"
| "div_f64 _ _ = NaN"

fun is_zero :: "f64 \<Rightarrow> bool" where
  "is_zero (Fin s q) = (q = 0)"
| "is_zero _ = False"

fun less_f64 :: "f64 \<Rightarrow> f64 \<Rightarrow> bool" where
  "less_f64 (Inf s) (Inf t) = (s \<and> \<not> t)"
| "less_f64 (Inf s) (Fin t q) = s"
| "less_f64 (Fin s p) (Inf t) = (\<not> t)"
| "less_f64 (Fin s p) (Fin t q) = (signed_of s p < signed_of t q)"
| "less_f64 _ _ = False"

fun equal_f64 :: "f64 \<Rightarrow> f64 \<Rightarrow> bool" where
  "equal_f64 (Inf s) (Inf t) = (s = t)"
| "equal_f64 (Fin s p) (Fin t q) = (signed_of s p = signed_of t q)"
| "equal_f64 _ _ = False"

definition of_i64 :: "i64 \<Rightarrow> f64" where "of_i64 v = nearest False (of_int (sint v))"

definition of_u64 :: "u64 \<Rightarrow> f64" where "of_u64 v = nearest False (of_int (uint v))"

section \<open>Text of a double\<close>

definition pow10 :: "int \<Rightarrow> rat" where
  "pow10 e = (if 0 \<le> e then 10 ^ nat e else 1 / 10 ^ nat (- e))"

lemma pow10_code [code]: "pow10 e = (if 0 \<le> e then of_int (10 ^ nat e) else Fract 1 (10 ^ nat (- e)))"
  by (simp add: pow10_def Fract_of_int_quotient)

text \<open>The decimal digits of a natural number.\<close>

fun digit_char :: "int \<Rightarrow> char" where
  "digit_char d =
     (if d = 0 then CHR ''0'' else if d = 1 then CHR ''1'' else if d = 2 then CHR ''2'' else if d = 3 then CHR ''3''
      else if d = 4 then CHR ''4'' else if d = 5 then CHR ''5'' else if d = 6 then CHR ''6'' else if d = 7 then CHR ''7''
      else if d = 8 then CHR ''8'' else CHR ''9'')"

declare digit_char.simps [simp del]

function show_digits :: "int \<Rightarrow> string" where
  "show_digits n = (if n < 10 then [digit_char n] else show_digits (n div 10) @ [digit_char (n mod 10)])"
  by pat_completeness auto
termination
  by (relation "measure nat") auto

declare show_digits.simps [simp del]

text \<open>
  The decimal exponent of a positive double: the power of ten of its first digit. The least positive
  double is above \<open>10 ^ -324\<close>, so 400 steps down are enough.
\<close>

fun steps_down :: "nat \<Rightarrow> rat \<Rightarrow> nat" where
  "steps_down 0 q = 0"
| "steps_down (Suc n) q = (if 1 \<le> q then 0 else Suc (steps_down n (10 * q)))"

definition dec_exponent :: "rat \<Rightarrow> int" where
  "dec_exponent q = (if 1 \<le> q then int (length (show_digits \<lfloor>q\<rfloor>)) - 1 else - int (steps_down 400 q))"

text \<open>
  The shortest digits that read back as the double, the nearest ones of that length: with \<open>p\<close> digits
  the candidates are the two decimals around it. Seventeen digits always read back.
\<close>

definition reads_back :: "rat \<Rightarrow> rat \<Rightarrow> bool" where
  "reads_back q d = (float64_of d = FFin q)"

definition digits_at :: "rat \<Rightarrow> nat \<Rightarrow> (int \<times> int) option" where
  "digits_at q p =
     (let e = dec_exponent q - int p + 1; x = q / pow10 e; lo = \<lfloor>x\<rfloor>; hi = lo + 1;
          okLo = reads_back q (of_int lo * pow10 e); okHi = reads_back q (of_int hi * pow10 e)
      in if okLo \<and> okHi then Some (round_half_even x, e)
         else if okLo then Some (lo, e)
         else if okHi then Some (hi, e)
         else None)"

fun first_digits :: "rat \<Rightarrow> nat list \<Rightarrow> int \<times> int" where
  "first_digits q [] = (0, 0)"
| "first_digits q (p # ps) = (case digits_at q p of Some r \<Rightarrow> r | None \<Rightarrow> first_digits q ps)"

definition shortest :: "rat \<Rightarrow> int \<times> int" where
  "shortest q = first_digits q [1..<18]"

definition strip_zeros :: "string \<Rightarrow> string" where
  "strip_zeros s = rev (dropWhile (\<lambda>c. c = CHR ''0'') (rev s))"

definition two_digits :: "int \<Rightarrow> string" where
  "two_digits n = (if n < 10 then CHR ''0'' # show_digits n else show_digits n)"

text \<open>The verb \<^verbatim>\<open>%v\<close>: an exponent below -4 or from 6 on is written out.\<close>

definition show_positive :: "rat \<Rightarrow> string" where
  "show_positive q =
     (case shortest q of (m, e) \<Rightarrow>
        let ds = show_digits m; x = e + int (length ds) - 1; sig = strip_zeros ds
        in if x < - 4 \<or> 6 \<le> x
           then take 1 sig @ (if length sig > 1 then CHR ''.'' # drop 1 sig else []) @ CHR ''e'' #
             (if x < 0 then CHR ''-'' else CHR ''+'') # two_digits \<bar>x\<bar>
           else if x < 0 then ''0.'' @ replicate (nat (- x) - 1) (CHR ''0'') @ sig
           else if int (length sig) \<le> x + 1 then sig @ replicate (nat (x + 1) - length sig) (CHR ''0'')
           else take (nat (x + 1)) sig @ CHR ''.'' # drop (nat (x + 1)) sig)"

fun show_f64 :: "f64 \<Rightarrow> string" where
  "show_f64 NaN = ''NaN''"
| "show_f64 (Inf s) = (if s then ''-Inf'' else ''+Inf'')"
| "show_f64 (Fin s q) = (if s then ''-'' else '''') @ (if q = 0 then ''0'' else show_positive q)"

end
