(* ===== verification/Blueprint_Expr.thy ===== *)
theory Blueprint_Expr
  imports Go_Text Go_Sort
begin

text \<open>
  The expressions of a blueprint (\<^verbatim>\<open>evaluator.go\<close>): the substitution of references into the text of a
  \<^verbatim>\<open>func\<close> or a \<^verbatim>\<open>condition\<close>, and the evaluation of the resulting text. The recursive-descent parser is
  written over the rest of the text instead of a position in it; its depth is bounded by fuel, and
  three steps per character are enough. The transcendental functions of \<^verbatim>\<open>math\<close> are a parameter.
\<close>

section \<open>Decoded values\<close>

datatype bval =
    BNil
  | BBool bool
  | BInt i64
  | BUint u64
  | BFloat f64
  | BBytes bytes
  | BString string
  | BList "bval list"
  | BMap "(string \<times> bval) list"

type_synonym bmap = "(string \<times> bval) list"

fun join :: "string list \<Rightarrow> string" where
  "join [] = []"
| "join [s] = s"
| "join (s # t # ss) = s @ CHR '' '' # join (t # ss)"

definition show_i :: "int \<Rightarrow> string" where
  "show_i i = (if i < 0 then CHR ''-'' # show_digits (- i) else show_digits i)"

text \<open>The verb \<^verbatim>\<open>%v\<close>; a map shows its entries in the order of the keys.\<close>

fun show_value :: "bval \<Rightarrow> string" and show_values :: "bval list \<Rightarrow> string list" and
    show_entries :: "bmap \<Rightarrow> (string \<times> string) list" where
  "show_value BNil = ''<nil>''"
| "show_value (BBool b) = (if b then ''true'' else ''false'')"
| "show_value (BInt v) = show_i (sint v)"
| "show_value (BUint v) = show_i (uint v)"
| "show_value (BFloat f) = show_f64 f"
| "show_value (BBytes bs) = ''['' @ join (map (\<lambda>b. show_i (uint b)) bs) @ '']''"
| "show_value (BString s) = s"
| "show_value (BList vs) = ''['' @ join (show_values vs) @ '']''"
| "show_value (BMap m) =
     ''map['' @ join (map (\<lambda>(k, s). k @ CHR '':'' # s) (sort_slice (\<lambda>a b. string_less (fst a) (fst b)) (show_entries m))) @ '']''"
| "show_values [] = []"
| "show_values (v # vs) = show_value v # show_values vs"
| "show_entries [] = []"
| "show_entries ((k, v) # m) = (k, show_value v) # show_entries m"

fun ToFloat64 :: "bval \<Rightarrow> f64 option" where
  "ToFloat64 (BFloat f) = Some f"
| "ToFloat64 (BInt v) = Some (of_i64 v)"
| "ToFloat64 (BUint v) = Some (of_u64 v)"
| "ToFloat64 _ = None"

text \<open>A value as it is written into an expression.\<close>

definition reference_text :: "bval \<Rightarrow> string" where
  "reference_text v = (case ToFloat64 v of Some f \<Rightarrow> show_f64 f | None \<Rightarrow> show_value v)"

section \<open>Numbers in text\<close>

definition decimal_digit :: "char \<Rightarrow> int option" where
  "decimal_digit c = (if is_digit c then Some (int (digit_value c)) else None)"

definition lower_char :: "char \<Rightarrow> char" where
  "lower_char c = (if 65 \<le> (of_char c :: int) \<and> (of_char c :: int) \<le> 90 then char_of (of_char c + 32 :: int) else c)"

definition digit_in :: "bool \<Rightarrow> char \<Rightarrow> int option" where
  "digit_in hex c =
     (if is_digit c then decimal_digit c
      else if hex \<and> 97 \<le> (of_char (lower_char c) :: int) \<and> (of_char (lower_char c) :: int) \<le> 102
      then Some (of_char (lower_char c) - 87) else None)"

text \<open>The mantissa: its digits as a number, the number of digits after the dot, whether any digit and any underscore was read.\<close>

fun scan_mantissa :: "bool \<Rightarrow> bool \<Rightarrow> int \<times> nat \<times> bool \<times> bool \<Rightarrow> string \<Rightarrow> (int \<times> nat \<times> bool \<times> bool) \<times> string" where
  "scan_mantissa hex dot st [] = (st, [])"
| "scan_mantissa hex dot (m, fd, dig, us) (c # cs) =
     (if c = CHR ''_'' then scan_mantissa hex dot (m, fd, dig, True) cs
      else if c = CHR ''.'' then if dot then ((m, fd, dig, us), c # cs) else scan_mantissa hex True (m, fd, dig, us) cs
      else case digit_in hex c of
             Some d \<Rightarrow> scan_mantissa hex dot ((if hex then 16 else 10) * m + d, if dot then Suc fd else fd, True, us) cs
           | None \<Rightarrow> ((m, fd, dig, us), c # cs))"

fun scan_exponent :: "int \<times> bool \<Rightarrow> string \<Rightarrow> (int \<times> bool) \<times> string" where
  "scan_exponent st [] = (st, [])"
| "scan_exponent (e, us) (c # cs) =
     (if c = CHR ''_'' then scan_exponent (e, True) cs
      else case decimal_digit c of
             Some d \<Rightarrow> scan_exponent (if e < 10000 then 10 * e + d else e, us) cs
           | None \<Rightarrow> ((e, us), c # cs))"

fun underscore_scan :: "bool \<Rightarrow> char \<Rightarrow> string \<Rightarrow> bool" where
  "underscore_scan hex saw [] = (saw \<noteq> CHR ''_'')"
| "underscore_scan hex saw (c # cs) =
     (if digit_in hex c \<noteq> None then underscore_scan hex (CHR ''0'') cs
      else if c = CHR ''_'' then saw = CHR ''0'' \<and> underscore_scan hex c cs
      else saw \<noteq> CHR ''_'' \<and> underscore_scan hex (CHR ''!'') cs)"

definition unsigned_part :: "string \<Rightarrow> bool \<times> string" where
  "unsigned_part s = (case s of c # cs \<Rightarrow> if c = CHR ''+'' then (False, cs) else if c = CHR ''-'' then (True, cs) else (False, s) | [] \<Rightarrow> (False, s))"

definition is_hex :: "string \<Rightarrow> bool" where
  "is_hex s = (case s of c # d # e # _ \<Rightarrow> c = CHR ''0'' \<and> lower_char d = CHR ''x'' | _ \<Rightarrow> False)"

definition underscoreOK :: "string \<Rightarrow> bool" where
  "underscoreOK s =
     (let t = snd (unsigned_part s) in
      if 2 \<le> length t \<and> t ! 0 = CHR ''0'' \<and> lower_char (t ! 1) \<in> {CHR ''b'', CHR ''o'', CHR ''x''}
      then underscore_scan (lower_char (t ! 1) = CHR ''x'') (CHR ''0'') (drop 2 t)
      else underscore_scan False (CHR ''^'') t)"

text \<open>The exponent of a number without one is zero; a hexadecimal number must have one.\<close>

definition read_exponent :: "bool \<Rightarrow> string \<Rightarrow> (int \<times> bool) option" where
  "read_exponent hex s =
     (case s of
        [] \<Rightarrow> if hex then None else Some (0, False)
      | c # cs \<Rightarrow>
          if lower_char c = (if hex then CHR ''p'' else CHR ''e'')
          then (case unsigned_part cs of (neg, t) \<Rightarrow>
                  if t = [] \<or> \<not> is_digit (hd t) then None
                  else case scan_exponent (0, False) t of ((e, us), r) \<Rightarrow> if r = [] then Some (if neg then - e else e, us) else None)
          else None)"

text \<open>\<^verbatim>\<open>strconv.ParseFloat\<close>: \<open>None\<close> is a syntax or range error.\<close>

definition ParseFloat :: "string \<Rightarrow> f64 option" where
  "ParseFloat s =
     (case unsigned_part s of (neg, t) \<Rightarrow>
        if map lower_char t \<in> {''inf'', ''infinity''} then Some (Inf neg)
        else if map lower_char s = ''nan'' then Some NaN
        else (let hex = is_hex t; t' = (if hex then drop 2 t else t) in
          case scan_mantissa hex False (0, 0, False, False) t' of ((m, fd, dig, us), r) \<Rightarrow>
            if \<not> dig then None
            else case read_exponent hex r of
                   None \<Rightarrow> None
                 | Some (e, us') \<Rightarrow>
                     if (us \<or> us') \<and> \<not> underscoreOK s then None
                     else (let q = (if hex then of_int m * pow2 (e - 4 * int fd) else of_int m * pow10 (e - int fd)) in
                       case nearest neg (signed_of neg q) of Fin z p \<Rightarrow> Some (Fin z p) | _ \<Rightarrow> None)))"

section \<open>References\<close>

definition is_letter :: "char \<Rightarrow> bool" where
  "is_letter c = (97 \<le> (of_char (lower_char c) :: int) \<and> (of_char (lower_char c) :: int) \<le> 122)"

definition word_char :: "char \<Rightarrow> bool" where
  "word_char c = (is_letter c \<or> is_digit c \<or> c = CHR ''_'')"

fun normalizeBareCurrentValue :: "string \<Rightarrow> string" where
  "normalizeBareCurrentValue [] = []"
| "normalizeBareCurrentValue (c # cs) =
     (if c = CHR ''$'' \<and> (case cs of [] \<Rightarrow> True | d # _ \<Rightarrow> \<not> is_letter d \<and> d \<noteq> CHR ''_'')
      then ''$value'' @ normalizeBareCurrentValue cs else c # normalizeBareCurrentValue cs)"

definition calibration_text :: "bmap \<Rightarrow> string \<Rightarrow> string" where
  "calibration_text calibration key = (case map_of calibration key of Some v \<Rightarrow> reference_text v | None \<Rightarrow> ''1'')"

function substituteCalibrationRefs :: "bmap \<Rightarrow> string \<Rightarrow> string" where
  "substituteCalibrationRefs calibration s =
     (case s of
        [] \<Rightarrow> []
      | c # cs \<Rightarrow>
          let key = takeWhile word_char (drop 13 s) in
          if starts_with ''$calibration.'' s \<and> key \<noteq> []
          then calibration_text calibration key @ substituteCalibrationRefs calibration (drop (13 + length key) s)
          else c # substituteCalibrationRefs calibration cs)"
  by pat_completeness auto
termination
  by (relation "measure (length \<circ> snd)") auto

declare substituteCalibrationRefs.simps [simp del]

definition field_text :: "bmap \<Rightarrow> string \<Rightarrow> string" where
  "field_text fields name =
     (if name \<in> {''value'', ''field'', ''calibration''} then CHR ''$'' # name
      else case map_of fields name of Some v \<Rightarrow> reference_text v | None \<Rightarrow> ''0'')"

function substituteSpecFieldRefs :: "bmap \<Rightarrow> string \<Rightarrow> string" where
  "substituteSpecFieldRefs fields s =
     (case s of
        [] \<Rightarrow> []
      | c # cs \<Rightarrow>
          if c = CHR ''$'' \<and> cs \<noteq> [] \<and> is_letter (hd cs)
          then field_text fields (takeWhile word_char cs) @ substituteSpecFieldRefs fields (dropWhile word_char cs)
          else c # substituteSpecFieldRefs fields cs)"
  by pat_completeness auto
termination
  by (relation "measure (length \<circ> snd)") (auto simp: length_dropWhile_le le_imp_less_Suc)

declare substituteSpecFieldRefs.simps [simp del]

section \<open>Conditions\<close>

datatype expr_error =
    DivisionByZero | UnexpectedEndOfExpression | MissingClosingParen | MissingClosingParenFor string | ExpectedNumber
  | InvalidNumber string | CannotEvaluate string | CompareNonNumeric string | CalibrationNotProvided | CalibrationKeyNotFound string

definition GetCalibrationValue :: "string \<Rightarrow> bmap option \<Rightarrow> expr_error + bval" where
  "GetCalibrationValue key calibration =
     (case calibration of
        None \<Rightarrow> Inl CalibrationNotProvided
      | Some m \<Rightarrow> (case map_of m key of None \<Rightarrow> Inl (CalibrationKeyNotFound key) | Some v \<Rightarrow> Inr v))"

definition compareValues :: "string \<Rightarrow> string \<Rightarrow> string \<Rightarrow> expr_error + bool" where
  "compareValues l r cmp =
     (case (ParseFloat l, ParseFloat r) of
        (Some x, Some y) \<Rightarrow>
          Inr (if cmp = ''=='' then equal_f64 x y
               else if cmp = ''!='' then \<not> equal_f64 x y
               else if cmp = ''<'' then less_f64 x y
               else if cmp = ''>'' then less_f64 y x
               else if cmp = ''<='' then less_f64 x y \<or> equal_f64 x y
               else less_f64 y x \<or> equal_f64 x y)
      | _ \<Rightarrow>
          if cmp = ''=='' then Inr (l = r)
          else if cmp = ''!='' then Inr (l \<noteq> r)
          else Inl (CompareNonNumeric cmp))"

definition comparison :: "string \<Rightarrow> (string \<times> string \<times> string) option" where
  "comparison s =
     (case find (contains s) [''=='', ''!='', ''<='', ''>='', ''<'', ''>''] of
        None \<Rightarrow> None
      | Some cmp \<Rightarrow> map_option (\<lambda>(l, r). (TrimSpace l, TrimSpace r, cmp)) (break_at cmp s))"

lemma break_at_shorter: "break_at sep s = Some (a, b) \<Longrightarrow> sep \<noteq> [] \<Longrightarrow> length a < length s \<and> length b < length s"
proof (induction s arbitrary: a b)
  case Nil
  then show ?case by (simp add: break_at.simps [of sep "[]"] starts_with_def split: if_splits)
next
  case (Cons c cs)
  show ?case
  proof (cases "starts_with sep (c # cs)")
    case True
    with Cons.prems(1) have "a = []" "b = drop (length sep) (c # cs)" by (simp_all add: break_at.simps [of sep "c # cs"])
    with Cons.prems(2) show ?thesis by (cases sep) simp_all
  next
    case False
    with Cons show ?thesis by (auto simp: break_at.simps [of sep "c # cs"])
  qed
qed

lemma trim_shorter: "length (TrimSpace s) \<le> length s"
proof -
  have l: "length (trim_left s) \<le> length s" for s
  proof (induction s rule: trim_left.induct)
    case (1 s)
    then show ?case by (subst trim_left.simps) (fastforce split: option.split)
  qed
  have "length (trim_right s) \<le> length s" for s
  proof (induction s rule: trim_right.induct)
    case (1 s)
    then show ?case by (subst trim_right.simps) (fastforce split: option.split)
  qed
  then show ?thesis using l by (auto simp: TrimSpace_def intro: order_trans)
qed

text \<open>The text is cut at the first \<^verbatim>\<open>&&\<close>, then at the first \<^verbatim>\<open>||\<close>, then at a comparison.\<close>

function evaluateBooleanExpression :: "string \<Rightarrow> expr_error + bool" where
  "evaluateBooleanExpression s0 =
     (let s = TrimSpace s0 in
      if s = ''true'' then Inr True
      else if s = ''false'' then Inr False
      else case break_at ''&&'' s of
        Some (l, r) \<Rightarrow>
          (case evaluateBooleanExpression l of
             Inl e \<Rightarrow> Inl e
           | Inr x \<Rightarrow> (case evaluateBooleanExpression r of Inl e \<Rightarrow> Inl e | Inr y \<Rightarrow> Inr (x \<and> y)))
      | None \<Rightarrow>
          (case break_at ''||'' s of
             Some (l, r) \<Rightarrow>
               (case evaluateBooleanExpression l of
                  Inl e \<Rightarrow> Inl e
                | Inr x \<Rightarrow> (case evaluateBooleanExpression r of Inl e \<Rightarrow> Inl e | Inr y \<Rightarrow> Inr (x \<or> y)))
           | None \<Rightarrow>
               (case comparison s of
                  Some (l, r, cmp) \<Rightarrow> compareValues l r cmp
                | None \<Rightarrow> (case ParseFloat s of Some x \<Rightarrow> Inr (\<not> is_zero x) | None \<Rightarrow> Inl (CannotEvaluate s)))))"
  by pat_completeness auto
termination
  by (relation "measure length")
    (auto dest!: break_at_shorter intro: less_le_trans [OF _ trim_shorter])

declare evaluateBooleanExpression.simps [simp del]

definition EvaluateCondition :: "string \<Rightarrow> bmap \<Rightarrow> bmap \<Rightarrow> expr_error + bool" where
  "EvaluateCondition condition fields calibration =
     (let c = TrimSpace condition in
      if c = [] then Inr True
      else evaluateBooleanExpression
        (substituteSpecFieldRefs fields (substituteCalibrationRefs calibration (normalizeBareCurrentValue c))))"

section \<open>Arithmetic\<close>

type_synonym libm = "string \<Rightarrow> f64 \<Rightarrow> f64"

definition mathFunctions :: "string list" where
  "mathFunctions = [''sqrt'', ''abs'', ''log'', ''exp'', ''sin'', ''cos'', ''tan'']"

fun abs_f64 :: "f64 \<Rightarrow> f64" where
  "abs_f64 (Fin s q) = Fin False q"
| "abs_f64 (Inf s) = Inf False"
| "abs_f64 NaN = NaN"

definition applyMathFunc :: "libm \<Rightarrow> string \<Rightarrow> f64 \<Rightarrow> f64" where
  "applyMathFunc m fn v = (if fn = ''abs'' then abs_f64 v else if fn \<in> set mathFunctions then m fn v else v)"

definition skip_spaces :: "string \<Rightarrow> string" where
  "skip_spaces = dropWhile (\<lambda>c. c = CHR '' '')"

definition number_char :: "char \<Rightarrow> bool" where
  "number_char c = (is_digit c \<or> c = CHR ''.'')"

text \<open>Results of the parser: out of fuel, an error, or a value and the rest of the text.\<close>

type_synonym parsed = "(expr_error + f64 \<times> string) option"

definition then_parse :: "parsed \<Rightarrow> (f64 \<Rightarrow> string \<Rightarrow> parsed) \<Rightarrow> parsed" where
  "then_parse r k = (case r of None \<Rightarrow> None | Some (Inl e) \<Rightarrow> Some (Inl e) | Some (Inr (v, s)) \<Rightarrow> k v s)"

definition close_paren :: "expr_error \<Rightarrow> f64 \<Rightarrow> string \<Rightarrow> parsed" where
  "close_paren e v s = (case skip_spaces s of c # r \<Rightarrow> if c = CHR '')'' then Some (Inr (v, r)) else Some (Inl e) | [] \<Rightarrow> Some (Inl e))"

definition parse_number :: "bool \<Rightarrow> string \<Rightarrow> parsed" where
  "parse_number neg s =
     (let ds = takeWhile number_char s in
      if ds = [] then Some (Inl ExpectedNumber)
      else case ParseFloat ds of
             None \<Rightarrow> Some (Inl (InvalidNumber ds))
           | Some v \<Rightarrow> Some (Inr (if neg then neg_f64 v else v, dropWhile number_char s)))"

fun parseExpression :: "libm \<Rightarrow> nat \<Rightarrow> string \<Rightarrow> parsed" and addLoop :: "libm \<Rightarrow> nat \<Rightarrow> f64 \<Rightarrow> string \<Rightarrow> parsed" and
    parseTerm :: "libm \<Rightarrow> nat \<Rightarrow> string \<Rightarrow> parsed" and mulLoop :: "libm \<Rightarrow> nat \<Rightarrow> f64 \<Rightarrow> string \<Rightarrow> parsed" and
    parseFactor :: "libm \<Rightarrow> nat \<Rightarrow> string \<Rightarrow> parsed" where
  "parseExpression m 0 s = None"
| "parseExpression m (Suc n) s = then_parse (parseTerm m n (skip_spaces s)) (addLoop m n)"
| "addLoop m 0 l s = None"
| "addLoop m (Suc n) l s =
     (case skip_spaces s of
        [] \<Rightarrow> Some (Inr (l, []))
      | c # r \<Rightarrow>
          if c = CHR ''+'' then then_parse (parseTerm m n r) (\<lambda>v. addLoop m n (add_f64 l v))
          else if c = CHR ''-'' then then_parse (parseTerm m n r) (\<lambda>v. addLoop m n (sub_f64 l v))
          else Some (Inr (l, c # r)))"
| "parseTerm m 0 s = None"
| "parseTerm m (Suc n) s = then_parse (parseFactor m n s) (mulLoop m n)"
| "mulLoop m 0 l s = None"
| "mulLoop m (Suc n) l s =
     (case skip_spaces s of
        [] \<Rightarrow> Some (Inr (l, []))
      | c # r \<Rightarrow>
          if c = CHR ''*'' then then_parse (parseFactor m n r) (\<lambda>v. mulLoop m n (mul_f64 l v))
          else if c = CHR ''/'' then then_parse (parseFactor m n r)
            (\<lambda>v s'. if is_zero v then Some (Inl DivisionByZero) else mulLoop m n (div_f64 l v) s')
          else Some (Inr (l, c # r)))"
| "parseFactor m 0 s = None"
| "parseFactor m (Suc n) s0 =
     (case skip_spaces s0 of
        [] \<Rightarrow> Some (Inl UnexpectedEndOfExpression)
      | c # r \<Rightarrow>
          if c = CHR ''('' then then_parse (parseExpression m n r) (close_paren MissingClosingParen)
          else (let neg = (c = CHR ''-''); s = (if neg then skip_spaces r else c # r) in
            case find (\<lambda>fn. starts_with (fn @ ''('') s) mathFunctions of
              Some fn \<Rightarrow>
                then_parse (then_parse (parseExpression m n (drop (length fn + 1) s)) (close_paren (MissingClosingParenFor fn)))
                  (\<lambda>v s'. let x = applyMathFunc m fn v in Some (Inr (if neg then neg_f64 x else x, s')))
            | None \<Rightarrow> parse_number neg s))"

definition evaluateArithmeticExpression :: "libm \<Rightarrow> string \<Rightarrow> (expr_error + bval) option" where
  "evaluateArithmeticExpression m s0 =
     (let s = TrimSpace s0 in
      if s = [] then Some (Inr (BInt 0))
      else map_option (map_sum id (BFloat \<circ> fst)) (parseExpression m (3 * length s + 3) s))"

definition EvaluateFunc :: "libm \<Rightarrow> string \<Rightarrow> bval \<Rightarrow> bmap \<Rightarrow> bmap \<Rightarrow> (expr_error + bval) option" where
  "EvaluateFunc m funcExpr currentValue fields calibration =
     (let f = TrimSpace funcExpr in
      if f = [] then Some (Inr currentValue)
      else evaluateArithmeticExpression m
        (substituteSpecFieldRefs fields (substituteCalibrationRefs calibration
          (replace_all ''$value'' (reference_text currentValue) (normalizeBareCurrentValue f)))))"

section \<open>The parser returns\<close>

lemma skip_spaces_shorter: "length (skip_spaces s) \<le> length s"
  by (simp add: skip_spaces_def length_dropWhile_le)

text \<open>A result that leaves at most \<open>k\<close> characters.\<close>

definition leaves :: "nat \<Rightarrow> parsed \<Rightarrow> bool" where
  "leaves k r \<longleftrightarrow> (\<exists>x. r = Some x \<and> (\<forall>v s. x = Inr (v, s) \<longrightarrow> length s \<le> k))"

lemma leaves_simps [simp]: "leaves k (Some (Inl e))" "leaves k (Some (Inr (v, s))) \<longleftrightarrow> length s \<le> k" "\<not> leaves k None"
  by (auto simp: leaves_def)

lemma leaves_then:
  assumes "leaves j r" "\<And>v s. r = Some (Inr (v, s)) \<Longrightarrow> length s \<le> j \<Longrightarrow> leaves k (f v s)"
  shows "leaves k (then_parse r f)"
  using assms by (auto simp: leaves_def then_parse_def split: sum.splits)

lemma leaves_close: "length s \<le> Suc k \<Longrightarrow> leaves k (close_paren e v s)"
  using skip_spaces_shorter [of s] by (auto simp: close_paren_def split: list.split)

lemma leaves_number: "leaves (length s - 1) (parse_number neg s)"
proof (cases "takeWhile number_char s")
  case (Cons c cs)
  have "length s = length (takeWhile number_char s) + length (dropWhile number_char s)"
    by (metis length_append takeWhile_dropWhile_id)
  with Cons show ?thesis by (auto simp: parse_number_def Let_def split: option.split)
qed (simp add: parse_number_def)

lemma leaves_mono: "leaves j r \<Longrightarrow> j \<le> k \<Longrightarrow> leaves k r"
  by (fastforce simp: leaves_def)

lemma parser_returns:
  "(3 * length s + 3 \<le> n \<longrightarrow> leaves (length s - 1) (parseExpression m n s)) \<and>
   (3 * length s + 1 \<le> n \<longrightarrow> leaves (length s) (addLoop m n l s)) \<and>
   (3 * length s + 2 \<le> n \<longrightarrow> leaves (length s - 1) (parseTerm m n s)) \<and>
   (3 * length s + 1 \<le> n \<longrightarrow> leaves (length s) (mulLoop m n l s)) \<and>
   (3 * length s + 1 \<le> n \<longrightarrow> leaves (length s - 1) (parseFactor m n s))"
proof (induction n arbitrary: s l)
  case 0
  show ?case by simp
next
  case (Suc n)
  note ih = Suc [THEN conjunct1, rule_format] Suc [THEN conjunct2, THEN conjunct1, rule_format]
    Suc [THEN conjunct2, THEN conjunct2, THEN conjunct1, rule_format]
    Suc [THEN conjunct2, THEN conjunct2, THEN conjunct2, THEN conjunct1, rule_format]
    Suc [THEN conjunct2, THEN conjunct2, THEN conjunct2, THEN conjunct2, rule_format]
  note sk = skip_spaces_shorter [of s]
  show ?case
  proof (intro conjI impI)
    assume n: "3 * length s + 3 \<le> Suc n"
    have "leaves (length s - 1) (parseTerm m n (skip_spaces s))" using n sk by (intro leaves_mono [OF ih(3)]) auto
    then show "leaves (length s - 1) (parseExpression m (Suc n) s)"
      unfolding parseExpression.simps by (rule leaves_then) (use n in \<open>auto intro!: leaves_mono [OF ih(2)]\<close>)
  next
    assume n: "3 * length s + 2 \<le> Suc n"
    have "leaves (length s - 1) (parseFactor m n s)" using n by (intro ih(5)) auto
    then show "leaves (length s - 1) (parseTerm m (Suc n) s)"
      unfolding parseTerm.simps by (rule leaves_then) (use n in \<open>auto intro!: leaves_mono [OF ih(4)]\<close>)
  next
    assume n: "3 * length s + 1 \<le> Suc n"
    show "leaves (length s) (addLoop m (Suc n) l s)"
    proof (cases "skip_spaces s")
      case (Cons c r)
      have t: "leaves (length s - 1) (parseTerm m n r)" using n sk Cons by (intro leaves_mono [OF ih(3)]) auto
      have a: "leaves (length s) (then_parse (parseTerm m n r) (\<lambda>v. addLoop m n (f v)))" for f
        using t by (rule leaves_then) (use n sk Cons in \<open>auto intro!: leaves_mono [OF ih(2)]\<close>)
      show ?thesis using a sk Cons by simp
    qed simp
    show "leaves (length s) (mulLoop m (Suc n) l s)"
    proof (cases "skip_spaces s")
      case (Cons c r)
      have t: "leaves (length s - 1) (parseFactor m n r)" using n sk Cons by (intro leaves_mono [OF ih(5)]) auto
      have a: "leaves (length s) (then_parse (parseFactor m n r) (\<lambda>v. mulLoop m n (f v)))" for f
        using t by (rule leaves_then) (use n sk Cons in \<open>auto intro!: leaves_mono [OF ih(4)]\<close>)
      have "leaves (length s) (then_parse (parseFactor m n r)
          (\<lambda>v s'. if is_zero v then Some (Inl DivisionByZero) else mulLoop m n (div_f64 l v) s'))"
        using t by (rule leaves_then) (use n sk Cons in \<open>auto intro!: leaves_mono [OF ih(4)]\<close>)
      then show ?thesis using a sk Cons by simp
    qed simp
    show "leaves (length s - 1) (parseFactor m (Suc n) s)"
    proof (cases "skip_spaces s")
      case (Cons c r)
      let ?t = "if c = CHR ''-'' then skip_spaces r else c # r"
      have t: "length ?t \<le> length s" using sk Cons skip_spaces_shorter [of r] by auto
      have paren: "leaves (length s - 1) (then_parse (parseExpression m n u) (close_paren e))" if "length u < length s" for u e
        using ih(1) [of u] that n by (intro leaves_then [of "length s - 1"] leaves_close) (auto intro: leaves_mono)
      have call: "leaves (length s - 1) (then_parse (then_parse (parseExpression m n (drop (length fn + 1) ?t)) (close_paren e))
          (\<lambda>v s'. Some (Inr (f v, s'))))" if "starts_with (fn @ ''('') ?t" for fn e f
      proof (rule leaves_then [OF paren])
        have "?t \<noteq> []" using that by (auto simp: starts_with_def)
        then show "length (drop (length fn + 1) ?t) < length s" using t by (cases ?t) auto
      qed simp
      show ?thesis
        using Cons sk paren [of r] call leaves_mono [OF leaves_number [of ?t] diff_le_mono [OF t]]
        by (auto simp: Let_def find_Some_iff split: option.split)
    qed simp
  qed
qed


section \<open>The parser without its fuel\<close>

text \<open>More fuel changes nothing, so the parser has a value for every text, and recursion equations for it.\<close>

lemma then_parse_mono:
  assumes "then_parse r f = Some x" "\<And>y. r = Some y \<Longrightarrow> r' = Some y" "\<And>v s y. f v s = Some y \<Longrightarrow> f' v s = Some y"
  shows "then_parse r' f' = Some x"
proof (cases r)
  case (Some y)
  then show ?thesis using assms by (cases y) (auto simp: then_parse_def)
qed (use assms(1) in \<open>simp add: then_parse_def\<close>)

lemma more_fuel:
  "(parseExpression m n s = Some x \<longrightarrow> parseExpression m (Suc n) s = Some x) \<and>
   (addLoop m n l s = Some x \<longrightarrow> addLoop m (Suc n) l s = Some x) \<and>
   (parseTerm m n s = Some x \<longrightarrow> parseTerm m (Suc n) s = Some x) \<and>
   (mulLoop m n l s = Some x \<longrightarrow> mulLoop m (Suc n) l s = Some x) \<and>
   (parseFactor m n s = Some x \<longrightarrow> parseFactor m (Suc n) s = Some x)"
proof (induction n arbitrary: s l x)
  case 0
  show ?case by simp
next
  case (Suc n)
  note ih = Suc [THEN conjunct1, rule_format] Suc [THEN conjunct2, THEN conjunct1, rule_format]
    Suc [THEN conjunct2, THEN conjunct2, THEN conjunct1, rule_format]
    Suc [THEN conjunct2, THEN conjunct2, THEN conjunct2, THEN conjunct1, rule_format]
    Suc [THEN conjunct2, THEN conjunct2, THEN conjunct2, THEN conjunct2, rule_format]
  show ?case
  proof (intro conjI impI)
    assume a: "parseExpression m (Suc n) s = Some x"
    from a [unfolded parseExpression.simps(2)] show "parseExpression m (Suc (Suc n)) s = Some x"
      unfolding parseExpression.simps(2) [of m "Suc n"] by (rule then_parse_mono) (fact ih)+
  next
    assume a: "parseTerm m (Suc n) s = Some x"
    from a [unfolded parseTerm.simps(2)] show "parseTerm m (Suc (Suc n)) s = Some x"
      unfolding parseTerm.simps(2) [of m "Suc n"] by (rule then_parse_mono) (fact ih)+
  next
    assume a: "addLoop m (Suc n) l s = Some x"
    from a [unfolded addLoop.simps(2)] show "addLoop m (Suc (Suc n)) l s = Some x"
      unfolding addLoop.simps(2) [of m "Suc n"]
      by (cases "skip_spaces s") (auto simp del: addLoop.simps parseTerm.simps split: if_splits intro: ih elim!: then_parse_mono)
  next
    assume a: "mulLoop m (Suc n) l s = Some x"
    from a [unfolded mulLoop.simps(2)] show "mulLoop m (Suc (Suc n)) l s = Some x"
      unfolding mulLoop.simps(2) [of m "Suc n"]
      by (cases "skip_spaces s") (auto simp del: mulLoop.simps parseFactor.simps split: if_splits intro: ih elim!: then_parse_mono)
  next
    assume a: "parseFactor m (Suc n) s = Some x"
    from a [unfolded parseFactor.simps(2)] show "parseFactor m (Suc (Suc n)) s = Some x"
      unfolding parseFactor.simps(2) [of m "Suc n"]
      by (cases "skip_spaces s")
        (auto simp del: parseExpression.simps simp: Let_def split: if_splits option.splits intro: ih elim!: then_parse_mono)
  qed
qed

end
