(* ===== verification/Blueprint_Decoder.thy ===== *)
theory Blueprint_Decoder
  imports Blueprint_Expr
begin

text \<open>
  The blueprint decoder: the specification of a device's payload formats (\<^verbatim>\<open>pkg/blueprint/types.go\<close>), the
  extraction of bit fields and the decoding of a payload into named values (\<^verbatim>\<open>decoder_service.go\<close>).
  A specification is modelled from its parsed form on; the JSON text is the library's. An index out
  of range and a negative shift are a Go panic, and a panic is a value here, \<open>XPanic\<close>: nothing on the
  way of an uplink recovers from it.
\<close>

unbundle bit_operations_syntax

section \<open>Specification\<close>

record ComponentDef =
  defSize :: i64
  defType :: string
  defUnit :: string
  defHidden :: bool
  defFunc :: string

record PayloadComponent =
  Name :: string
  Size :: i64
  Type :: string
  Offset :: "i64 option"
  Unit :: string
  Scale :: f64
  Bias :: f64
  Func :: string
  Condition :: string
  Calibration :: string
  Enum :: bmap
  Component :: string
  Hidden :: bool

record PayloadFormat =
  FormatID :: "8 word"
  Components :: "PayloadComponent list"
  LittleEndian :: bool

record Spec =
  Version :: string
  TypeEUI :: string
  ComponentDefs :: "(string \<times> ComponentDef) list"
  DefaultCalibration :: bmap
  Uplink :: "PayloadFormat list"
  Downlink :: "PayloadFormat list"

datatype spec_error =
    ErrMissingVersion | ErrMissingTypeEUI | ErrMissingUplinkDefs | ErrDuplicateFormatID | ErrComponentRefNotFound string string

definition resolve_component :: "(string \<times> ComponentDef) list \<Rightarrow> PayloadComponent \<Rightarrow> spec_error + PayloadComponent" where
  "resolve_component defs pc =
     (if Component pc = [] then Inr pc
      else case map_of defs (Component pc) of
             None \<Rightarrow> Inl (ErrComponentRefNotFound (Name pc) (Component pc))
           | Some d \<Rightarrow>
               Inr (pc\<lparr>Size := if Size pc = 0 then defSize d else Size pc,
                         Type := if Type pc = [] then defType d else Type pc,
                         Unit := if Unit pc = [] then defUnit d else Unit pc,
                         Func := if Func pc = [] then defFunc d else Func pc,
                         Hidden := Hidden pc \<or> defHidden d\<rparr>))"

definition resolve_format :: "(string \<times> ComponentDef) list \<Rightarrow> PayloadFormat \<Rightarrow> spec_error + PayloadFormat" where
  "resolve_format defs f =
     bind_result (map_result (resolve_component defs) (Components f)) (\<lambda>cs. Inr (f\<lparr>Components := cs\<rparr>))"

definition ResolveComponents :: "Spec \<Rightarrow> spec_error + Spec" where
  "ResolveComponents s =
     (if ComponentDefs s = [] then Inr s
      else bind_result (map_result (resolve_format (ComponentDefs s)) (Uplink s)) (\<lambda>ups.
             bind_result (map_result (resolve_format (ComponentDefs s)) (Downlink s)) (\<lambda>downs.
               Inr (s\<lparr>Uplink := ups, Downlink := downs\<rparr>))))"

definition Validate :: "Spec \<Rightarrow> spec_error option" where
  "Validate s =
     (if Version s = [] then Some ErrMissingVersion
      else if TypeEUI s = [] then Some ErrMissingTypeEUI
      else if Uplink s = [] \<and> Downlink s = [] then Some ErrMissingUplinkDefs
      else if \<not> distinct (map FormatID (Uplink s)) then Some ErrDuplicateFormatID
      else if \<not> distinct (map FormatID (Downlink s)) then Some ErrDuplicateFormatID
      else None)"

definition ParseAndValidate :: "Spec \<Rightarrow> spec_error + Spec" where
  "ParseAndValidate parsed =
     bind_result (ResolveComponents parsed) (\<lambda>s. case Validate s of Some e \<Rightarrow> Inl e | None \<Rightarrow> Inr s)"

definition GetUplinkFormat :: "8 word \<Rightarrow> Spec \<Rightarrow> PayloadFormat option" where
  "GetUplinkFormat formatID s = find (\<lambda>f. FormatID f = formatID) (Uplink s)"

definition GetDownlinkFormat :: "8 word \<Rightarrow> Spec \<Rightarrow> PayloadFormat option" where
  "GetDownlinkFormat formatID s = find (\<lambda>f. FormatID f = formatID) (Downlink s)"

section \<open>Bit fields\<close>

datatype extract_error =
    BitRangeExceedsPayload | BitSizeExceedsMax | BytesTypeAlignment | StringTypeAlignment | UnsupportedFieldType string

datatype xerror = XFail extract_error | XPanic

definition byte_at :: "bytes \<Rightarrow> int \<Rightarrow> xerror + byte" where
  "byte_at data i = (if 0 \<le> i \<and> i < int (length data) then Inr (data ! nat i) else Inl XPanic)"

definition bit_at :: "bytes \<Rightarrow> int \<Rightarrow> xerror + bool" where
  "bit_at data i = bind_result (byte_at data (i div 8)) (\<lambda>b. Inr (bit b (7 - nat (i mod 8))))"

fun be_loop :: "bytes \<Rightarrow> int \<Rightarrow> nat \<Rightarrow> nat list \<Rightarrow> u64 \<Rightarrow> xerror + u64" where
  "be_loop data off sz [] r = Inr r"
| "be_loop data off sz (i # is) r =
     bind_result (bit_at data (off + int i)) (\<lambda>b. be_loop data off sz is (if b then r OR push_bit (sz - 1 - i) 1 else r))"

fun le_loop :: "bytes \<Rightarrow> int \<Rightarrow> nat list \<Rightarrow> u64 \<Rightarrow> xerror + u64" where
  "le_loop data start [] r = Inr r"
| "le_loop data start (i # is) r =
     bind_result (byte_at data (start + int i)) (\<lambda>b. le_loop data start is (r OR push_bit (i * 8) (ucast b)))"

definition extractUint :: "bytes \<Rightarrow> int \<Rightarrow> int \<Rightarrow> bool \<Rightarrow> xerror + u64" where
  "extractUint data off sz littleEndian =
     (if sz > 64 then Inl (XFail BitSizeExceedsMax)
      else if littleEndian \<and> off mod 8 = 0 \<and> sz mod 8 = 0
      then le_loop data (off div 8) [0..<nat (sz div 8)] 0
      else be_loop data off (nat sz) [0..<nat sz] 0)"

text \<open>The value of \<^verbatim>\<open>float64(int64(1) << n)\<close>: the bit leaves the positive range at 63 and the word at 64.\<close>

definition shifted_one :: "int \<Rightarrow> xerror + f64" where
  "shifted_one n = (if n < 0 then Inl XPanic else Inr (of_i64 (if n < 64 then push_bit (nat n) 1 else 0)))"

definition infApprox :: f64 where
  "infApprox = nearest False (10 ^ 308)"

definition exp32 :: "u32 \<Rightarrow> int" where "exp32 bits = uint (drop_bit 23 bits AND 0xFF)"
definition mantissa32 :: "u32 \<Rightarrow> int" where "mantissa32 bits = uint (bits AND 0x7FFFFF)"
definition sign32 :: "u32 \<Rightarrow> bool" where "sign32 bits = (drop_bit 31 bits AND 1 = 1)"

definition signed_result :: "bool \<Rightarrow> f64 \<Rightarrow> f64" where
  "signed_result neg f = (if neg then neg_f64 f else f)"

text \<open>In the subnormal case the shift count wraps as a \<^verbatim>\<open>uint32\<close>, and the shift gives zero.\<close>

definition float64FromBits32 :: "u32 \<Rightarrow> xerror + f64" where
  "float64FromBits32 bits =
     (let exp = exp32 bits; mantissa = mantissa32 bits; f = div_f64 (nearest False (of_int mantissa)) (nearest False (2 ^ 23))
      in if exp = 0 \<and> mantissa = 0 then Inr (Fin False 0)
         else if exp = 0xFF
         then if mantissa \<noteq> 0 then Inr (Fin False 0) else Inr (signed_result (sign32 bits) infApprox)
         else if exp = 0
         then bind_result (shifted_one (uint (word_of_int exp - 126 :: u32))) (\<lambda>x. Inr (signed_result (sign32 bits) (mul_f64 f x)))
         else bind_result (shifted_one (exp - 127))
           (\<lambda>x. Inr (signed_result (sign32 bits) (mul_f64 (add_f64 (Fin False 1) f) x))))"

definition exp64 :: "u64 \<Rightarrow> int" where "exp64 bits = uint (drop_bit 52 bits AND 0x7FF)"
definition mantissa64 :: "u64 \<Rightarrow> int" where "mantissa64 bits = uint (bits AND 0xFFFFFFFFFFFFF)"
definition sign64 :: "u64 \<Rightarrow> bool" where "sign64 bits = (drop_bit 63 bits AND 1 = 1)"

definition float64FromBits64 :: "u64 \<Rightarrow> xerror + f64" where
  "float64FromBits64 bits =
     (let exp = exp64 bits; mantissa = mantissa64 bits; f = div_f64 (nearest False (of_int mantissa)) (nearest False (2 ^ 52))
      in if exp = 0 \<and> mantissa = 0 then Inr (Fin False 0)
         else if exp = 0x7FF
         then if mantissa \<noteq> 0 then Inr (Fin False 0) else Inr (signed_result (sign64 bits) infApprox)
         else if exp = 0
         then bind_result (shifted_one (exp - 1022)) (\<lambda>x. Inr (signed_result (sign64 bits) (mul_f64 f x)))
         else bind_result (shifted_one (exp - 1023))
           (\<lambda>x. Inr (signed_result (sign64 bits) (mul_f64 (add_f64 (Fin False 1) f) x))))"

definition byte_slice :: "bytes \<Rightarrow> int \<Rightarrow> int \<Rightarrow> xerror + bytes" where
  "byte_slice data start n =
     (if 0 \<le> n \<and> start + n \<le> int (length data) then Inr (take (nat n) (drop (nat start) data)) else Inl XPanic)"

definition extractInt :: "bytes \<Rightarrow> int \<Rightarrow> int \<Rightarrow> bool \<Rightarrow> xerror + i64" where
  "extractInt data off sz littleEndian =
     bind_result (extractUint data off sz littleEndian) (\<lambda>u.
       if sz \<le> 0 then Inl XPanic
       else if u AND push_bit (nat (sz - 1)) 1 \<noteq> 0 then Inr (u - push_bit (nat sz) 1) else Inr u)"

definition extractFloat :: "bytes \<Rightarrow> int \<Rightarrow> int \<Rightarrow> bool \<Rightarrow> xerror + f64" where
  "extractFloat data off sz littleEndian =
     bind_result (extractUint data off sz littleEndian) (\<lambda>u.
       if sz = 32 then float64FromBits32 (ucast u)
       else if sz = 64 then float64FromBits64 u
       else Inr (of_u64 u))"

definition extractValue :: "bytes \<Rightarrow> i64 \<Rightarrow> i64 \<Rightarrow> string \<Rightarrow> bool \<Rightarrow> xerror + bval" where
  "extractValue data bitOffset bitSize fieldType littleEndian =
     (let off = sint bitOffset; sz = sint bitSize; aligned = (off mod 8 = 0 \<and> sz mod 8 = 0) in
      if off < 0 \<or> sint (bitOffset + bitSize) > int (length data * 8) then Inl (XFail BitRangeExceedsPayload)
      else if fieldType = ''bool'' then bind_result (bit_at data off) (\<lambda>b. Inr (BBool b))
      else if fieldType = ''uint'' \<or> fieldType = ''enum''
      then bind_result (extractUint data off sz littleEndian) (\<lambda>u. Inr (BUint u))
      else if fieldType = ''int'' then bind_result (extractInt data off sz littleEndian) (\<lambda>v. Inr (BInt v))
      else if fieldType = ''float'' then bind_result (extractFloat data off sz littleEndian) (\<lambda>f. Inr (BFloat f))
      else if fieldType = ''bytes'' \<or> fieldType = ''binary''
      then if \<not> aligned then Inl (XFail BytesTypeAlignment)
           else bind_result (byte_slice data (off div 8) (sz div 8)) (\<lambda>bs. Inr (BBytes bs))
      else if fieldType = ''string''
      then if \<not> aligned then Inl (XFail StringTypeAlignment)
           else bind_result (byte_slice data (off div 8) (sz div 8)) (\<lambda>bs. Inr (BString (map (\<lambda>b. char_of (uint b)) bs)))
      else Inl (XFail (UnsupportedFieldType fieldType)))"

section \<open>Decoding\<close>

datatype decode_error =
    ConditionEvalFailed string expr_error
  | BitExtractionFailed string extract_error
  | CalibrationNotFound string expr_error
  | ExpressionEvalFailed string expr_error
  | DecodePanic

definition calculateRequiredBits :: "PayloadFormat \<Rightarrow> i64" where
  "calculateRequiredBits f =
     fold (\<lambda>c highest.
       let last = (case Offset c of Some off \<Rightarrow> off + Size c | None \<Rightarrow> highest + Size c)
       in if sint last > sint highest then last else highest) (Components f) 0"

definition mergeCalibration :: "bmap \<Rightarrow> bmap \<Rightarrow> bmap option" where
  "mergeCalibration blueprintCal deviceCal =
     (if blueprintCal = [] \<and> deviceCal = [] then None
      else Some (fold (\<lambda>(k, v). AList.update k v) deviceCal blueprintCal))"

text \<open>The steps on the value of one component: scale and bias, calibration, function, enumeration.\<close>

definition scale_value :: "PayloadComponent \<Rightarrow> bval \<Rightarrow> bval" where
  "scale_value c v =
     (case ToFloat64 v of
        None \<Rightarrow> v
      | Some x \<Rightarrow>
          (let y = (if \<not> is_zero (Scale c) then mul_f64 x (Scale c) else x)
           in BFloat (if \<not> is_zero (Bias c) then add_f64 y (Bias c) else y)))"

definition calibrate_value :: "PayloadComponent \<Rightarrow> bmap option \<Rightarrow> bval \<Rightarrow> decode_error + bval" where
  "calibrate_value c cal v =
     (if Calibration c = [] then Inr v
      else case GetCalibrationValue (Calibration c) cal of
             Inl e \<Rightarrow> Inl (CalibrationNotFound (Name c) e)
           | Inr k \<Rightarrow> Inr (case (ToFloat64 v, ToFloat64 k) of (Some x, Some y) \<Rightarrow> BFloat (mul_f64 x y) | _ \<Rightarrow> v))"

definition apply_func :: "libm \<Rightarrow> PayloadComponent \<Rightarrow> bmap \<Rightarrow> bmap option \<Rightarrow> bval \<Rightarrow> decode_error + bval" where
  "apply_func m c result cal v =
     (if Func c = [] then Inr v
      else case the (EvaluateFunc m (Func c) v result (case cal of None \<Rightarrow> [] | Some k \<Rightarrow> k)) of
             Inl e \<Rightarrow> Inl (ExpressionEvalFailed (Name c) e)
           | Inr w \<Rightarrow> Inr w)"

definition enum_value :: "PayloadComponent \<Rightarrow> bval \<Rightarrow> bval" where
  "enum_value c v =
     (if Enum c = [] \<or> show_value v = [] then v
      else case map_of (Enum c) (show_value v) of Some w \<Rightarrow> w | None \<Rightarrow> v)"

definition component_value :: "libm \<Rightarrow> bytes \<Rightarrow> bool \<Rightarrow> bmap option \<Rightarrow> bmap \<Rightarrow> i64 \<Rightarrow> PayloadComponent \<Rightarrow> decode_error + bval" where
  "component_value m data le cal result bitOffset c =
     (case extractValue data bitOffset (Size c) (Type c) le of
        Inl XPanic \<Rightarrow> Inl DecodePanic
      | Inl (XFail e) \<Rightarrow> Inl (BitExtractionFailed (Name c) e)
      | Inr v \<Rightarrow>
          bind_result (calibrate_value c cal (scale_value c v)) (\<lambda>v1.
            bind_result (apply_func m c result cal v1) (\<lambda>v2. Inr (enum_value c v2))))"

fun decode_components ::
    "libm \<Rightarrow> bytes \<Rightarrow> bool \<Rightarrow> bmap option \<Rightarrow> PayloadComponent list \<Rightarrow> bmap \<Rightarrow> i64 \<Rightarrow> decode_error + bmap" where
  "decode_components m data le cal [] result cur = Inr result"
| "decode_components m data le cal (c # cs) result cur =
     (let bitOffset = (case Offset c of Some off \<Rightarrow> off | None \<Rightarrow> cur) in
      case (if Condition c = [] then Inr True else EvaluateCondition (Condition c) result (case cal of None \<Rightarrow> [] | Some k \<Rightarrow> k)) of
        Inl e \<Rightarrow> Inl (ConditionEvalFailed (Name c) e)
      | Inr False \<Rightarrow> decode_components m data le cal cs result (bitOffset + Size c)
      | Inr True \<Rightarrow>
          bind_result (component_value m data le cal result bitOffset c) (\<lambda>v.
            decode_components m data le cal cs (AList.update (Name c) v result) (bitOffset + Size c)))"

definition decodePayload :: "libm \<Rightarrow> bytes \<Rightarrow> PayloadFormat \<Rightarrow> bmap option \<Rightarrow> decode_error + bmap" where
  "decodePayload m userData f cal = decode_components m userData (LittleEndian f) cal (Components f) [] 0"

datatype decode_failure =
    InvalidSpec spec_error | FormatIDNotFound | PayloadTooShort int nat | DecodeFailed decode_error

text \<open>
  \<^verbatim>\<open>Decode\<close> on a parsed specification. The required length is compared after rounding the bits up to
  whole bytes; a panic of a component is the error \<open>DecodePanic\<close>.
\<close>

definition Decode :: "libm \<Rightarrow> Spec \<Rightarrow> bytes \<Rightarrow> 8 word \<Rightarrow> bmap \<Rightarrow> decode_failure + bmap" where
  "Decode m parsed userData formatID calibration =
     (case ParseAndValidate parsed of
        Inl e \<Rightarrow> Inl (InvalidSpec e)
      | Inr spec \<Rightarrow>
          (case GetUplinkFormat formatID spec of
             None \<Rightarrow> Inl FormatIDNotFound
           | Some f \<Rightarrow>
               (let n = sint (calculateRequiredBits f + 7); requiredBytes = (if 0 \<le> n then n div 8 else - ((- n) div 8)) in
                if int (length userData) < requiredBytes then Inl (PayloadTooShort requiredBytes (length userData))
                else case decodePayload m userData f (mergeCalibration (DefaultCalibration spec) calibration) of
                       Inl e \<Rightarrow> Inl (DecodeFailed e)
                     | Inr r \<Rightarrow> Inr r)))"

section \<open>What a bit field is\<close>

text \<open>The bits of a payload in the order they are sent, and the number a list of bits denotes.\<close>

definition byte_bits :: "byte \<Rightarrow> bool list" where
  "byte_bits b = map (\<lambda>i. bit b (7 - i)) [0..<8]"

definition payload_bits :: "bytes \<Rightarrow> bool list" where
  "payload_bits data = concat (map byte_bits data)"

definition number_of :: "bool list \<Rightarrow> nat" where
  "number_of bs = foldl (\<lambda>n b. 2 * n + of_bool b) 0 bs"

text \<open>The bits of a field: most significant first; a little-endian field of whole bytes has its last byte first.\<close>

definition field_bits :: "bytes \<Rightarrow> nat \<Rightarrow> nat \<Rightarrow> bool \<Rightarrow> bool list" where
  "field_bits data off sz le =
     (if le \<and> 8 dvd off \<and> 8 dvd sz then payload_bits (rev (take (sz div 8) (drop (off div 8) data)))
      else take sz (drop off (payload_bits data)))"

definition signed_number :: "bool list \<Rightarrow> int" where
  "signed_number bs = int (number_of bs) - (if hd bs then 2 ^ length bs else 0)"

lemma length_byte_bits [simp]: "length (byte_bits b) = 8"
  by (simp add: byte_bits_def)

lemma length_payload_bits [simp]: "length (payload_bits data) = 8 * length data"
  by (induction data) (simp_all add: payload_bits_def)

lemma payload_bits_Cons: "payload_bits (b # data) = byte_bits b @ payload_bits data"
  by (simp add: payload_bits_def)

lemma payload_bits_nth: "k < 8 * length data \<Longrightarrow> payload_bits data ! k = bit (data ! (k div 8)) (7 - k mod 8)"
proof (induction data arbitrary: k)
  case (Cons b data)
  show ?case
  proof (cases "k < 8")
    case True
    then show ?thesis by (simp add: payload_bits_Cons nth_append byte_bits_def)
  next
    case False
    then obtain j where "k = 8 + j" by (metis le_add_diff_inverse not_less)
    then show ?thesis using Cons by (simp add: payload_bits_Cons nth_append)
  qed
qed simp

lemma number_of_horner: "number_of bs = horner_sum of_bool 2 (rev bs)"
proof (induction bs rule: rev_induct)
  case (snoc b bs)
  then show ?case by (simp add: number_of_def)
qed (simp add: number_of_def)

lemma bit_number_of: "bit (number_of bs) k \<longleftrightarrow> k < length bs \<and> bs ! (length bs - Suc k)"
  by (auto simp: number_of_horner bit_horner_sum_bit_iff rev_nth)

lemma number_of_bound: "number_of bs < 2 ^ length bs"
proof (induction bs rule: rev_induct)
  case (snoc b bs)
  then show ?case by (auto simp: number_of_def)
qed (simp add: number_of_def)

lemma bit_word_number_of: "length bs \<le> 64 \<Longrightarrow> bit (of_nat (number_of bs) :: u64) k \<longleftrightarrow> k < length bs \<and> bs ! (length bs - Suc k)"
  by (auto simp: bit_of_nat_iff possible_bit_def bit_number_of)

section \<open>Extraction reads the field\<close>

lemma bit_at_payload: "k < 8 * length data \<Longrightarrow> bit_at data (int k) = Inr (payload_bits data ! k)"
proof -
  assume k: "k < 8 * length data"
  have "int k div 8 = int (k div 8)" "int k mod 8 = int (k mod 8)" by (simp_all add: zdiv_int zmod_int)
  moreover have "k div 8 < length data" using k by (simp add: less_mult_imp_div_less mult.commute)
  ultimately show ?thesis using k by (simp add: bit_at_def byte_at_def payload_bits_nth)
qed

lemma be_loop_fold:
  "\<forall>i \<in> set is. off + i < 8 * length data \<Longrightarrow>
     be_loop data (int off) sz is r = Inr (fold (\<lambda>i r. if payload_bits data ! (off + i) then r OR push_bit (sz - 1 - i) 1 else r) is r)"
  by (induction "is" arbitrary: r) (simp_all add: bit_at_payload flip: of_nat_add)

lemma bit_fold_or:
  "bit (fold (\<lambda>i r. if B i then r OR push_bit (f i) 1 else r) is r :: u64) k \<longleftrightarrow> bit r k \<or> k < 64 \<and> (\<exists>i \<in> set is. B i \<and> f i = k)"
  by (induction "is" arbitrary: r) (auto simp: bit_simps)

lemma extract_be:
  assumes "off + sz \<le> 8 * length data" "sz \<le> 64"
  shows "be_loop data (int off) sz [0..<sz] 0 = Inr (of_nat (number_of (take sz (drop off (payload_bits data)))))"
proof -
  let ?bs = "take sz (drop off (payload_bits data))"
  let ?w = "fold (\<lambda>i r. if payload_bits data ! (off + i) then r OR push_bit (sz - 1 - i) 1 else r) [0..<sz] 0 :: u64"
  have "bit ?w k \<longleftrightarrow> bit (of_nat (number_of ?bs) :: u64) k" for k
  proof -
    have "(\<exists>i \<in> set [0..<sz]. payload_bits data ! (off + i) \<and> sz - 1 - i = k) \<longleftrightarrow> k < sz \<and> payload_bits data ! (off + (sz - Suc k))"
      by (auto intro: bexI [of _ "sz - Suc k"])
    then show ?thesis unfolding bit_fold_or using assms by (auto simp: bit_word_number_of)
  qed
  then have "?w = of_nat (number_of ?bs)" by (intro bit_word_eqI) simp
  then show ?thesis using be_loop_fold [of "[0..<sz]" off data sz 0] assms(1) by simp
qed

lemma le_loop_fold:
  "\<forall>i \<in> set is. start + i < length data \<Longrightarrow>
     le_loop data (int start) is r = Inr (fold (\<lambda>i r. r OR push_bit (i * 8) (ucast (data ! (start + i)))) is r)"
  by (induction "is" arbitrary: r) (simp_all add: byte_at_def flip: of_nat_add)

lemma bit_fold_bytes:
  "bit (fold (\<lambda>i r. r OR push_bit (i * 8) (ucast (B i :: byte))) is r :: u64) k \<longleftrightarrow>
     bit r k \<or> k < 64 \<and> (\<exists>i \<in> set is. (i * 8 \<le> k \<and> k - i * 8 < 8) \<and> bit (B i) (k - i * 8))"
  by (induction "is" arbitrary: r) (auto simp: bit_simps dest: bit_imp_le_length)

lemma rev_take_nth:
  assumes "q < n" "start + n \<le> length data"
  shows "rev (take n (drop start data)) ! (n - Suc q) = data ! (start + q)"
proof -
  have len: "length (take n (drop start data)) = n" using assms(2) by simp
  have "rev (take n (drop start data)) ! (n - Suc q) = take n (drop start data) ! (n - Suc (n - Suc q))"
    using assms(1) rev_nth [of "n - Suc q" "take n (drop start data)"] by (simp only: len)
  also have "n - Suc (n - Suc q) = q" using assms(1) by simp
  finally show ?thesis using assms by simp
qed

lemma extract_le:
  assumes "start + n \<le> length data" "n \<le> 8"
  shows "le_loop data (int start) [0..<n] 0 = Inr (of_nat (number_of (payload_bits (rev (take n (drop start data))))))"
proof -
  let ?bs = "payload_bits (rev (take n (drop start data)))"
  let ?w = "fold (\<lambda>i r. r OR push_bit (i * 8) (ucast (data ! (start + i)))) [0..<n] 0 :: u64"
  have len: "length ?bs = 8 * n" using assms by simp
  have "bit ?w k \<longleftrightarrow> bit (of_nat (number_of ?bs) :: u64) k" for k
  proof (cases "k < 8 * n")
    case True
    let ?j = "8 * n - Suc k"
    define q r where "q = k div 8" "r = k mod 8"
    then have qr: "k = 8 * q + r" "r < 8" by simp_all
    then have "?j = 8 * (n - Suc q) + (7 - r)" using True by auto
    moreover have "(8 * a + u) div 8 = a" "(8 * a + u) mod 8 = u" if "u < 8" for a u :: nat using that by simp_all
    ultimately have "?j div 8 = n - Suc q" "?j mod 8 = 7 - r" by simp_all
    then have j: "?j div 8 = n - Suc (k div 8)" "7 - ?j mod 8 = k mod 8" using qr by simp_all
    have "?bs ! ?j = bit (rev (take n (drop start data)) ! (n - Suc (k div 8))) (k mod 8)"
      using True assms payload_bits_nth [of ?j "rev (take n (drop start data))"] j by simp
    also have "rev (take n (drop start data)) ! (n - Suc (k div 8)) = data ! (start + k div 8)"
      using True assms(1) by (intro rev_take_nth) (simp_all add: less_mult_imp_div_less mult.commute)
    finally have b: "?bs ! ?j = bit (data ! (start + k div 8)) (k mod 8)" .
    have u: "i * 8 \<le> k \<and> k - i * 8 < 8 \<longleftrightarrow> i = q" for i using qr by auto
    have "q < n" "k - q * 8 = r" using True qr by auto
    then have "bit ?w k \<longleftrightarrow> bit (data ! (start + k div 8)) (k mod 8)"
      using True assms(2) unfolding bit_fold_bytes u by (auto simp: \<open>q = k div 8\<close> \<open>r = k mod 8\<close>)
    then show ?thesis using b True len assms(2) by (simp add: bit_word_number_of)
  next
    case False
    then show ?thesis using len assms(2) unfolding bit_fold_bytes by (auto simp: bit_word_number_of)
  qed
  then have "?w = of_nat (number_of ?bs)" by (intro bit_word_eqI) simp
  then show ?thesis using le_loop_fold [of "[0..<n]" start data 0] assms(1) by simp
qed

lemma extractUint_field:
  assumes "off + sz \<le> 8 * length data" "sz \<le> 64"
  shows "extractUint data (int off) (int sz) le = Inr (of_nat (number_of (field_bits data off sz le)))"
proof (cases "le \<and> 8 dvd off \<and> 8 dvd sz")
  case True
  then obtain a b where "off = 8 * a" "sz = 8 * b" by (auto elim!: dvdE)
  then show ?thesis using assms True extract_le [of a b data] by (simp add: extractUint_def field_bits_def)
next
  case False
  have e: "int x mod 8 = 0 \<longleftrightarrow> 8 dvd x" for x using of_nat_dvd_iff [where ?'a = int, of 8 x] by (simp add: dvd_eq_mod_eq_0)
  have a: "\<not> (le \<and> int off mod 8 = 0 \<and> int sz mod 8 = 0)" unfolding e by (fact False)
  have "\<not> 64 < int sz" using assms(2) by simp
  then have "extractUint data (int off) (int sz) le = be_loop data (int off) sz [0..<sz] 0"
    by (simp only: extractUint_def a if_False nat_int)
  moreover have "field_bits data off sz le = take sz (drop off (payload_bits data))" using False by (simp only: field_bits_def if_False)
  ultimately show ?thesis using extract_be [OF assms] by simp
qed

lemma length_field_bits [simp]: "off + sz \<le> 8 * length data \<Longrightarrow> length (field_bits data off sz le) = sz"
  by (auto simp: field_bits_def elim!: dvdE)

lemma extractInt_field:
  assumes "off + sz \<le> 8 * length data" "0 < sz" "sz \<le> 64"
  shows "extractInt data (int off) (int sz) le = Inr (word_of_int (signed_number (field_bits data off sz le)))"
proof -
  let ?bs = "field_bits data off sz le" and ?u = "of_nat (number_of (field_bits data off sz le)) :: u64"
  have len: "length ?bs = sz" using assms(1) by simp
  then have "bit ?u (sz - 1) = hd ?bs" using assms(2,3) by (cases ?bs) (auto simp: bit_word_number_of)
  then have sign: "?u AND push_bit (sz - 1) 1 \<noteq> 0 \<longleftrightarrow> hd ?bs" by (simp add: bit_iff_and_push_bit_not_eq_0)
  have n: "nat (int sz - 1) = sz - 1" "nat (int sz) = sz" using assms(2) by auto
  have "extractInt data (int off) (int sz) le =
      (if ?u AND push_bit (sz - 1) 1 \<noteq> 0 then Inr (?u - push_bit sz 1) else Inr ?u)"
    using assms(2) by (simp add: extractInt_def extractUint_field [OF assms(1,3)] n)
  also have "\<dots> = Inr (word_of_int (signed_number ?bs))"
    unfolding sign by (simp add: signed_number_def len push_bit_of_1 del: bit_0)
  finally show ?thesis .
qed

lemma field_range:
  assumes "off + sz \<le> 8 * length data" "length data < 2 ^ 59"
  shows "sint (of_nat off :: i64) = int off" "sint (of_nat sz :: i64) = int sz" "sint (of_nat off + of_nat sz :: i64) = int (off + sz)"
proof -
  have *: "sint (of_nat n :: i64) = int n" if "n \<le> 8 * length data" for n
    using that assms(2) sint_word_of_int64 [of "int n"] by simp
  show "sint (of_nat off :: i64) = int off" "sint (of_nat sz :: i64) = int sz" using assms(1) by (intro *; simp)+
  show "sint (of_nat off + of_nat sz :: i64) = int (off + sz)" using * [OF assms(1)] by simp
qed

text \<open>
  C25. A field of 1 to 64 bits that lies within the payload is read exactly: an unsigned field and an
  enumeration as the number its bits denote, most significant bit first, or with its bytes in reverse
  order when the format is little-endian and the field consists of whole bytes; a signed field as the
  two's complement of the same bits; a Boolean field as its first bit.
\<close>

theorem bit_fields_extracted:
  assumes "off + sz \<le> 8 * length data" "0 < sz" "sz \<le> 64" "length data < 2 ^ 59"
  shows "extractValue data (of_nat off) (of_nat sz) ''uint'' le = Inr (BUint (of_nat (number_of (field_bits data off sz le)))) \<and>
    extractValue data (of_nat off) (of_nat sz) ''enum'' le = Inr (BUint (of_nat (number_of (field_bits data off sz le)))) \<and>
    extractValue data (of_nat off) (of_nat sz) ''int'' le = Inr (BInt (word_of_int (signed_number (field_bits data off sz le)))) \<and>
    extractValue data (of_nat off) (of_nat sz) ''bool'' le = Inr (BBool (payload_bits data ! off))"
proof -
  have ok: "\<not> (int off < 0 \<or> int (off + sz) > int (length data * 8))" using assms(1) by auto
  note v = extractValue_def [of data "of_nat off" "of_nat sz" _ le, unfolded field_range [OF assms(1,4)] Let_def]
  have "off < 8 * length data" using assms(1,2) by simp
  then show ?thesis
    unfolding v using ok extractUint_field [OF assms(1,3), of le] extractInt_field [OF assms(1-3), of le] bit_at_payload [of off data]
    by (simp del: of_nat_add)
qed

theorem bit_fields_extracted_witness:
  "extractValue [0xA5, 0x3C] 4 8 ''uint'' False = Inr (BUint 0x53) \<and> extractValue [0xA5, 0x3C] 0 16 ''uint'' True = Inr (BUint 0x3CA5) \<and>
   extractValue [0xA5, 0x3C] 0 4 ''int'' False = Inr (BInt (- 6))"
proof -
  have e: "of_nat (number_of (field_bits [0xA5, 0x3C] 4 8 False)) = (0x53 :: u64)"
    "of_nat (number_of (field_bits [0xA5, 0x3C] 0 16 True)) = (0x3CA5 :: u64)"
    "word_of_int (signed_number (field_bits [0xA5, 0x3C] 0 4 False)) = (- 6 :: i64)"
    by code_simp+
  show ?thesis
    using bit_fields_extracted [of 4 8 "[0xA5, 0x3C]" False] bit_fields_extracted [of 0 16 "[0xA5, 0x3C]" True]
      bit_fields_extracted [of 0 4 "[0xA5, 0x3C]" False] e by simp
qed

end
