(* ===== verification/Blueprint_Floats.thy ===== *)
theory Blueprint_Floats
  imports Blueprint_Decoder
begin

text \<open>
  The floating point fields of a payload: which bit patterns the decoder reads as the IEEE 754 value
  they denote, and on which it panics.
\<close>

section \<open>Exact doubles\<close>

lemma pow2_nonzero [simp]: "pow2 e \<noteq> 0" "\<bar>pow2 e\<bar> = pow2 e"
  using pow2_pos [of e] by linarith+

lemma pow2_powi: "pow2 e = (2 :: rat) powi e"
  by (simp add: pow2_def power_int_def field_simps)

lemma pow2_add: "pow2 (d + e) = pow2 d * pow2 e"
  by (simp add: pow2_powi power_int_add)

lemma pow2_nat: "pow2 (int n) = 2 ^ n"
  by (simp add: pow2_def)

lemma pow2_less: "pow2 d < pow2 e \<Longrightarrow> d < e"
  using pow2_mono [of e d] by (cases "e \<le> d") auto

lemma binade_lower:
  assumes "q \<noteq> 0"
  shows "pow2 (binade q) \<le> \<bar>q\<bar>"
proof -
  obtain n d where nd: "quotient_of \<bar>q\<bar> = (n, d)" by force
  then have q: "\<bar>q\<bar> = of_int n / of_int d" and d: "0 < d" by (simp_all add: quotient_of_div quotient_of_denom_pos)
  then have n: "0 < n" using assms by (metis abs_of_pos divide_pos_pos of_int_0_less_iff zero_less_abs_iff zero_less_divide_iff not_less_iff_gr_or_eq)
  let ?a = "bit_length n" and ?b = "bit_length d"
  have a: "1 \<le> ?a" "2 ^ nat (?a - 1) \<le> n" using bit_length_bounds [OF n] by auto
  have b: "1 \<le> ?b" "d < 2 ^ nat ?b" using bit_length_bounds [OF d] by auto
  have "pow2 (?a - 1) \<le> of_int n" "of_int d \<le> pow2 ?b"
    using a b by (simp_all add: pow2_def)
  then have "pow2 (?a - 1) * of_int d \<le> of_int n * pow2 ?b" using d n by (intro mult_mono) auto
  moreover have "pow2 (?a - 1) = pow2 (?a - ?b - 1) * pow2 ?b" by (simp flip: pow2_add)
  ultimately have "pow2 (?a - ?b - 1) * of_int d \<le> of_int n" by (simp add: mult.assoc mult.commute mult.left_commute)
  then have "pow2 (?a - ?b - 1) \<le> \<bar>q\<bar>" using d by (simp add: q pos_le_divide_eq)
  then show ?thesis by (simp add: binade_def nd Let_def not_less)
qed

lemma float64_of_dyadic:
  assumes "\<bar>k\<bar> < 2 ^ 53" "- 1074 \<le> e" "e \<le> 900"
  shows "float64_of (of_int k * pow2 e) = FFin (of_int k * pow2 e)"
proof (cases "k = 0")
  case True
  then show ?thesis by (simp add: float64_of_def round_float_def)
next
  case False
  let ?q = "of_int k * pow2 e"
  have pos: "0 < pow2 e" by simp
  have q: "?q \<noteq> 0" using False by (simp add: pow2_powi)
  have "\<bar>of_int k :: rat\<bar> < 2 ^ 53" using assms(1) by (metis of_int_abs of_int_less_iff of_int_numeral of_int_power)
  then have "\<bar>?q\<bar> < 2 ^ 53 * pow2 e" using pos by (simp only: abs_mult abs_of_pos [OF pos]) (rule mult_strict_right_mono)
  also have "2 ^ 53 * pow2 e = pow2 (53 + e)" using pow2_nat [of 53] by (simp add: pow2_add)
  finally have ub: "\<bar>?q\<bar> < pow2 (53 + e)" .
  with binade_lower [OF q] have "pow2 (binade ?q) < pow2 (53 + e)" by linarith
  then have b: "binade ?q < 53 + e" by (rule pow2_less)
  define u where "u = max (binade ?q - 52) (- 1074)"
  have u: "u \<le> e" using b assms(2) by (simp add: u_def)
  have "pow2 e = 2 ^ nat (e - u) * pow2 u" using u pow2_nat [of "nat (e - u)"] pow2_add [of "e - u" u] by simp
  then have k: "?q = of_int (k * 2 ^ nat (e - u)) * pow2 u" by simp
  have pu: "pow2 u \<noteq> 0" by (simp add: pow2_powi)
  have "?q / pow2 u = of_int (k * 2 ^ nat (e - u))" unfolding k using pu by simp
  then have r: "of_int (round_half_even (?q / pow2 u)) * pow2 u = ?q" unfolding k by (simp only: round_half_even_of_int)
  have "pow2 (53 + e) \<le> pow2 1024" using assms(3) by (intro pow2_mono) simp
  also have "pow2 1024 = 2 ^ 1024" by (simp add: pow2_def)
  finally have "\<not> \<bar>?q\<bar> \<ge> 2 ^ 1024" using ub by linarith
  then show ?thesis using q r unfolding float64_of_def round_float_def Let_def by (simp flip: u_def)
qed

lemma nearest_dyadic:
  assumes "\<bar>k\<bar> < 2 ^ 53" "- 1074 \<le> e" "e \<le> 900"
  shows "nearest z (of_int k * pow2 e) = Fin (if k = 0 then z else k < 0) (of_int \<bar>k\<bar> * pow2 e)"
proof -
  have p: "pow2 e \<noteq> 0" "\<not> pow2 e < 0" "\<bar>pow2 e\<bar> = pow2 e" using pow2_pos [of e] by linarith+
  then show ?thesis using float64_of_dyadic [OF assms] by (simp add: nearest_def abs_mult mult_less_0_iff p)
qed

lemma nearest_signed:
  assumes "0 < k" "k < 2 ^ 53" "- 1074 \<le> e" "e \<le> 900"
  shows "nearest z (signed_of s (of_int k * pow2 e)) = Fin s (of_int k * pow2 e)"
  using nearest_dyadic [of k e z] nearest_dyadic [of "- k" e z] assms by (cases s) (simp_all add: signed_of_def)

section \<open>The value of a pattern\<close>

definition ieee32 :: "u32 \<Rightarrow> f64" where
  "ieee32 b =
     (if exp32 b = 255 then if mantissa32 b = 0 then Inf (sign32 b) else NaN
      else if exp32 b = 0 then Fin (sign32 b) (of_int (mantissa32 b) * pow2 (- 149))
      else Fin (sign32 b) (of_int (2 ^ 23 + mantissa32 b) * pow2 (exp32 b - 150)))"

definition ieee64 :: "u64 \<Rightarrow> f64" where
  "ieee64 b =
     (if exp64 b = 2047 then if mantissa64 b = 0 then Inf (sign64 b) else NaN
      else if exp64 b = 0 then Fin (sign64 b) (of_int (mantissa64 b) * pow2 (- 1074))
      else Fin (sign64 b) (of_int (2 ^ 52 + mantissa64 b) * pow2 (exp64 b - 1075)))"

lemma field_bounds:
  "0 \<le> exp32 b \<and> exp32 b \<le> 255" "0 \<le> mantissa32 b \<and> mantissa32 b < 2 ^ 23"
  "0 \<le> exp64 c \<and> exp64 c \<le> 2047" "0 \<le> mantissa64 c \<and> mantissa64 c < 2 ^ 52"
proof -
  have m: "(0xFF :: u32) = mask 8" "(0x7FFFFF :: u32) = mask 23" "(0x7FF :: u64) = mask 11" "(0xFFFFFFFFFFFFF :: u64) = mask 52"
    by (simp_all add: mask_eq_exp_minus_1)
  have t: "uint (take_bit n w) < 2 ^ n" for n and w :: "'a::len word" by (simp add: unsigned_take_bit_eq take_bit_int_less_exp)
  show "0 \<le> exp32 b \<and> exp32 b \<le> 255" using t [of 8 "drop_bit 23 b"] by (simp add: exp32_def m flip: take_bit_eq_mask)
  show "0 \<le> mantissa32 b \<and> mantissa32 b < 2 ^ 23" using t [of 23 b] by (simp add: mantissa32_def m flip: take_bit_eq_mask)
  show "0 \<le> exp64 c \<and> exp64 c \<le> 2047" using t [of 11 "drop_bit 52 c"] by (simp add: exp64_def m flip: take_bit_eq_mask)
  show "0 \<le> mantissa64 c \<and> mantissa64 c < 2 ^ 52" using t [of 52 c] by (simp add: mantissa64_def m flip: take_bit_eq_mask)
qed

lemma shifted_one_values:
  "n < 0 \<Longrightarrow> shifted_one n = Inl XPanic"
  "0 \<le> n \<Longrightarrow> n \<le> 62 \<Longrightarrow> shifted_one n = Inr (Fin False (pow2 n))"
  "shifted_one 63 = Inr (Fin True (pow2 63))"
  "64 \<le> n \<Longrightarrow> shifted_one n = Inr (Fin False 0)"
proof -
  show "n < 0 \<Longrightarrow> shifted_one n = Inl XPanic" by (simp add: shifted_one_def)
  show "64 \<le> n \<Longrightarrow> shifted_one n = Inr (Fin False 0)"
    using nearest_dyadic [of 0 0 False] by (simp add: shifted_one_def of_i64_def)
  have "sint (push_bit 63 1 :: i64) = - (2 ^ 63)" by code_simp
  then show "shifted_one 63 = Inr (Fin True (pow2 63))"
    using nearest_dyadic [of "- 1" 63 False] by (simp add: shifted_one_def of_i64_def pow2_def)
  assume n: "0 \<le> n" "n \<le> 62"
  have "(2 :: int) ^ nat n \<le> 2 ^ 62" using n by (intro power_increasing) auto
  moreover have "- (2 ^ 63) \<le> (2 :: int) ^ nat n" by (rule order_trans [of _ 0]) simp_all
  ultimately have "sint (push_bit (nat n) 1 :: i64) = 2 ^ nat n"
    using sint_word_of_int64 [of "2 ^ nat n"] by (simp add: push_bit_of_1)
  then show "shifted_one n = Inr (Fin False (pow2 n))"
    using n nearest_dyadic [of 1 n False] by (simp add: shifted_one_def of_i64_def pow2_def)
qed

text \<open>One plus the mantissa as a fraction, times the shifted one.\<close>

lemma fraction:
  assumes "0 \<le> k" "k < 2 ^ p" "p \<le> 52"
  shows "div_f64 (nearest False (of_int k)) (nearest False (2 ^ p)) = Fin False (of_int k * pow2 (- int p))"
    "add_f64 (Fin False 1) (Fin False (of_int k * pow2 (- int p))) = Fin False (of_int (2 ^ p + k) * pow2 (- int p))"
proof -
  have p: "(2 :: int) ^ p \<le> 2 ^ 52" using assms(3) by (intro power_increasing) auto
  then have k: "\<bar>k\<bar> < 2 ^ 53" "\<bar>2 ^ p + k\<bar> < 2 ^ 53" using assms by auto
  have "nearest False (of_int k) = Fin False (of_int k)" using nearest_dyadic [OF k(1), of 0 False] assms(1) by (simp add: pow2_def)
  moreover have "nearest False (2 ^ p) = Fin False (2 ^ p)"
    using nearest_dyadic [of 1 "int p" False] assms(3) by (simp add: pow2_nat)
  moreover have "pow2 (- int p) = 1 / 2 ^ p" by (simp add: pow2_def)
  ultimately show "div_f64 (nearest False (of_int k)) (nearest False (2 ^ p)) = Fin False (of_int k * pow2 (- int p))"
    using nearest_dyadic [OF k(1), of "- int p" False] assms by (simp add: signed_of_def)
  have "1 + of_int k * pow2 (- int p) = of_int (2 ^ p + k) * pow2 (- int p)" by (simp add: pow2_def field_simps)
  then show "add_f64 (Fin False 1) (Fin False (of_int k * pow2 (- int p))) = Fin False (of_int (2 ^ p + k) * pow2 (- int p))"
    using nearest_dyadic [OF k(2), of "- int p" False] assms by (simp add: signed_of_def)
qed

lemma scaled:
  assumes "0 \<le> k" "k < 2 ^ p" "p \<le> 52" "0 \<le> n" "n \<le> 62"
  shows "mul_f64 (Fin False (of_int (2 ^ p + k) * pow2 (- int p))) (Fin s (pow2 n)) = Fin s (of_int (2 ^ p + k) * pow2 (n - int p))"
    "mul_f64 (Fin False (of_int (2 ^ p + k) * pow2 (- int p))) (Fin True (pow2 63)) = Fin True (of_int (2 ^ p + k) * pow2 (63 - int p))"
    "mul_f64 (Fin False q) (Fin False 0) = Fin False 0"
proof -
  have "(2 :: int) ^ p \<le> 2 ^ 52" using assms(3) by (intro power_increasing) auto
  then have k: "0 < 2 ^ p + k" "2 ^ p + k < 2 ^ 53" using assms by (auto intro: add_pos_nonneg)
  have eq: "of_int (2 ^ p + k) * pow2 (- int p) * pow2 j = of_int (2 ^ p + k) * pow2 (j - int p)" for j
    by (simp add: mult.assoc flip: pow2_add)
  have m: "mul_f64 (Fin False (of_int (2 ^ p + k) * pow2 (- int p))) (Fin s (pow2 j)) = Fin s (of_int (2 ^ p + k) * pow2 (j - int p))"
    if "0 \<le> j" "j \<le> 63" for s j
  proof -
    have "mul_f64 (Fin False x) (Fin s y) = nearest s (signed_of s (x * y))" for x y by (simp add: signed_of_def)
    then have "mul_f64 (Fin False (of_int (2 ^ p + k) * pow2 (- int p))) (Fin s (pow2 j)) =
        nearest s (signed_of s (of_int (2 ^ p + k) * pow2 (j - int p)))" by (simp only: eq)
    also have "\<dots> = Fin s (of_int (2 ^ p + k) * pow2 (j - int p))" using assms(3) that by (intro nearest_signed k) auto
    finally show ?thesis .
  qed
  show "mul_f64 (Fin False (of_int (2 ^ p + k) * pow2 (- int p))) (Fin s (pow2 n)) = Fin s (of_int (2 ^ p + k) * pow2 (n - int p))"
    "mul_f64 (Fin False (of_int (2 ^ p + k) * pow2 (- int p))) (Fin True (pow2 63)) = Fin True (of_int (2 ^ p + k) * pow2 (63 - int p))"
    using m assms(4,5) by simp_all
  show "mul_f64 (Fin False q) (Fin False 0) = Fin False 0" using nearest_dyadic [of 0 0 False] by (simp add: signed_of_def)
qed

text \<open>A normal number: the exponent field less the bias says which shift is made.\<close>

definition normal :: "nat \<Rightarrow> int \<Rightarrow> int \<Rightarrow> bool \<Rightarrow> xerror + f64" where
  "normal p k n s = bind_result (shifted_one n) (\<lambda>x. Inr (signed_result s
     (mul_f64 (add_f64 (Fin False 1) (div_f64 (nearest False (of_int k)) (nearest False (2 ^ p)))) x)))"

lemma signed_result_Fin [simp]: "signed_result s (Fin z q) = Fin (s \<noteq> z) q"
  by (auto simp: signed_result_def)

lemma normal_cases:
  assumes "0 \<le> k" "k < 2 ^ p" "p \<le> 52"
  shows "normal p k n s =
    (if n < 0 then Inl XPanic
     else if n \<le> 62 then Inr (Fin s (of_int (2 ^ p + k) * pow2 (n - int p)))
     else if n = 63 then Inr (Fin (\<not> s) (of_int (2 ^ p + k) * pow2 (63 - int p)))
     else Inr (Fin s 0))"
proof -
  note v = fraction [OF assms] scaled(1) [OF assms, of n False] scaled(2) [OF assms, of 0] scaled(3) [OF assms, of 0] shifted_one_values
  consider "n < 0" | "0 \<le> n" "n \<le> 62" | "n = 63" | "64 \<le> n" by linarith
  then show ?thesis by cases (use v in \<open>simp_all add: normal_def del: mul_f64.simps add_f64.simps div_f64.simps\<close>)
qed

lemma float64_of_finite:
  assumes "\<bar>q\<bar> \<le> 3 * pow2 1022"
  shows "\<exists>r. float64_of q = FFin r"
proof (cases "q = 0")
  case False
  define u where "u = max (binade q - 52) (- 1074)"
  define r where "r = of_int (round_half_even (q / pow2 u)) * pow2 u"
  have four: "pow2 1024 = 4 * pow2 1022" using pow2_add [of 2 1022] by (simp add: pow2_def)
  have "pow2 (binade q) < pow2 1024" using binade_lower [OF False] assms four pow2_pos [of 1022] by linarith
  then have "u \<le> 1000" using pow2_less by (fastforce simp: u_def)
  then have "pow2 u \<le> pow2 1000" by (rule pow2_mono)
  also have "\<dots> < pow2 1022" by (simp add: pow2_def)
  finally have u: "pow2 u < pow2 1022" .
  have "\<bar>of_int (round_half_even (q / pow2 u)) - q / pow2 u\<bar> * pow2 u \<le> 1 * pow2 u"
    by (intro mult_right_mono round_half_even_near less_imp_le [OF pow2_pos])
  moreover have "\<bar>of_int (round_half_even (q / pow2 u)) - q / pow2 u\<bar> * pow2 u = \<bar>r - q\<bar>"
  proof -
    have "\<bar>x\<bar> * pow2 u = \<bar>x * pow2 u\<bar>" for x using pow2_pos [of u] by (simp add: abs_mult)
    then show ?thesis by (simp add: r_def left_diff_distrib)
  qed
  ultimately have "\<bar>r - q\<bar> \<le> pow2 u" by simp
  then have "\<bar>r\<bar> < pow2 1024" using assms u four by linarith
  then have "\<not> \<bar>r\<bar> \<ge> 2 ^ 1024" by (simp add: pow2_def)
  then show ?thesis using False unfolding float64_of_def round_float_def Let_def by (simp flip: u_def r_def)
qed (simp add: float64_of_def round_float_def)

lemma infApprox_finite: "\<exists>q. infApprox = Fin False q"
proof -
  have "\<bar>10 ^ 308 :: rat\<bar> \<le> 3 * pow2 1022" by (simp add: pow2_def)
  from float64_of_finite [OF this] show ?thesis by (auto simp: infApprox_def nearest_def simp del: power_numeral)
qed

lemma bits32_cases:
  "float64FromBits32 b =
     (if exp32 b = 0 \<and> mantissa32 b = 0 then Inr (Fin False 0)
      else if exp32 b = 255 then Inr (if mantissa32 b \<noteq> 0 then Fin False 0 else signed_result (sign32 b) infApprox)
      else if exp32 b = 0 then Inr (Fin (sign32 b) 0)
      else normal 23 (mantissa32 b) (exp32 b - 127) (sign32 b))"
proof -
  note k = field_bounds(2) [of b]
  have w: "uint (word_of_int 0 - 126 :: u32) = 4294967170" by simp
  show ?thesis
    using fraction(1) [of "mantissa32 b" 23] scaled(3) [of "mantissa32 b" 23 0] k shifted_one_values(4) [of 4294967170]
    by (simp add: float64FromBits32_def Let_def normal_def w del: mul_f64.simps add_f64.simps div_f64.simps)
qed

lemma bits64_cases:
  "float64FromBits64 b =
     (if exp64 b = 0 \<and> mantissa64 b = 0 then Inr (Fin False 0)
      else if exp64 b = 2047 then Inr (if mantissa64 b \<noteq> 0 then Fin False 0 else signed_result (sign64 b) infApprox)
      else if exp64 b = 0 then Inl XPanic
      else normal 52 (mantissa64 b) (exp64 b - 1023) (sign64 b))"
  using shifted_one_values(1) [of "- 1022"] by (simp add: float64FromBits64_def Let_def normal_def)

text \<open>
  C38. Floating point fields. The decoder panics on every 32-bit pattern of a normal number below one in
  magnitude, and on every 64-bit pattern of a number below one other than zero; it reads a pattern as
  the IEEE 754 value it denotes exactly when that value is positive zero or lies between 1 and \<open>2 ^ 63\<close>
  in magnitude. The other patterns give zero, the value with the opposite sign, or a finite number
  for an infinity.
\<close>

theorem float_patterns:
  "(float64FromBits32 b = Inl XPanic \<longleftrightarrow> 0 < exp32 b \<and> exp32 b < 127) \<and>
   (float64FromBits32 b = Inr (ieee32 b) \<longleftrightarrow> exp32 b = 0 \<and> mantissa32 b = 0 \<and> \<not> sign32 b \<or> 127 \<le> exp32 b \<and> exp32 b < 190) \<and>
   (float64FromBits64 c = Inl XPanic \<longleftrightarrow> exp64 c < 1023 \<and> \<not> (exp64 c = 0 \<and> mantissa64 c = 0)) \<and>
   (float64FromBits64 c = Inr (ieee64 c) \<longleftrightarrow> exp64 c = 0 \<and> mantissa64 c = 0 \<and> \<not> sign64 c \<or> 1023 \<le> exp64 c \<and> exp64 c < 1086)"
proof -
  obtain q where q: "infApprox = Fin False q" using infApprox_finite by blast
  have n32: "normal 23 (mantissa32 b) n s = (if n < 0 then Inl XPanic
      else if n \<le> 62 then Inr (Fin s (of_int (2 ^ 23 + mantissa32 b) * pow2 (n - 23)))
      else if n = 63 then Inr (Fin (\<not> s) (of_int (2 ^ 23 + mantissa32 b) * pow2 40)) else Inr (Fin s 0))" for n s
    using normal_cases [of "mantissa32 b" 23 n s] field_bounds(2) [of b] by simp
  have n64: "normal 52 (mantissa64 c) n s = (if n < 0 then Inl XPanic
      else if n \<le> 62 then Inr (Fin s (of_int (2 ^ 52 + mantissa64 c) * pow2 (n - 52)))
      else if n = 63 then Inr (Fin (\<not> s) (of_int (2 ^ 52 + mantissa64 c) * pow2 11)) else Inr (Fin s 0))" for n s
    using normal_cases [of "mantissa64 c" 52 n s] field_bounds(4) [of c] by simp
  have pos: "of_int (2 ^ 23 + mantissa32 b) \<noteq> (0 :: rat)" "of_int (2 ^ 52 + mantissa64 c) \<noteq> (0 :: rat)"
    using field_bounds(2) [of b] field_bounds(4) [of c] by (auto simp del: of_int_add)
  note f = field_bounds(1) [of b] field_bounds(3) [of c]
  show ?thesis
    unfolding bits32_cases bits64_cases n32 n64 ieee32_def ieee64_def
    using f pos by (auto simp: q simp del: of_int_add of_int_numeral of_int_power)
qed

end
