(* ===== verification/Blueprint_Grammar.thy ===== *)
theory Blueprint_Grammar
  imports Blueprint_Expr
begin

text \<open>
  What the arithmetic parser of \<^theory_text>\<open>Blueprint_Expr\<close> computes: a tree of sums, products and factors, with
  the usual precedence and grouping to the left, is written as text with any spaces between its
  tokens, and evaluating the text gives the value of the tree, or the first error met from the left.
\<close>

section \<open>The parser without its fuel\<close>

definition pE :: "libm \<Rightarrow> string \<Rightarrow> expr_error + f64 \<times> string" where
  "pE m s = the (parseExpression m (3 * length s + 3) s)"

definition aL :: "libm \<Rightarrow> f64 \<Rightarrow> string \<Rightarrow> expr_error + f64 \<times> string" where
  "aL m l s = the (addLoop m (3 * length s + 3) l s)"

definition pT :: "libm \<Rightarrow> string \<Rightarrow> expr_error + f64 \<times> string" where
  "pT m s = the (parseTerm m (3 * length s + 3) s)"

definition mL :: "libm \<Rightarrow> f64 \<Rightarrow> string \<Rightarrow> expr_error + f64 \<times> string" where
  "mL m l s = the (mulLoop m (3 * length s + 3) l s)"

definition pF :: "libm \<Rightarrow> string \<Rightarrow> expr_error + f64 \<times> string" where
  "pF m s = the (parseFactor m (3 * length s + 3) s)"

lemma same_result:
  fixes f :: "nat \<Rightarrow> 'a option"
  assumes mono: "\<And>j x. f j = Some x \<Longrightarrow> f (Suc j) = Some x" and "f n = Some x" "f k = Some y"
  shows "x = y"
proof -
  have up: "f i = Some z \<Longrightarrow> f (i + j) = Some z" for i j z by (induction j) (auto dest: mono)
  from up [OF assms(2), of k] up [OF assms(3), of n] show ?thesis by (simp add: add.commute)
qed

lemma total:
  "parseExpression m (3 * length s + 3) s \<noteq> None" "addLoop m (3 * length s + 3) l s \<noteq> None"
  "parseTerm m (3 * length s + 3) s \<noteq> None" "mulLoop m (3 * length s + 3) l s \<noteq> None"
  "parseFactor m (3 * length s + 3) s \<noteq> None"
  using parser_returns [of s "3 * length s + 3" m l] by (auto simp: leaves_def)

text \<open>Every run of the parser that returns has its fuel-free value, and with enough fuel it returns.\<close>

lemma returned:
  "parseExpression m n s = Some x \<Longrightarrow> x = pE m s"
  "addLoop m n l s = Some x \<Longrightarrow> x = aL m l s"
  "parseTerm m n s = Some x \<Longrightarrow> x = pT m s"
  "mulLoop m n l s = Some x \<Longrightarrow> x = mL m l s"
  "parseFactor m n s = Some x \<Longrightarrow> x = pF m s"
proof -
  show "x = pE m s" if "parseExpression m n s = Some x"
    unfolding pE_def using total(1) [of m s] more_fuel
    by (intro same_result [of "\<lambda>n. parseExpression m n s" n x "3 * length s + 3"] that) (blast, auto)
  show "x = aL m l s" if "addLoop m n l s = Some x"
    unfolding aL_def using total(2) [of m s l] more_fuel
    by (intro same_result [of "\<lambda>n. addLoop m n l s" n x "3 * length s + 3"] that) (blast, auto)
  show "x = pT m s" if "parseTerm m n s = Some x"
    unfolding pT_def using total(3) [of m s] more_fuel
    by (intro same_result [of "\<lambda>n. parseTerm m n s" n x "3 * length s + 3"] that) (blast, auto)
  show "x = mL m l s" if "mulLoop m n l s = Some x"
    unfolding mL_def using total(4) [of m s l] more_fuel
    by (intro same_result [of "\<lambda>n. mulLoop m n l s" n x "3 * length s + 3"] that) (blast, auto)
  show "x = pF m s" if "parseFactor m n s = Some x"
    unfolding pF_def using total(5) [of m s] more_fuel
    by (intro same_result [of "\<lambda>n. parseFactor m n s" n x "3 * length s + 3"] that) (blast, auto)
qed

lemma runs:
  "\<exists>n. parseExpression m n s = Some (pE m s)" "\<exists>n. addLoop m n l s = Some (aL m l s)" "\<exists>n. parseTerm m n s = Some (pT m s)"
  "\<exists>n. mulLoop m n l s = Some (mL m l s)" "\<exists>n. parseFactor m n s = Some (pF m s)"
  unfolding pE_def aL_def pT_def mL_def pF_def by (metis option.collapse total(1), metis option.collapse total(2),
    metis option.collapse total(3), metis option.collapse total(4), metis option.collapse total(5))

definition bindp :: "expr_error + f64 \<times> string \<Rightarrow> (f64 \<Rightarrow> string \<Rightarrow> expr_error + f64 \<times> string) \<Rightarrow> expr_error + f64 \<times> string" where
  "bindp r k = (case r of Inl e \<Rightarrow> Inl e | Inr (v, s) \<Rightarrow> k v s)"

lemma bindp_simps [simp]: "bindp (Inl e) k = Inl e" "bindp (Inr (v, s)) k = k v s"
  by (simp_all add: bindp_def)

text \<open>A continuation that runs with the fuel \<open>n\<close> whenever a fuel suffices.\<close>

lemma then_bindp:
  assumes "then_parse r k = Some x" "\<And>y. r = Some y \<Longrightarrow> y = p" "\<And>v s y. k v s = Some y \<Longrightarrow> y = q v s"
  shows "x = bindp p q"
proof (cases r)
  case (Some y)
  then show ?thesis using assms by (cases y) (auto simp: then_parse_def)
qed (use assms(1) in \<open>simp add: then_parse_def\<close>)

lemma pE_eq: "pE m s = bindp (pT m (skip_spaces s)) (aL m)"
proof -
  obtain n where n: "parseExpression m n s = Some (pE m s)" using runs(1) by blast
  then show ?thesis by (cases n) (auto intro: then_bindp returned)
qed

lemma pT_eq: "pT m s = bindp (pF m s) (mL m)"
proof -
  obtain n where n: "parseTerm m n s = Some (pT m s)" using runs(3) by blast
  then show ?thesis by (cases n) (auto intro: then_bindp returned)
qed

lemma aL_eq:
  "aL m l s = (case skip_spaces s of [] \<Rightarrow> Inr (l, []) | c # r \<Rightarrow>
     if c = CHR ''+'' then bindp (pT m r) (\<lambda>v. aL m (add_f64 l v))
     else if c = CHR ''-'' then bindp (pT m r) (\<lambda>v. aL m (sub_f64 l v)) else Inr (l, c # r))"
proof -
  obtain n where n: "addLoop m n l s = Some (aL m l s)" using runs(2) by blast
  then show ?thesis by (cases n; cases "skip_spaces s") (auto split: if_splits intro: then_bindp returned)
qed

lemma mL_eq:
  "mL m l s = (case skip_spaces s of [] \<Rightarrow> Inr (l, []) | c # r \<Rightarrow>
     if c = CHR ''*'' then bindp (pF m r) (\<lambda>v. mL m (mul_f64 l v))
     else if c = CHR ''/'' then bindp (pF m r) (\<lambda>v s'. if is_zero v then Inl DivisionByZero else mL m (div_f64 l v) s')
     else Inr (l, c # r))"
proof -
  obtain n where n: "mulLoop m n l s = Some (mL m l s)" using runs(4) by blast
  then show ?thesis
    by (cases n; cases "skip_spaces s") (auto split: if_splits intro!: then_bindp intro: returned)
qed

lemma pF_eq:
  "pF m s0 = (case skip_spaces s0 of [] \<Rightarrow> Inl UnexpectedEndOfExpression | c # r \<Rightarrow>
     if c = CHR ''('' then bindp (pE m r) (\<lambda>v s. the (close_paren MissingClosingParen v s))
     else (let neg = (c = CHR ''-''); s = (if neg then skip_spaces r else c # r) in
       case find (\<lambda>fn. starts_with (fn @ ''('') s) mathFunctions of
         Some fn \<Rightarrow> bindp (bindp (pE m (drop (length fn + 1) s)) (\<lambda>v s. the (close_paren (MissingClosingParenFor fn) v s)))
           (\<lambda>v s'. Inr (if neg then neg_f64 (applyMathFunc m fn v) else applyMathFunc m fn v, s'))
       | None \<Rightarrow> the (parse_number neg s)))"
proof -
  obtain n where n: "parseFactor m n s0 = Some (pF m s0)" using runs(5) by blast
  then show ?thesis
    by (cases n; cases "skip_spaces s0")
      (auto simp: Let_def split: if_splits option.splits intro!: then_bindp intro: returned)
qed

section \<open>Expressions as trees\<close>

text \<open>
  The numbers are the spaces written before a token; the flag of a number or a call is its sign, that
  of an operation says whether it is a subtraction or a division. A group has no sign: the code
  reads a minus only before a number or a call.
\<close>

datatype factor = Number bool nat string | Group expr nat | Call bool nat string expr nat
and product = Factor nat factor | Times product nat bool nat factor
and expr = Product product | Plus expr nat bool product

abbreviation spaces :: "nat \<Rightarrow> string" where "spaces k \<equiv> replicate k (CHR '' '')"

definition sign_text :: "bool \<Rightarrow> nat \<Rightarrow> string" where
  "sign_text neg k = (if neg then CHR ''-'' # spaces k else [])"

primrec factor_text :: "factor \<Rightarrow> string" and product_text :: "product \<Rightarrow> string" and expr_text :: "expr \<Rightarrow> string" where
  "factor_text (Number neg k ds) = sign_text neg k @ ds"
| "factor_text (Group e k) = CHR ''('' # expr_text e @ spaces k @ [CHR '')'']"
| "factor_text (Call neg k fn e j) = sign_text neg k @ fn @ CHR ''('' # expr_text e @ spaces j @ [CHR '')'']"
| "product_text (Factor k f) = spaces k @ factor_text f"
| "product_text (Times p j d k f) = product_text p @ spaces j @ (if d then CHR ''/'' else CHR ''*'') # spaces k @ factor_text f"
| "expr_text (Product p) = product_text p"
| "expr_text (Plus e j d p) = expr_text e @ spaces j @ (if d then CHR ''-'' else CHR ''+'') # product_text p"

primrec wf_factor :: "factor \<Rightarrow> bool" and wf_product :: "product \<Rightarrow> bool" and wf_expr :: "expr \<Rightarrow> bool" where
  "wf_factor (Number neg k ds) = (ds \<noteq> [] \<and> list_all number_char ds)"
| "wf_factor (Group e k) = wf_expr e"
| "wf_factor (Call neg k fn e j) = (fn \<in> set mathFunctions \<and> wf_expr e)"
| "wf_product (Factor k f) = wf_factor f"
| "wf_product (Times p j d k f) = (wf_product p \<and> wf_factor f)"
| "wf_expr (Product p) = wf_product p"
| "wf_expr (Plus e j d p) = (wf_expr e \<and> wf_product p)"

definition signed_value :: "bool \<Rightarrow> f64 \<Rightarrow> f64" where
  "signed_value neg v = (if neg then neg_f64 v else v)"

definition divide :: "f64 \<Rightarrow> f64 \<Rightarrow> expr_error + f64" where
  "divide x y = (if is_zero y then Inl DivisionByZero else Inr (div_f64 x y))"

primrec factor_value :: "libm \<Rightarrow> factor \<Rightarrow> expr_error + f64" and product_value :: "libm \<Rightarrow> product \<Rightarrow> expr_error + f64" and
    expr_value :: "libm \<Rightarrow> expr \<Rightarrow> expr_error + f64" where
  "factor_value m (Number neg k ds) =
     (case ParseFloat ds of None \<Rightarrow> Inl (InvalidNumber ds) | Some v \<Rightarrow> Inr (signed_value neg v))"
| "factor_value m (Group e k) = expr_value m e"
| "factor_value m (Call neg k fn e j) = bind_result (expr_value m e) (\<lambda>v. Inr (signed_value neg (applyMathFunc m fn v)))"
| "product_value m (Factor k f) = factor_value m f"
| "product_value m (Times p j d k f) =
     bind_result (product_value m p) (\<lambda>x. bind_result (factor_value m f) (\<lambda>y. if d then divide x y else Inr (mul_f64 x y)))"
| "expr_value m (Product p) = product_value m p"
| "expr_value m (Plus e j d p) =
     bind_result (expr_value m e) (\<lambda>x. bind_result (product_value m p) (\<lambda>y. Inr (if d then sub_f64 x y else add_f64 x y)))"

section \<open>Text of a tree\<close>

lemma skip_spaces_simps [simp]:
  "skip_spaces [] = []" "c \<noteq> CHR '' '' \<Longrightarrow> skip_spaces (c # s) = c # s" "skip_spaces (spaces k @ s) = skip_spaces s"
  "skip_spaces (skip_spaces s) = skip_spaces s"
proof -
  show "skip_spaces (spaces k @ s) = skip_spaces s" by (induction k) (simp_all add: skip_spaces_def)
qed (simp_all add: skip_spaces_def)

lemma loops_skip [simp]: "aL m l (skip_spaces s) = aL m l s" "pF m (skip_spaces s) = pF m s" "pT m (skip_spaces s) = pT m s"
  by (simp_all add: aL_eq [of m l] pF_eq [of m] pT_eq [of m])

lemma loops_spaces [simp]: "aL m l (spaces k @ s) = aL m l s" "pF m (spaces k @ s) = pF m s" "pT m (spaces k @ s) = pT m s"
  by (simp_all add: aL_eq [of m l] pF_eq [of m] pT_eq [of m])

text \<open>A text that does not go on with a number, and one that does not go on with a product.\<close>

definition ends_number :: "string \<Rightarrow> bool" where
  "ends_number s = (s = [] \<or> \<not> number_char (hd s))"

definition ends_product :: "string \<Rightarrow> bool" where
  "ends_product s = (ends_number s \<and> (skip_spaces s = [] \<or> hd (skip_spaces s) \<notin> {CHR ''*'', CHR ''/''}))"

lemma not_number_char [simp]:
  "\<not> number_char (CHR '' '')" "\<not> number_char (CHR ''*'')" "\<not> number_char (CHR ''/'')" "\<not> number_char (CHR ''+'')"
  "\<not> number_char (CHR ''-'')" "\<not> number_char (CHR '')'')" "\<not> number_char (CHR ''('')"
  by (simp_all add: number_char_def is_digit_def)

lemma number_chars: "number_char c \<longleftrightarrow> c \<in> set ''.0123456789''"
proof -
  have "is_digit c \<longleftrightarrow> c \<in> set ''0123456789''"
  proof
    assume "is_digit c"
    then have "48 \<le> (of_char c :: nat)" "(of_char c :: nat) < 58" unfolding is_digit_def by linarith+
    then have "of_char c \<in> set [48 ..< 58 :: nat]" by (simp only: set_upt atLeastLessThan_iff)
    then have "char_of (of_char c :: nat) \<in> char_of ` set [48 ..< 58 :: nat]" by (rule imageI)
    moreover have "char_of ` set [48 ..< 58 :: nat] = set ''0123456789''" by (simp add: upt_rec char_of_def) code_simp
    ultimately show "c \<in> set ''0123456789''" by (metis char_of_char)
  qed (auto simp: is_digit_def)
  then show ?thesis by (auto simp: number_char_def)
qed

lemma ends_simps [simp]:
  "ends_number []" "ends_number (c # s) = (\<not> number_char c)" "ends_product []"
  "ends_number (spaces k @ c # s) = (0 < k \<or> \<not> number_char c)"
  by (cases k; simp add: ends_number_def ends_product_def)+

lemma ends_product_op [simp]:
  "ends_product (spaces k @ c # s)" if "c \<in> {CHR ''+'', CHR ''-'', CHR '')''}"
  using that by (auto simp: ends_product_def)

lemma mL_ends: "ends_product s \<Longrightarrow> mL m v s = Inr (v, skip_spaces s)"
  unfolding ends_product_def by (subst mL_eq) (auto split: list.split)

section \<open>Evaluation of the text\<close>

lemma pF_plain:
  assumes "find (\<lambda>fn. starts_with (fn @ ''('') (c # r)) mathFunctions = None" "c \<notin> {CHR '' '', CHR ''-'', CHR ''(''}"
  shows "pF m (sign_text neg k @ c # r) = the (parse_number neg (c # r))"
  using assms by (cases neg) (simp_all add: pF_eq [of m] sign_text_def Let_def)

lemma pF_number:
  assumes "ds \<noteq> []" "list_all number_char ds" "ends_number s"
  shows "pF m (sign_text neg k @ ds @ s) = bind_result (factor_value m (Number neg k ds)) (\<lambda>v. Inr (v, s))"
proof -
  obtain d ds' where ds: "ds = d # ds'" "number_char d" using assms(1,2) by (cases ds) auto
  have d: "d \<noteq> CHR '' ''" "d \<noteq> CHR ''-''" "d \<noteq> CHR ''(''" using ds(2) not_number_char by blast+
  have "d \<notin> hd ` set mathFunctions" using ds(2) by (auto simp: number_chars mathFunctions_def)
  then have nf: "find (\<lambda>fn. starts_with (fn @ ''('') (ds @ s)) mathFunctions = None"
    by (auto simp: ds(1) find_None_iff starts_with_def mathFunctions_def)
  have "takeWhile number_char (ds @ s) = ds" "dropWhile number_char (ds @ s) = s"
    using assms(2,3) by (cases s; simp add: list_all_iff)+
  then have num: "the (parse_number neg (ds @ s)) = bind_result (factor_value m (Number neg k ds)) (\<lambda>v. Inr (v, s))"
    using assms(1) by (simp add: parse_number_def signed_value_def Let_def split: option.split)
  have "pF m (sign_text neg k @ ds @ s) = the (parse_number neg (ds @ s))"
    unfolding ds(1) append_Cons by (rule pF_plain) (use nf ds d in simp_all)
  then show ?thesis using num by (rule trans)
qed

lemma starts_with_simps [simp]:
  "starts_with [] s" "\<not> starts_with (c # p) []" "starts_with (c # p) (d # s) = (c = d \<and> starts_with p s)"
  by (auto simp: starts_with_def)

lemma find_function:
  assumes "fn \<in> set mathFunctions"
  shows "find (\<lambda>f. starts_with (f @ ''('') (fn @ CHR ''('' # s)) mathFunctions = Some fn"
  using assms unfolding mathFunctions_def by (simp, elim disjE) simp_all

lemma function_head: "fn \<in> set mathFunctions \<Longrightarrow> \<exists>c r. fn = c # r \<and> c \<notin> {CHR '' '', CHR ''-'', CHR ''(''}"
  by (auto simp: mathFunctions_def)

lemma close_paren_here: "the (close_paren e v (spaces k @ CHR '')'' # s)) = Inr (v, s)"
  by (simp add: close_paren_def)

text \<open>The text of an expression followed by a closing parenthesis.\<close>

lemma pE_closed:
  assumes "\<And>s. ends_product s \<Longrightarrow> pE m (expr_text e @ s) = bind_result (expr_value m e) (\<lambda>v. aL m v s)"
  shows "bindp (pE m (expr_text e @ spaces k @ CHR '')'' # s)) (\<lambda>v s. the (close_paren err v s)) = bind_result (expr_value m e) (\<lambda>v. Inr (v, s))"
proof -
  have "aL m v (spaces k @ CHR '')'' # s) = Inr (v, CHR '')'' # s)" for v by (subst aL_eq) simp
  then show ?thesis using assms [of "spaces k @ CHR '')'' # s"] close_paren_here [of err _ 0 s] by (cases "expr_value m e") simp_all
qed

lemma pF_call:
  assumes "fn \<in> set mathFunctions"
    and "bindp (pE m (expr_text e @ spaces j @ CHR '')'' # s)) (\<lambda>v s. the (close_paren (MissingClosingParenFor fn) v s)) =
      bind_result (expr_value m e) (\<lambda>v. Inr (v, s))"
  shows "pF m (sign_text neg k @ fn @ CHR ''('' # expr_text e @ spaces j @ CHR '')'' # s) =
    bind_result (factor_value m (Call neg k fn e j)) (\<lambda>v. Inr (v, s))"
proof -
  from function_head [OF assms(1)] obtain c r where c: "fn = c # r" "c \<notin> {CHR '' '', CHR ''-'', CHR ''(''}" by blast
  note f = find_function [OF assms(1), of "expr_text e @ spaces j @ CHR '')'' # s"]
  show ?thesis
  proof (cases neg)
    case True
    then show ?thesis using assms(2) f c by (subst pF_eq) (cases "expr_value m e"; simp add: sign_text_def signed_value_def)
  next
    case False
    then show ?thesis using assms(2) f c by (subst pF_eq) (cases "expr_value m e"; simp add: sign_text_def signed_value_def)
  qed
qed

lemma text_value:
  "wf_factor f \<Longrightarrow> (\<And>s. ends_number s \<Longrightarrow> pF m (factor_text f @ s) = bind_result (factor_value m f) (\<lambda>v. Inr (v, s)))"
  "wf_product p \<Longrightarrow> (\<And>s. ends_number s \<Longrightarrow> pT m (product_text p @ s) = bind_result (product_value m p) (\<lambda>v. mL m v s))"
  "wf_expr e \<Longrightarrow> (\<And>s. ends_product s \<Longrightarrow> pE m (expr_text e @ s) = bind_result (expr_value m e) (\<lambda>v. aL m v s))"
proof (induction f and p and e)
  case (Number neg k ds)
  then show ?case using pF_number [of ds s m neg k] by simp
next
  case (Group e k)
  then show ?case using pE_closed [of m e k s] by (subst pF_eq) simp
next
  case (Call neg k fn e j)
  then show ?case using pF_call [of fn m e j s neg k] pE_closed [of m e j s] by simp
next
  case (Factor k f)
  then show ?case by (subst pT_eq) (cases "factor_value m f"; simp)
next
  case (Times p j d k f)
  let ?s = "spaces j @ (if d then CHR ''/'' else CHR ''*'') # spaces k @ factor_text f @ s"
  have e: "pT m (product_text p @ ?s) = bind_result (product_value m p) (\<lambda>v. mL m v ?s)" using Times by simp
  have f: "pF m (factor_text f @ s) = bind_result (factor_value m f) (\<lambda>v. Inr (v, s))" using Times by simp
  have "mL m x ?s = bind_result (factor_value m f) (\<lambda>y. bind_result (if d then divide x y else Inr (mul_f64 x y)) (\<lambda>v. mL m v s))" for x
    using f by (subst mL_eq) (cases "factor_value m f"; simp add: divide_def)
  then show ?case using e by (cases "product_value m p"; cases "factor_value m f") simp_all
next
  case (Product p)
  have "ends_number s" using Product.prems(2) by (simp add: ends_product_def)
  then have "pT m (product_text p @ s) = bind_result (product_value m p) (\<lambda>v. Inr (v, skip_spaces s))"
    using Product mL_ends [of s m] by simp
  then show ?case by (subst pE_eq) (cases "product_value m p"; simp)
next
  case (Plus e j d p)
  let ?s = "spaces j @ (if d then CHR ''-'' else CHR ''+'') # product_text p @ s"
  have e: "pE m (expr_text e @ ?s) = bind_result (expr_value m e) (\<lambda>v. aL m v ?s)" using Plus by simp
  have "ends_number s" using Plus.prems(2) by (simp add: ends_product_def)
  then have p: "pT m (product_text p @ s) = bind_result (product_value m p) (\<lambda>v. Inr (v, skip_spaces s))"
    using Plus mL_ends [of s m] by simp
  have "aL m x ?s = bind_result (product_value m p) (\<lambda>y. aL m (if d then sub_f64 x y else add_f64 x y) s)" for x
    using p by (subst aL_eq) (cases "product_value m p"; simp)
  then show ?case using e by (cases "expr_value m e"; cases "product_value m p") simp_all
qed

section \<open>Trimming\<close>

definition plain :: "char \<Rightarrow> bool" where
  "plain c = (c \<in> set ''.0123456789-()salect'')"

lemma plain_not_white: "plain c \<Longrightarrow> c \<notin> hd ` set white_space \<and> c \<notin> last ` set white_space"
proof -
  have "list_all (\<lambda>c. \<not> List.member (map hd white_space) c \<and> \<not> List.member (map last white_space) c) ''.0123456789-()salect''"
    by code_simp
  then show "plain c \<Longrightarrow> ?thesis" unfolding plain_def list_all_iff by (auto simp: List.member_iff)
qed

lemma starts_with_hd: "starts_with w (c # s) \<Longrightarrow> w \<noteq> [] \<Longrightarrow> c = hd w"
  by (cases w) auto

lemma trim_left_plain: "plain c \<Longrightarrow> trim_left (spaces k @ c # s) = c # s"
proof (induction k)
  case 0
  have "find (\<lambda>w. w \<noteq> [] \<and> starts_with w (c # s) \<and> c # s \<noteq> []) white_space = None"
    using plain_not_white [OF 0] starts_with_hd [of _ c s] by (auto simp: find_None_iff)
  then show ?case by (subst trim_left.simps) simp
next
  case (Suc k)
  then show ?case by (subst trim_left.simps) (simp add: white_space_def)
qed

lemma trim_right_plain: "s \<noteq> [] \<Longrightarrow> plain (last s) \<Longrightarrow> trim_right s = s"
proof -
  assume s: "s \<noteq> []" "plain (last s)"
  have "w = []" if "w \<in> set white_space" "starts_with (rev w) (rev s)" for w
  proof (rule ccontr)
    assume "w \<noteq> []"
    then have "last s = last w" using that(2) s(1) by (cases s rule: rev_cases; cases w rule: rev_cases) auto
    then show False using plain_not_white [OF s(2)] that(1) by auto
  qed
  then have "find (\<lambda>w. w \<noteq> [] \<and> starts_with (rev w) (rev s) \<and> s \<noteq> []) white_space = None" by (auto simp: find_None_iff)
  then show ?thesis by (subst trim_right.simps) simp
qed

definition bounded :: "string \<Rightarrow> bool" where
  "bounded s \<longleftrightarrow> (\<exists>k c r. s = spaces k @ c # r \<and> plain c \<and> plain (last s))"

lemma bounded_append: "bounded s \<Longrightarrow> bounded u \<Longrightarrow> bounded (s @ t @ d # u)"
  unfolding bounded_def by fastforce

lemma number_plain: "number_char c \<Longrightarrow> plain c"
  by (auto simp: number_chars plain_def)

lemma text_bounded:
  "wf_factor f \<Longrightarrow> \<exists>c r. factor_text f = c # r \<and> plain c \<and> plain (last (factor_text f))"
  "wf_product p \<Longrightarrow> bounded (product_text p)"
  "wf_expr e \<Longrightarrow> bounded (expr_text e)"
proof (induction f and p and e)
  case (Number neg k ds)
  then obtain d ds' where "ds = d # ds'" "number_char d" "number_char (last ds)" by (cases ds) (auto simp: list_all_iff)
  then show ?case by (auto simp: sign_text_def number_plain) (simp add: plain_def)
next
  case (Group e k)
  show ?case by (simp add: plain_def)
next
  case (Call neg k fn e j)
  then show ?case by (auto simp: sign_text_def plain_def mathFunctions_def)
next
  case (Factor k f)
  then show ?case by (fastforce simp: bounded_def)
next
  case (Times p j d k f)
  then have "bounded (spaces k @ factor_text f)" by (fastforce simp: bounded_def)
  then show ?case using Times bounded_append [of "product_text p"] by simp
next
  case (Product p)
  then show ?case by simp
next
  case (Plus e j d p)
  then show ?case using bounded_append [of "expr_text e"] by simp
qed

text \<open>
  C23. Evaluating the text of an expression, with any spaces between its tokens, gives the value of its
  tree: products before sums, both from the left, calls and groups innermost, every operation rounded
  as a double; and when evaluation fails, the first error from the left.
\<close>

theorem evaluateArithmeticExpression_value:
  assumes "wf_expr e"
  shows "evaluateArithmeticExpression m (expr_text e) = Some (map_sum id BFloat (expr_value m e))"
proof -
  obtain k c r where s: "expr_text e = spaces k @ c # r" "plain c" "plain (last (expr_text e))"
    using text_bounded(3) [OF assms] by (auto simp: bounded_def)
  have trim: "TrimSpace (expr_text e) = c # r"
    using s trim_left_plain [of c k r] trim_right_plain [of "c # r"] by (simp add: TrimSpace_def)
  have "c \<noteq> CHR '' ''" using s(2) by (auto simp: plain_def)
  then have "pE m (c # r) = pE m (expr_text e)" unfolding s(1) by (simp add: pE_eq [of m])
  also have "\<dots> = bind_result (expr_value m e) (\<lambda>v. aL m v [])" using text_value(3) [OF assms, of "[]" m] by simp
  also have "\<dots> = map_sum id (\<lambda>v. (v, [])) (expr_value m e)" by (cases "expr_value m e") (simp_all add: aL_eq [of m])
  finally have v: "pE m (c # r) = map_sum id (\<lambda>v. (v, [])) (expr_value m e)" .
  have "parseExpression m (3 * length (c # r) + 3) (c # r) = Some (pE m (c # r))"
    unfolding pE_def using total(1) [of m "c # r"] by (metis option.collapse)
  then show ?thesis
    using v by (cases "expr_value m e") (simp_all add: evaluateArithmeticExpression_def trim)
qed

definition demo_expr :: expr where
  "demo_expr = Plus (Product (Times (Factor 1 (Number False 0 ''2'')) 1 False 0
     (Group (Plus (Product (Factor 0 (Number False 0 ''3''))) 1 False (Factor 1 (Call True 0 ''abs'' (Product (Factor 0 (Number True 1 ''4''))) 0))) 0)))
     1 True (Factor 1 (Number False 0 ''1.5''))"

theorem evaluateArithmeticExpression_value_witness:
  "expr_text demo_expr = '' 2 *(3 + -abs(- 4)) - 1.5'' \<and>
   evaluateArithmeticExpression (\<lambda>_ x. x) '' 2 *(3 + -abs(- 4)) - 1.5'' = Some (Inr (BFloat (Fin True (7 / 2))))"
proof -
  have "expr_text demo_expr = '' 2 *(3 + -abs(- 4)) - 1.5''" "wf_expr demo_expr" "expr_value (\<lambda>_ x. x) demo_expr = Inr (Fin True (7 / 2))"
    by code_simp+
  with evaluateArithmeticExpression_value [of demo_expr "\<lambda>_ x. x"] show ?thesis by simp
qed

end
