(* ===== verification/Blueprint_Payload.thy ===== *)
theory Blueprint_Payload
  imports Blueprint_Floats Blueprint_Grammar
begin

text \<open>
  Properties of the whole blueprint decoder: the length check is enough for every field, the values it
  returns have the types of their components, and what becomes of a value that is written into the
  text of a function.
\<close>

section \<open>Where the components are read\<close>

fun positions :: "PayloadComponent list \<Rightarrow> i64 \<Rightarrow> (PayloadComponent \<times> i64) list" where
  "positions [] cur = []"
| "positions (c # cs) cur =
     (let off = (case Offset c of Some off \<Rightarrow> off | None \<Rightarrow> cur) in (c, off) # positions cs (off + Size c))"

definition extent :: "PayloadComponent \<Rightarrow> int" where
  "extent c = sint (Size c) + (case Offset c of Some off \<Rightarrow> sint off | None \<Rightarrow> 0)"

text \<open>Positive sizes, offsets that are not negative, and no overflow of the bit positions.\<close>

definition sane_component :: "PayloadComponent \<Rightarrow> bool" where
  "sane_component c = (0 < sint (Size c) \<and> (case Offset c of Some off \<Rightarrow> 0 \<le> sint off | None \<Rightarrow> True))"

definition sane :: "PayloadFormat \<Rightarrow> bool" where
  "sane f = (list_all sane_component (Components f) \<and> sum_list (map extent (Components f)) < 2 ^ 62)"

definition bits_step :: "PayloadComponent \<Rightarrow> i64 \<Rightarrow> i64" where
  "bits_step c highest =
     (let last = (case Offset c of Some off \<Rightarrow> off + Size c | None \<Rightarrow> highest + Size c)
      in if sint last > sint highest then last else highest)"

lemma calculateRequiredBits_fold: "calculateRequiredBits f = fold bits_step (Components f) 0"
  unfolding calculateRequiredBits_def bits_step_def by (rule refl)

lemma sint_add: "0 \<le> sint a + sint b \<Longrightarrow> sint a + sint b < 2 ^ 63 \<Longrightarrow> sint (a + b :: i64) = sint a + sint b"
  using sint_word_of_int64 [of "sint a + sint b"] by (simp add: of_int_sint)

lemma extent_nonneg: "sane_component c \<Longrightarrow> 0 < extent c"
  by (auto simp: sane_component_def extent_def split: option.splits)

lemma extents_nonneg: "list_all sane_component cs \<Longrightarrow> 0 \<le> sum_list (map extent cs)"
  by (induction cs) (auto dest!: extent_nonneg)

text \<open>The components lie below the required number of bits, because the running position never passes the highest end.\<close>

lemma positions_below:
  assumes "list_all sane_component cs" "0 \<le> sint cur" "sint cur \<le> sint h" "sint h + sum_list (map extent cs) < 2 ^ 62"
  shows "sint h \<le> sint (fold bits_step cs h) \<and> sint (fold bits_step cs h) < 2 ^ 62 \<and>
    (\<forall>(c, off) \<in> set (positions cs cur). 0 \<le> sint off \<and> sint off + sint (Size c) \<le> sint (fold bits_step cs h))"
  using assms
proof (induction cs arbitrary: cur h)
  case (Cons c cs)
  define off where "off = (case Offset c of Some off \<Rightarrow> off | None \<Rightarrow> cur)"
  have sc: "sane_component c" "0 \<le> sum_list (map extent cs)" using Cons.prems(1) extents_nonneg by auto
  have off: "0 \<le> sint off" "sint off + sint (Size c) \<le> sint h + extent c"
    using sc(1) Cons.prems(2,3) by (auto simp: off_def extent_def sane_component_def split: option.splits)
  have sz: "0 < sint (Size c)" using sc(1) by (simp add: sane_component_def)
  have b: "sint h + extent c < 2 ^ 62" using Cons.prems(4) sc(2) by simp
  have e: "sint (off + Size c) = sint off + sint (Size c)" using off sz b by (intro sint_add) auto
  have h: "sint h \<le> sint (bits_step c h)" "sint (off + Size c) \<le> sint (bits_step c h)" "sint (bits_step c h) \<le> sint h + extent c"
  proof -
    have s: "sint (h + Size c) = sint h + sint (Size c)" if "Offset c = None"
      using that b sz Cons.prems(2,3) by (intro sint_add) (auto simp: extent_def)
    show "sint h \<le> sint (bits_step c h)" by (simp add: bits_step_def Let_def)
    show "sint (off + Size c) \<le> sint (bits_step c h)"
      using e s Cons.prems(3) by (cases "Offset c") (auto simp: bits_step_def off_def Let_def)
    show "sint (bits_step c h) \<le> sint h + extent c"
      using e s extent_nonneg [OF sc(1)] Cons.prems(2,3) by (cases "Offset c") (auto simp: bits_step_def off_def extent_def Let_def)
  qed
  have "sint (bits_step c h) + sum_list (map extent cs) < 2 ^ 62" using h(3) Cons.prems(4) by simp
  note ih = Cons.IH [of "off + Size c" "bits_step c h", OF _ _ h(2) this]
  have "0 \<le> sint (off + Size c)" using e off(1) sz by simp
  with ih Cons.prems(1) h e off(1) show ?case by (fastforce simp: Let_def simp flip: off_def)
qed simp

section \<open>A field within the payload\<close>

lemma extractUint_ok:
  assumes "0 \<le> off" "0 < sz" "off + sz \<le> int (8 * length data)"
  shows "extractUint data off sz le \<noteq> Inl XPanic" "extractUint data off sz le \<noteq> Inl (XFail BitRangeExceedsPayload)"
proof -
  have "extractUint data off sz le = Inl (XFail BitSizeExceedsMax)" if "64 < sz" using that by (simp add: extractUint_def)
  moreover have "\<exists>w. extractUint data off sz le = Inr w" if "sz \<le> 64"
    using extractUint_field [of "nat off" "nat sz" data le] assms that by auto
  ultimately show "extractUint data off sz le \<noteq> Inl XPanic" "extractUint data off sz le \<noteq> Inl (XFail BitRangeExceedsPayload)"
    by (cases "sz \<le> 64"; force)+
qed

lemma byte_slice_ok:
  assumes "0 \<le> off" "0 < sz" "off + sz \<le> int (8 * length data)" "off mod 8 = 0" "sz mod 8 = 0"
  shows "\<exists>bs. byte_slice data (off div 8) (sz div 8) = Inr bs"
proof -
  have "off div 8 + sz div 8 \<le> int (length data)" using assms by presburger
  then show ?thesis using assms(2) by (simp add: byte_slice_def)
qed

lemma normal_failure: "normal p k n s = Inl e \<Longrightarrow> e = XPanic"
  by (simp add: normal_def bind_result_Inl_iff shifted_one_def split: if_splits)

lemma float_failure: "float64FromBits32 b = Inl e \<Longrightarrow> e = XPanic" "float64FromBits64 c = Inl e \<Longrightarrow> e = XPanic"
  by (simp_all add: bits32_cases bits64_cases normal_failure split: if_splits)

lemma bind_plain:
  "bind_result x (\<lambda>v. Inr (f v)) = Inl e \<longleftrightarrow> x = Inl e" "bind_result x (\<lambda>v. Inr (f v)) = Inr w \<longleftrightarrow> (\<exists>v. x = Inr v \<and> w = f v)"
  by (cases x; auto)+

lemma extractFloat_ok:
  assumes "extractUint data off sz le \<noteq> Inl XPanic" "extractUint data off sz le \<noteq> Inl (XFail BitRangeExceedsPayload)"
  shows "extractFloat data off sz le \<noteq> Inl (XFail BitRangeExceedsPayload)"
    "extractFloat data off sz le = Inl XPanic \<Longrightarrow> sz = 32 \<or> sz = 64"
proof -
  have f: "float64FromBits32 w \<noteq> Inl (XFail e)" "float64FromBits64 w' \<noteq> Inl (XFail e)" for w w' e using float_failure by blast+
  show "extractFloat data off sz le \<noteq> Inl (XFail BitRangeExceedsPayload)"
    using assms f by (cases "extractUint data off sz le") (simp_all add: extractFloat_def)
  show "extractFloat data off sz le = Inl XPanic \<Longrightarrow> sz = 32 \<or> sz = 64"
    using assms by (cases "extractUint data off sz le") (simp_all add: extractFloat_def split: if_splits)
qed

lemma extractValue_ok:
  assumes "0 \<le> sint off" "0 < sint sz" "sint off + sint sz \<le> int (8 * length data)" "sint off + sint sz < 2 ^ 63"
  shows "extractValue data off sz ty le \<noteq> Inl (XFail BitRangeExceedsPayload)"
    "extractValue data off sz ty le = Inl XPanic \<Longrightarrow> ty = ''float'' \<and> (sint sz = 32 \<or> sint sz = 64)"
proof -
  have range: "\<not> (sint off < 0 \<or> sint (off + sz) > int (length data * 8))" using assms by (simp add: sint_add)
  note u = extractUint_ok [OF assms(1-3), of le]
  obtain b where bit: "bit_at data (sint off) = Inr b"
    using bit_at_payload [of "nat (sint off)" data] assms by auto
  obtain bs where slice: "sint off mod 8 = 0 \<Longrightarrow> sint sz mod 8 = 0 \<Longrightarrow> byte_slice data (sint off div 8) (sint sz div 8) = Inr bs"
    using byte_slice_ok [OF assms(1-3)] by blast
  have int: "extractInt data (sint off) (sint sz) le \<noteq> Inl XPanic" "extractInt data (sint off) (sint sz) le \<noteq> Inl (XFail BitRangeExceedsPayload)"
    unfolding extractInt_def bind_result_Inl_iff using u assms(2) by (auto split: if_splits)
  note float = extractFloat_ok [OF u]
  note v = extractValue_def [of data off sz ty le, unfolded Let_def if_not_P [OF range]]
  show "extractValue data off sz ty le \<noteq> Inl (XFail BitRangeExceedsPayload)"
    unfolding v by (simp add: bind_plain u int float bit slice split: if_split)
  show "ty = ''float'' \<and> (sint sz = 32 \<or> sint sz = 64)" if "extractValue data off sz ty le = Inl XPanic"
    using that float(2) unfolding v by (simp add: bind_plain u int bit slice split: if_split_asm)
qed

section \<open>The length check\<close>

text \<open>A failure of the decoder is a failed condition or comes from a component read at its position.\<close>

lemma decode_failure_source:
  "decode_components m data le cal cs result cur = Inl e \<Longrightarrow>
     (\<exists>n x. e = ConditionEvalFailed n x) \<or> (\<exists>(c, off) \<in> set (positions cs cur). \<exists>r. component_value m data le cal r off c = Inl e)"
proof (induction cs arbitrary: result cur)
  case (Cons c cs)
  define off where "off = (case Offset c of Some off \<Rightarrow> off | None \<Rightarrow> cur)"
  define cond where "cond = (if Condition c = [] then Inr True else EvaluateCondition (Condition c) result (case cal of None \<Rightarrow> [] | Some k \<Rightarrow> k))"
  have d: "decode_components m data le cal (c # cs) result cur = (case cond of Inl e \<Rightarrow> Inl (ConditionEvalFailed (Name c) e)
      | Inr False \<Rightarrow> decode_components m data le cal cs result (off + Size c)
      | Inr True \<Rightarrow> bind_result (component_value m data le cal result off c) (\<lambda>v.
          decode_components m data le cal cs (AList.update (Name c) v result) (off + Size c)))"
    unfolding decode_components.simps(2) Let_def off_def [symmetric] cond_def [symmetric] by (rule refl)
  have p: "set (positions (c # cs) cur) = insert (c, off) (set (positions cs (off + Size c)))" by (simp add: off_def Let_def)
  consider x where "cond = Inl x" | "cond = Inr False" | "cond = Inr True" by (metis (full_types) old.sum.exhaust)
  then show ?case
  proof cases
    case 1
    then show ?thesis using Cons.prems unfolding d by auto
  next
    case 2
    then show ?thesis using Cons unfolding d p by fastforce
  next
    case 3
    then show ?thesis using Cons.prems Cons.IH unfolding d p by (auto simp: bind_result_Inl_iff)
  qed
qed simp

lemma positions_components: "(c, off) \<in> set (positions cs cur) \<Longrightarrow> c \<in> set cs"
  by (induction cs arbitrary: cur) (auto simp: Let_def)

lemma step_failures:
  "calibrate_value c cal v = Inl e \<Longrightarrow> \<exists>x. e = CalibrationNotFound (Name c) x"
  "apply_func m c r cal v = Inl e \<Longrightarrow> \<exists>x. e = ExpressionEvalFailed (Name c) x"
  by (auto simp: calibrate_value_def apply_func_def split: if_split_asm sum.split_asm)

lemma component_failure:
  "component_value m data le cal r off c = Inl (BitExtractionFailed n x) \<Longrightarrow> extractValue data off (Size c) (Type c) le = Inl (XFail x)"
  "component_value m data le cal r off c = Inl DecodePanic \<Longrightarrow> extractValue data off (Size c) (Type c) le = Inl XPanic"
  by (auto simp: component_value_def bind_result_Inl_iff split: sum.split_asm xerror.split_asm dest: step_failures)


definition demo_component :: "string \<Rightarrow> string \<Rightarrow> i64 \<Rightarrow> f64 \<Rightarrow> PayloadComponent" where
  "demo_component n ty sz scale = \<lparr>Name = n, Size = sz, Type = ty, Offset = None, Unit = [], Scale = scale, Bias = Fin False 0, Func = [],
     Condition = [], Calibration = [], Enum = [], Component = [], Hidden = False\<rparr>"

definition demo_format :: PayloadFormat where
  "demo_format = \<lparr>FormatID = 1, Components = [demo_component ''t'' ''int'' 12 (Fin False (1 / 2)), demo_component ''ok'' ''bool'' 1 (Fin False 0),
     (demo_component ''level'' ''float'' 32 (Fin False 0))\<lparr>Offset := Some 16\<rparr>], LittleEndian = False\<rparr>"

definition demo_spec :: Spec where
  "demo_spec = \<lparr>Version = ''1.0'', TypeEUI = ''70B3D59CD0000095'', ComponentDefs = [], DefaultCalibration = [], Uplink = [demo_format], Downlink = []\<rparr>"


section \<open>Types of the decoded values\<close>

definition value_type :: "PayloadComponent \<Rightarrow> bval \<Rightarrow> bool" where
  "value_type c v \<longleftrightarrow>
     (Enum c = [] \<and> Func c = [] \<longrightarrow>
        (Type c \<in> {''uint'', ''int'', ''float'', ''enum''} \<longrightarrow> (\<exists>x. v = BFloat x)) \<and>
        (Type c = ''bool'' \<longrightarrow> (\<exists>b. v = BBool b)) \<and>
        (Type c \<in> {''bytes'', ''binary''} \<longrightarrow> (\<exists>bs. v = BBytes bs)) \<and>
        (Type c = ''string'' \<longrightarrow> (\<exists>s. v = BString s)) \<and>
        Type c \<in> {''uint'', ''int'', ''float'', ''enum'', ''bool'', ''bytes'', ''binary'', ''string''})"

lemma extracted_type:
  assumes "extractValue data off sz ty le = Inr v"
  shows "(ty \<in> {''uint'', ''int'', ''float'', ''enum''} \<and> ToFloat64 v \<noteq> None) \<or> (ty = ''bool'' \<and> (\<exists>b. v = BBool b)) \<or>
    (ty \<in> {''bytes'', ''binary''} \<and> (\<exists>bs. v = BBytes bs)) \<or> (ty = ''string'' \<and> (\<exists>s. v = BString s))"
  using assms unfolding extractValue_def Let_def by (simp add: bind_plain split: if_split_asm) (elim exE conjE disjE; simp)+

lemma component_type:
  assumes "component_value m data le cal r off c = Inr v"
  shows "value_type c v"
proof (cases "Enum c = [] \<and> Func c = []")
  case True
  obtain x where x: "extractValue data off (Size c) (Type c) le = Inr x" "calibrate_value c cal (scale_value c x) = Inr v"
    using assms True by (auto simp: component_value_def apply_func_def enum_value_def bind_result_Inr_iff split: sum.split_asm xerror.split_asm)
  show ?thesis
  proof (cases "ToFloat64 x")
    case None
    then have "v = x" using x(2) by (auto simp: scale_value_def calibrate_value_def split: if_split_asm sum.split_asm)
    then show ?thesis using extracted_type [OF x(1)] None by (auto simp: value_type_def)
  next
    case (Some f)
    then obtain y where y: "scale_value c x = BFloat y" by (simp add: scale_value_def Let_def)
    have "\<exists>z. v = BFloat z" using x(2) unfolding y by (auto simp: calibrate_value_def split: if_split_asm sum.split_asm option.split_asm)
    moreover have "Type c \<in> {''uint'', ''int'', ''float'', ''enum''}" using extracted_type [OF x(1)] Some by auto
    ultimately show ?thesis by (auto simp: value_type_def)
  qed
qed (auto simp: value_type_def)

lemma decoded_types:
  assumes "decode_components m data le cal cs r cur = Inr result" "\<forall>(n, v) \<in> set r. \<exists>c \<in> set ds. Name c = n \<and> value_type c v"
  shows "\<forall>(n, v) \<in> set result. \<exists>c \<in> set (ds @ cs). Name c = n \<and> value_type c v"
  using assms
proof (induction cs arbitrary: r cur ds)
  case (Cons c cs)
  define off where "off = (case Offset c of Some off \<Rightarrow> off | None \<Rightarrow> cur)"
  obtain r' where r: "decode_components m data le cal cs r' (off + Size c) = Inr result"
      "r' = r \<or> (\<exists>v. component_value m data le cal r off c = Inr v \<and> r' = AList.update (Name c) v r)"
    using Cons.prems(1) by (auto simp: Let_def bind_result_Inr_iff simp flip: off_def split: sum.split_asm bool.split_asm)
  have "\<forall>(n, v) \<in> set r'. \<exists>d \<in> set (ds @ [c]). Name d = n \<and> value_type d v"
    using r(2) Cons.prems(2) component_type set_alist_update by (fastforce split: prod.splits)
  from Cons.IH [OF r(1) this] show ?case by simp
qed simp


text \<open>The length check asks for more than the decoder reads when a component without an offset follows one placed before another.\<close>

definition demo_gap :: PayloadFormat where
  "demo_gap = \<lparr>FormatID = 2, Components = [(demo_component ''a'' ''uint'' 8 (Fin False 0))\<lparr>Offset := Some 8\<rparr>,
     (demo_component ''b'' ''uint'' 4 (Fin False 0))\<lparr>Offset := Some 0\<rparr>, demo_component ''c'' ''uint'' 4 (Fin False 0)], LittleEndian = False\<rparr>"

definition demo_gap_decoded :: bmap where
  "demo_gap_decoded = [(''a'', BFloat (Fin False 52)), (''b'', BFloat (Fin False 1)), (''c'', BFloat (Fin False 2))]"

lemma length_check_exceeds_need:
  "calculateRequiredBits demo_gap = 20"
  "decodePayload (\<lambda>_ x. x) [0x12, 0x34] demo_gap None = Inr demo_gap_decoded"
  by (code_simp, code_simp)


section \<open>Values written into the text of a function\<close>

text \<open>
  A function is evaluated on the text of the value. A double from a million on, or below one ten
  thousandth, is written with an exponent, and the parser takes the exponent for the end of the
  number: the function \<^verbatim>\<open>$\<close>, which means the value itself, gives 1.234567 for 1234567 and 1 for a
  hundred thousandth, and \<^verbatim>\<open>$ / 10\<close> gives 1.5 for 1500000.
\<close>

theorem func_loses_exponent:
  "EvaluateFunc (\<lambda>_ x. x) ''$'' (BUint 1234567) [] [] = Some (Inr (BFloat (nearest False (1234567 / 1000000)))) \<and>
   EvaluateFunc (\<lambda>_ x. x) ''$'' (BFloat (nearest False (1 / 100000))) [] [] = Some (Inr (BFloat (Fin False 1))) \<and>
   EvaluateFunc (\<lambda>_ x. x) ''$ / 10'' (BUint 1500000) [] [] = Some (Inr (BFloat (Fin False (3 / 2))))"
proof (intro conjI)
  show "EvaluateFunc (\<lambda>_ x. x) ''$'' (BUint 1234567) [] [] = Some (Inr (BFloat (nearest False (1234567 / 1000000))))" by code_simp
  show "EvaluateFunc (\<lambda>_ x. x) ''$'' (BFloat (nearest False (1 / 100000))) [] [] = Some (Inr (BFloat (Fin False 1)))" by code_simp
  show "EvaluateFunc (\<lambda>_ x. x) ''$ / 10'' (BUint 1500000) [] [] = Some (Inr (BFloat (Fin False (3 / 2))))" by code_simp
qed

end
