(* ===== verification/Downlink_Queue.thy ===== *)
theory Downlink_Queue
  imports EUI_Format "HOL-Library.Product_Lexorder"
begin

text \<open>
  The downlink queue of the database: the table \<^verbatim>\<open>downlink_queue\<close>, the downlink window claims of the
  table \<^verbatim>\<open>messages\<close> and every statement of \<^verbatim>\<open>KC-DB/storage/postgres/downlink_*.go\<close> that changes them,
  with the queue states of \<^verbatim>\<open>KC-DB/storage/mioty/types.go\<close> and the rows the statements return
  (\<^verbatim>\<open>storage.DownlinkMessage\<close>).

  The table is the list of its rows in the order of their row ids. A statement is one function on the
  table, as PostgreSQL runs it atomically. What SQL leaves open is an argument (\<open>sql_env\<close>): the clock
  reading bound to the statement, the order among rows the \<^verbatim>\<open>ORDER BY\<close> ranks equal, and the rows other
  transactions hold locked, which \<^verbatim>\<open>SKIP LOCKED\<close> passes over. A statement may fail before it took
  effect or after (\<open>attempt\<close>): the caller sees the same error in both cases. Times are counted in
  nanoseconds. Priorities are finite (\<^verbatim>\<open>mioty.ValidPriority\<close>); the JSON of the column \<^verbatim>\<open>user_data\<close> is
  its list of entries, empty for \<^verbatim>\<open>NULL\<close>.
\<close>

section \<open>Decimal integers\<close>

text \<open>\<^verbatim>\<open>strconv.ParseInt(s, 10, 64)\<close>.\<close>

definition ParseInt :: "string \<Rightarrow> i64 option" where
  "ParseInt s =
     (let (neg, ds) = (case s of c # cs \<Rightarrow> if c = CHR ''-'' then (True, cs) else if c = CHR ''+'' then (False, cs) else (False, s)
                       | [] \<Rightarrow> (False, s));
          v = (if neg then - int (decimal ds) else int (decimal ds))
      in if ds = [] \<or> \<not> list_all is_digit ds \<or> v < - (2 ^ 63) \<or> 2 ^ 63 \<le> v then None else Some (word_of_int v))"

lemma sint_back: "word_of_int (sint (w :: i64)) = w"
  using sint64_bounds [of w] by (intro iffD2 [OF word_of_int_eq_sint]) auto

lemma show_nat_not_sign: "show_nat n = c # cs \<Longrightarrow> c \<noteq> CHR ''-'' \<and> c \<noteq> CHR ''+''"
  using show_nat_digits [of c n] by (auto simp: is_digit_def)

lemma ParseInt_show_int [simp]: "ParseInt (show_int (sint (w :: i64))) = Some w"
proof -
  have digits: "list_all is_digit (show_nat n)" for n
    using show_nat_digits by (auto simp: list_all_iff)
  note b = sint64_bounds [of w]
  show ?thesis
  proof (cases "sint w < 0")
    case True
    then have "\<not> 9223372036854775808 < nat (- sint w)" using b by (simp add: not_less nat_le_iff)
    then show ?thesis using True b digits by (simp add: ParseInt_def show_int_def sint_back)
  next
    case False
    obtain c cs where e: "show_nat (nat (sint w)) = c # cs" by (cases "show_nat (nat (sint w))") auto
    note d = decimal_show_nat [of "nat (sint w)"] digits [of "nat (sint w)"] show_nat_not_sign [OF e]
    from False d e have "decimal (c # cs) = nat (sint w)" "list_all is_digit (c # cs)" by simp_all
    then show ?thesis using False b d by (simp add: ParseInt_def show_int_def e sint_back)
  qed
qed

section \<open>Queue states\<close>

datatype DLQueueStatus =
    DLQueueStatusPending | DLQueueStatusScheduled | DLQueueStatusReserved | DLQueueStatusQueued
  | DLQueueStatusRevoking | DLQueueStatusTransmitted | DLQueueStatusDelivered | DLQueueStatusFailed
  | DLQueueStatusExpired | DLQueueStatusRevoked | DLQueueStatusAcked

definition TerminalStatuses :: "DLQueueStatus list" where
  "TerminalStatuses = [DLQueueStatusTransmitted, DLQueueStatusDelivered, DLQueueStatusFailed,
     DLQueueStatusExpired, DLQueueStatusRevoked, DLQueueStatusAcked]"

fun Terminal :: "DLQueueStatus \<Rightarrow> bool" where
  "Terminal DLQueueStatusTransmitted = True"
| "Terminal DLQueueStatusDelivered = True"
| "Terminal DLQueueStatusFailed = True"
| "Terminal DLQueueStatusExpired = True"
| "Terminal DLQueueStatusRevoked = True"
| "Terminal DLQueueStatusAcked = True"
| "Terminal _ = False"

lemma Terminal_iff: "Terminal st \<longleftrightarrow> st \<in> set TerminalStatuses"
  by (cases st) (simp_all add: TerminalStatuses_def)

definition unheldStatuses :: "DLQueueStatus list" where
  "unheldStatuses = [DLQueueStatusPending, DLQueueStatusScheduled]"

definition heldStatuses :: "DLQueueStatus list" where
  "heldStatuses = [DLQueueStatusReserved, DLQueueStatusQueued, DLQueueStatusRevoking]"

definition revocableStatuses :: "DLQueueStatus list" where
  "revocableStatuses = [DLQueueStatusQueued]"

definition revocableAtStation :: "DLQueueStatus list" where
  "revocableAtStation = [DLQueueStatusReserved, DLQueueStatusQueued]"

definition confirmedQueued :: "DLQueueStatus list" where
  "confirmedQueued = [DLQueueStatusQueued, DLQueueStatusRevoking]"

lemmas status_lists = unheldStatuses_def heldStatuses_def revocableStatuses_def revocableAtStation_def
  confirmedQueued_def TerminalStatuses_def

definition ResultSent :: string where "ResultSent = ''sent''"
definition ResultInvalid :: string where "ResultInvalid = ''invalid''"
definition ResultExpired :: string where "ResultExpired = ''expired''"
definition ResultRevoked :: string where "ResultRevoked = ''revoked''"

definition resultQueueStatuses :: "(string \<times> DLQueueStatus) list" where
  "resultQueueStatuses =
     [(ResultSent, DLQueueStatusTransmitted), (ResultInvalid, DLQueueStatusFailed),
      (ResultExpired, DLQueueStatusExpired), (ResultRevoked, DLQueueStatusRevoked)]"

definition QueueStatusForResult :: "string \<Rightarrow> DLQueueStatus option" where
  "QueueStatusForResult r = map_of resultQueueStatuses r"

definition ResultForQueueStatus :: "DLQueueStatus \<Rightarrow> string option" where
  "ResultForQueueStatus st = map_option fst (find (\<lambda>(r, stored). stored = st) resultQueueStatuses)"

section \<open>The table\<close>

record downlink_row =
  row_id :: int
  que_id :: i64
  ac_que_id :: "u64 option"
  ac_eui :: "u64 option"
  cmd_ref :: "string option"
  ep_eui :: u64
  tenant_id :: i64
  organization_id :: "bytes option"
  payload :: bytes
  user_data :: "bytes list"
  priority :: rat
  dl_status :: DLQueueStatus
  attempts :: int
  max_attempts :: int
  cnt_depend :: bool
  packet_cnt :: "i64 list"
  dl_format :: byte
  response_exp :: bool
  response_prio :: bool
  dl_wind_req :: bool
  exp_only :: bool
  dl_rx_stat_qry :: bool
  created_at :: int
  earliest_at :: int
  latest_at :: "int option"
  bs_eui :: "u64 option"
  acknowledged_at :: "int option"
  tx_time :: "i64 option"
  transmission_time :: "i64 option"
  transmission_packet_cnt :: "i64 option"
  dl_result :: "string option"
  transmission_result :: "string option"
  transmitted_at :: "int option"
  failure_reason :: "string option"
  revoke_asked_at :: "int option"
  sent_after_expiry_at :: "int option"
  endpoint_acked_at :: "int option"
  updated_at :: int

text \<open>
  \<open>windows\<close> is \<^verbatim>\<open>messages.dl_window_claimed\<close> by message id and owner tenant, \<open>basestations\<close> the EUIs of
  the registered base stations, \<open>outbox\<close> the acknowledgements queued for delivery.
\<close>

record dl_store =
  dl_rows :: "downlink_row list"
  next_row_id :: int
  windows :: "((string \<times> i64) \<times> bool) list"
  basestations :: "u64 list"
  outbox :: "(string \<times> string \<times> i64 \<times> int) list"

record sql_env =
  now :: int
  tie :: "int \<Rightarrow> int"
  locked :: "int list"

datatype store_error =
    ErrNotFound | ErrDownlinkNotFound | ErrDownlinkFinished | ErrDownlinkSentAfterExpiry
  | ErrDownlinkAlreadyReserved | ErrInvalidInput | ErrInvalidEPEUI string | ErrInvalidTenantID string
  | ErrInvalidDownlinkID string | ErrDownlinkMessageNotFound string
  | ErrDownlinkQueueIDTaken | ErrDownlinkRefTaken | ErrDuplicateKey | ErrDownlinkDeadlineElapsed
  | ErrDownlinkNotPending | ErrStatement

type_synonym 'a stored = "(store_error + 'a) \<times> dl_store"

datatype fault = Answered | Refused | Unanswered

definition attempt :: "fault \<Rightarrow> (dl_store \<Rightarrow> 'a stored) \<Rightarrow> dl_store \<Rightarrow> 'a stored" where
  "attempt f op s =
     (case f of Answered \<Rightarrow> op s | Refused \<Rightarrow> (Inl ErrStatement, s) | Unanswered \<Rightarrow> (Inl ErrStatement, snd (op s)))"

text \<open>\<^verbatim>\<open>UPDATE ... WHERE ... RETURNING\<close>, and the rows a \<^verbatim>\<open>SELECT ... ORDER BY ... LIMIT ... FOR UPDATE SKIP LOCKED\<close> picks.\<close>

definition update_rows :: "(downlink_row \<Rightarrow> bool) \<Rightarrow> (downlink_row \<Rightarrow> downlink_row) \<Rightarrow> dl_store \<Rightarrow> downlink_row list \<times> dl_store" where
  "update_rows P f s =
     (map f (filter P (dl_rows s)), s\<lparr>dl_rows := map (\<lambda>r. if P r then f r else r) (dl_rows s)\<rparr>)"

definition select_rows :: "sql_env \<Rightarrow> (downlink_row \<Rightarrow> bool) \<Rightarrow> (downlink_row \<Rightarrow> 'k::linorder) \<Rightarrow> nat \<Rightarrow> dl_store \<Rightarrow> downlink_row list" where
  "select_rows e P key n s =
     take n (sort_key (\<lambda>r. (key r, tie e (row_id r)))
       (filter (\<lambda>r. P r \<and> row_id r \<notin> set (locked e)) (dl_rows s)))"

definition nulls_first :: "int option \<Rightarrow> int \<times> int" where
  "nulls_first t = (case t of None \<Rightarrow> (0, 0) | Some v \<Rightarrow> (1, v))"

definition downlinkNotExpired :: "int \<Rightarrow> downlink_row \<Rightarrow> bool" where
  "downlinkNotExpired t r = (case latest_at r of None \<Rightarrow> True | Some l \<Rightarrow> l > t)"

definition in_organization :: "bytes option \<Rightarrow> downlink_row \<Rightarrow> bool" where
  "in_organization org r = (case org of None \<Rightarrow> True | Some g \<Rightarrow> organization_id r = Some g)"

definition in_flight :: "DLQueueStatus \<Rightarrow> bool" where
  "in_flight st \<longleftrightarrow> st \<in> {DLQueueStatusPending, DLQueueStatusScheduled, DLQueueStatusReserved, DLQueueStatusQueued, DLQueueStatusRevoking}"

section \<open>Rows as the service reads them\<close>

record DownlinkMessage =
  MsgID :: int
  EPEUI :: string
  TenantID :: string
  MsgOrganizationID :: "bytes option"
  MsgPayload :: bytes
  Priority :: rat
  MsgStatus :: "DLQueueStatus option"
  MsgQueID :: i64
  ACQueID :: "u64 option"
  ACEUI :: "u64 option"
  MsgRef :: string
  CntDepend :: bool
  PacketCntArray :: "i64 list"
  MsgFormat :: byte
  ResponseExp :: bool
  ResponsePrio :: bool
  DlWindReq :: bool
  ExpOnly :: bool
  DlRxStatQry :: bool
  MsgResult :: string
  BsEui :: u64
  UserData :: "bytes list"

text \<open>The zero value of the struct: the fields a scan does not fill.\<close>

definition zeroMessage :: DownlinkMessage where
  "zeroMessage = \<lparr>MsgID = 0, EPEUI = [], TenantID = [], MsgOrganizationID = None, MsgPayload = [], Priority = 0,
     MsgStatus = None, MsgQueID = 0, ACQueID = None, ACEUI = None, MsgRef = [], CntDepend = False, PacketCntArray = [],
     MsgFormat = 0, ResponseExp = False, ResponsePrio = False, DlWindReq = False, ExpOnly = False, DlRxStatQry = False,
     MsgResult = [], BsEui = 0, UserData = []\<rparr>"

definition applyDownlinkUserData :: "bytes list \<Rightarrow> DownlinkMessage \<Rightarrow> DownlinkMessage" where
  "applyDownlinkUserData column m =
     (if column = [] then m
      else if MsgPayload m = [] then m\<lparr>UserData := column, MsgPayload := hd column\<rparr>
      else m\<lparr>UserData := column\<rparr>)"

definition scanDownlinkQueueRow :: "downlink_row \<Rightarrow> DownlinkMessage" where
  "scanDownlinkQueueRow r = applyDownlinkUserData (user_data r)
     (zeroMessage\<lparr>MsgID := row_id r, EPEUI := FormatEUIBytes (EUI64Bytes (ep_eui r)), TenantID := show_int (sint (tenant_id r)),
       MsgOrganizationID := organization_id r, MsgPayload := payload r, Priority := priority r,
       MsgStatus := Some (dl_status r), MsgQueID := que_id r, CntDepend := cnt_depend r, PacketCntArray := packet_cnt r,
       MsgFormat := dl_format r, ResponseExp := response_exp r, ResponsePrio := response_prio r,
       DlWindReq := dl_wind_req r, ExpOnly := exp_only r, DlRxStatQry := dl_rx_stat_qry r\<rparr>)"

definition scanDownlinkOutcome :: "downlink_row \<Rightarrow> DownlinkMessage" where
  "scanDownlinkOutcome r =
     zeroMessage\<lparr>MsgID := row_id r, MsgQueID := que_id r, ACQueID := ac_que_id r,
       EPEUI := FormatEUIBytes (EUI64Bytes (ep_eui r)), TenantID := show_int (sint (tenant_id r)),
       MsgOrganizationID := organization_id r, ACEUI := ac_eui r,
       MsgRef := (case cmd_ref r of None \<Rightarrow> [] | Some t \<Rightarrow> t)\<rparr>"

definition expiredOutcome :: "DownlinkMessage \<Rightarrow> DownlinkMessage" where
  "expiredOutcome m = m\<lparr>MsgStatus := Some DLQueueStatusExpired, MsgResult := ResultExpired\<rparr>"

definition revokingOutcome :: "DownlinkMessage \<Rightarrow> DownlinkMessage" where
  "revokingOutcome m = m\<lparr>MsgStatus := Some DLQueueStatusRevoking\<rparr>"

definition expiredInQueue :: "DownlinkMessage \<Rightarrow> DownlinkMessage" where
  "expiredInQueue m = expiredOutcome (m\<lparr>BsEui := 0\<rparr>)"

definition scanHeldOutcomes :: "u64 \<Rightarrow> (DownlinkMessage \<Rightarrow> DownlinkMessage) \<Rightarrow> downlink_row list \<Rightarrow> DownlinkMessage list" where
  "scanHeldOutcomes bs mark rs = map (\<lambda>r. mark (scanDownlinkOutcome r\<lparr>BsEui := bs\<rparr>)) rs"

definition scanOutcomesWithHolder :: "(DownlinkMessage \<Rightarrow> DownlinkMessage) \<Rightarrow> downlink_row list \<Rightarrow> DownlinkMessage list" where
  "scanOutcomesWithHolder mark rs =
     map (\<lambda>r. mark (scanDownlinkOutcome r\<lparr>BsEui := (case bs_eui r of None \<Rightarrow> 0 | Some b \<Rightarrow> b)\<rparr>)) rs"

definition WireQueueID :: "DownlinkMessage \<Rightarrow> u64 option" where
  "WireQueueID m = (if sint (MsgQueID m) \<le> 0 then None else Some (MsgQueID m))"

definition Outcome :: "DownlinkMessage \<Rightarrow> string" where
  "Outcome m =
     (if MsgStatus m \<noteq> Some DLQueueStatusRevoked then MsgResult m
      else case ResultForQueueStatus DLQueueStatusRevoked of None \<Rightarrow> [] | Some t \<Rightarrow> t)"

end
