(* ===== verification/Downlink_Store.thy ===== *)
theory Downlink_Store
  imports Downlink_Queue
begin

text \<open>
  The statements of the downlink queue: enqueueing (\<^verbatim>\<open>downlink_queue_writer.go\<close>, \<^verbatim>\<open>downlink_command_ref.go\<close>),
  reservation and confirmation (\<^verbatim>\<open>downlink_reservations.go\<close>), what a station answers
  (\<^verbatim>\<open>downlink_station_outcomes.go\<close>), revocation (\<^verbatim>\<open>downlink_revocation.go\<close>, \<^verbatim>\<open>downlink_revoking.go\<close>), release
  on reconnection (\<^verbatim>\<open>downlink_station_release.go\<close>), expiry (\<^verbatim>\<open>downlink_expiry.go\<close>), removal of a station
  (\<^verbatim>\<open>downlink_station_removal.go\<close>), the lookups and the claims of downlink windows
  (\<^verbatim>\<open>message_repository.go\<close>).
\<close>

section \<open>Enqueueing\<close>

definition storedTimePrecision :: int where
  "storedTimePrecision = 1000"

text \<open>\<^verbatim>\<open>time.Truncate\<close>.\<close>

definition truncate_time :: "int \<Rightarrow> int" where
  "truncate_time t = t - t mod storedTimePrecision"

definition defaultDownlinkMaxAttempts :: int where
  "defaultDownlinkMaxAttempts = 3"

definition encodeDownlinkUserData :: "bool \<Rightarrow> bytes list \<Rightarrow> bytes list" where
  "encodeDownlinkUserData cntDep entries = (if \<not> cntDep then [] else entries)"

record DownlinkCommandRef =
  cmdTenantID :: i64
  cmdOrganizationID :: bytes
  cmdEpEUI :: u64
  cmdRef :: string

definition commandQueued :: "DownlinkCommandRef \<Rightarrow> dl_store \<Rightarrow> bool" where
  "commandQueued c s \<longleftrightarrow>
     list_ex (\<lambda>r. tenant_id r = cmdTenantID c \<and> organization_id r = Some (cmdOrganizationID c) \<and> ep_eui r = cmdEpEUI c
        \<and> cmd_ref r = Some (cmdRef c)) (dl_rows s)"

definition admitDeadline :: "DownlinkCommandRef \<Rightarrow> int option \<Rightarrow> int \<Rightarrow> dl_store \<Rightarrow> store_error option" where
  "admitDeadline c expiresAt enqueuedAt s =
     (case expiresAt of
        None \<Rightarrow> None
      | Some t \<Rightarrow>
          if truncate_time t > enqueuedAt then None
          else if cmdRef c = [] then Some ErrDownlinkDeadlineElapsed
          else if commandQueued c s then Some ErrDownlinkRefTaken
          else Some ErrDownlinkDeadlineElapsed)"

definition least_time :: "int \<Rightarrow> int option \<Rightarrow> int" where
  "least_time t d = (case d of None \<Rightarrow> t | Some u \<Rightarrow> min t u)"

text \<open>
  The unique indexes of the table: \<^verbatim>\<open>unique_queue_id\<close>, \<^verbatim>\<open>uq_downlink_queue_command_ref\<close> and the
  Application Center's queue id among the organization's downlinks in flight.
\<close>

definition insert_conflict :: "downlink_row \<Rightarrow> downlink_row list \<Rightarrow> store_error option" where
  "insert_conflict n rs =
     (if list_ex (\<lambda>r. que_id r = que_id n) rs then Some ErrDownlinkQueueIDTaken
      else if list_ex (\<lambda>r. cmd_ref n \<noteq> None \<and> cmd_ref r = cmd_ref n \<and> tenant_id r = tenant_id n
                 \<and> organization_id r = organization_id n \<and> ep_eui r = ep_eui n) rs then Some ErrDownlinkRefTaken
      else if list_ex (\<lambda>r. ac_que_id n \<noteq> None \<and> ac_que_id r = ac_que_id n \<and> tenant_id r = tenant_id n
                 \<and> organization_id r = organization_id n \<and> in_flight (dl_status r) \<and> in_flight (dl_status n)) rs then Some ErrDuplicateKey
      else None)"

text \<open>A downlink as its enqueuer hands it over: the message, its state and counters, the command's deadline.\<close>

record queued_downlink = DownlinkMessage +
  enqStatus :: DLQueueStatus
  enqAttempts :: int
  enqMaxAttempts :: int
  ExpiresAt :: "int option"

definition insertQueuedDownlink ::
    "queued_downlink \<Rightarrow> u64 \<Rightarrow> i64 \<Rightarrow> bytes list \<Rightarrow> int \<Rightarrow> int \<Rightarrow> dl_store \<Rightarrow> downlink_row stored" where
  "insertQueuedDownlink d eui tenant userData enqueuedAt lifetime s =
     (let n = \<lparr>row_id = next_row_id s, que_id = MsgQueID d, ac_que_id = ACQueID d, ac_eui = ACEUI d,
                cmd_ref = (if MsgRef d = [] then None else Some (MsgRef d)), ep_eui = eui, tenant_id = tenant,
                organization_id = MsgOrganizationID d, payload = MsgPayload d, user_data = userData,
                priority = Priority d, dl_status = enqStatus d, attempts = enqAttempts d,
                max_attempts = (if enqMaxAttempts d = 0 then defaultDownlinkMaxAttempts else enqMaxAttempts d),
                cnt_depend = CntDepend d, packet_cnt = PacketCntArray d, dl_format = MsgFormat d,
                response_exp = ResponseExp d, response_prio = ResponsePrio d, dl_wind_req = DlWindReq d,
                exp_only = ExpOnly d, dl_rx_stat_qry = DlRxStatQry d, created_at = enqueuedAt, earliest_at = enqueuedAt,
                latest_at = Some (least_time (enqueuedAt + lifetime) (map_option truncate_time (ExpiresAt d))),
                bs_eui = None, acknowledged_at = None, tx_time = None, transmission_time = None,
                transmission_packet_cnt = None, dl_result = None, transmission_result = None, transmitted_at = None,
                failure_reason = None, revoke_asked_at = None, sent_after_expiry_at = None, endpoint_acked_at = None,
                updated_at = enqueuedAt\<rparr>
      in case insert_conflict n (dl_rows s) of
           Some e \<Rightarrow> (Inl e, s)
         | None \<Rightarrow> (Inr n, s\<lparr>dl_rows := dl_rows s @ [n], next_row_id := next_row_id s + 1\<rparr>))"

definition EnqueueDownlink :: "sql_env \<Rightarrow> queued_downlink \<Rightarrow> int \<Rightarrow> dl_store \<Rightarrow> downlink_row stored" where
  "EnqueueDownlink e d lifetime s =
     (if MsgOrganizationID d = None \<or> MsgOrganizationID d = Some (replicate 16 0) then (Inl ErrInvalidInput, s)
      else case hex_decode (EPEUI d) of
        None \<Rightarrow> (Inl (ErrInvalidEPEUI (EPEUI d)), s)
      | Some eui \<Rightarrow>
          if length eui \<noteq> 8 then (Inl (ErrInvalidEPEUI (EPEUI d)), s)
          else case ParseInt (TenantID d) of
            None \<Rightarrow> (Inl (ErrInvalidTenantID (TenantID d)), s)
          | Some tenant \<Rightarrow>
              (let enqueuedAt = truncate_time (now e);
                   command = \<lparr>cmdTenantID = tenant, cmdOrganizationID = the (MsgOrganizationID d),
                              cmdEpEUI = EUI64FromBytes eui, cmdRef = MsgRef d\<rparr>
               in case admitDeadline command (ExpiresAt d) enqueuedAt s of
                    Some er \<Rightarrow> (Inl er, s)
                  | None \<Rightarrow>
                      insertQueuedDownlink d (EUI64FromBytes eui) tenant
                        (encodeDownlinkUserData (CntDepend d) (UserData d)) enqueuedAt lifetime s))"

section \<open>Changes in the queue\<close>

definition queueIDThreshold :: int where
  "queueIDThreshold = 1000000"

definition names_downlink :: "i64 \<Rightarrow> downlink_row \<Rightarrow> bool" where
  "names_downlink key r = (if sint key > queueIDThreshold then que_id r = key else row_id r = sint key)"

definition UpdateDownlinkStatus :: "sql_env \<Rightarrow> string \<Rightarrow> DLQueueStatus \<Rightarrow> bytes option \<Rightarrow> dl_store \<Rightarrow> unit stored" where
  "UpdateDownlinkStatus e key st org s =
     (case ParseInt key of
        None \<Rightarrow> (Inl (ErrInvalidDownlinkID key), s)
      | Some k \<Rightarrow>
          (case update_rows (\<lambda>r. names_downlink k r \<and> in_organization org r)
                  (\<lambda>r. r\<lparr>dl_status := st, updated_at := now e, attempts := attempts r + 1\<rparr>) s of
             ([], s') \<Rightarrow> (Inl (ErrDownlinkMessageNotFound key), s')
           | (_, s') \<Rightarrow> (Inr (), s')))"

record DownlinkPatch =
  pPayloads :: "bytes list"
  pPriority :: rat
  pCntDepend :: bool
  pPacketCnt :: "i64 list"
  pFormat :: byte
  pResponseExp :: bool
  pResponsePrio :: bool
  pDlWindReq :: bool
  pExpOnly :: bool
  pDlRxStatQry :: bool

definition patchPayload :: "DownlinkPatch \<Rightarrow> bytes" where
  "patchPayload p = (if pPayloads p = [] then [] else hd (pPayloads p))"

definition pending_row_named :: "i64 \<Rightarrow> bytes option \<Rightarrow> u64 \<Rightarrow> i64 \<Rightarrow> downlink_row \<Rightarrow> bool" where
  "pending_row_named tenant org eui que r \<longleftrightarrow>
     que_id r = que \<and> tenant_id r = tenant \<and> ep_eui r = eui \<and> in_organization org r"

definition UpdatePendingDownlink ::
    "sql_env \<Rightarrow> i64 \<Rightarrow> bytes option \<Rightarrow> u64 \<Rightarrow> i64 \<Rightarrow> DownlinkPatch \<Rightarrow> dl_store \<Rightarrow> DownlinkMessage stored" where
  "UpdatePendingDownlink e tenant org eui que p s =
     (case update_rows (\<lambda>r. pending_row_named tenant org eui que r \<and> dl_status r = DLQueueStatusPending)
             (\<lambda>r. r\<lparr>payload := patchPayload p, priority := pPriority p, cnt_depend := pCntDepend p,
                     packet_cnt := pPacketCnt p, dl_format := pFormat p, response_exp := pResponseExp p,
                     response_prio := pResponsePrio p, dl_wind_req := pDlWindReq p, exp_only := pExpOnly p,
                     dl_rx_stat_qry := pDlRxStatQry p,
                     user_data := encodeDownlinkUserData (pCntDepend p) (pPayloads p), updated_at := now e\<rparr>) s of
        (r # _, s') \<Rightarrow> (Inr (scanDownlinkQueueRow r), s')
      | ([], s') \<Rightarrow>
          if list_ex (pending_row_named tenant org eui que) (dl_rows s') then (Inl ErrDownlinkNotPending, s')
          else (Inl ErrDownlinkNotFound, s'))"

section \<open>Reservation\<close>

definition reserve_row :: "sql_env \<Rightarrow> u64 \<Rightarrow> downlink_row \<Rightarrow> downlink_row" where
  "reserve_row e bs r = r\<lparr>dl_status := DLQueueStatusReserved, bs_eui := Some bs, updated_at := now e\<rparr>"

definition reserveSelected :: "sql_env \<Rightarrow> i64 \<Rightarrow> i64 \<Rightarrow> u64 \<Rightarrow> dl_store \<Rightarrow> unit stored" where
  "reserveSelected e que tenant bs s =
     (case update_rows (\<lambda>r. que_id r = que \<and> tenant_id r = tenant \<and> dl_status r = DLQueueStatusPending) (reserve_row e bs) s of
        ([], s') \<Rightarrow> (Inl ErrDownlinkAlreadyReserved, s')
      | (_, s') \<Rightarrow> (Inr (), s'))"

definition window_order :: "downlink_row \<Rightarrow> rat \<times> int" where
  "window_order r = (- priority r, created_at r)"

definition ReserveNextPendingDownlink :: "sql_env \<Rightarrow> i64 \<Rightarrow> u64 \<Rightarrow> u64 \<Rightarrow> dl_store \<Rightarrow> DownlinkMessage stored" where
  "ReserveNextPendingDownlink e tenant eui bs s =
     (case select_rows e (\<lambda>r. tenant_id r = tenant \<and> ep_eui r = eui \<and> dl_status r = DLQueueStatusPending
             \<and> downlinkNotExpired (now e) r) window_order 1 s of
        [] \<Rightarrow> (Inl ErrNotFound, s)
      | r # _ \<Rightarrow>
          (let dl = scanDownlinkQueueRow r
           in case reserveSelected e (MsgQueID dl) tenant bs s of
                (Inl er, s') \<Rightarrow> (Inl er, s)
              | (Inr _, s') \<Rightarrow> (Inr (dl\<lparr>MsgStatus := Some DLQueueStatusReserved, BsEui := bs\<rparr>), s')))"

definition reservePendingDownlinkByQueueID ::
    "sql_env \<Rightarrow> i64 \<Rightarrow> bytes \<Rightarrow> i64 \<Rightarrow> u64 \<Rightarrow> u64 \<Rightarrow> dl_store \<Rightarrow> DownlinkMessage stored" where
  "reservePendingDownlinkByQueueID e tenant org que eui bs s =
     (case update_rows (\<lambda>r. que_id r = que \<and> tenant_id r = tenant \<and> ep_eui r = eui
             \<and> dl_status r = DLQueueStatusPending \<and> organization_id r = Some org \<and> downlinkNotExpired (now e) r)
             (reserve_row e bs) s of
        ([], s') \<Rightarrow> (Inl ErrNotFound, s')
      | (r # _, s') \<Rightarrow> (Inr ((scanDownlinkQueueRow r)\<lparr>BsEui := bs\<rparr>), s'))"

definition queuedAlready :: "i64 \<Rightarrow> i64 \<Rightarrow> bytes option \<Rightarrow> dl_store \<Rightarrow> store_error option" where
  "queuedAlready que tenant org s =
     (case find (\<lambda>r. que_id r = que \<and> tenant_id r = tenant \<and> in_organization org r) (dl_rows s) of
        None \<Rightarrow> Some ErrDownlinkAlreadyReserved
      | Some r \<Rightarrow> if dl_status r \<in> set confirmedQueued then None else Some ErrDownlinkAlreadyReserved)"

definition markReservedAsQueued ::
    "sql_env \<Rightarrow> i64 \<Rightarrow> i64 \<Rightarrow> u64 \<Rightarrow> i64 \<Rightarrow> u32 option \<Rightarrow> bytes option \<Rightarrow> dl_store \<Rightarrow> unit stored" where
  "markReservedAsQueued e que tenant bs txTime packetCnt org s =
     (case update_rows (\<lambda>r. que_id r = que \<and> tenant_id r = tenant \<and> dl_status r = DLQueueStatusReserved
             \<and> bs_eui r = Some bs \<and> in_organization org r)
             (\<lambda>r. r\<lparr>dl_status := DLQueueStatusQueued, transmission_time := Some txTime,
                     transmission_packet_cnt := map_option ucast packetCnt, tx_time := Some txTime, updated_at := now e\<rparr>) s of
        ([], s') \<Rightarrow> (case queuedAlready que tenant org s' of None \<Rightarrow> (Inr (), s') | Some er \<Rightarrow> (Inl er, s'))
      | (_, s') \<Rightarrow> (Inr (), s'))"

text \<open>\<^verbatim>\<open>ListPendingDownlinks\<close>: the unexpired pending downlinks, by endpoint, in the order a window takes them.\<close>

definition ListPendingDownlinks :: "sql_env \<Rightarrow> dl_store \<Rightarrow> downlink_row list" where
  "ListPendingDownlinks e s =
     sort_key (\<lambda>r. ((sint (tenant_id r), unat (ep_eui r)), window_order r, tie e (row_id r)))
       (filter (\<lambda>r. dl_status r = DLQueueStatusPending \<and> downlinkNotExpired (now e) r) (dl_rows s))"

section \<open>Answers of a station\<close>

record DLDataResult =
  resOpId :: i64
  resEpEui :: u64
  resQueId :: u64
  resResult :: string
  resTxTime :: "i64 option"
  resPacketCnt :: "u32 option"
  resBsEui :: "u64 option"

definition held_by :: "u64 \<Rightarrow> downlink_row \<Rightarrow> bool" where
  "held_by bs r \<longleftrightarrow> bs_eui r = Some bs \<and> dl_status r \<in> set heldStatuses"

definition resultTransition :: "string \<Rightarrow> int \<Rightarrow> DLQueueStatus option \<times> int option" where
  "resultTransition res t =
     (case QueueStatusForResult res of
        None \<Rightarrow> (None, None)
      | Some st \<Rightarrow> (Some st, if st = DLQueueStatusTransmitted then Some t else None))"

definition coalesce :: "'a option \<Rightarrow> 'a \<Rightarrow> 'a" where
  "coalesce x y = (case x of None \<Rightarrow> y | Some v \<Rightarrow> v)"

definition record_result :: "sql_env \<Rightarrow> DLDataResult \<Rightarrow> downlink_row \<Rightarrow> downlink_row" where
  "record_result e res r =
     (case resultTransition (resResult res) (now e) of (st, sentAt) \<Rightarrow>
        r\<lparr>dl_result := Some (resResult res), tx_time := resTxTime res, transmission_result := Some (resResult res),
          transmission_time := resTxTime res, transmission_packet_cnt := map_option ucast (resPacketCnt res),
          dl_status := coalesce st (dl_status r), transmitted_at := (if sentAt = None then transmitted_at r else sentAt),
          updated_at := now e\<rparr>)"

definition newest :: "downlink_row list \<Rightarrow> downlink_row option" where
  "newest rs = (case sort_key (\<lambda>r. - row_id r) rs of [] \<Rightarrow> None | r # _ \<Rightarrow> Some r)"

definition finishedOrMissing :: "sql_env \<Rightarrow> i64 \<Rightarrow> u64 \<Rightarrow> DLDataResult \<Rightarrow> dl_store \<Rightarrow> store_error \<times> dl_store" where
  "finishedOrMissing e tenant bs res s =
     (case newest (filter (\<lambda>r. que_id r = resQueId res \<and> ep_eui r = resEpEui res \<and> tenant_id r = tenant
             \<and> dl_status r \<in> set TerminalStatuses) (dl_rows s)) of
        None \<Rightarrow> (ErrDownlinkNotFound, s)
      | Some fin \<Rightarrow>
          (case update_rows (\<lambda>r. row_id r = row_id fin \<and> resResult res = ResultSent
                  \<and> dl_status fin = DLQueueStatusExpired \<and> bs_eui fin = Some bs \<and> sent_after_expiry_at r = None)
                  (\<lambda>r. r\<lparr>sent_after_expiry_at := Some (now e)\<rparr>) s of
             ([], s') \<Rightarrow> (ErrDownlinkFinished, s')
           | (_, s') \<Rightarrow> (ErrDownlinkSentAfterExpiry, s')))"

definition UpdateDownlinkResult :: "sql_env \<Rightarrow> i64 \<Rightarrow> u64 \<Rightarrow> DLDataResult \<Rightarrow> dl_store \<Rightarrow> DownlinkMessage stored" where
  "UpdateDownlinkResult e tenant bs res s =
     (case update_rows (\<lambda>r. que_id r = resQueId res \<and> ep_eui r = resEpEui res \<and> tenant_id r = tenant \<and> held_by bs r)
             (record_result e res) s of
        (r # _, s') \<Rightarrow> (Inr (scanDownlinkOutcome r), s')
      | ([], s') \<Rightarrow> (case finishedOrMissing e tenant bs res s' of (er, s'') \<Rightarrow> (Inl er, s'')))"

definition UpdateDownlinkBaseStation :: "sql_env \<Rightarrow> i64 \<Rightarrow> i64 \<Rightarrow> u64 \<Rightarrow> dl_store \<Rightarrow> unit stored" where
  "UpdateDownlinkBaseStation e que tenant bs s =
     (case update_rows (\<lambda>r. que_id r = que \<and> tenant_id r = tenant \<and> held_by bs r)
             (\<lambda>r. r\<lparr>acknowledged_at := Some (now e), updated_at := now e\<rparr>) s of
        ([], s') \<Rightarrow> (Inl ErrDownlinkNotFound, s')
      | (_, s') \<Rightarrow> (Inr (), s'))"

definition FailQueuedDownlink :: "sql_env \<Rightarrow> i64 \<Rightarrow> i64 \<Rightarrow> u64 \<Rightarrow> string \<Rightarrow> dl_store \<Rightarrow> DownlinkMessage stored" where
  "FailQueuedDownlink e que tenant bs reason s =
     (case update_rows (\<lambda>r. que_id r = que \<and> tenant_id r = tenant \<and> held_by bs r)
             (\<lambda>r. r\<lparr>dl_status := DLQueueStatusFailed, failure_reason := Some reason, updated_at := now e\<rparr>) s of
        (r # _, s') \<Rightarrow> (Inr (scanDownlinkOutcome r), s')
      | ([], s') \<Rightarrow> (Inl ErrDownlinkNotFound, s'))"

record EndpointAckRequest =
  ackTenantID :: i64
  ackEpEUI :: u64
  WindowPacketCnt :: i64
  ackMessageID :: string
  Channels :: "string list"

text \<open>\<^verbatim>\<open>ORDER BY transmitted_at DESC NULLS LAST, id DESC\<close>; the message id is well formed.\<close>

definition newest_transmission :: "downlink_row \<Rightarrow> (int \<times> int) \<times> int" where
  "newest_transmission r = ((case transmitted_at r of None \<Rightarrow> (1, 0) | Some t \<Rightarrow> (0, - t)), - row_id r)"

definition MarkEndpointAcknowledged :: "sql_env \<Rightarrow> EndpointAckRequest \<Rightarrow> dl_store \<Rightarrow> (DownlinkMessage option) stored" where
  "MarkEndpointAcknowledged e ack s =
     (case sort_key newest_transmission (filter (\<lambda>r. tenant_id r = ackTenantID ack \<and> ep_eui r = ackEpEUI ack
             \<and> transmission_packet_cnt r = Some (WindowPacketCnt ack) \<and> dl_status r = DLQueueStatusTransmitted
             \<and> endpoint_acked_at r = None) (dl_rows s)) of
        [] \<Rightarrow> (Inr None, s)
      | sel # _ \<Rightarrow>
          (case update_rows (\<lambda>r. row_id r = row_id sel \<and> endpoint_acked_at r = None)
                  (\<lambda>r. r\<lparr>endpoint_acked_at := Some (now e), updated_at := now e\<rparr>) s of
             ([], s') \<Rightarrow> (Inr None, s')
           | (r # _, s') \<Rightarrow>
               (Inr (Some (scanDownlinkOutcome r)),
                s'\<lparr>outbox := outbox s' @ map (\<lambda>c. (ackMessageID ack, c, ackTenantID ack, row_id r)) (Channels ack)\<rparr>)))"

section \<open>Revocation\<close>

record DownlinkRevocation =
  revQueID :: i64
  revTenantID :: i64
  revOrganizationID :: "bytes option"
  revEpEUI :: "u64 option"
  Station :: "u64 option"

definition scopeRevocation :: "DownlinkRevocation \<Rightarrow> downlink_row \<Rightarrow> bool" where
  "scopeRevocation v r \<longleftrightarrow>
     que_id r = revQueID v \<and> tenant_id r = revTenantID v \<and> in_organization (revOrganizationID v) r
     \<and> (case revEpEUI v of None \<Rightarrow> True | Some eui \<Rightarrow> ep_eui r = eui)"

definition RevokeDownlink :: "sql_env \<Rightarrow> DownlinkRevocation \<Rightarrow> dl_store \<Rightarrow> bool stored" where
  "RevokeDownlink e v s =
     (case update_rows (\<lambda>r. scopeRevocation v r
             \<and> (case Station v of
                  None \<Rightarrow> dl_status r = DLQueueStatusPending
                | Some bs \<Rightarrow> dl_status r \<in> set revocableAtStation \<and> bs_eui r = Some bs))
             (\<lambda>r. r\<lparr>dl_status := DLQueueStatusRevoked, updated_at := now e\<rparr>) s of
        (rs, s') \<Rightarrow> (Inr (rs \<noteq> []), s'))"

definition expire_row :: "sql_env \<Rightarrow> downlink_row \<Rightarrow> downlink_row" where
  "expire_row e r = r\<lparr>dl_status := DLQueueStatusExpired, dl_result := Some ResultExpired,
     transmission_result := Some ResultExpired, updated_at := now e\<rparr>"

definition ExpireRevokedDownlink :: "sql_env \<Rightarrow> DownlinkRevocation \<Rightarrow> dl_store \<Rightarrow> (DownlinkMessage option) stored" where
  "ExpireRevokedDownlink e v s =
     (case Station v of
        None \<Rightarrow> (Inl ErrInvalidInput, s)
      | Some bs \<Rightarrow>
          (case update_rows (\<lambda>r. scopeRevocation v r \<and> dl_status r = DLQueueStatusRevoking \<and> bs_eui r = Some bs)
                  (expire_row e) s of
             ([], s') \<Rightarrow> (Inr None, s')
           | (r # _, s') \<Rightarrow> (Inr (Some (expiredOutcome (scanDownlinkOutcome r\<lparr>BsEui := bs\<rparr>))), s')))"

definition ExpireStationRevocations :: "sql_env \<Rightarrow> u64 \<Rightarrow> dl_store \<Rightarrow> (DownlinkMessage list) stored" where
  "ExpireStationRevocations e bs s =
     (case update_rows (\<lambda>r. dl_status r = DLQueueStatusRevoking \<and> bs_eui r = Some bs) (expire_row e) s of
        (rs, s') \<Rightarrow> (Inr (scanHeldOutcomes bs expiredOutcome rs), s'))"

definition ListStationRevocations :: "u64 \<Rightarrow> dl_store \<Rightarrow> DownlinkMessage list" where
  "ListStationRevocations bs s =
     scanHeldOutcomes bs revokingOutcome
       (sort_key row_id (filter (\<lambda>r. dl_status r = DLQueueStatusRevoking \<and> bs_eui r = Some bs) (dl_rows s)))"

definition ClaimUnansweredRevocations ::
    "sql_env \<Rightarrow> u64 list \<Rightarrow> int \<Rightarrow> int \<Rightarrow> int \<Rightarrow> dl_store \<Rightarrow> (DownlinkMessage list) stored" where
  "ClaimUnansweredRevocations e stations askedAt unansweredFor limit s =
     (if limit \<le> 0 \<or> unansweredFor \<le> 0 then (Inl ErrInvalidInput, s)
      else let asked = truncate_time askedAt;
               due = map row_id (select_rows e (\<lambda>r. dl_status r = DLQueueStatusRevoking
                       \<and> (\<exists>bs\<in>set stations. bs_eui r = Some bs)
                       \<and> (case revoke_asked_at r of None \<Rightarrow> True | Some t \<Rightarrow> t \<le> asked - unansweredFor))
                     (nulls_first \<circ> revoke_asked_at) (nat limit) s)
           in case update_rows (\<lambda>r. row_id r \<in> set due)
                     (\<lambda>r. r\<lparr>revoke_asked_at := Some asked, updated_at := asked\<rparr>) s of
                (rs, s') \<Rightarrow> (Inr (scanOutcomesWithHolder revokingOutcome rs), s'))"

definition GetDownlinkByRevocation :: "DownlinkRevocation \<Rightarrow> dl_store \<Rightarrow> downlink_row option" where
  "GetDownlinkByRevocation v s = find (scopeRevocation v) (dl_rows s)"

definition GetTenantIDByQueueID :: "i64 \<Rightarrow> dl_store \<Rightarrow> i64 option" where
  "GetTenantIDByQueueID que s = map_option tenant_id (find (\<lambda>r. que_id r = que) (dl_rows s))"

section \<open>Release\<close>

definition release_row :: "sql_env \<Rightarrow> downlink_row \<Rightarrow> downlink_row" where
  "release_row e r = r\<lparr>dl_status := DLQueueStatusPending, bs_eui := None, acknowledged_at := None,
     attempts := attempts r + 1, updated_at := now e\<rparr>"

definition ReleaseStationReservations :: "sql_env \<Rightarrow> u64 \<Rightarrow> i64 list \<Rightarrow> dl_store \<Rightarrow> (downlink_row list) stored" where
  "ReleaseStationReservations e bs keep s =
     (case update_rows (\<lambda>r. dl_status r = DLQueueStatusReserved \<and> bs_eui r = Some bs \<and> que_id r \<notin> set keep)
             (release_row e) s of
        (rs, s') \<Rightarrow> (Inr rs, s'))"

definition ReleaseStationQueue :: "sql_env \<Rightarrow> u64 \<Rightarrow> dl_store \<Rightarrow> (downlink_row list) stored" where
  "ReleaseStationQueue e bs s =
     (case update_rows (\<lambda>r. dl_status r = DLQueueStatusQueued \<and> bs_eui r = Some bs) (release_row e) s of
        (rs, s') \<Rightarrow> (Inr rs, s'))"

definition ReleaseEndpointAtStation :: "sql_env \<Rightarrow> i64 \<Rightarrow> u64 \<Rightarrow> u64 \<Rightarrow> i64 \<Rightarrow> dl_store \<Rightarrow> (downlink_row list) stored" where
  "ReleaseEndpointAtStation e tenant eui bs sentBy s =
     (case update_rows (\<lambda>r. tenant_id r = tenant \<and> ep_eui r = eui \<and> bs_eui r = Some bs \<and> dl_status r = DLQueueStatusQueued
             \<and> (case tx_time r of None \<Rightarrow> True | Some t \<Rightarrow> sint t \<le> sint sentBy)) (release_row e) s of
        (rs, s') \<Rightarrow> (Inr rs, s'))"

section \<open>Expiry\<close>

record overdueMove =
  moveStatus :: DLQueueStatus
  moveResult :: "string option"
  moveAskedAt :: "int option"

definition overdue :: "DLQueueStatus list \<Rightarrow> int \<Rightarrow> downlink_row \<Rightarrow> bool" where
  "overdue from t r \<longleftrightarrow> dl_status r \<in> set from \<and> (case latest_at r of None \<Rightarrow> False | Some l \<Rightarrow> l \<le> t)"

definition sweep_row :: "sql_env \<Rightarrow> overdueMove \<Rightarrow> downlink_row \<Rightarrow> downlink_row" where
  "sweep_row e m r =
     r\<lparr>dl_status := moveStatus m,
       dl_result := (if moveResult m = None then dl_result r else moveResult m),
       transmission_result := (if moveResult m = None then transmission_result r else moveResult m),
       revoke_asked_at := (if moveAskedAt m = None then revoke_asked_at r else moveAskedAt m), updated_at := now e\<rparr>"

definition sweep_overdue ::
    "sql_env \<Rightarrow> int \<Rightarrow> DLQueueStatus list \<Rightarrow> overdueMove \<Rightarrow> (DownlinkMessage \<Rightarrow> DownlinkMessage) \<Rightarrow> dl_store \<Rightarrow> (DownlinkMessage list) stored" where
  "sweep_overdue e limit from m mark s =
     (if limit \<le> 0 then (Inl ErrInvalidInput, s)
      else let due = map row_id (select_rows e (overdue from (now e)) (nulls_first \<circ> latest_at) (nat limit) s)
           in case update_rows (\<lambda>r. row_id r \<in> set due) (sweep_row e m) s of
                (rs, s') \<Rightarrow> (Inr (scanOutcomesWithHolder mark rs), s'))"

definition ExpireOverdueUnheld :: "sql_env \<Rightarrow> int \<Rightarrow> dl_store \<Rightarrow> (DownlinkMessage list) stored" where
  "ExpireOverdueUnheld e limit s =
     sweep_overdue e limit unheldStatuses
       \<lparr>moveStatus = DLQueueStatusExpired, moveResult = ResultForQueueStatus DLQueueStatusExpired, moveAskedAt = None\<rparr>
       expiredInQueue s"

definition RevokeOverdueHeld :: "sql_env \<Rightarrow> int \<Rightarrow> int \<Rightarrow> dl_store \<Rightarrow> (DownlinkMessage list) stored" where
  "RevokeOverdueHeld e askedAt limit s =
     sweep_overdue e limit revocableStatuses
       \<lparr>moveStatus = DLQueueStatusRevoking, moveResult = None, moveAskedAt = Some (truncate_time askedAt)\<rparr>
       revokingOutcome s"

section \<open>Removed stations\<close>

definition ExpireRemovedStationDownlinks :: "sql_env \<Rightarrow> u64 \<Rightarrow> dl_store \<Rightarrow> (DownlinkMessage list) stored" where
  "ExpireRemovedStationDownlinks e bs s =
     (case update_rows (held_by bs) (expire_row e) s of
        (rs, s') \<Rightarrow> (Inr (scanHeldOutcomes bs expiredOutcome rs), s'))"

definition orphaned :: "u64 list \<Rightarrow> downlink_row \<Rightarrow> bool" where
  "orphaned stations r \<longleftrightarrow>
     dl_status r \<in> set heldStatuses \<and> (case bs_eui r of None \<Rightarrow> False | Some bs \<Rightarrow> bs \<notin> set stations)"

definition ExpireHeldAtRemovedStations :: "sql_env \<Rightarrow> int \<Rightarrow> dl_store \<Rightarrow> (DownlinkMessage list) stored" where
  "ExpireHeldAtRemovedStations e limit s =
     (if limit \<le> 0 then (Inl ErrInvalidInput, s)
      else let due = map row_id (select_rows e (orphaned (basestations s)) row_id (nat limit) s)
           in case update_rows (\<lambda>r. row_id r \<in> set due) (expire_row e) s of
                (rs, s') \<Rightarrow> (Inr (scanOutcomesWithHolder expiredOutcome rs), s'))"

section \<open>Downlink windows\<close>

definition ClaimDownlinkWindow :: "i64 \<Rightarrow> string \<Rightarrow> dl_store \<Rightarrow> bool stored" where
  "ClaimDownlinkWindow tenant msg s =
     (if map_of (windows s) (msg, tenant) = Some False
      then (Inr True, s\<lparr>windows := AList.update (msg, tenant) True (windows s)\<rparr>)
      else (Inr False, s))"

definition ReleaseDownlinkWindow :: "i64 \<Rightarrow> string \<Rightarrow> dl_store \<Rightarrow> unit stored" where
  "ReleaseDownlinkWindow tenant msg s =
     (if map_of (windows s) (msg, tenant) = None then (Inr (), s)
      else (Inr (), s\<lparr>windows := AList.update (msg, tenant) False (windows s)\<rparr>))"

end
