(* ===== verification/Downlink_Lifecycle.thy ===== *)
theory Downlink_Lifecycle
  imports Downlink_Store
begin

text \<open>
  The life of a downlink in the queue, over every sequence of the statements of \<open>Downlink_Store\<close>, each
  of which may fail before or after it took effect.

  Shown: the table keeps its invariant (a held downlink names its holder, a result stands exactly where
  the state says so, queue ids, command refs and the Application Centers' ids in flight stay unique);
  a finished downlink keeps its outcome, and one a station was asked to drop never returns to the
  queue. Both hold as long as a dispatcher's release (\<^verbatim>\<open>UpdateDownlinkStatus\<close>) meets a row still
  reserved: the statement itself does not look, and one that comes late revives a finished downlink.
\<close>

section \<open>Statements\<close>

datatype stmt =
    S_Enqueue queued_downlink int
  | S_Set_Status string DLQueueStatus "bytes option"
  | S_Patch i64 "bytes option" u64 i64 DownlinkPatch
  | S_Reserve_Next i64 u64 u64
  | S_Reserve i64 bytes i64 u64 u64
  | S_Mark_Queued i64 i64 u64 i64 "u32 option" "bytes option"
  | S_Result i64 u64 DLDataResult
  | S_Accept i64 i64 u64
  | S_Fail i64 i64 u64 string
  | S_Endpoint_Ack EndpointAckRequest
  | S_Revoke DownlinkRevocation
  | S_Expire_Revoked DownlinkRevocation
  | S_Expire_Station_Revocations u64
  | S_Claim_Unanswered "u64 list" int int int
  | S_Release_Reservations u64 "i64 list"
  | S_Release_Queue u64
  | S_Release_Endpoint i64 u64 u64 i64
  | S_Expire_Unheld int
  | S_Revoke_Overdue int int
  | S_Remove_Station u64
  | S_Expire_Orphans int
  | S_Claim_Window i64 string
  | S_Release_Window i64 string

definition taken :: "fault \<Rightarrow> (dl_store \<Rightarrow> 'a stored) \<Rightarrow> dl_store \<Rightarrow> dl_store" where
  "taken f op s = snd (attempt f op s)"

fun exec_stmt :: "sql_env \<Rightarrow> fault \<Rightarrow> stmt \<Rightarrow> dl_store \<Rightarrow> dl_store" where
  "exec_stmt e f (S_Enqueue d lifetime) s = taken f (EnqueueDownlink e d lifetime) s"
| "exec_stmt e f (S_Set_Status key st org) s = taken f (UpdateDownlinkStatus e key st org) s"
| "exec_stmt e f (S_Patch t org eui que p) s = taken f (UpdatePendingDownlink e t org eui que p) s"
| "exec_stmt e f (S_Reserve_Next t eui bs) s = taken f (ReserveNextPendingDownlink e t eui bs) s"
| "exec_stmt e f (S_Reserve t org que eui bs) s = taken f (reservePendingDownlinkByQueueID e t org que eui bs) s"
| "exec_stmt e f (S_Mark_Queued que t bs tx cnt org) s = taken f (markReservedAsQueued e que t bs tx cnt org) s"
| "exec_stmt e f (S_Result t bs res) s = taken f (UpdateDownlinkResult e t bs res) s"
| "exec_stmt e f (S_Accept que t bs) s = taken f (UpdateDownlinkBaseStation e que t bs) s"
| "exec_stmt e f (S_Fail que t bs reason) s = taken f (FailQueuedDownlink e que t bs reason) s"
| "exec_stmt e f (S_Endpoint_Ack ack) s = taken f (MarkEndpointAcknowledged e ack) s"
| "exec_stmt e f (S_Revoke v) s = taken f (RevokeDownlink e v) s"
| "exec_stmt e f (S_Expire_Revoked v) s = taken f (ExpireRevokedDownlink e v) s"
| "exec_stmt e f (S_Expire_Station_Revocations bs) s = taken f (ExpireStationRevocations e bs) s"
| "exec_stmt e f (S_Claim_Unanswered st t u n) s = taken f (ClaimUnansweredRevocations e st t u n) s"
| "exec_stmt e f (S_Release_Reservations bs keep) s = taken f (ReleaseStationReservations e bs keep) s"
| "exec_stmt e f (S_Release_Queue bs) s = taken f (ReleaseStationQueue e bs) s"
| "exec_stmt e f (S_Release_Endpoint t eui bs sentBy) s = taken f (ReleaseEndpointAtStation e t eui bs sentBy) s"
| "exec_stmt e f (S_Expire_Unheld n) s = taken f (ExpireOverdueUnheld e n) s"
| "exec_stmt e f (S_Revoke_Overdue t n) s = taken f (RevokeOverdueHeld e t n) s"
| "exec_stmt e f (S_Remove_Station bs) s = taken f (ExpireRemovedStationDownlinks e bs) s"
| "exec_stmt e f (S_Expire_Orphans n) s = taken f (ExpireHeldAtRemovedStations e n) s"
| "exec_stmt e f (S_Claim_Window t m) s = taken f (ClaimDownlinkWindow t m) s"
| "exec_stmt e f (S_Release_Window t m) s = taken f (ReleaseDownlinkWindow t m) s"

text \<open>
  What the callers promise: a downlink is enqueued pending under a positive queue id
  (\<^verbatim>\<open>downlinkid.Allocate\<close>), a result is one the normalizer admits, and \<^verbatim>\<open>UpdateDownlinkStatus\<close> is the
  dispatcher's release of the row it reserved.
\<close>

fun caller_ok :: "stmt \<Rightarrow> dl_store \<Rightarrow> bool" where
  "caller_ok (S_Enqueue d _) s \<longleftrightarrow> enqStatus d = DLQueueStatusPending \<and> 0 < sint (MsgQueID d)"
| "caller_ok (S_Result _ _ res) s \<longleftrightarrow> resResult res \<in> {ResultSent, ResultExpired, ResultInvalid}"
| "caller_ok (S_Set_Status key st org) s \<longleftrightarrow> st = DLQueueStatusPending"
| "caller_ok _ _ \<longleftrightarrow> True"

text \<open>The release meets only rows that are still reserved.\<close>

fun release_timely :: "stmt \<Rightarrow> dl_store \<Rightarrow> bool" where
  "release_timely (S_Set_Status key st org) s \<longleftrightarrow>
     (case ParseInt key of
        None \<Rightarrow> True
      | Some k \<Rightarrow> \<forall>r\<in>set (dl_rows s). names_downlink k r \<and> in_organization org r \<longrightarrow> dl_status r = DLQueueStatusReserved)"
| "release_timely _ _ \<longleftrightarrow> True"

section \<open>Invariant\<close>

definition row_ok :: "downlink_row \<Rightarrow> bool" where
  "row_ok r \<longleftrightarrow>
     0 < sint (que_id r) \<and> organization_id r \<noteq> None \<and> latest_at r \<noteq> None
     \<and> (dl_status r \<in> set heldStatuses \<longrightarrow> bs_eui r \<noteq> None)
     \<and> (in_flight (dl_status r) \<longrightarrow> dl_result r = None \<and> sent_after_expiry_at r = None \<and> endpoint_acked_at r = None)
     \<and> (dl_status r = DLQueueStatusRevoking \<longrightarrow> revoke_asked_at r \<noteq> None)
     \<and> (dl_status r = DLQueueStatusTransmitted \<longrightarrow> dl_result r = Some ResultSent \<and> transmitted_at r \<noteq> None)
     \<and> (dl_status r = DLQueueStatusExpired \<longrightarrow> dl_result r = Some ResultExpired)
     \<and> (dl_status r = DLQueueStatusFailed \<longrightarrow> dl_result r \<in> {None, Some ResultInvalid})
     \<and> (dl_status r = DLQueueStatusRevoked \<longrightarrow> dl_result r = None)
     \<and> dl_status r \<notin> {DLQueueStatusScheduled, DLQueueStatusDelivered, DLQueueStatusAcked}
     \<and> (sent_after_expiry_at r \<noteq> None \<longrightarrow> dl_status r = DLQueueStatusExpired)
     \<and> (endpoint_acked_at r \<noteq> None \<longrightarrow> dl_status r = DLQueueStatusTransmitted)"

definition same_identity :: "downlink_row \<Rightarrow> downlink_row \<Rightarrow> bool" where
  "same_identity r r' \<longleftrightarrow> row_id r' = row_id r \<and> que_id r' = que_id r \<and> ac_que_id r' = ac_que_id r \<and> ac_eui r' = ac_eui r
     \<and> cmd_ref r' = cmd_ref r \<and> ep_eui r' = ep_eui r \<and> tenant_id r' = tenant_id r \<and> organization_id r' = organization_id r
     \<and> created_at r' = created_at r \<and> latest_at r' = latest_at r"

definition same_outcome :: "downlink_row \<Rightarrow> downlink_row \<Rightarrow> bool" where
  "same_outcome r r' \<longleftrightarrow> dl_status r' = dl_status r \<and> bs_eui r' = bs_eui r \<and> dl_result r' = dl_result r
     \<and> transmission_result r' = transmission_result r \<and> tx_time r' = tx_time r \<and> transmission_time r' = transmission_time r
     \<and> transmission_packet_cnt r' = transmission_packet_cnt r \<and> transmitted_at r' = transmitted_at r
     \<and> failure_reason r' = failure_reason r \<and> payload r' = payload r \<and> user_data r' = user_data r
     \<and> (endpoint_acked_at r \<noteq> None \<longrightarrow> endpoint_acked_at r' = endpoint_acked_at r)
     \<and> (sent_after_expiry_at r \<noteq> None \<longrightarrow> sent_after_expiry_at r' = sent_after_expiry_at r)"

definition moves :: "downlink_row \<Rightarrow> downlink_row \<Rightarrow> bool" where
  "moves r r' \<longleftrightarrow> same_identity r r' \<and> row_ok r'
     \<and> (Terminal (dl_status r) \<longrightarrow> same_outcome r r')
     \<and> (dl_status r = DLQueueStatusRevoking \<longrightarrow> dl_status r' = DLQueueStatusRevoking \<or> Terminal (dl_status r'))"

definition refs_unique :: "downlink_row \<Rightarrow> downlink_row \<Rightarrow> bool" where
  "refs_unique a b \<longleftrightarrow> cmd_ref a = None
     \<or> (cmd_ref a, tenant_id a, organization_id a, ep_eui a) \<noteq> (cmd_ref b, tenant_id b, organization_id b, ep_eui b)"

definition ac_ids_unique :: "downlink_row \<Rightarrow> downlink_row \<Rightarrow> bool" where
  "ac_ids_unique a b \<longleftrightarrow> ac_que_id a = None \<or> \<not> in_flight (dl_status a) \<or> \<not> in_flight (dl_status b)
     \<or> (ac_que_id a, tenant_id a, organization_id a) \<noteq> (ac_que_id b, tenant_id b, organization_id b)"

definition apart :: "downlink_row \<Rightarrow> downlink_row \<Rightarrow> bool" where
  "apart a b \<longleftrightarrow> row_id a \<noteq> row_id b \<and> que_id a \<noteq> que_id b \<and> refs_unique a b \<and> ac_ids_unique a b"

definition store_inv :: "dl_store \<Rightarrow> bool" where
  "store_inv s \<longleftrightarrow> list_all row_ok (dl_rows s) \<and> list_all (\<lambda>r. row_id r < next_row_id s) (dl_rows s)
     \<and> sorted_wrt apart (dl_rows s)"

section \<open>Moves of a row\<close>

lemmas move_defs = moves_def row_ok_def same_identity_def same_outcome_def in_flight_def status_lists

lemma results_distinct [simp]:
  "ResultSent \<noteq> ResultExpired" "ResultSent \<noteq> ResultInvalid" "ResultExpired \<noteq> ResultInvalid"
  "ResultExpired \<noteq> ResultSent" "ResultInvalid \<noteq> ResultSent" "ResultInvalid \<noteq> ResultExpired"
  by (simp_all add: ResultSent_def ResultExpired_def ResultInvalid_def)

lemma QueueStatusForResult_simps [simp]:
  "QueueStatusForResult ResultSent = Some DLQueueStatusTransmitted"
  "QueueStatusForResult ResultExpired = Some DLQueueStatusExpired"
  "QueueStatusForResult ResultInvalid = Some DLQueueStatusFailed"
  by (simp_all add: QueueStatusForResult_def resultQueueStatuses_def ResultSent_def ResultExpired_def ResultInvalid_def)

lemma moves_refl: "row_ok r \<Longrightarrow> moves r r"
  by (simp add: moves_def same_identity_def same_outcome_def)

lemma moves_ok: "moves r r' \<Longrightarrow> row_ok r'"
  by (simp add: moves_def)

lemma moves_trans: "moves a b \<Longrightarrow> moves b c \<Longrightarrow> moves a c"
  unfolding moves_def same_identity_def same_outcome_def by auto

lemma in_flight_Terminal: "in_flight st \<longleftrightarrow> \<not> Terminal st"
  by (cases st) (simp_all add: in_flight_def)

lemma moves_in_flight: "moves r r' \<Longrightarrow> in_flight (dl_status r') \<Longrightarrow> in_flight (dl_status r)"
  by (auto simp: moves_def same_outcome_def in_flight_Terminal)

lemma apart_moves:
  assumes "apart a b" "moves a a'" "moves b b'"
  shows "apart a' b'"
  using assms moves_in_flight [OF assms(2)] moves_in_flight [OF assms(3)]
  by (auto simp: apart_def refs_unique_def ac_ids_unique_def moves_def same_identity_def)

lemma release_row_moves:
  "row_ok r \<Longrightarrow> dl_status r \<in> {DLQueueStatusReserved, DLQueueStatusQueued} \<Longrightarrow> moves r (release_row e r)"
  by (cases "dl_status r") (simp_all add: move_defs release_row_def)

lemma expire_row_moves: "row_ok r \<Longrightarrow> in_flight (dl_status r) \<Longrightarrow> moves r (expire_row e r)"
  by (cases "dl_status r") (simp_all add: move_defs expire_row_def)

lemma reserve_row_moves: "row_ok r \<Longrightarrow> dl_status r = DLQueueStatusPending \<Longrightarrow> moves r (reserve_row e bs r)"
  by (simp add: move_defs reserve_row_def)

lemma record_result_moves:
  assumes "row_ok r" "dl_status r \<in> set heldStatuses" "resResult res \<in> {ResultSent, ResultExpired, ResultInvalid}"
  shows "moves r (record_result e res r)"
proof -
  consider "resResult res = ResultSent" | "resResult res = ResultExpired" | "resResult res = ResultInvalid"
    using assms(3) by blast
  then show ?thesis
    using assms(1, 2) by cases (cases "dl_status r"; simp add: move_defs record_result_def resultTransition_def coalesce_def)+
qed

section \<open>Moves of the table\<close>

definition carries :: "dl_store \<Rightarrow> dl_store \<Rightarrow> bool" where
  "carries s s' \<longleftrightarrow> list_all2 moves (dl_rows s) (dl_rows s') \<and> next_row_id s' = next_row_id s"

lemma store_rows_ok: "store_inv s \<Longrightarrow> r \<in> set (dl_rows s) \<Longrightarrow> row_ok r"
  by (simp add: store_inv_def list_all_iff)

lemma carries_refl: "store_inv s \<Longrightarrow> carries s s"
  by (auto simp: carries_def intro!: list.rel_refl_strong moves_refl store_rows_ok)

lemma carries_trans: "carries a b \<Longrightarrow> carries b c \<Longrightarrow> carries a c"
  unfolding carries_def by (auto intro: list_all2_trans [OF moves_trans])

lemma carries_inv:
  assumes inv: "store_inv s" and c: "carries s s'"
  shows "store_inv s'"
proof -
  from c have l: "length (dl_rows s') = length (dl_rows s)"
    and m: "\<And>i. i < length (dl_rows s) \<Longrightarrow> moves (dl_rows s ! i) (dl_rows s' ! i)"
    by (auto simp: carries_def list_all2_conv_all_nth)
  from inv have a: "\<And>i j. i < j \<Longrightarrow> j < length (dl_rows s) \<Longrightarrow> apart (dl_rows s ! i) (dl_rows s ! j)"
    and b: "\<And>i. i < length (dl_rows s) \<Longrightarrow> row_id (dl_rows s ! i) < next_row_id s"
    by (auto simp: store_inv_def sorted_wrt_iff_nth_less list_all_length)
  have "sorted_wrt apart (dl_rows s')"
    unfolding sorted_wrt_iff_nth_less l using apart_moves [OF a m m] by (meson order.strict_trans)
  moreover have "list_all row_ok (dl_rows s')"
    using l moves_ok [OF m] by (simp add: list_all_length)
  moreover have "list_all (\<lambda>r. row_id r < next_row_id s') (dl_rows s')"
    using l m b c by (auto simp: list_all_length carries_def moves_def same_identity_def)
  ultimately show ?thesis by (simp add: store_inv_def)
qed

lemma carries_row: "carries s s' \<Longrightarrow> r \<in> set (dl_rows s) \<Longrightarrow> \<exists>r'\<in>set (dl_rows s'). moves r r'"
  unfolding carries_def by (auto simp: list_all2_conv_all_nth in_set_conv_nth Bex_def)

lemma carries_update:
  assumes "update_rows P f s = (rs, s')" "store_inv s"
    and "\<And>r. r \<in> set (dl_rows s) \<Longrightarrow> row_ok r \<Longrightarrow> P r \<Longrightarrow> moves r (f r)"
  shows "carries s s'"
proof -
  have "list_all2 moves (dl_rows s) (map (\<lambda>r. if P r then f r else r) (dl_rows s))"
    using assms(3) store_rows_ok [OF assms(2)] by (simp add: list_all2_map2 list_all2_same moves_refl)
  then show ?thesis using assms(1) by (auto simp: carries_def update_rows_def)
qed

lemma row_ids_distinct: "store_inv s \<Longrightarrow> distinct (map row_id (dl_rows s))"
  by (simp add: store_inv_def sorted_wrt_map distinct_conv_nth sorted_wrt_iff_nth_less apart_def) (metis linorder_neqE_nat)

lemma row_id_unique: "store_inv s \<Longrightarrow> r \<in> set (dl_rows s) \<Longrightarrow> r' \<in> set (dl_rows s) \<Longrightarrow> row_id r = row_id r' \<Longrightarrow> r = r'"
  using row_ids_distinct [of s] by (auto simp: distinct_map inj_on_def)

lemma que_id_unique: "store_inv s \<Longrightarrow> r \<in> set (dl_rows s) \<Longrightarrow> r' \<in> set (dl_rows s) \<Longrightarrow> que_id r = que_id r' \<Longrightarrow> r = r'"
  by (auto simp: store_inv_def sorted_wrt_iff_nth_less apart_def in_set_conv_nth) (metis linorder_neqE_nat)

lemma select_rows_subset:
  "r \<in> set (select_rows e P key n s) \<Longrightarrow> r \<in> set (dl_rows s) \<and> P r \<and> row_id r \<notin> set (locked e)"
  unfolding select_rows_def by (auto dest!: in_set_takeD)

lemma selected_id:
  "store_inv s \<Longrightarrow> r \<in> set (dl_rows s) \<Longrightarrow> row_id r \<in> set (map row_id (select_rows e P key n s)) \<Longrightarrow> P r"
  by (auto dest!: select_rows_subset dest: row_id_unique)

section \<open>Each statement carries the table\<close>

lemma status_carries:
  assumes "store_inv s" "st = DLQueueStatusPending" "release_timely (S_Set_Status key st org) s"
  shows "carries s (snd (UpdateDownlinkStatus e key st org s))"
  using assms(3)
  by (auto simp: UpdateDownlinkStatus_def assms carries_refl move_defs elim!: carries_update [OF _ assms(1)]
      split: option.splits prod.splits list.splits)

lemma patch_carries: "store_inv s \<Longrightarrow> carries s (snd (UpdatePendingDownlink e t org eui que p s))"
  by (auto simp: UpdatePendingDownlink_def move_defs elim!: carries_update split: prod.splits list.splits)

lemma reserveSelected_carries: "store_inv s \<Longrightarrow> carries s (snd (reserveSelected e que t bs s))"
  by (auto simp: reserveSelected_def elim!: carries_update intro: reserve_row_moves split: prod.splits list.splits)

lemma reserve_next_carries: "store_inv s \<Longrightarrow> carries s (snd (ReserveNextPendingDownlink e t eui bs s))"
  using reserveSelected_carries [of s e _ t bs]
  by (auto simp: ReserveNextPendingDownlink_def Let_def carries_refl split: prod.splits list.splits sum.splits) (metis snd_conv)

lemma reserve_carries: "store_inv s \<Longrightarrow> carries s (snd (reservePendingDownlinkByQueueID e t org que eui bs s))"
  by (auto simp: reservePendingDownlinkByQueueID_def elim!: carries_update intro: reserve_row_moves
      split: prod.splits list.splits)

lemma mark_carries: "store_inv s \<Longrightarrow> carries s (snd (markReservedAsQueued e que t bs tx cnt org s))"
  by (auto simp: markReservedAsQueued_def move_defs elim!: carries_update split: prod.splits list.splits option.splits)

lemma accept_carries: "store_inv s \<Longrightarrow> carries s (snd (UpdateDownlinkBaseStation e que t bs s))"
  by (auto simp: UpdateDownlinkBaseStation_def move_defs held_by_def elim!: carries_update split: prod.splits list.splits)

lemma fail_carries: "store_inv s \<Longrightarrow> carries s (snd (FailQueuedDownlink e que t bs reason s))"
  by (auto simp: FailQueuedDownlink_def move_defs held_by_def elim!: carries_update split: prod.splits list.splits)

lemma revoke_row_moves:
  "row_ok r \<Longrightarrow> dl_status r \<in> {DLQueueStatusPending, DLQueueStatusReserved, DLQueueStatusQueued} \<Longrightarrow>
     moves r (r\<lparr>dl_status := DLQueueStatusRevoked, updated_at := t\<rparr>)"
  by (cases "dl_status r") (simp_all add: move_defs)

lemma revoke_carries: "store_inv s \<Longrightarrow> carries s (snd (RevokeDownlink e v s))"
  by (auto simp: RevokeDownlink_def revocableAtStation_def elim!: carries_update intro!: revoke_row_moves
      split: prod.splits list.splits option.splits)

lemma newest_in: "newest rs = Some r \<Longrightarrow> r \<in> set rs"
  unfolding newest_def by (metis (no_types, lifting) list.case_eq_if list.set_sel(1) option.distinct(1) option.inject set_sort)

lemma late_report_moves:
  "row_ok r \<Longrightarrow> dl_status r = DLQueueStatusExpired \<Longrightarrow> sent_after_expiry_at r = None \<Longrightarrow>
     moves r (r\<lparr>sent_after_expiry_at := t\<rparr>)"
  by (simp add: move_defs)

lemma finished_carries:
  assumes "store_inv s"
  shows "carries s (snd (finishedOrMissing e t bs res s))"
  using assms
  by (auto simp: finishedOrMissing_def carries_refl dest!: newest_in elim!: carries_update
      intro!: late_report_moves dest: row_id_unique split: prod.splits list.splits option.splits)

lemma result_carries:
  assumes "store_inv s" "resResult res \<in> {ResultSent, ResultExpired, ResultInvalid}"
  shows "carries s (snd (UpdateDownlinkResult e t bs res s))"
proof -
  obtain rs s' where u: "update_rows (\<lambda>r. que_id r = resQueId res \<and> ep_eui r = resEpEui res \<and> tenant_id r = t \<and> held_by bs r)
      (record_result e res) s = (rs, s')" by fastforce
  have c: "carries s s'"
    using u assms by (auto simp: held_by_def elim!: carries_update intro!: record_result_moves)
  have "carries s (snd (finishedOrMissing e t bs res s'))"
    using finished_carries [OF carries_inv [OF assms(1) c]] by (rule carries_trans [OF c])
  then show ?thesis using c u by (auto simp: UpdateDownlinkResult_def split: list.splits prod.splits)
qed

lemma acked_moves:
  "row_ok r \<Longrightarrow> dl_status r = DLQueueStatusTransmitted \<Longrightarrow> endpoint_acked_at r = None \<Longrightarrow>
     moves r (r\<lparr>endpoint_acked_at := Some t, updated_at := u\<rparr>)"
  by (simp add: move_defs)

lemma ack_carries:
  assumes inv: "store_inv s"
  shows "carries s (snd (MarkEndpointAcknowledged e ack s))"
proof -
  define picked where "picked = sort_key newest_transmission (filter (\<lambda>r. tenant_id r = ackTenantID ack \<and> ep_eui r = ackEpEUI ack
      \<and> transmission_packet_cnt r = Some (WindowPacketCnt ack) \<and> dl_status r = DLQueueStatusTransmitted
      \<and> endpoint_acked_at r = None) (dl_rows s))"
  show ?thesis
  proof (cases picked)
    case Nil
    then show ?thesis using inv by (simp add: MarkEndpointAcknowledged_def picked_def carries_refl)
  next
    case (Cons sel rest)
    then have "sel \<in> set picked" by simp
    then have sel: "sel \<in> set (dl_rows s)" "dl_status sel = DLQueueStatusTransmitted" by (auto simp: picked_def)
    obtain rs s' where u: "update_rows (\<lambda>r. row_id r = row_id sel \<and> endpoint_acked_at r = None)
        (\<lambda>r. r\<lparr>endpoint_acked_at := Some (now e), updated_at := now e\<rparr>) s = (rs, s')" by fastforce
    have "carries s s'"
      using u inv sel by (auto elim!: carries_update intro!: acked_moves dest: row_id_unique)
    then show ?thesis
      using Cons u by (auto simp: MarkEndpointAcknowledged_def carries_def simp flip: picked_def split: list.splits)
  qed
qed

lemma expire_revoked_carries: "store_inv s \<Longrightarrow> carries s (snd (ExpireRevokedDownlink e v s))"
  by (auto simp: ExpireRevokedDownlink_def carries_refl in_flight_def elim!: carries_update intro!: expire_row_moves
      split: prod.splits list.splits option.splits)

lemma expire_station_carries: "store_inv s \<Longrightarrow> carries s (snd (ExpireStationRevocations e bs s))"
  by (auto simp: ExpireStationRevocations_def in_flight_def elim!: carries_update intro!: expire_row_moves split: prod.splits)

lemma remove_station_carries: "store_inv s \<Longrightarrow> carries s (snd (ExpireRemovedStationDownlinks e bs s))"
  by (auto simp: ExpireRemovedStationDownlinks_def held_by_def heldStatuses_def in_flight_def elim!: carries_update
      intro!: expire_row_moves split: prod.splits)

lemma release_carries:
  "store_inv s \<Longrightarrow> carries s (snd (ReleaseStationReservations e bs keep s))"
  "store_inv s \<Longrightarrow> carries s (snd (ReleaseStationQueue e bs s))"
  "store_inv s \<Longrightarrow> carries s (snd (ReleaseEndpointAtStation e t eui bs sentBy s))"
  by (auto simp: ReleaseStationReservations_def ReleaseStationQueue_def ReleaseEndpointAtStation_def
      elim!: carries_update intro!: release_row_moves split: prod.splits)

text \<open>The statements over a selection of at most so many rows.\<close>

lemma selection_carries:
  assumes "store_inv s" "\<And>r. row_ok r \<Longrightarrow> P r \<Longrightarrow> moves r (f r)"
    and "update_rows (\<lambda>r. row_id r \<in> set (map row_id (select_rows e P key n s))) f s = (rs, s')"
  shows "carries s s'"
  using assms(3, 1) by (rule carries_update) (use assms selected_id in blast)

lemma orphans_carries: "store_inv s \<Longrightarrow> carries s (snd (ExpireHeldAtRemovedStations e n s))"
  by (auto simp: ExpireHeldAtRemovedStations_def carries_refl Let_def orphaned_def heldStatuses_def in_flight_def simp del: set_map
      elim!: selection_carries [rotated 2] intro!: expire_row_moves split: prod.splits)

lemma claim_moves:
  "row_ok r \<Longrightarrow> dl_status r = DLQueueStatusRevoking \<Longrightarrow> moves r (r\<lparr>revoke_asked_at := Some t, updated_at := u\<rparr>)"
  by (simp add: move_defs)

lemma claim_carries: "store_inv s \<Longrightarrow> carries s (snd (ClaimUnansweredRevocations e st t u n s))"
  by (auto simp: ClaimUnansweredRevocations_def carries_refl Let_def simp del: set_map
      elim!: selection_carries [rotated 2] intro!: claim_moves split: prod.splits)

lemma unheld_sweep_moves:
  "row_ok r \<Longrightarrow> overdue unheldStatuses t r \<Longrightarrow>
     moves r (sweep_row e \<lparr>moveStatus = DLQueueStatusExpired, moveResult = Some ResultExpired, moveAskedAt = None\<rparr> r)"
  by (cases "dl_status r") (simp_all add: move_defs overdue_def sweep_row_def)

lemma held_sweep_moves:
  "row_ok r \<Longrightarrow> overdue revocableStatuses t r \<Longrightarrow>
     moves r (sweep_row e \<lparr>moveStatus = DLQueueStatusRevoking, moveResult = None, moveAskedAt = Some u\<rparr> r)"
  by (cases "dl_status r") (simp_all add: move_defs overdue_def sweep_row_def)

lemma ResultForQueueStatus_Expired [simp]: "ResultForQueueStatus DLQueueStatusExpired = Some ResultExpired"
  by (simp add: ResultForQueueStatus_def resultQueueStatuses_def)

lemma sweep_carries:
  assumes "store_inv s" "\<And>r. row_ok r \<Longrightarrow> overdue from (now e) r \<Longrightarrow> moves r (sweep_row e m r)"
  shows "carries s (snd (sweep_overdue e n from m mark s))"
  using assms by (auto simp: sweep_overdue_def carries_refl Let_def simp del: set_map
      elim!: selection_carries [rotated 2] split: prod.splits)

lemma expiry_carries:
  "store_inv s \<Longrightarrow> carries s (snd (ExpireOverdueUnheld e n s))"
  "store_inv s \<Longrightarrow> carries s (snd (RevokeOverdueHeld e t n s))"
  unfolding ExpireOverdueUnheld_def RevokeOverdueHeld_def ResultForQueueStatus_Expired
  by (auto intro!: sweep_carries unheld_sweep_moves held_sweep_moves)

lemma window_carries:
  "store_inv s \<Longrightarrow> carries s (snd (ClaimDownlinkWindow t m s))"
  "store_inv s \<Longrightarrow> carries s (snd (ReleaseDownlinkWindow t m s))"
  using carries_refl [of s] by (auto simp: ClaimDownlinkWindow_def ReleaseDownlinkWindow_def carries_def)

lemmas statement_carries = status_carries patch_carries reserve_next_carries reserve_carries mark_carries
  result_carries accept_carries fail_carries ack_carries revoke_carries expire_revoked_carries
  expire_station_carries claim_carries release_carries expiry_carries remove_station_carries orphans_carries
  window_carries

section \<open>Enqueueing\<close>

lemma enqueued_row_apart:
  assumes "insert_conflict n rs = None" "\<And>r. r \<in> set rs \<Longrightarrow> row_id r < row_id n" "r \<in> set rs" "in_flight (dl_status n)"
  shows "apart r n"
  using assms(1) assms(2) [OF assms(3)] assms(3, 4)
  by (auto simp: insert_conflict_def apart_def refs_unique_def ac_ids_unique_def list_ex_iff split: if_split_asm)

lemma insert_result:
  assumes "enqStatus d = DLQueueStatusPending" "0 < sint (MsgQueID d)" "MsgOrganizationID d \<noteq> None"
  shows "\<exists>n. insertQueuedDownlink d eui t ud enqueuedAt lifetime s =
      (case insert_conflict n (dl_rows s) of
         Some e \<Rightarrow> (Inl e, s)
       | None \<Rightarrow> (Inr n, s\<lparr>dl_rows := dl_rows s @ [n], next_row_id := next_row_id s + 1\<rparr>))
     \<and> row_ok n \<and> row_id n = next_row_id s \<and> in_flight (dl_status n)"
  unfolding insertQueuedDownlink_def Let_def
  by (rule exI, rule conjI, rule refl) (use assms in \<open>simp add: row_ok_def status_lists in_flight_def\<close>)

lemma enqueue_insert:
  "snd (EnqueueDownlink e d lifetime s) = s
   \<or> MsgOrganizationID d \<noteq> None \<and> (\<exists>eui t ud enqueuedAt. EnqueueDownlink e d lifetime s = insertQueuedDownlink d eui t ud enqueuedAt lifetime s)"
  unfolding EnqueueDownlink_def Let_def by (simp split: option.split) blast

lemma enqueue_cases:
  assumes "store_inv s" "enqStatus d = DLQueueStatusPending" "0 < sint (MsgQueID d)"
  obtains "snd (EnqueueDownlink e d lifetime s) = s"
  | n where "snd (EnqueueDownlink e d lifetime s) = s\<lparr>dl_rows := dl_rows s @ [n], next_row_id := next_row_id s + 1\<rparr>"
      "row_ok n" "row_id n = next_row_id s" "in_flight (dl_status n)" "insert_conflict n (dl_rows s) = None"
proof (cases "snd (EnqueueDownlink e d lifetime s) = s")
  case False
  then obtain eui t ud enqueuedAt where o: "MsgOrganizationID d \<noteq> None"
    and i: "EnqueueDownlink e d lifetime s = insertQueuedDownlink d eui t ud enqueuedAt lifetime s"
    using enqueue_insert [of e d lifetime s] by blast
  with insert_result [OF assms(2, 3) o, of eui t ud enqueuedAt lifetime s] False that(2) show ?thesis
    by (auto split: option.splits)
qed (rule that(1))

definition carried :: "dl_store \<Rightarrow> dl_store \<Rightarrow> bool" where
  "carried s s' \<longleftrightarrow> (\<forall>r\<in>set (dl_rows s). \<exists>r'\<in>set (dl_rows s'). moves r r')"

lemma carried_trans: "carried a b \<Longrightarrow> carried b c \<Longrightarrow> carried a c"
  unfolding carried_def by (meson moves_trans)

lemma carries_carried: "carries s s' \<Longrightarrow> carried s s'"
  by (auto simp: carried_def dest: carries_row)

lemma carried_refl: "store_inv s \<Longrightarrow> carried s s"
  by (auto simp: carried_def intro!: moves_refl store_rows_ok)

lemma enqueue_keeps:
  assumes inv: "store_inv s" and d: "enqStatus d = DLQueueStatusPending" "0 < sint (MsgQueID d)"
  shows "store_inv (snd (EnqueueDownlink e d lifetime s)) \<and> carried s (snd (EnqueueDownlink e d lifetime s))"
  using inv d
proof (cases rule: enqueue_cases [of s d e lifetime])
  case 1
  then show ?thesis using inv by (simp add: carried_refl)
next
  case (2 n)
  have "row_id r < row_id n" if "r \<in> set (dl_rows s)" for r
    using inv that 2 by (simp add: store_inv_def list_all_iff)
  then have "apart r n" if "r \<in> set (dl_rows s)" for r
    using enqueued_row_apart 2 that by blast
  then have "store_inv (s\<lparr>dl_rows := dl_rows s @ [n], next_row_id := next_row_id s + 1\<rparr>)"
    using inv 2 by (fastforce simp: store_inv_def sorted_wrt_append list_all_iff)
  moreover have "carried s (s\<lparr>dl_rows := dl_rows s @ [n], next_row_id := next_row_id s + 1\<rparr>)"
    using carried_refl [OF inv] by (fastforce simp: carried_def)
  ultimately show ?thesis using 2 by simp
qed

section \<open>Histories\<close>

text \<open>
  Runs of guarded steps: what every admissible step keeps and every admissible step relates, a run
  of them keeps and relates.
\<close>

fun admitted :: "('e \<Rightarrow> 's \<Rightarrow> 's) \<Rightarrow> ('e \<Rightarrow> 's \<Rightarrow> bool) \<Rightarrow> 'e list \<Rightarrow> 's \<Rightarrow> bool" where
  "admitted exec ok [] s \<longleftrightarrow> True"
| "admitted exec ok (e # es) s \<longleftrightarrow> ok e s \<and> admitted exec ok es (exec e s)"

locale guarded_runs =
  fixes exec :: "'e \<Rightarrow> 's \<Rightarrow> 's"
    and admissible :: "'e \<Rightarrow> 's \<Rightarrow> bool"
    and inv :: "'s \<Rightarrow> bool"
    and rel :: "'s \<Rightarrow> 's \<Rightarrow> bool"
  assumes inv_exec: "inv s \<Longrightarrow> admissible e s \<Longrightarrow> inv (exec e s)"
    and rel_exec: "inv s \<Longrightarrow> admissible e s \<Longrightarrow> rel s (exec e s)"
    and rel_refl: "inv s \<Longrightarrow> rel s s"
    and rel_trans: "rel a b \<Longrightarrow> rel b c \<Longrightarrow> rel a c"
begin

lemma run_keeps:
  "inv s \<Longrightarrow> admitted exec admissible es s \<Longrightarrow> inv (fold exec es s) \<and> rel s (fold exec es s)"
proof (induction es arbitrary: s)
  case (Cons e es)
  then have "inv (exec e s)" "rel s (exec e s)" by (auto intro: inv_exec rel_exec)
  with Cons show ?case by (auto intro: rel_trans)
qed (simp add: rel_refl)

end

type_synonym stmt_event = "sql_env \<times> fault \<times> stmt"

definition exec_event :: "stmt_event \<Rightarrow> dl_store \<Rightarrow> dl_store" where
  "exec_event v = (case v of (e, f, st) \<Rightarrow> exec_stmt e f st)"

definition event_ok :: "stmt_event \<Rightarrow> dl_store \<Rightarrow> bool" where
  "event_ok v s \<longleftrightarrow> caller_ok (snd (snd v)) s \<and> release_timely (snd (snd v)) s"

lemma taken_keeps:
  assumes "store_inv s" "store_inv (snd (op s)) \<and> carried s (snd (op s))"
  shows "store_inv (taken f op s) \<and> carried s (taken f op s)"
  using assms by (cases f) (simp_all add: taken_def attempt_def carried_refl)

lemma taken_carries:
  assumes "store_inv s" "carries s (snd (op s))"
  shows "store_inv (taken f op s) \<and> carried s (taken f op s)"
  using assms by (intro taken_keeps conjI carries_inv [OF assms] carries_carried)

lemma exec_stmt_keeps:
  assumes "store_inv s" "caller_ok st s" "release_timely st s"
  shows "store_inv (exec_stmt e f st s) \<and> carried s (exec_stmt e f st s)"
  using assms
proof (cases st)
  case (S_Enqueue d lifetime)
  then show ?thesis using assms by (simp add: taken_keeps [OF _ enqueue_keeps])
qed (simp_all add: taken_carries statement_carries)

interpretation history: guarded_runs exec_event event_ok store_inv carried
  using exec_stmt_keeps carried_refl carried_trans
  by unfold_locales (auto simp: exec_event_def event_ok_def split: prod.split)

section \<open>Properties\<close>

definition newStore :: "((string \<times> i64) \<times> bool) list \<Rightarrow> u64 list \<Rightarrow> dl_store" where
  "newStore w stations = \<lparr>dl_rows = [], next_row_id = 1, windows = w, basestations = stations, outbox = []\<rparr>"

lemma newStore_inv: "store_inv (newStore w stations)"
  by (simp add: newStore_def store_inv_def)

text \<open>A downlink of one byte, for the witnesses.\<close>

definition sample_downlink :: "i64 \<Rightarrow> rat \<Rightarrow> queued_downlink" where
  "sample_downlink que prio = DownlinkMessage.extend
     (zeroMessage\<lparr>EPEUI := ''00000000000000A1'', TenantID := ''7'', MsgOrganizationID := Some (replicate 16 1),
        MsgPayload := [5], Priority := prio, MsgQueID := que\<rparr>)
     (queued_downlink.fields DLQueueStatusPending 0 0 None)"

definition sample_env :: "int \<Rightarrow> sql_env" where
  "sample_env t = \<lparr>now = t, tie = (\<lambda>i. i), locked = []\<rparr>"

definition sample_result :: "string \<Rightarrow> DLDataResult" where
  "sample_result res = \<lparr>resOpId = 9, resEpEui = 0xA1, resQueId = 4, resResult = res, resTxTime = Some 70,
     resPacketCnt = Some 3, resBsEui = None\<rparr>"

text \<open>The life of one downlink: queued, reserved for station 11, accepted, transmitted.\<close>

definition sample_history :: "stmt_event list" where
  "sample_history =
     [(sample_env 1000, Answered, S_Enqueue (sample_downlink 4 1) 60000),
      (sample_env 2000, Answered, S_Reserve_Next 7 0xA1 11),
      (sample_env 3000, Unanswered, S_Mark_Queued 4 7 11 3000 None (Some (replicate 16 1))),
      (sample_env 4000, Answered, S_Result 7 11 (sample_result ResultSent))]"



text \<open>
  C3. A downlink that reached a final state keeps it, with its result, holder, transmission data and
  payload, through every later history; one its station was asked to drop stays so or ends, and never
  returns to the queue.
\<close>

theorem finished_downlink_is_final:
  assumes "admitted exec_event event_ok es s" "store_inv s" "r \<in> set (dl_rows s)"
  shows "\<exists>r'\<in>set (dl_rows (fold exec_event es s)). same_identity r r'
      \<and> (Terminal (dl_status r) \<longrightarrow> same_outcome r r')
      \<and> (dl_status r = DLQueueStatusRevoking \<longrightarrow> dl_status r' = DLQueueStatusRevoking \<or> Terminal (dl_status r'))"
proof -
  from history.run_keeps [OF assms(2, 1)] have "carried s (fold exec_event es s)" by simp
  with assms(3) show ?thesis by (auto simp: carried_def moves_def)
qed

definition sample_aftermath :: "stmt_event list" where
  "sample_aftermath =
     [(sample_env 5000, Answered, S_Remove_Station 11), (sample_env 6000, Answered, S_Result 7 11 (sample_result ResultExpired)),
      (sample_env 90000, Answered, S_Expire_Unheld 10), (sample_env 90000, Unanswered, S_Release_Queue 11)]"

theorem finished_downlink_is_final_witness:
  "admitted exec_event event_ok sample_aftermath (fold exec_event sample_history (newStore [] [11]))
   \<and> (\<exists>r\<in>set (dl_rows (fold exec_event sample_aftermath (fold exec_event sample_history (newStore [] [11])))).
        dl_status r = DLQueueStatusTransmitted \<and> dl_result r = Some ResultSent)"
proof -
  define s where "s = fold exec_event sample_history (newStore [] [11])"
  have a: "admitted exec_event event_ok sample_aftermath s" unfolding s_def by code_simp
  have i: "store_inv s"
    unfolding s_def by (rule conjunct1, rule history.run_keeps [OF newStore_inv]) code_simp
  have "map dl_status (dl_rows s) = [DLQueueStatusTransmitted]" unfolding s_def by code_simp
  moreover have "map dl_result (dl_rows s) = [Some ResultSent]" unfolding s_def by code_simp
  ultimately obtain r where r: "r \<in> set (dl_rows s)" "dl_status r = DLQueueStatusTransmitted" "dl_result r = Some ResultSent"
    by (cases "dl_rows s") auto
  from finished_downlink_is_final [OF a i r(1)] r a show ?thesis
    by (auto simp: same_outcome_def s_def)
qed

end
