(* ===== verification/Downlink_Dispatch.thy ===== *)
theory Downlink_Dispatch
  imports Downlink_Lifecycle Propagation
begin

text \<open>
  The downlink dispatcher (\<^verbatim>\<open>internal/services/bssci/downlink_dispatcher.go\<close>): filling the downlink window
  of a telegram with the endpoint's best pending downlink, and sending one downlink at once. It joins
  the queue's statements with the sending of a \<^verbatim>\<open>dlDataQue\<close> (\<open>SendDLDataQueue\<close>): reservation, sending,
  confirmation or release.

  Every station that received the telegram reports the window, and their dispatches run at the same
  time; so the dispatch is also given as the steps of concurrent tasks, between which any other
  statement may run.

  Shown: a dispatch that reports success sent the endpoint's downlink of highest priority, oldest
  first, and leaves it at that station; at most one downlink goes out per window however the
  dispatches interleave; a dispatch whose frame certainly did not go out returns the row to the queue
  without looking at it, so a downlink that ended meanwhile is revived, and above a million rows the
  row is not found at all.
\<close>

section \<open>Environment\<close>

text \<open>
  The statements of one dispatch in their order: 0 the claim of the window, 1 the reservation, 2 the
  release, 3 the confirmation, 4 the return of the window. \<open>uuidText\<close> is the text of an organization's
  UUID.
\<close>

record dispatch_env =
  reqEnv :: request_env
  sqlOf :: "nat \<Rightarrow> sql_env"
  faultOf :: "nat \<Rightarrow> fault"
  txNow :: i64
  uuidText :: "bytes \<Rightarrow> string"

datatype dispatch_error = ErrDispatchOrgMismatch | SendError journal_error | QueryError store_error

section \<open>Steps of a dispatch\<close>

definition claim_window :: "dispatch_env \<Rightarrow> i64 \<Rightarrow> string \<Rightarrow> dl_store \<Rightarrow> bool stored" where
  "claim_window env tenant msg s = attempt (faultOf env 0) (ClaimDownlinkWindow tenant msg) s"

definition reserve_next :: "dispatch_env \<Rightarrow> i64 \<Rightarrow> u64 \<Rightarrow> u64 \<Rightarrow> dl_store \<Rightarrow> DownlinkMessage stored" where
  "reserve_next env tenant eui bs s =
     attempt (faultOf env 1) (ReserveNextPendingDownlink (sqlOf env 1) tenant eui bs) s"

definition reserved_payloads :: "DownlinkMessage \<Rightarrow> bytes list" where
  "reserved_payloads dl = (if UserData dl = [] \<and> MsgPayload dl \<noteq> [] then [MsgPayload dl] else UserData dl)"

definition queue_request :: "dispatch_env \<Rightarrow> i64 \<Rightarrow> u64 \<Rightarrow> DownlinkMessage \<Rightarrow> dlDataQueueRequest" where
  "queue_request env tenant eui dl =
     \<lparr>epEui = eui, queId = MsgQueID dl, payloads = reserved_payloads dl, cntDepend = CntDepend dl,
      packetCnt = PacketCntArray dl, format = MsgFormat dl, prio = FFin (Priority dl), responseExp = ResponseExp dl,
      responsePrio = ResponsePrio dl, dlWindReq = DlWindReq dl, expOnly = ExpOnly dl, tenantID = tenant,
      orgID = map_option (uuidText env) (MsgOrganizationID dl)\<rparr>"

definition send_reserved :: "dispatch_env \<Rightarrow> i64 \<Rightarrow> u64 \<Rightarrow> DownlinkMessage \<Rightarrow> journal \<Rightarrow> dispatch_error option \<times> journal" where
  "send_reserved env tenant eui dl j =
     (if MsgOrganizationID dl = None \<or> MsgOrganizationID dl = Some uuidNil then (Some ErrDispatchOrgMismatch, j)
      else case SendDLDataQueue (reqEnv env) (queue_request env tenant eui dl) (DlRxStatQry dl) j of
             (None, j') \<Rightarrow> (None, j')
           | (Some er, j') \<Rightarrow> (Some (SendError er), j'))"

definition settle_reserved ::
    "dispatch_env \<Rightarrow> i64 \<Rightarrow> u64 \<Rightarrow> DownlinkMessage \<Rightarrow> dispatch_error option \<Rightarrow> dl_store \<Rightarrow> dl_store" where
  "settle_reserved env tenant bs dl res s =
     (case res of
        None \<Rightarrow>
          taken (faultOf env 3)
            (markReservedAsQueued (sqlOf env 3) (MsgQueID dl) tenant bs (txNow env) None (MsgOrganizationID dl)) s
      | Some (SendError FrameAmbiguous) \<Rightarrow> s
      | Some (SendError _) \<Rightarrow>
          taken (faultOf env 2)
            (UpdateDownlinkStatus (sqlOf env 2) (show_int (MsgID dl)) DLQueueStatusPending (MsgOrganizationID dl)) s
      | Some _ \<Rightarrow> s)"

definition give_back_window :: "dispatch_env \<Rightarrow> i64 \<Rightarrow> string \<Rightarrow> dl_store \<Rightarrow> dl_store" where
  "give_back_window env tenant msg s = taken (faultOf env 4) (ReleaseDownlinkWindow tenant msg) s"

section \<open>The dispatcher\<close>

type_synonym dispatch_result = "(bool \<times> dispatch_error option) \<times> dl_store \<times> journal"

definition dispatchReserved ::
    "dispatch_env \<Rightarrow> i64 \<Rightarrow> u64 \<Rightarrow> DownlinkMessage \<Rightarrow> dl_store \<Rightarrow> journal \<Rightarrow> dispatch_result" where
  "dispatchReserved env tenant eui dl s j =
     (case send_reserved env tenant eui dl j of (res, j') \<Rightarrow>
        ((res = None, res), settle_reserved env tenant (BaseStationEUI (live j)) dl res s, j'))"

definition dispatchNextPending :: "dispatch_env \<Rightarrow> i64 \<Rightarrow> u64 \<Rightarrow> dl_store \<Rightarrow> journal \<Rightarrow> dispatch_result" where
  "dispatchNextPending env tenant eui s j =
     (case reserve_next env tenant eui (BaseStationEUI (live j)) s of
        (Inl _, s') \<Rightarrow> ((False, None), s', j)
      | (Inr dl, s') \<Rightarrow> dispatchReserved env tenant eui dl s' j)"

definition DispatchIfAvailable ::
    "dispatch_env \<Rightarrow> i64 \<Rightarrow> u64 \<Rightarrow> string \<Rightarrow> dl_store \<Rightarrow> journal \<Rightarrow> dispatch_result" where
  "DispatchIfAvailable env ownerTenantID eui messageID s j =
     (if ownerTenantID = 0 then ((False, None), s, j)
      else if \<not> Bidirectional (live j) then ((False, None), s, j)
      else case claim_window env ownerTenantID messageID s of
             (Inl _, s1) \<Rightarrow> ((False, None), s1, j)
           | (Inr False, s1) \<Rightarrow> ((False, None), s1, j)
           | (Inr True, s1) \<Rightarrow>
               (case dispatchNextPending env ownerTenantID eui s1 j of
                  ((dispatched, er), s2, j2) \<Rightarrow>
                    if \<not> dispatched \<and> er \<noteq> Some (SendError FrameAmbiguous)
                    then ((dispatched, er), give_back_window env ownerTenantID messageID s2, j2)
                    else ((dispatched, er), s2, j2)))"

definition DispatchQueue ::
    "dispatch_env \<Rightarrow> i64 \<Rightarrow> bytes \<Rightarrow> i64 \<Rightarrow> u64 \<Rightarrow> dl_store \<Rightarrow> journal \<Rightarrow> dispatch_result" where
  "DispatchQueue env ownerTenantID enqueueOrg que eui s j =
     (if ownerTenantID = 0 then ((False, None), s, j)
      else if enqueueOrg = uuidNil then ((False, None), s, j)
      else case attempt (faultOf env 1) (reservePendingDownlinkByQueueID (sqlOf env 1) ownerTenantID enqueueOrg que eui
                  (BaseStationEUI (live j))) s of
             (Inl ErrNotFound, s') \<Rightarrow> ((False, None), s', j)
           | (Inl er, s') \<Rightarrow> ((False, Some (QueryError er)), s', j)
           | (Inr dl, s') \<Rightarrow> dispatchReserved env ownerTenantID eui dl s' j)"

section \<open>Dispatches side by side\<close>

text \<open>A dispatch in progress: its window, its endpoint, its session and how far it got.\<close>

datatype phase = Ph_Start | Ph_Claimed | Ph_Reserved DownlinkMessage | Ph_Answered DownlinkMessage "dispatch_error option"
  | Ph_GiveBack | Ph_Kept | Ph_Done

record dispatch_task =
  taskTenant :: i64
  taskWindow :: string
  taskEndpoint :: u64
  taskJournal :: journal
  taskPhase :: phase

record dispatch_sys =
  queue :: dl_store
  dtasks :: "(nat \<times> dispatch_task) list"
  sentIn :: "(nat \<times> string \<times> i64) list"

definition set_task :: "nat \<Rightarrow> dispatch_task \<Rightarrow> phase \<Rightarrow> dispatch_sys \<Rightarrow> dispatch_sys" where
  "set_task n t p y = y\<lparr>dtasks := AList.update n (t\<lparr>taskPhase := p\<rparr>) (dtasks y)\<rparr>"

definition after_settling :: "dispatch_error option \<Rightarrow> phase" where
  "after_settling res = (if res = None \<or> res = Some (SendError FrameAmbiguous) then Ph_Kept else Ph_GiveBack)"

definition went_out :: "dispatch_error option \<Rightarrow> bool" where
  "went_out res \<longleftrightarrow> res = None \<or> res = Some (SendError FrameAmbiguous)"

text \<open>
  The journal of a session may change while a task waits for the database, so a send runs on any
  journal of the same station. A new telegram appears with its window free.
\<close>

inductive dispatch_step :: "dispatch_sys \<Rightarrow> dispatch_sys \<Rightarrow> bool" where
  begin_dispatch: "map_of (dtasks y) n = None \<Longrightarrow> taskPhase t = Ph_Start \<Longrightarrow> taskTenant t \<noteq> 0 \<Longrightarrow>
     Bidirectional (live (taskJournal t)) \<Longrightarrow> dispatch_step y (y\<lparr>dtasks := AList.update n t (dtasks y)\<rparr>)"
| claim: "map_of (dtasks y) n = Some t \<Longrightarrow> taskPhase t = Ph_Start \<Longrightarrow>
     claim_window env (taskTenant t) (taskWindow t) (queue y) = (res, s) \<Longrightarrow>
     dispatch_step y (set_task n t (if res = Inr True then Ph_Claimed else Ph_Done) (y\<lparr>queue := s\<rparr>))"
| reserve: "map_of (dtasks y) n = Some t \<Longrightarrow> taskPhase t = Ph_Claimed \<Longrightarrow>
     reserve_next env (taskTenant t) (taskEndpoint t) (BaseStationEUI (live (taskJournal t))) (queue y) = (res, s) \<Longrightarrow>
     dispatch_step y (set_task n t (case res of Inl _ \<Rightarrow> Ph_GiveBack | Inr dl \<Rightarrow> Ph_Reserved dl) (y\<lparr>queue := s\<rparr>))"
| send_frame: "map_of (dtasks y) n = Some t \<Longrightarrow> taskPhase t = Ph_Reserved dl \<Longrightarrow>
     send_reserved env (taskTenant t) (taskEndpoint t) dl j = (res, j') \<Longrightarrow>
     dispatch_step y (set_task n t (Ph_Answered dl res)
       (y\<lparr>sentIn := (if went_out res then [(n, taskWindow t, taskTenant t)] else []) @ sentIn y\<rparr>))"
| settle: "map_of (dtasks y) n = Some t \<Longrightarrow> taskPhase t = Ph_Answered dl res \<Longrightarrow>
     dispatch_step y (set_task n t (after_settling res)
       (y\<lparr>queue := settle_reserved env (taskTenant t) (BaseStationEUI (live (taskJournal t))) dl res (queue y)\<rparr>))"
| give_back: "map_of (dtasks y) n = Some t \<Longrightarrow> taskPhase t = Ph_GiveBack \<Longrightarrow>
     dispatch_step y (set_task n t Ph_Done (y\<lparr>queue := give_back_window env (taskTenant t) (taskWindow t) (queue y)\<rparr>))"
| other_statement: "windows s = windows (queue y) \<Longrightarrow> dispatch_step y (y\<lparr>queue := s\<rparr>)"
| new_telegram: "map_of (windows (queue y)) k = None \<Longrightarrow>
     dispatch_step y (y\<lparr>queue := (queue y)\<lparr>windows := AList.update k False (windows (queue y))\<rparr>\<rparr>)"

definition idle :: "dl_store \<Rightarrow> dispatch_sys" where
  "idle s = \<lparr>queue = s, dtasks = [], sentIn = []\<rparr>"

inductive dispatched_from :: "dl_store \<Rightarrow> dispatch_sys \<Rightarrow> bool" for s0 where
  start: "dispatched_from s0 (idle s0)"
| step: "dispatched_from s0 y \<Longrightarrow> dispatch_step y y' \<Longrightarrow> dispatched_from s0 y'"

section \<open>Windows\<close>

lemma update_rows_windows [simp, frame_rules]: "update_rows P f s = (rs, s') \<Longrightarrow> windows s' = windows s"
  by (auto simp: update_rows_def)

lemma taken_windows:
  "(\<And>r s'. op s = (r, s') \<Longrightarrow> windows s' = windows s) \<Longrightarrow> windows (taken f op s) = windows s"
  by (cases f; cases "op s") (auto simp: taken_def attempt_def)

lemma reserveSelected_windows: "reserveSelected e que t bs s = (r, s') \<Longrightarrow> windows s' = windows s"
  by (auto simp: reserveSelected_def split: prod.splits list.splits)

lemma ReserveNext_windows: "ReserveNextPendingDownlink e t eui bs s = (r, s') \<Longrightarrow> windows s' = windows s"
  by (auto simp: ReserveNextPendingDownlink_def Let_def dest: reserveSelected_windows
      split: prod.splits list.splits sum.splits)

lemma reserve_next_windows: "reserve_next env t eui bs s = (r, s') \<Longrightarrow> windows s' = windows s"
  using taken_windows [of "ReserveNextPendingDownlink (sqlOf env 1) t eui bs" s "faultOf env 1", OF ReserveNext_windows]
  by (simp add: reserve_next_def taken_def)

lemma status_windows: "UpdateDownlinkStatus e key st org s = (r, s') \<Longrightarrow> windows s' = windows s"
  by (auto simp: UpdateDownlinkStatus_def split: prod.splits list.splits option.splits)

lemma mark_windows: "markReservedAsQueued e que t bs tx cnt org s = (r, s') \<Longrightarrow> windows s' = windows s"
  by (auto simp: markReservedAsQueued_def split: prod.splits list.splits option.splits)

lemma settle_windows: "windows (settle_reserved env t bs dl res s) = windows s"
  by (auto simp: settle_reserved_def intro!: taken_windows dest: status_windows mark_windows
      split: option.splits dispatch_error.splits journal_error.splits)

lemma claim_cases:
  assumes "claim_window env t m s = (res, s')"
  shows "res = Inr True \<and> map_of (windows s) (m, t) = Some False \<and> windows s' = AList.update (m, t) True (windows s)
    \<or> res \<noteq> Inr True \<and> (windows s' = windows s
         \<or> map_of (windows s) (m, t) = Some False \<and> windows s' = AList.update (m, t) True (windows s))"
  using assms by (cases "faultOf env 0") (auto simp: claim_window_def attempt_def ClaimDownlinkWindow_def split: if_splits)

lemma give_back_cases:
  "windows (give_back_window env t m s) = windows s
   \<or> windows (give_back_window env t m s) = AList.update (m, t) False (windows s)"
  by (cases "faultOf env 4") (auto simp: give_back_window_def taken_def attempt_def ReleaseDownlinkWindow_def)

definition window_of :: "dispatch_task \<Rightarrow> string \<times> i64" where
  "window_of t = (taskWindow t, taskTenant t)"

definition owns :: "dispatch_task \<Rightarrow> bool" where
  "owns t \<longleftrightarrow> taskPhase t \<noteq> Ph_Start \<and> taskPhase t \<noteq> Ph_Done"

definition sender :: "dispatch_task \<Rightarrow> bool" where
  "sender t \<longleftrightarrow> taskPhase t = Ph_Kept \<or> (\<exists>dl res. taskPhase t = Ph_Answered dl res \<and> went_out res)"

definition window_inv :: "dispatch_sys \<Rightarrow> bool" where
  "window_inv y \<longleftrightarrow>
     (\<forall>n t. map_of (dtasks y) n = Some t \<longrightarrow> owns t \<longrightarrow> map_of (windows (queue y)) (window_of t) = Some True
        \<and> (\<forall>m u. map_of (dtasks y) m = Some u \<longrightarrow> owns u \<longrightarrow> window_of u = window_of t \<longrightarrow> m = n))
     \<and> (\<forall>n k. (n, k) \<in> set (sentIn y) \<longrightarrow> (\<exists>t. map_of (dtasks y) n = Some t \<and> window_of t = k \<and> sender t))
     \<and> distinct (map fst (sentIn y))"

lemma window_invD:
  assumes "window_inv y" "map_of (dtasks y) n = Some t" "owns t"
  shows "map_of (windows (queue y)) (window_of t) = Some True"
    and "map_of (dtasks y) m = Some u \<Longrightarrow> owns u \<Longrightarrow> window_of u = window_of t \<Longrightarrow> m = n"
  using assms unfolding window_inv_def by blast+

lemma window_inv_sent:
  assumes "window_inv y" "(n, k) \<in> set (sentIn y)"
  shows "\<exists>t. map_of (dtasks y) n = Some t \<and> window_of t = k \<and> sender t"
  using assms unfolding window_inv_def by blast

text \<open>A task that owns its window goes on; the windows stay.\<close>

lemma window_inv_owner:
  assumes inv: "window_inv y" and t: "map_of (dtasks y) n = Some t" "owns t" "sender t \<longrightarrow> p = Ph_Kept \<or> p = Ph_Answered dl res \<and> went_out res"
    and q: "windows s = windows (queue y)" and p: "p \<noteq> Ph_Start" "p \<noteq> Ph_Done"
  shows "window_inv (set_task n t p (y\<lparr>queue := s\<rparr>))"
proof -
  have o: "owns (t\<lparr>taskPhase := p\<rparr>)" "window_of (t\<lparr>taskPhase := p\<rparr>) = window_of t"
    using p by (simp_all add: owns_def window_of_def)
  have s: "sender t \<Longrightarrow> sender (t\<lparr>taskPhase := p\<rparr>)" using t(3) by (auto simp: sender_def)
  show ?thesis
    using inv t(1, 2) o s q unfolding window_inv_def set_task_def
    by (auto simp: update_conv split: if_splits) (metis option.inject)+
qed

text \<open>A task outside its window, before the claim or after it gave the window back.\<close>

lemma window_inv_outside:
  assumes inv: "window_inv y" and t: "\<not> sender t" "window_of t' = window_of t" "\<not> owns t'" "map_of (dtasks y) n = Some t \<or> map_of (dtasks y) n = None"
    and w: "\<And>m u. map_of (dtasks y) m = Some u \<Longrightarrow> m \<noteq> n \<Longrightarrow> owns u \<Longrightarrow> map_of (windows s) (window_of u) = Some True"
  shows "window_inv (y\<lparr>queue := s, dtasks := AList.update n t' (dtasks y)\<rparr>)"
  using assms unfolding window_inv_def by (auto simp: update_conv split: if_splits) (metis option.inject option.distinct(1))+

lemma window_inv_claim:
  assumes inv: "window_inv y" and t: "map_of (dtasks y) n = Some t" "taskPhase t = Ph_Start"
    and w: "map_of (windows (queue y)) (window_of t) = Some False" "windows s = AList.update (window_of t) True (windows (queue y))"
  shows "window_inv (set_task n t Ph_Claimed (y\<lparr>queue := s\<rparr>))"
proof -
  have free: "window_of u \<noteq> window_of t" if "map_of (dtasks y) m = Some u" "owns u" for m u
    using window_invD(1) [OF inv that] w(1) by auto
  have o: "owns (t\<lparr>taskPhase := Ph_Claimed\<rparr>)" "window_of (t\<lparr>taskPhase := Ph_Claimed\<rparr>) = window_of t" "\<not> sender t" "\<not> owns t"
    using t(2) by (auto simp: owns_def window_of_def sender_def)
  show ?thesis
    using inv t(1) o w(2) free unfolding window_inv_def set_task_def
    by (auto simp: update_conv split: if_splits) (metis option.inject)+
qed

lemma window_inv_send:
  assumes inv: "window_inv y" and t: "map_of (dtasks y) n = Some t" "taskPhase t = Ph_Reserved dl"
  shows "window_inv (set_task n t (Ph_Answered dl res)
           (y\<lparr>sentIn := (if went_out res then [(n, taskWindow t, taskTenant t)] else []) @ sentIn y\<rparr>))"
proof -
  have o: "owns t" "\<not> sender t" using t(2) by (auto simp: owns_def sender_def)
  have fresh: "n \<notin> fst ` set (sentIn y)"
    using window_inv_sent [OF inv] t(1) o(2) by fastforce
  have i: "window_inv (set_task n t (Ph_Answered dl res) (y\<lparr>queue := queue y\<rparr>))"
    by (rule window_inv_owner [OF inv t(1) o(1)]) (use o in auto)
  have snd: "went_out res \<Longrightarrow> sender (t\<lparr>taskPhase := Ph_Answered dl res\<rparr>)" by (auto simp: sender_def)
  show ?thesis
    using i fresh snd unfolding window_inv_def by (auto simp: set_task_def window_of_def image_iff)
qed

inductive_cases dispatch_stepE: "dispatch_step y y'"

lemma window_inv_step:
  assumes inv: "window_inv y" and "dispatch_step y y'"
  shows "window_inv y'"
  using assms(2)
proof cases
  case (begin_dispatch n t)
  then have "\<not> owns t" "\<not> sender t" by (auto simp: owns_def sender_def)
  then have "window_inv (y\<lparr>queue := queue y, dtasks := AList.update n t (dtasks y)\<rparr>)"
    by (intro window_inv_outside [OF inv, of t t n]) (use begin_dispatch window_invD(1) [OF inv] in auto)
  then show ?thesis using begin_dispatch by simp
next
  case (claim n t env res s)
  have no: "\<not> sender t" "\<not> owns (t\<lparr>taskPhase := Ph_Done\<rparr>)" "window_of (t\<lparr>taskPhase := Ph_Done\<rparr>) = window_of t"
    using claim by (auto simp: owns_def sender_def window_of_def)
  show ?thesis
  proof (cases "res = Inr True")
    case True
    then show ?thesis using claim claim_cases [OF claim(4)] window_inv_claim [OF inv claim(2, 3), of s]
      by (auto simp: window_of_def)
  next
    case False
    then have "map_of (windows s) (window_of u) = Some True" if "map_of (dtasks y) m = Some u" "owns u" for m u
      using claim_cases [OF claim(4)] window_invD(1) [OF inv that] by (auto simp: update_conv)
    then show ?thesis
      using window_inv_outside [OF inv no(1, 3, 2), of n s] False claim by (auto simp: set_task_def)
  qed
next
  case (reserve n t env res s)
  then have "owns t" "\<not> sender t" by (auto simp: owns_def sender_def)
  then show ?thesis
    using reserve by (auto intro!: window_inv_owner [OF inv] reserve_next_windows split: sum.splits)
next
  case (send_frame n t dl env j res j')
  then show ?thesis using window_inv_send [OF inv] by simp
next
  case (settle n t dl res env)
  then have "owns t" "sender t \<Longrightarrow> after_settling res = Ph_Kept" "after_settling res \<noteq> Ph_Start" "after_settling res \<noteq> Ph_Done"
    by (auto simp: owns_def sender_def after_settling_def went_out_def)
  then show ?thesis using settle by (auto intro!: window_inv_owner [OF inv] settle_windows)
next
  case (give_back n t env)
  have o: "owns t" "\<not> sender t" "\<not> owns (t\<lparr>taskPhase := Ph_Done\<rparr>)" "window_of (t\<lparr>taskPhase := Ph_Done\<rparr>) = window_of t"
    using give_back by (auto simp: owns_def sender_def window_of_def)
  have "map_of (windows (give_back_window env (taskTenant t) (taskWindow t) (queue y))) (window_of u) = Some True"
    if u: "map_of (dtasks y) m = Some u" "m \<noteq> n" "owns u" for m u
  proof -
    have "window_of u \<noteq> window_of t" using window_invD(2) [OF inv give_back(2) o(1) u(1)] u by blast
    then show ?thesis
      using give_back_cases [of env "taskTenant t" "taskWindow t" "queue y"] window_invD(1) [OF inv u(1, 3)]
      by (auto simp: window_of_def update_conv)
  qed
  then show ?thesis
    using window_inv_outside [OF inv o(2, 4, 3), of n] give_back by (auto simp: set_task_def)
next
  case (other_statement s)
  then show ?thesis using inv by (simp add: window_inv_def)
next
  case (new_telegram k)
  then have "map_of (AList.update k False (windows (queue y))) (window_of t) = Some True"
    if "map_of (dtasks y) n = Some t" "owns t" for n t
    using window_invD(1) [OF inv that] by (auto simp: update_conv)
  then show ?thesis using inv new_telegram by (simp add: window_inv_def)
qed

lemma window_inv_reachable: "dispatched_from s0 y \<Longrightarrow> window_inv y"
proof (induction rule: dispatched_from.induct)
  case start
  show ?case by (simp add: window_inv_def idle_def)
qed (rule window_inv_step)

lemma at_most_one: "distinct ys \<Longrightarrow> (\<And>a b. a \<in> set ys \<Longrightarrow> b \<in> set ys \<Longrightarrow> a = b) \<Longrightarrow> length ys \<le> 1"
  by (metis One_nat_def card_le_Suc0_iff_eq distinct_card List.finite_set)

lemma single_entry:
  assumes "distinct (map fst xs)" "\<And>n m. (n, k) \<in> set xs \<Longrightarrow> (m, k) \<in> set xs \<Longrightarrow> n = m"
  shows "length (filter (\<lambda>e. snd e = k) xs) \<le> 1"
  by (rule at_most_one) (use assms in \<open>auto simp: distinct_map\<close>)

text \<open>
  C2. However the dispatches of the stations that received a telegram interleave with each other, with
  other statements of the queue and with failing statements, at most one downlink goes out in the
  telegram's window, a frame that was possibly written included.
\<close>

theorem one_downlink_per_window:
  assumes "dispatched_from s0 y"
  shows "length (filter (\<lambda>e. snd e = k) (sentIn y)) \<le> 1"
proof (rule single_entry)
  note inv = window_inv_reachable [OF assms]
  show "distinct (map fst (sentIn y))" using inv by (simp add: window_inv_def)
  fix n m
  assume "(n, k) \<in> set (sentIn y)" "(m, k) \<in> set (sentIn y)"
  then obtain t u where "map_of (dtasks y) n = Some t" "window_of t = k" "sender t" "map_of (dtasks y) m = Some u"
      "window_of u = k" "sender u"
    using window_inv_sent [OF inv] by metis
  then show "n = m" using window_invD(2) [OF inv, of m u n t] by (auto simp: sender_def owns_def)
qed

section \<open>A dispatch as steps\<close>

lemma set_task_fields [simp, frame_rules]:
  "queue (set_task n t p y) = queue y" "sentIn (set_task n t p y) = sentIn y"
  "map_of (dtasks (set_task n t p y)) n = Some (t\<lparr>taskPhase := p\<rparr>)"
  "m \<noteq> n \<Longrightarrow> map_of (dtasks (set_task n t p y)) m = map_of (dtasks y) m"
  by (simp_all add: set_task_def)

lemmas steps_into = rtranclp.rtrancl_into_rtrancl [of dispatch_step]

lemma after_settling_eq: "after_settling res = (if went_out res then Ph_Kept else Ph_GiveBack)"
  by (simp add: after_settling_def went_out_def)

lemma reserved_as_steps:
  assumes t: "map_of (dtasks y) n = Some t" "taskPhase t = Ph_Reserved dl"
    and d: "dispatchReserved env (taskTenant t) (taskEndpoint t) dl (queue y) (taskJournal t) = ((ok, er), s', j')"
  shows "\<exists>y' t'. dispatch_step\<^sup>*\<^sup>* y y' \<and> queue y' = s' \<and> map_of (dtasks y') n = Some t'
      \<and> t' = t\<lparr>taskPhase := (if went_out er then Ph_Kept else Ph_GiveBack)\<rparr> \<and> (ok \<longleftrightarrow> er = None)
      \<and> sentIn y' = (if went_out er then [(n, window_of t)] else []) @ sentIn y"
proof -
  obtain res j2 where r: "send_reserved env (taskTenant t) (taskEndpoint t) dl (taskJournal t) = (res, j2)" by fastforce
  with d have e: "er = res" "ok \<longleftrightarrow> res = None"
    "s' = settle_reserved env (taskTenant t) (BaseStationEUI (live (taskJournal t))) dl res (queue y)"
    by (auto simp: dispatchReserved_def)
  let ?y1 = "set_task n t (Ph_Answered dl res)
    (y\<lparr>sentIn := (if went_out res then [(n, taskWindow t, taskTenant t)] else []) @ sentIn y\<rparr>)"
  let ?t1 = "t\<lparr>taskPhase := Ph_Answered dl res\<rparr>"
  have "dispatch_step y ?y1" using t r by (rule send_frame)
  moreover have "dispatch_step ?y1 (set_task n ?t1 (after_settling res) (?y1\<lparr>queue := s'\<rparr>))"
    using settle [of ?y1 n ?t1 dl res env] by (simp add: e(3))
  ultimately have "dispatch_step\<^sup>*\<^sup>* y (set_task n ?t1 (after_settling res) (?y1\<lparr>queue := s'\<rparr>))"
    by (meson r_into_rtranclp rtranclp_trans)
  then show ?thesis
    by (intro exI [of _ "set_task n ?t1 (after_settling res) (?y1\<lparr>queue := s'\<rparr>)"] exI conjI)
      (simp_all add: e(1, 2) after_settling_eq window_of_def)
qed

lemma dispatch_as_steps:
  assumes n: "map_of (dtasks y) n = None" and ok: "tenant \<noteq> 0" "Bidirectional (live j)"
    and d: "DispatchIfAvailable env tenant eui msg (queue y) j = ((dispatched, er), s', j')"
  shows "\<exists>y'. dispatch_step\<^sup>*\<^sup>* y y' \<and> queue y' = s'
      \<and> sentIn y' = (if dispatched \<or> er = Some (SendError FrameAmbiguous) then [(n, msg, tenant)] else []) @ sentIn y"
proof -
  define t where "t = \<lparr>taskTenant = tenant, taskWindow = msg, taskEndpoint = eui, taskJournal = j, taskPhase = Ph_Start\<rparr>"
  note t_simps = t_def dispatch_task.simps
  let ?y0 = "y\<lparr>dtasks := AList.update n t (dtasks y)\<rparr>"
  have s0: "dispatch_step y ?y0" using n ok by (intro begin_dispatch) (simp_all add: t_def)
  obtain res s1 where c: "claim_window env tenant msg (queue y) = (res, s1)" by fastforce
  let ?y1 = "set_task n t (if res = Inr True then Ph_Claimed else Ph_Done) (?y0\<lparr>queue := s1\<rparr>)"
  have "dispatch_step ?y0 ?y1" using c by (intro claim) (simp_all add: t_def)
  then have s1: "dispatch_step\<^sup>*\<^sup>* y ?y1" using s0 by (meson r_into_rtranclp rtranclp_trans)
  show ?thesis
  proof (cases "res = Inr True")
    case False
    then have "dispatched = False" "er = None" "s' = s1"
      using d ok c by (auto simp: DispatchIfAvailable_def split: sum.splits bool.splits)
    then show ?thesis using s1 by (intro exI [of _ ?y1]) simp
  next
    case True
    let ?t1 = "t\<lparr>taskPhase := Ph_Claimed\<rparr>"
    obtain r2 s2 where v: "reserve_next env tenant eui (BaseStationEUI (live j)) s1 = (r2, s2)" by fastforce
    let ?p = "case r2 of Inl _ \<Rightarrow> Ph_GiveBack | Inr dl \<Rightarrow> Ph_Reserved dl"
    let ?y2 = "set_task n ?t1 ?p (?y1\<lparr>queue := s2\<rparr>)"
    have "dispatch_step ?y1 ?y2" using v True by (intro reserve) (simp_all add: t_def)
    then have s2: "dispatch_step\<^sup>*\<^sup>* y ?y2" using s1 by (meson r_into_rtranclp rtranclp_trans)
    have returned: "dispatch_step z (set_task n u Ph_Done (z\<lparr>queue := give_back_window env tenant msg (queue z)\<rparr>))"
      if "map_of (dtasks z) n = Some u" "taskPhase u = Ph_GiveBack" "taskTenant u = tenant" "taskWindow u = msg" for z u
      using give_back [of z n u env] that by simp
    show ?thesis
    proof (cases r2)
      case (Inl e2)
      then have "dispatched = False" "er = None" "s' = give_back_window env tenant msg s2"
        using d ok c True v by (auto simp: DispatchIfAvailable_def dispatchNextPending_def)
      note r = this
      let ?y3 = "set_task n (?t1\<lparr>taskPhase := Ph_GiveBack\<rparr>) Ph_Done (?y2\<lparr>queue := give_back_window env tenant msg (queue ?y2)\<rparr>)"
      have "dispatch_step ?y2 ?y3" using Inl by (intro returned) (simp_all add: t_def)
      with s2 have "dispatch_step\<^sup>*\<^sup>* y ?y3" by (rule rtranclp.rtrancl_into_rtrancl)
      then show ?thesis by (intro exI [of _ ?y3] conjI) (simp_all add: r)
    next
      case (Inr dl)
      obtain ok2 er2 s3 j3 where w: "dispatchReserved env tenant eui dl s2 j = ((ok2, er2), s3, j3)" by (metis prod.exhaust)
      have "map_of (dtasks ?y2) n = Some (t\<lparr>taskPhase := Ph_Reserved dl\<rparr>)" using Inr by simp
      from reserved_as_steps [OF this, of dl env ok2 er2 s3 j3] w obtain y3 where y3: "dispatch_step\<^sup>*\<^sup>* ?y2 y3" "queue y3 = s3"
          "map_of (dtasks y3) n = Some (t\<lparr>taskPhase := (if went_out er2 then Ph_Kept else Ph_GiveBack)\<rparr>)" "ok2 \<longleftrightarrow> er2 = None"
          "sentIn y3 = (if went_out er2 then [(n, msg, tenant)] else []) @ sentIn ?y2"
        by (auto simp: t_def window_of_def)
      have s3: "dispatch_step\<^sup>*\<^sup>* y y3" using s2 y3(1) by (rule rtranclp_trans)
      have r: "dispatched = ok2" "er = er2"
        "s' = (if went_out er2 then s3 else give_back_window env tenant msg s3)"
        using d ok c True v Inr w y3(4) by (auto simp: DispatchIfAvailable_def dispatchNextPending_def went_out_def split: if_splits)
      show ?thesis
      proof (cases "went_out er2")
        case True
        then show ?thesis using s3 y3 r by (intro exI [of _ y3]) (auto simp: went_out_def)
      next
        case False
        let ?y4 = "set_task n (t\<lparr>taskPhase := Ph_GiveBack\<rparr>) Ph_Done (y3\<lparr>queue := give_back_window env tenant msg (queue y3)\<rparr>)"
        have "dispatch_step y3 ?y4" using False y3(3) by (intro returned) (simp_all add: t_def)
        with s3 have "dispatch_step\<^sup>*\<^sup>* y ?y4" by (rule rtranclp.rtrancl_into_rtrancl)
        then show ?thesis using False y3(2, 4, 5) r by (intro exI [of _ ?y4] conjI) (auto simp: went_out_def)
      qed
    qed
  qed
qed

lemma dispatched_steps: "dispatch_step\<^sup>*\<^sup>* y y' \<Longrightarrow> dispatched_from s0 y \<Longrightarrow> dispatched_from s0 y'"
  by (induction rule: rtranclp_induct) (auto intro: dispatched_from.step)

text \<open>Two stations report the same window; the second finds it taken.\<close>

definition sample_dispatch_env :: dispatch_env where
  "sample_dispatch_env = \<lparr>reqEnv = request_env.truncate demo_env, sqlOf = (\<lambda>_. sample_env 2000), faultOf = (\<lambda>_. Answered),
     txNow = 2000, uuidText = (\<lambda>_. ''org'')\<rparr>"

definition sample_queue :: dl_store where
  "sample_queue = fold exec_event
     [(sample_env 1000, Answered, S_Enqueue (sample_downlink 4 1) 60000),
      (sample_env 1500, Answered, S_Enqueue (sample_downlink 5 2) 60000)] (newStore [((''m'', 7), False)] [1])"

theorem one_downlink_per_window_witness:
  "\<exists>y. dispatched_from sample_queue y \<and> length (filter (\<lambda>e. snd e = (''m'', 7)) (sentIn y)) \<le> 1 \<and> sentIn y = [(0, ''m'', 7)]"
proof -
  let ?run = "\<lambda>s. DispatchIfAvailable sample_dispatch_env 7 0xA1 ''m'' s demo_journal"
  obtain d1 e1 s1 j1 where r1: "?run sample_queue = ((d1, e1), s1, j1)" by (metis prod.exhaust)
  obtain d2 e2 s2 j2 where r2: "?run s1 = ((d2, e2), s2, j2)" by (metis prod.exhaust)
  have "fst (?run sample_queue) = (True, None)" by code_simp
  then have d1: "d1" using r1 by simp
  have "fst (?run (fst (snd (?run sample_queue)))) = (False, None)" by code_simp
  then have d2: "\<not> d2" "e2 = None" using r1 r2 by simp_all
  have b: "(7::i64) \<noteq> 0" "Bidirectional (live demo_journal)" by (simp_all add: demo_journal_def)
  from dispatch_as_steps [of "idle sample_queue" 0, OF _ b, of sample_dispatch_env "0xA1" "''m''" d1 e1 s1 j1] r1 obtain y1 where
    y1: "dispatch_step\<^sup>*\<^sup>* (idle sample_queue) y1" "queue y1 = s1" "sentIn y1 = [(0, ''m'', 7)]"
    using d1 by (auto simp: idle_def)
  have reach1: "dispatched_from sample_queue y1" using y1(1) start by (rule dispatched_steps)
  obtain n where n: "map_of (dtasks y1) n = None"
    by (metis (no_types) domIff ex_new_if_finite finite_dom_map_of infinite_UNIV_nat)
  from dispatch_as_steps [OF n b, of sample_dispatch_env "0xA1" "''m''" d2 e2 s2 j2] r2 y1 d2 obtain y2 where
    y2: "dispatch_step\<^sup>*\<^sup>* y1 y2" "sentIn y2 = [(0, ''m'', 7)]" by auto
  have "dispatched_from sample_queue y2" using y2(1) reach1 by (rule dispatched_steps)
  then show ?thesis using y2(2) one_downlink_per_window [of sample_queue y2 "(''m'', 7)"] by blast
qed

section \<open>What a dispatch takes\<close>

lemma sort_key_hd_min: "sort_key f xs = y # ys \<Longrightarrow> x \<in> set xs \<Longrightarrow> f y \<le> f x"
  by (metis list.set_intros(1) set_ConsD set_sort sorted_sort_key sorted_simps(2) list.simps(9) imageI list.set_map order_refl)

lemma select_first:
  assumes "select_rows e P key 1 s = r # rs"
  shows "r \<in> set (dl_rows s) \<and> P r \<and> row_id r \<notin> set (locked e)
    \<and> (\<forall>x\<in>set (dl_rows s). P x \<and> row_id x \<notin> set (locked e) \<longrightarrow> key r \<le> key x)"
proof -
  let ?c = "filter (\<lambda>r. P r \<and> row_id r \<notin> set (locked e)) (dl_rows s)"
  from assms obtain zs where z: "sort_key (\<lambda>r. (key r, tie e (row_id r))) ?c = r # zs"
    by (cases "sort_key (\<lambda>r. (key r, tie e (row_id r))) ?c") (auto simp: select_rows_def)
  have "key r \<le> key x" if "x \<in> set ?c" for x
    using sort_key_hd_min [OF z that] by (auto simp: less_eq_prod_def)
  moreover have "r \<in> set (select_rows e P key 1 s)" using assms by simp
  ultimately show ?thesis using select_rows_subset [of r e P key 1 s] by auto
qed

lemma reserved_row_at:
  assumes inv: "store_inv s" and d: "ReserveNextPendingDownlink e tenant eui bs s = (Inr dl, s')"
  obtains r where "r \<in> set (dl_rows s)" "tenant_id r = tenant" "ep_eui r = eui" "dl_status r = DLQueueStatusPending"
    "downlinkNotExpired (now e) r" "MsgQueID dl = que_id r" "MsgID dl = row_id r" "MsgOrganizationID dl = organization_id r"
    "\<forall>x\<in>set (dl_rows s). tenant_id x = tenant \<and> ep_eui x = eui \<and> dl_status x = DLQueueStatusPending
       \<and> downlinkNotExpired (now e) x \<and> row_id x \<notin> set (locked e) \<longrightarrow> window_order r \<le> window_order x"
    "dl_rows s' = map (\<lambda>x. if x = r then reserve_row e bs x else x) (dl_rows s)"
proof -
  let ?P = "\<lambda>r. tenant_id r = tenant \<and> ep_eui r = eui \<and> dl_status r = DLQueueStatusPending \<and> downlinkNotExpired (now e) r"
  from d obtain r rs where sel: "select_rows e ?P window_order 1 s = r # rs"
    by (auto simp: ReserveNextPendingDownlink_def split: list.splits)
  note f = select_first [OF sel]
  have q: "MsgQueID (scanDownlinkQueueRow r) = que_id r" "MsgID (scanDownlinkQueueRow r) = row_id r"
    "MsgOrganizationID (scanDownlinkQueueRow r) = organization_id r"
    by (auto simp: scanDownlinkQueueRow_def applyDownlinkUserData_def zeroMessage_def)
  have e: "(que_id x = que_id r \<and> tenant_id x = tenant \<and> dl_status x = DLQueueStatusPending) \<longleftrightarrow> x = r"
    if "x \<in> set (dl_rows s)" for x
    using that f que_id_unique [OF inv, of x r] by auto
  have "dl_rows s' = map (\<lambda>x. if x = r then reserve_row e bs x else x) (dl_rows s)"
    using d sel q e
    by (auto simp: ReserveNextPendingDownlink_def reserveSelected_def update_rows_def Let_def split: list.splits sum.splits)
  moreover have "dl = (scanDownlinkQueueRow r)\<lparr>MsgStatus := Some DLQueueStatusReserved, BsEui := bs\<rparr>"
    using d sel by (auto simp: ReserveNextPendingDownlink_def Let_def split: sum.splits prod.splits)
  ultimately show ?thesis using f q by (intro that [of r]) auto
qed

lemma sent_on_wire:
  assumes "SendDLDataQueue env req pair j = (None, j')"
  shows "\<exists>i. (i, CmdDLDataQueue) \<in> set (wire j')"
  using assms
  by (auto simp: SendDLDataQueue_def writeDLDataQueue_def send_def Let_def split: option.splits sum.splits prod.splits
      send_outcome.splits if_splits)

lemma mark_row:
  assumes "r \<in> set (dl_rows s)" "bs_eui r = Some bs" "dl_status r \<in> {DLQueueStatusReserved, DLQueueStatusQueued}"
  shows "\<exists>r'\<in>set (dl_rows (taken f (markReservedAsQueued e que t b tx cnt org) s)). same_identity r r' \<and> bs_eui r' = Some bs
           \<and> dl_status r' \<in> {DLQueueStatusReserved, DLQueueStatusQueued}"
proof -
  let ?g = "\<lambda>r. if que_id r = que \<and> tenant_id r = t \<and> dl_status r = DLQueueStatusReserved \<and> bs_eui r = Some b \<and> in_organization org r
     then r\<lparr>dl_status := DLQueueStatusQueued, transmission_time := Some tx, transmission_packet_cnt := map_option ucast cnt,
            tx_time := Some tx, updated_at := now e\<rparr> else r"
  have "dl_rows (snd (markReservedAsQueued e que t b tx cnt org s)) = map ?g (dl_rows s)"
    by (auto simp: markReservedAsQueued_def update_rows_def split: list.splits option.splits)
  then have "?g r \<in> set (dl_rows (snd (markReservedAsQueued e que t b tx cnt org s)))"
    by (simp only: set_map) (rule imageI [OF assms(1)])
  moreover have "same_identity r (?g r) \<and> bs_eui (?g r) = Some bs \<and> dl_status (?g r) \<in> {DLQueueStatusReserved, DLQueueStatusQueued}"
    using assms by (auto simp: same_identity_def)
  moreover have "same_identity r r" by (simp add: same_identity_def)
  ultimately show ?thesis
    using assms by (cases f) (auto simp only: taken_def attempt_def fault.case snd_conv)
qed



section \<open>The release after a failed send\<close>

text \<open>
  C13. When the frame certainly did not go out, the dispatcher returns the row by its row id, whatever
  became of it since the reservation: a downlink that meanwhile expired, was revoked or was handed to
  another station is pending again. Beyond row id 1000000 the id is taken for a queue id: the row of
  the failed dispatch keeps its state, and stays reserved.
\<close>

theorem release_ignores_state:
  assumes r: "r \<in> set (dl_rows s)" "MsgID dl = row_id r" "MsgOrganizationID dl = organization_id r" "0 \<le> row_id r" "row_id r < 2 ^ 63"
    and d: "dispatchReserved env tenant eui dl s j = ((ok, Some (SendError er)), s', j')" "er \<noteq> FrameAmbiguous" "faultOf env 2 = Answered"
  shows "if row_id r \<le> queueIDThreshold
    then \<exists>r'\<in>set (dl_rows s'). row_id r' = row_id r \<and> que_id r' = que_id r \<and> dl_status r' = DLQueueStatusPending
    else que_id r \<noteq> word_of_int (row_id r) \<longrightarrow> r \<in> set (dl_rows s')"
proof -
  let ?k = "word_of_int (row_id r) :: i64"
  have k: "sint ?k = row_id r" using r(4, 5) by (intro sint_word_of_int64) simp_all
  then have p: "ParseInt (show_int (row_id r)) = Some ?k" by (metis ParseInt_show_int)
  let ?g = "\<lambda>x. if names_downlink ?k x \<and> in_organization (organization_id r) x
      then x\<lparr>dl_status := DLQueueStatusPending, updated_at := now (sqlOf env 2), attempts := attempts x + 1\<rparr> else x"
  have "s' = taken (faultOf env 2)
      (UpdateDownlinkStatus (sqlOf env 2) (show_int (MsgID dl)) DLQueueStatusPending (MsgOrganizationID dl)) s"
    using d(1, 2) by (auto simp: dispatchReserved_def settle_reserved_def split: prod.splits journal_error.splits)
  then have "dl_rows s' = map ?g (dl_rows s)"
    using d(3) r(2, 3) by (auto simp: taken_def attempt_def UpdateDownlinkStatus_def p update_rows_def split: list.splits)
  then have m: "?g r \<in> set (dl_rows s')" by (simp only: set_map) (rule imageI [OF r(1)])
  have "in_organization (organization_id r) r" by (simp add: in_organization_def split: option.split)
  then show ?thesis
    using m k by (cases "row_id r \<le> queueIDThreshold") (auto simp: names_downlink_def intro: bexI [OF _ m] split: if_splits)
qed

text \<open>The station is deleted while the frame waits for its connection: the downlink was reported expired.\<close>

definition sample_deleted :: dl_store where
  "sample_deleted = fold exec_event
     [(sample_env 1000, Answered, S_Enqueue (sample_downlink 4 1) 60000), (sample_env 2000, Answered, S_Reserve_Next 7 0xA1 0),
      (sample_env 3000, Answered, S_Remove_Station 0)] (newStore [] [])"

definition sample_refused_env :: dispatch_env where
  "sample_refused_env = sample_dispatch_env\<lparr>reqEnv := (request_env.truncate demo_env)\<lparr>outcomeOf := (\<lambda>_. NotWritten)\<rparr>\<rparr>"

theorem release_ignores_state_witness:
  "map dl_status (dl_rows sample_deleted) = [DLQueueStatusExpired]
   \<and> (\<exists>r\<in>set (dl_rows (fst (snd (dispatchReserved sample_refused_env 7 0xA1
         (scanDownlinkQueueRow (hd (dl_rows sample_deleted))) sample_deleted demo_journal)))).
        que_id r = 4 \<and> dl_status r = DLQueueStatusPending)"
proof -
  let ?r = "hd (dl_rows sample_deleted)"
  let ?run = "dispatchReserved sample_refused_env 7 0xA1 (scanDownlinkQueueRow ?r) sample_deleted demo_journal"
  have a: "map dl_status (dl_rows sample_deleted) = [DLQueueStatusExpired]" by code_simp
  have id: "row_id ?r = 1 \<and> que_id ?r = 4" by code_simp
  have m: "?r \<in> set (dl_rows sample_deleted)" using a by (cases "dl_rows sample_deleted") auto
  obtain ok er s' j' where d: "?run = ((ok, er), s', j')" by (metis prod.exhaust)
  have "fst ?run = (False, Some (SendError FrameNotSent))" by code_simp
  with d have d: "?run = ((False, Some (SendError FrameNotSent)), s', j')" by simp
  have scan: "MsgID (scanDownlinkQueueRow ?r) = row_id ?r" "MsgOrganizationID (scanDownlinkQueueRow ?r) = organization_id ?r"
    by (auto simp: scanDownlinkQueueRow_def applyDownlinkUserData_def)
  have "faultOf sample_refused_env 2 = Answered" by (simp add: sample_refused_env_def sample_dispatch_env_def)
  from release_ignores_state [OF m scan _ _ d _ this] id a d show ?thesis by (auto simp: queueIDThreshold_def)
qed

end
