(* ===== verification/Downlink_Answers.thy ===== *)
theory Downlink_Answers
  imports Downlink_Dispatch
begin

text \<open>
  What the service center does with the answers of base stations about downlinks, and what it tells the
  downlink's originators: the owner of a queue id (\<^verbatim>\<open>internal/services/bssci/tenant_resolver.go\<close>), queue
  acknowledgements and refusals (\<^verbatim>\<open>downlink_queue_answers.go\<close>), results (\<^verbatim>\<open>downlink_service.go\<close>), answers to
  a revoke (\<^verbatim>\<open>downlink_revoke_answers.go\<close>), downlinks a station let go (\<^verbatim>\<open>downlink_reclaimer.go\<close>), the expiry
  sweep (\<^verbatim>\<open>internal/workers/downlinkexpiry/worker.go\<close>) and the reporter (\<^verbatim>\<open>downlink_result_reporter.go\<close>),
  with the frames of \<^verbatim>\<open>queue_serializer.go\<close>.

  The reporter hands a result to the Application Center that queued the downlink and to the MQTT topic
  of its organization. A notice is such a delivery, kept with the row it is about.
\<close>

section \<open>State\<close>

datatype notice =
    ToApplicationCenter i64 "bytes option" u64 u64 DLDataResult
  | ToMQTT bytes string DLDataResult

datatype owner_event =
    DLResultEvent string DLDataResult | QueueExpiryEvent DownlinkMessage | StationExpiryEvent DownlinkMessage
  | SentAfterExpiryEvent string DLDataResult | RequeuedEvent downlink_row u64
  | QueueAckEvent string u64 i64 i64 | QueueRevokedEvent downlink_row | RevokedEvent string u64 i64 i64

record answer_sys =
  adb :: dl_store
  queueTenants :: "(i64 \<times> string) list"
  notices :: "(int \<times> notice) list"
  ownerEvents :: "owner_event list"
  askedToDrop :: "DownlinkMessage list"

text \<open>The statements of one call, numbered in their order.\<close>

record answer_env =
  asql :: "nat \<Rightarrow> sql_env"
  afault :: "nat \<Rightarrow> fault"

definition run_stmt :: "answer_env \<Rightarrow> nat \<Rightarrow> (sql_env \<Rightarrow> dl_store \<Rightarrow> 'a stored) \<Rightarrow> answer_sys \<Rightarrow> (store_error + 'a) \<times> answer_sys" where
  "run_stmt env i op y = (case attempt (afault env i) (op (asql env i)) (adb y) of (r, s) \<Rightarrow> (r, y\<lparr>adb := s\<rparr>))"

type_synonym answer_error = "string \<times> string"

definition file_event :: "owner_event \<Rightarrow> answer_sys \<Rightarrow> answer_sys" where
  "file_event v y = y\<lparr>ownerEvents := ownerEvents y @ [v]\<rparr>"

section \<open>The reporter\<close>

definition ResultWithTransmitter :: "DLDataResult \<Rightarrow> u64 \<Rightarrow> DLDataResult" where
  "ResultWithTransmitter res bs = res\<lparr>resBsEui := (if resResult res = ResultSent then Some bs else None)\<rparr>"

definition deliverToQueuer :: "i64 \<Rightarrow> DownlinkMessage \<Rightarrow> DLDataResult \<Rightarrow> (int \<times> notice) list" where
  "deliverToQueuer tenant d res =
     (case (ACQueID d, ACEUI d) of
        (Some que, Some ac) \<Rightarrow> [(MsgID d, ToApplicationCenter tenant (MsgOrganizationID d) ac que res)]
      | _ \<Rightarrow> [])"

definition publishToOrganization :: "DownlinkMessage \<Rightarrow> DLDataResult \<Rightarrow> (int \<times> notice) list" where
  "publishToOrganization d res =
     (case MsgOrganizationID d of None \<Rightarrow> [] | Some org \<Rightarrow> [(MsgID d, ToMQTT org (MsgRef d) res)])"

definition deliver :: "DownlinkMessage \<Rightarrow> DLDataResult \<Rightarrow> answer_sys \<Rightarrow> answer_sys" where
  "deliver d res y =
     (case ParseInt (TenantID d) of
        None \<Rightarrow> y
      | Some tenant \<Rightarrow> y\<lparr>notices := notices y @ deliverToQueuer tenant d res @ publishToOrganization d res\<rparr>)"

definition ReportStationResult :: "DownlinkMessage \<Rightarrow> DLDataResult \<Rightarrow> u64 \<Rightarrow> answer_sys \<Rightarrow> answer_sys" where
  "ReportStationResult d res bs y =
     (let reported = ResultWithTransmitter res bs
      in file_event (DLResultEvent (TenantID d) reported) (deliver d reported y))"

definition RecordSentAfterExpiry :: "i64 \<Rightarrow> DLDataResult \<Rightarrow> u64 \<Rightarrow> answer_sys \<Rightarrow> answer_sys" where
  "RecordSentAfterExpiry tenant res bs y =
     file_event (SentAfterExpiryEvent (show_int (sint tenant)) (ResultWithTransmitter res bs)) y"

definition expired_result :: "u64 \<Rightarrow> u64 \<Rightarrow> DLDataResult" where
  "expired_result eui que = \<lparr>resOpId = 0, resEpEui = eui, resQueId = que, resResult = ResultExpired, resTxTime = None,
     resPacketCnt = None, resBsEui = None\<rparr>"

definition reportExpired :: "DownlinkMessage \<Rightarrow> owner_event \<Rightarrow> answer_sys \<Rightarrow> answer_sys" where
  "reportExpired d event y =
     (case ParseEUI (EPEUI d) of
        Inl _ \<Rightarrow> y
      | Inr eui \<Rightarrow>
          (case WireQueueID d of
             None \<Rightarrow> y
           | Some que \<Rightarrow> file_event event (deliver d (expired_result eui que) y)))"

definition ReportExpiredInQueue :: "DownlinkMessage \<Rightarrow> answer_sys \<Rightarrow> answer_sys" where
  "ReportExpiredInQueue d y = reportExpired d (QueueExpiryEvent d) y"

definition ReportExpiredAtStation :: "DownlinkMessage \<Rightarrow> answer_sys \<Rightarrow> answer_sys" where
  "ReportExpiredAtStation d y = reportExpired d (StationExpiryEvent d) y"

section \<open>The owner of a queue id\<close>

definition ResolveTenant :: "answer_env \<Rightarrow> nat \<Rightarrow> i64 \<Rightarrow> answer_sys \<Rightarrow> string option \<times> answer_sys" where
  "ResolveTenant env i que y =
     (if sint que \<le> 0 then (None, y)
      else case map_of (queueTenants y) que of
        Some t \<Rightarrow> (Some t, y)
      | None \<Rightarrow>
          (case (if afault env i = Answered then GetTenantIDByQueueID que (adb y) else None) of
             None \<Rightarrow> (None, y)
           | Some t \<Rightarrow>
               (Some (show_int (sint t)), y\<lparr>queueTenants := AList.update que (show_int (sint t)) (queueTenants y)\<rparr>)))"

definition RegisterQueueTenant :: "i64 \<Rightarrow> string \<Rightarrow> answer_sys \<Rightarrow> answer_sys" where
  "RegisterQueueTenant que t y = y\<lparr>queueTenants := AList.update que t (queueTenants y)\<rparr>"

definition UnregisterQueueTenant :: "i64 \<Rightarrow> answer_sys \<Rightarrow> answer_sys" where
  "UnregisterQueueTenant que y = y\<lparr>queueTenants := AList.delete que (queueTenants y)\<rparr>"

section \<open>Frames\<close>

definition envelope :: "string \<Rightarrow> i64 \<Rightarrow> gomap" where
  "envelope command opId = [(''command'', GString command), (''opId'', GInt64 opId)]"

definition BuildDLDataQueueComplete :: "i64 \<Rightarrow> gomap" where
  "BuildDLDataQueueComplete opId = envelope CmdDLDataQueueComplete opId"

definition BuildDLDataResultResponse :: "i64 \<Rightarrow> DLDataResult \<Rightarrow> gomap" where
  "BuildDLDataResultResponse opId _ = envelope CmdDLDataResultResponse opId"

definition BuildDLDataResultComplete :: "i64 \<Rightarrow> gomap" where
  "BuildDLDataResultComplete opId = envelope CmdDLDataResultComplete opId"

definition BuildDLDataRevokeComplete :: "i64 \<Rightarrow> gomap" where
  "BuildDLDataRevokeComplete opId = envelope CmdDLDataRevokeComplete opId"

section \<open>Queue answers\<close>

record QueueAcknowledgement =
  ackQueueID :: i64
  ackOwnerTenant :: string
  ackOrganizationID :: "bytes option"

record QueueRejection =
  rejQueueID :: i64
  rejEndpointEUI :: u64
  rejOwnerTenant :: string
  rejCode :: int
  rejMessage :: string

definition failureReason :: "QueueRejection \<Rightarrow> string" where
  "failureReason rej = ''base station error '' @ show_int (rejCode rej) @ '': '' @ rejMessage rej"

definition queueOwner :: "i64 \<Rightarrow> string \<Rightarrow> (u64 \<times> i64) option" where
  "queueOwner que owner = (if sint que \<le> 0 then None else map_option (\<lambda>t. (que, t)) (ParseInt owner))"

definition ProcessQueueAck :: "answer_env \<Rightarrow> u64 \<Rightarrow> i64 \<Rightarrow> QueueAcknowledgement \<Rightarrow> answer_sys \<Rightarrow> bool \<times> answer_sys" where
  "ProcessQueueAck env bs sentNow ack y =
     (case queueOwner (ackQueueID ack) (ackOwnerTenant ack) of
        None \<Rightarrow> (False, y)
      | Some (que, tenant) \<Rightarrow>
          (case run_stmt env 0 (\<lambda>e. UpdateDownlinkBaseStation e que tenant bs) y of (r1, y1) \<Rightarrow>
             case run_stmt env 1 (\<lambda>e. markReservedAsQueued e que tenant bs sentNow None (ackOrganizationID ack)) y1 of (r2, y2) \<Rightarrow>
               (is_ok r1 \<and> is_ok r2, y2)))"

definition ProcessQueueError :: "answer_env \<Rightarrow> u64 \<Rightarrow> QueueRejection \<Rightarrow> answer_sys \<Rightarrow> bool \<times> answer_sys" where
  "ProcessQueueError env bs rej y =
     (case queueOwner (rejQueueID rej) (rejOwnerTenant rej) of
        None \<Rightarrow> (False, y)
      | Some (que, tenant) \<Rightarrow>
          (case run_stmt env 0 (\<lambda>e. FailQueuedDownlink e (rejQueueID rej) tenant bs (failureReason rej)) y of
             (Inl _, y1) \<Rightarrow> (False, y1)
           | (Inr d, y1) \<Rightarrow>
               (True, ReportStationResult d
                  \<lparr>resOpId = 0, resEpEui = rejEndpointEUI rej, resQueId = que, resResult = ResultInvalid, resTxTime = None,
                   resPacketCnt = None, resBsEui = None\<rparr> bs (UnregisterQueueTenant (rejQueueID rej) y1))))"

section \<open>Results\<close>

definition parseOwner :: "string \<Rightarrow> answer_error + i64" where
  "parseOwner owner = (case ParseInt owner of None \<Rightarrow> Inl (''invalid_tenant_id_format'', ''EINVAL'') | Some t \<Rightarrow> Inr t)"

definition resultOwner :: "answer_env \<Rightarrow> DLDataResult \<Rightarrow> answer_sys \<Rightarrow> (answer_error + i64 \<times> i64) \<times> answer_sys" where
  "resultOwner env res y =
     (if sint (resQueId res) < 0 then (Inl (''queue_id_out_of_range'', ''ERANGE''), y)
      else case ResolveTenant env 0 (resQueId res) y of
        (None, y1) \<Rightarrow> (Inl (''cannot_resolve_tenant_for_queue'', ''EPROTO''), y1)
      | (Some owner, y1) \<Rightarrow>
          (case parseOwner owner of Inl er \<Rightarrow> (Inl er, y1) | Inr t \<Rightarrow> (Inr (resQueId res, t), y1)))"

definition resultWriteFailure :: "store_error \<Rightarrow> answer_error" where
  "resultWriteFailure er =
     (if er = ErrDownlinkNotFound then (''queue_id_not_found'', ''EPROTO'') else (''database_update_failed'', ''EIO''))"

definition ProcessDLDataResult :: "answer_env \<Rightarrow> u64 \<Rightarrow> DLDataResult \<Rightarrow> answer_sys \<Rightarrow> (answer_error + gomap) \<times> answer_sys" where
  "ProcessDLDataResult env bs res y =
     (case resultOwner env res y of
        (Inl er, y1) \<Rightarrow> (Inl er, y1)
      | (Inr (que, tenant), y1) \<Rightarrow>
          (let answer = \<lambda>z. (Inr (BuildDLDataResultResponse (resOpId res) res), UnregisterQueueTenant que z)
           in case run_stmt env 1 (\<lambda>e. UpdateDownlinkResult e tenant bs res) y1 of
                (Inl ErrDownlinkSentAfterExpiry, y2) \<Rightarrow> answer (RecordSentAfterExpiry tenant res bs y2)
              | (Inl ErrDownlinkFinished, y2) \<Rightarrow> answer y2
              | (Inl er, y2) \<Rightarrow> (Inl (resultWriteFailure er), y2)
              | (Inr d, y2) \<Rightarrow> answer (ReportStationResult d res bs y2)))"

section \<open>Answers to a revoke\<close>

definition revoke_owner :: "answer_env \<Rightarrow> i64 \<Rightarrow> answer_sys \<Rightarrow> (answer_error + i64) \<times> answer_sys" where
  "revoke_owner env que y =
     (case ResolveTenant env 0 que y of
        (None, y1) \<Rightarrow> (Inl (''cannot_resolve_tenant_for_queue'', ''EIO''), y1)
      | (Some owner, y1) \<Rightarrow> (parseOwner owner, y1))"

definition revoke_answered :: "answer_env \<Rightarrow> u64 \<Rightarrow> i64 \<Rightarrow> answer_sys \<Rightarrow> (answer_error + bool) \<times> answer_sys" where
  "revoke_answered env bs que y =
     (case revoke_owner env que y of
        (Inl er, y1) \<Rightarrow> (Inl er, y1)
      | (Inr tenant, y1) \<Rightarrow>
          (let y2 = UnregisterQueueTenant que y1;
               v = \<lparr>revQueID = que, revTenantID = tenant, revOrganizationID = None, revEpEUI = None, Station = Some bs\<rparr>
           in case run_stmt env 1 (\<lambda>e. ExpireRevokedDownlink e v) y2 of
                (Inl _, y3) \<Rightarrow> (Inl (''database_update_failed'', ''EIO''), y3)
              | (Inr (Some d), y3) \<Rightarrow> (Inr False, ReportExpiredAtStation d y3)
              | (Inr None, y3) \<Rightarrow>
                  (case run_stmt env 2 (\<lambda>e. RevokeDownlink e v) y3 of
                     (Inl _, y4) \<Rightarrow> (Inl (''database_update_failed'', ''EIO''), y4)
                   | (Inr revoked, y4) \<Rightarrow> (Inr revoked, y4))))"

definition ProcessRevokeResponse ::
    "answer_env \<Rightarrow> u64 \<Rightarrow> i64 \<Rightarrow> i64 \<Rightarrow> answer_sys \<Rightarrow> (answer_error + gomap \<times> bool) \<times> answer_sys" where
  "ProcessRevokeResponse env bs opId que y =
     (if sint que \<le> 0 then (Inl (''invalid_queue_id'', ''EINVAL''), y)
      else case revoke_answered env bs que y of
             (Inl er, y1) \<Rightarrow> (Inl er, y1)
           | (Inr revoked, y1) \<Rightarrow> (Inr (BuildDLDataRevokeComplete opId, revoked), y1))"

definition ProcessRevokeRefusal ::
    "answer_env \<Rightarrow> int list \<Rightarrow> u64 \<Rightarrow> i64 \<Rightarrow> int \<Rightarrow> answer_sys \<Rightarrow> (answer_error + bool) \<times> answer_sys" where
  "ProcessRevokeRefusal env notHeldCodes bs que code y =
     (if code \<notin> set notHeldCodes then (Inr False, y) else revoke_answered env bs que y)"

section \<open>Downlinks a station let go\<close>

definition requeued :: "u64 \<Rightarrow> downlink_row list \<Rightarrow> answer_sys \<Rightarrow> answer_sys" where
  "requeued bs rs y = fold (\<lambda>r. file_event (RequeuedEvent r bs)) rs y"

definition endedAtStation :: "DownlinkMessage list \<Rightarrow> answer_sys \<Rightarrow> answer_sys" where
  "endedAtStation ds y = fold (\<lambda>d z. ReportExpiredAtStation d (UnregisterQueueTenant (MsgQueID d) z)) ds y"

definition ReclaimReservations :: "answer_env \<Rightarrow> u64 \<Rightarrow> i64 list \<Rightarrow> answer_sys \<Rightarrow> nat option \<times> answer_sys" where
  "ReclaimReservations env bs keep y =
     (case run_stmt env 0 (\<lambda>e. ReleaseStationReservations e bs keep) y of
        (Inl _, y1) \<Rightarrow> (None, y1)
      | (Inr rs, y1) \<Rightarrow> (Some (length rs), requeued bs rs y1))"

text \<open>The number of downlinks returned to pending, and whether both statements were answered.\<close>

definition ReclaimDiscardedQueue :: "answer_env \<Rightarrow> u64 \<Rightarrow> answer_sys \<Rightarrow> (nat \<times> bool) \<times> answer_sys" where
  "ReclaimDiscardedQueue env bs y =
     (case run_stmt env 1 (\<lambda>e. ReleaseStationQueue e bs) y of
        (Inl _, y1) \<Rightarrow> ((0, False), y1)
      | (Inr rs, y1) \<Rightarrow>
          (case run_stmt env 2 (\<lambda>e. ExpireStationRevocations e bs) (requeued bs rs y1) of
             (Inl _, y2) \<Rightarrow> ((length rs, False), y2)
           | (Inr ds, y2) \<Rightarrow> ((length rs, True), endedAtStation ds y2)))"

definition reclaimStationReservations :: "answer_env \<Rightarrow> u64 \<Rightarrow> bool \<Rightarrow> i64 list \<Rightarrow> answer_sys \<Rightarrow> answer_sys" where
  "reclaimStationReservations env bs resumed keep y =
     (let y1 = snd (ReclaimReservations env bs keep y)
      in if resumed then y1 else snd (ReclaimDiscardedQueue env bs y1))"

definition EndDeletedStationDownlinks :: "answer_env \<Rightarrow> u64 \<Rightarrow> answer_sys \<Rightarrow> answer_sys" where
  "EndDeletedStationDownlinks env bs y =
     (case run_stmt env 0 (\<lambda>e. ExpireRemovedStationDownlinks e bs) y of
        (Inl _, y1) \<Rightarrow> y1
      | (Inr ds, y1) \<Rightarrow> endedAtStation ds y1)"

definition ReclaimEndpointQueue :: "answer_env \<Rightarrow> i64 \<Rightarrow> u64 \<Rightarrow> u64 \<Rightarrow> i64 \<Rightarrow> answer_sys \<Rightarrow> nat option \<times> answer_sys" where
  "ReclaimEndpointQueue env tenant eui bs propagatedAt y =
     (case run_stmt env 0 (\<lambda>e. ReleaseEndpointAtStation e tenant eui bs propagatedAt) y of
        (Inl _, y1) \<Rightarrow> (None, y1)
      | (Inr rs, y1) \<Rightarrow> (Some (length rs), requeued bs rs y1))"

section \<open>The expiry sweep\<close>

definition report_expired :: "DownlinkMessage \<Rightarrow> answer_sys \<Rightarrow> answer_sys" where
  "report_expired d y = ReportExpiredInQueue d (UnregisterQueueTenant (MsgQueID d) y)"

definition reportAtStation :: "DownlinkMessage \<Rightarrow> answer_sys \<Rightarrow> answer_sys" where
  "reportAtStation d y = ReportExpiredAtStation d (UnregisterQueueTenant (MsgQueID d) y)"

text \<open>
  The loop of \<^verbatim>\<open>sweep\<close>: batches until one is not full. \<open>move\<close> is the statement of the batch \<open>i\<close>; the
  first argument bounds the number of batches, \<open>None\<close> when they do not suffice.
\<close>

fun sweep :: "nat \<Rightarrow> (nat \<Rightarrow> answer_sys \<Rightarrow> (store_error + DownlinkMessage list) \<times> answer_sys) \<Rightarrow> int \<Rightarrow>
    (DownlinkMessage \<Rightarrow> answer_sys \<Rightarrow> answer_sys) \<Rightarrow> nat \<Rightarrow> answer_sys \<Rightarrow> answer_sys option" where
  "sweep 0 move batch handle i y = None"
| "sweep (Suc n) move batch handle i y =
     (case move i y of
        (Inl _, y1) \<Rightarrow> Some y1
      | (Inr ds, y1) \<Rightarrow>
          (let y2 = fold handle ds y1
           in if int (length ds) < batch then Some y2 else sweep n move batch handle (Suc i) y2))"

definition expireOverdue :: "answer_env \<Rightarrow> int \<Rightarrow> nat \<Rightarrow> answer_sys \<Rightarrow> (store_error + DownlinkMessage list) \<times> answer_sys" where
  "expireOverdue env batch i y = run_stmt env i (\<lambda>e. ExpireOverdueUnheld e batch) y"

definition expireOrphans :: "answer_env \<Rightarrow> int \<Rightarrow> nat \<Rightarrow> answer_sys \<Rightarrow> (store_error + DownlinkMessage list) \<times> answer_sys" where
  "expireOrphans env batch i y = run_stmt env i (\<lambda>e. ExpireHeldAtRemovedStations e batch) y"

definition overdueHeld :: "answer_env \<Rightarrow> int \<Rightarrow> int \<Rightarrow> nat \<Rightarrow> answer_sys \<Rightarrow> (store_error + DownlinkMessage list) \<times> answer_sys" where
  "overdueHeld env startedAt batch i y = run_stmt env i (\<lambda>e. RevokeOverdueHeld e startedAt batch) y"

definition unansweredRevocations ::
    "answer_env \<Rightarrow> (nat \<Rightarrow> u64 list) \<Rightarrow> int \<Rightarrow> int \<Rightarrow> int \<Rightarrow> nat \<Rightarrow> answer_sys \<Rightarrow> (store_error + DownlinkMessage list) \<times> answer_sys" where
  "unansweredRevocations env ConnectedStations startedAt interval batch i y =
     (if ConnectedStations i = [] then (Inr [], y)
      else run_stmt env i (\<lambda>e. ClaimUnansweredRevocations e (ConnectedStations i) startedAt interval batch) y)"

text \<open>Asking the holder (\<^verbatim>\<open>RevokeHeldDownlink\<close>) sends on its session and leaves the database alone; the call is kept.\<close>

definition revoke :: "DownlinkMessage \<Rightarrow> answer_sys \<Rightarrow> answer_sys" where
  "revoke d y = y\<lparr>askedToDrop := askedToDrop y @ [d]\<rparr>"

text \<open>The four loops of one sweep; each has its own statements.\<close>

definition SweepOnce ::
    "nat \<Rightarrow> (nat \<Rightarrow> answer_env) \<Rightarrow> (nat \<Rightarrow> u64 list) \<Rightarrow> int \<Rightarrow> int \<Rightarrow> int \<Rightarrow> answer_sys \<Rightarrow> answer_sys option" where
  "SweepOnce n envs ConnectedStations startedAt interval batch y =
     Option.bind (sweep n (expireOverdue (envs 0) batch) batch report_expired 0 y) (\<lambda>y1.
     Option.bind (sweep n (expireOrphans (envs 1) batch) batch reportAtStation 0 y1) (\<lambda>y2.
     Option.bind (sweep n (overdueHeld (envs 2) startedAt batch) batch revoke 0 y2) (\<lambda>y3.
     sweep n (unansweredRevocations (envs 3) ConnectedStations startedAt interval batch) batch revoke 0 y3)))"

text \<open>\<^verbatim>\<open>scheduledStart\<close>: the tick rounded to whole intervals from the start, halves away from zero (\<^verbatim>\<open>Duration.Round\<close>).\<close>

definition round_duration :: "int \<Rightarrow> int \<Rightarrow> int" where
  "round_duration d m =
     (if m \<le> 0 then d
      else let r = \<bar>d\<bar> mod m; a = (if r + r < m then \<bar>d\<bar> - r else \<bar>d\<bar> + (m - r))
           in if d < 0 then - a else a)"

definition scheduledStart :: "int \<Rightarrow> int \<Rightarrow> int \<Rightarrow> int" where
  "scheduledStart interval started tick = started + round_duration (tick - started) interval"

text \<open>The endpoint of a row reads back from the text its message carries.\<close>

lemma ParseEUI_scanned [simp]: "ParseEUI (FormatEUIBytes (EUI64Bytes eui)) = Inr eui"
  using parse_display [of eui] by (simp add: FormatEUIBytes_def EUI64Bytes_be_uint64 upper_lower lower_hex)

end
