(* ===== verification/Downlink_Reports.thy ===== *)
theory Downlink_Reports
  imports Downlink_Answers
begin

text \<open>
  What the originators of downlinks learn, over every sequence of the handlers of \<open>Downlink_Answers\<close> and
  of the queue's other statements.

  Shown: an Application Center and an MQTT topic hear of one downlink at most once, and what they hear is
  the state the row ended in. That the loops of the expiry sweep end is in \<open>Downlink_Sweep\<close>.
\<close>

section \<open>What may be told\<close>

datatype outlet = ApplicationCenter | MQTT

fun outlet_of :: "notice \<Rightarrow> outlet" where
  "outlet_of (ToApplicationCenter _ _ _ _ _) = ApplicationCenter"
| "outlet_of (ToMQTT _ _ _) = MQTT"

text \<open>The notice is addressed to the originator of the row and names the outcome the row has.\<close>

definition names_outcome :: "downlink_row \<Rightarrow> DLDataResult \<Rightarrow> bool" where
  "names_outcome r res \<longleftrightarrow>
     QueueStatusForResult (resResult res) = Some (dl_status r) \<and> dl_status r \<noteq> DLQueueStatusRevoked \<and> resQueId res = que_id r"

fun fits :: "downlink_row \<Rightarrow> notice \<Rightarrow> bool" where
  "fits r (ToApplicationCenter t org ac que res) \<longleftrightarrow>
     t = tenant_id r \<and> org = organization_id r \<and> ac_eui r = Some ac \<and> ac_que_id r = Some que \<and> names_outcome r res"
| "fits r (ToMQTT org ref res) \<longleftrightarrow>
     organization_id r = Some org \<and> ref = (case cmd_ref r of None \<Rightarrow> [] | Some t \<Rightarrow> t) \<and> names_outcome r res"

definition told :: "dl_store \<Rightarrow> (int \<times> notice) list \<Rightarrow> bool" where
  "told s ns \<longleftrightarrow> store_inv s \<and> distinct (map (map_prod id outlet_of) ns)
     \<and> (\<forall>(i, n)\<in>set ns. \<exists>r\<in>set (dl_rows s). row_id r = i \<and> fits r n)"

definition speaks_of :: "DownlinkMessage \<Rightarrow> downlink_row \<Rightarrow> bool" where
  "speaks_of d r \<longleftrightarrow> MsgID d = row_id r \<and> MsgQueID d = que_id r \<and> ACQueID d = ac_que_id r \<and> ACEUI d = ac_eui r
     \<and> EPEUI d = FormatEUIBytes (EUI64Bytes (ep_eui r)) \<and> TenantID d = show_int (sint (tenant_id r))
     \<and> MsgOrganizationID d = organization_id r \<and> MsgRef d = (case cmd_ref r of None \<Rightarrow> [] | Some t \<Rightarrow> t)"

lemma speaks_of_scan [simp]:
  "speaks_of (scanDownlinkOutcome r) r"
  "speaks_of (m\<lparr>BsEui := b\<rparr>) r = speaks_of m r"
  "speaks_of (expiredOutcome m) r = speaks_of m r"
  "speaks_of (revokingOutcome m) r = speaks_of m r"
  by (simp_all add: speaks_of_def scanDownlinkOutcome_def expiredOutcome_def revokingOutcome_def zeroMessage_def)

lemma outcome_terminal: "names_outcome r res \<Longrightarrow> Terminal (dl_status r)"
  by (auto simp: names_outcome_def QueueStatusForResult_def resultQueueStatuses_def split: if_splits)

lemma names_outcome_moves: "names_outcome r res \<Longrightarrow> moves r r' \<Longrightarrow> names_outcome r' res"
  using outcome_terminal [of r res] by (simp add: names_outcome_def moves_def same_outcome_def same_identity_def)

lemma fits_terminal: "fits r n \<Longrightarrow> Terminal (dl_status r)"
  by (cases n) (auto dest: outcome_terminal)

lemma fits_moves: "fits r n \<Longrightarrow> moves r r' \<Longrightarrow> fits r' n"
  by (cases n) (auto intro: names_outcome_moves simp: moves_def same_identity_def)

lemma moves_id: "moves r r' \<Longrightarrow> row_id r' = row_id r"
  by (simp add: moves_def same_identity_def)

lemma told_carried:
  assumes "told s ns" "store_inv s'" "carried s s'"
  shows "told s' ns"
proof -
  have "\<exists>q\<in>set (dl_rows s'). row_id q = i \<and> fits q n" if "(i, n) \<in> set ns" for i n
  proof -
    from assms(1) that obtain r where r: "r \<in> set (dl_rows s)" "row_id r = i" "fits r n" by (auto simp: told_def)
    with assms(3) obtain q where "q \<in> set (dl_rows s')" "moves r q" by (auto simp: carried_def)
    with r show ?thesis by (metis fits_moves moves_id)
  qed
  then show ?thesis using assms by (auto simp: told_def)
qed

lemma told_inv: "told s ns \<Longrightarrow> store_inv s"
  by (simp add: told_def)

lemma told_carries: "told s ns \<Longrightarrow> carries s s' \<Longrightarrow> told s' ns"
  by (auto intro: told_carried carries_carried carries_inv dest: told_inv)

section \<open>Ending downlinks\<close>

text \<open>The statement moved exactly these rows, all of them in flight, to the final state \<open>st\<close>.\<close>

definition ending :: "dl_store \<Rightarrow> DLQueueStatus \<Rightarrow> downlink_row list \<Rightarrow> dl_store \<Rightarrow> bool" where
  "ending s st rs s' \<longleftrightarrow> carries s s' \<and> distinct (map row_id rs)
     \<and> (\<forall>r\<in>set rs. r \<in> set (dl_rows s') \<and> dl_status r = st
          \<and> (\<exists>r0\<in>set (dl_rows s). row_id r0 = row_id r \<and> in_flight (dl_status r0)))"

lemma update_ending:
  assumes u: "update_rows P f s = (rs, s')" and inv: "store_inv s"
    and m: "\<And>r. r \<in> set (dl_rows s) \<Longrightarrow> row_ok r \<Longrightarrow> P r \<Longrightarrow> moves r (f r) \<and> in_flight (dl_status r) \<and> dl_status (f r) = st"
  shows "ending s st rs s'"
proof -
  have "carries s s'" using u inv by (rule carries_update) (use m in blast)
  moreover have k: "row_id (f r) = row_id r" if "r \<in> set (dl_rows s)" "P r" for r
    using m [of r] that store_rows_ok [OF inv] by (simp add: moves_def same_identity_def)
  then have "map row_id rs = map row_id (filter P (dl_rows s))"
    using u by (auto simp: update_rows_def)
  then have "distinct (map row_id rs)" using row_ids_distinct [OF inv] by (simp add: distinct_map_filter)
  moreover have "\<forall>r\<in>set rs. r \<in> set (dl_rows s') \<and> dl_status r = st
      \<and> (\<exists>r0\<in>set (dl_rows s). row_id r0 = row_id r \<and> in_flight (dl_status r0))"
  proof
    fix q assume "q \<in> set rs"
    then obtain r where r: "r \<in> set (dl_rows s)" "P r" "q = f r" using u by (auto simp: update_rows_def)
    then have "q \<in> set (dl_rows s')" using u by (auto simp: update_rows_def)
    with r m [OF r(1) store_rows_ok [OF inv r(1)] r(2)] k [OF r(1, 2)] show "q \<in> set (dl_rows s') \<and> dl_status q = st
        \<and> (\<exists>r0\<in>set (dl_rows s). row_id r0 = row_id q \<and> in_flight (dl_status r0))" by auto
  qed
  ultimately show ?thesis by (simp add: ending_def)
qed

text \<open>Of a downlink that was in flight nobody has heard.\<close>

definition unheard :: "int \<Rightarrow> (int \<times> notice) list \<Rightarrow> bool" where
  "unheard i ns \<longleftrightarrow> i \<notin> fst ` set ns"

lemma ending_unheard:
  assumes t: "told s ns" and e: "ending s st rs s'" and r: "r \<in> set rs"
  shows "unheard (row_id r) ns"
proof (rule ccontr)
  assume "\<not> unheard (row_id r) ns"
  then obtain n where "(row_id r, n) \<in> set ns" by (auto simp: unheard_def)
  with t obtain q where q: "q \<in> set (dl_rows s)" "row_id q = row_id r" "fits q n" by (auto simp: told_def)
  from e r obtain r0 where "r0 \<in> set (dl_rows s)" "row_id r0 = row_id r" "in_flight (dl_status r0)"
    by (auto simp: ending_def)
  with q row_id_unique [OF told_inv [OF t], of q r0] fits_terminal [OF q(3)] show False
    by (simp add: in_flight_Terminal)
qed

lemma deliver_told:
  assumes t: "told (adb y) (notices y)" and r: "r \<in> set (dl_rows (adb y))" and d: "speaks_of d r"
    and res: "names_outcome r res" and u: "unheard (row_id r) (notices y)"
  shows "told (adb (deliver d res y)) (notices (deliver d res y))
    \<and> (\<forall>i. unheard i (notices y) \<and> i \<noteq> row_id r \<longrightarrow> unheard i (notices (deliver d res y)))"
proof -
  let ?new = "deliverToQueuer (tenant_id r) d res @ publishToOrganization d res"
  have n: "notices (deliver d res y) = notices y @ ?new" "adb (deliver d res y) = adb y"
    using d by (simp_all add: deliver_def speaks_of_def)
  have ids: "fst x = row_id r \<and> fits r (snd x)" if "x \<in> set ?new" for x
    using that d res by (auto simp: deliverToQueuer_def publishToOrganization_def speaks_of_def split: option.splits)
  have "distinct (map (map_prod id outlet_of) ?new)"
    by (auto simp: deliverToQueuer_def publishToOrganization_def split: option.splits)
  moreover have "fst x \<noteq> fst z" if "x \<in> set (notices y)" "z \<in> set ?new" for x z
    using that(1) u ids [OF that(2)] by (metis imageI unheard_def)
  ultimately have "distinct (map (map_prod id outlet_of) (notices y @ ?new))"
    using t by (fastforce simp: told_def)
  moreover have "\<forall>(i, m)\<in>set (notices y) \<union> set ?new. \<exists>q\<in>set (dl_rows (adb y)). row_id q = i \<and> fits q m"
    using ids r t by (fastforce simp: told_def)
  ultimately have "told (adb y) (notices y @ ?new)" using t unfolding told_def set_append by blast
  then show ?thesis using n ids by (auto simp: unheard_def)
qed


text \<open>Telling of a whole batch: each of its rows is told of on its own.\<close>

definition tells :: "(DownlinkMessage \<Rightarrow> answer_sys \<Rightarrow> answer_sys) \<Rightarrow> DLQueueStatus \<Rightarrow> bool" where
  "tells report st \<longleftrightarrow>
     (\<forall>d r y. told (adb y) (notices y) \<and> r \<in> set (dl_rows (adb y)) \<and> dl_status r = st \<and> speaks_of d r
        \<and> unheard (row_id r) (notices y) \<longrightarrow>
          adb (report d y) = adb y \<and> told (adb y) (notices (report d y))
          \<and> (\<forall>i. unheard i (notices y) \<and> i \<noteq> row_id r \<longrightarrow> unheard i (notices (report d y))))"

lemma told_batch:
  assumes "tells report st" "list_all2 speaks_of ds rs" "distinct (map row_id rs)" "told (adb y) (notices y)"
    and "\<And>r. r \<in> set rs \<Longrightarrow> r \<in> set (dl_rows (adb y)) \<and> dl_status r = st \<and> unheard (row_id r) (notices y)"
  shows "adb (fold report ds y) = adb y \<and> told (adb y) (notices (fold report ds y))"
  using assms(2-)
proof (induction arbitrary: y rule: list_all2_induct)
  case (Cons d ds r rs)
  then have "adb (report d y) = adb y \<and> told (adb y) (notices (report d y))
      \<and> (\<forall>i. unheard i (notices y) \<and> i \<noteq> row_id r \<longrightarrow> unheard i (notices (report d y)))"
    using assms(1) unfolding tells_def by (metis list.set_intros(1))
  moreover from this Cons.prems have
    "\<And>q. q \<in> set rs \<Longrightarrow> q \<in> set (dl_rows (adb (report d y))) \<and> dl_status q = st \<and> unheard (row_id q) (notices (report d y))"
    by (metis distinct.simps(2) image_eqI list.set_intros(2) list.set_map list.simps(9))
  ultimately show ?case using Cons.IH [of "report d y"] Cons.prems by simp
qed simp

lemma told_ending:
  assumes "told (adb y) (notices y)" "ending (adb y) st rs s'" "list_all2 speaks_of ds rs" "tells report st"
    and "adb z = s'" "notices z = notices y"
  shows "told (adb (fold report ds z)) (notices (fold report ds z))"
proof -
  have "told (adb z) (notices z)" using assms by (auto simp: ending_def intro: told_carries)
  moreover have "r \<in> set (dl_rows (adb z)) \<and> dl_status r = st \<and> unheard (row_id r) (notices z)" if "r \<in> set rs" for r
    using that assms ending_unheard [OF assms(1, 2) that] by (auto simp: ending_def)
  ultimately have "adb (fold report ds z) = adb z \<and> told (adb z) (notices (fold report ds z))"
    using assms told_batch [of report st ds rs z] by (auto simp: ending_def)
  then show ?thesis by simp
qed

section \<open>The reporter tells of ended rows\<close>

lemma reported_expired:
  assumes "speaks_of d r" "row_ok r"
  shows "reportExpired d event y = file_event event (deliver d (expired_result (ep_eui r) (que_id r)) y)"
  using assms by (simp add: reportExpired_def speaks_of_def WireQueueID_def row_ok_def)

lemma file_event_keeps [simp]: "adb (file_event v y) = adb y" "notices (file_event v y) = notices y"
  by (simp_all add: file_event_def)

lemma unregister_keeps [simp]:
  "adb (UnregisterQueueTenant que y) = adb y" "notices (UnregisterQueueTenant que y) = notices y"
  by (simp_all add: UnregisterQueueTenant_def)

lemma deliver_keeps [simp]: "adb (deliver d res y) = adb y"
  by (simp add: deliver_def split: option.split)

lemma tells_cong:
  assumes "tells report st" "\<And>d y. adb (report' d y) = adb (report d (f d y)) \<and> notices (report' d y) = notices (report d (f d y))"
    "\<And>d y. adb (f d y) = adb y \<and> notices (f d y) = notices y"
  shows "tells report' st"
  using assms unfolding tells_def by (smt (verit))

lemma tells_expired: "tells (\<lambda>d. reportExpired d (ev d)) DLQueueStatusExpired"
  unfolding tells_def
proof (intro allI impI, elim conjE)
  fix d :: DownlinkMessage and r :: downlink_row and y :: answer_sys
  assume a: "told (adb y) (notices y)" "r \<in> set (dl_rows (adb y))" "dl_status r = DLQueueStatusExpired" "speaks_of d r"
    "unheard (row_id r) (notices y)"
  have "names_outcome r (expired_result (ep_eui r) (que_id r))"
    using a(3) by (simp add: names_outcome_def expired_result_def)
  note t = deliver_told [OF a(1, 2, 4) this a(5)]
  show "adb (reportExpired d (ev d) y) = adb y \<and> told (adb y) (notices (reportExpired d (ev d) y))
      \<and> (\<forall>i. unheard i (notices y) \<and> i \<noteq> row_id r \<longrightarrow> unheard i (notices (reportExpired d (ev d) y)))"
    using t reported_expired [OF a(4) store_rows_ok [OF told_inv [OF a(1)] a(2)], of "ev d" y] by simp
qed

lemma tells_expiries:
  "tells report_expired DLQueueStatusExpired"
  "tells ReportExpiredAtStation DLQueueStatusExpired"
  "tells reportAtStation DLQueueStatusExpired"
  "tells (\<lambda>d z. ReportExpiredAtStation d (UnregisterQueueTenant (MsgQueID d) z)) DLQueueStatusExpired"
proof -
  note q = tells_expired [of QueueExpiryEvent] and st = tells_expired [of StationExpiryEvent]
  show "tells report_expired DLQueueStatusExpired"
    by (rule tells_cong [OF q, where f = "\<lambda>d. UnregisterQueueTenant (MsgQueID d)"])
      (simp_all add: report_expired_def ReportExpiredInQueue_def)
  show "tells ReportExpiredAtStation DLQueueStatusExpired"
    by (rule tells_cong [OF st, where f = "\<lambda>_ y. y"]) (simp_all add: ReportExpiredAtStation_def)
  then show "tells reportAtStation DLQueueStatusExpired"
    "tells (\<lambda>d z. ReportExpiredAtStation d (UnregisterQueueTenant (MsgQueID d) z)) DLQueueStatusExpired"
    by (rule tells_cong [where f = "\<lambda>d. UnregisterQueueTenant (MsgQueID d)"]; simp add: reportAtStation_def)+
qed


section \<open>The statements that end downlinks\<close>

text \<open>The answer of such a statement speaks of the rows it ended.\<close>

definition ends_with :: "DLQueueStatus \<Rightarrow> dl_store \<Rightarrow> DownlinkMessage list \<Rightarrow> dl_store \<Rightarrow> bool" where
  "ends_with st s ds s' \<longleftrightarrow> (\<exists>rs. ending s st rs s' \<and> list_all2 speaks_of ds rs)"

lemma ends_withI: "ending s st rs s' \<Longrightarrow> list_all2 speaks_of ds rs \<Longrightarrow> ends_with st s ds s'"
  by (auto simp: ends_with_def)

lemma speaks_of_marked:
  assumes "\<And>m r. speaks_of (mark m) r = speaks_of m r"
  shows "list_all2 speaks_of (scanHeldOutcomes bs mark rs) rs" "list_all2 speaks_of (scanOutcomesWithHolder mark rs) rs"
  by (simp_all add: scanHeldOutcomes_def scanOutcomesWithHolder_def list_all2_map1 list_all2_same assms)

lemma speaks_of_expired_queue [simp]: "speaks_of (expiredInQueue m) r = speaks_of m r"
  by (simp add: expiredInQueue_def)

lemma expire_update_ending:
  assumes "update_rows P (expire_row e) s = (rs, s')" "store_inv s" "\<And>r. P r \<Longrightarrow> in_flight (dl_status r)"
  shows "ending s DLQueueStatusExpired rs s'"
  using assms(1, 2)
proof (rule update_ending)
  fix r assume "row_ok r" "P r"
  then show "moves r (expire_row e r) \<and> in_flight (dl_status r) \<and> dl_status (expire_row e r) = DLQueueStatusExpired"
    using assms(3) expire_row_moves by (simp add: expire_row_def)
qed

lemma single_row:
  assumes "update_rows P f s = (r # rs, s')" "store_inv s" "\<And>a b. P a \<Longrightarrow> P b \<Longrightarrow> que_id a = que_id b"
  shows "rs = []"
proof (rule ccontr)
  assume "rs \<noteq> []"
  then obtain a b qs where f: "filter P (dl_rows s) = a # b # qs"
    using assms(1) by (cases rs) (auto simp: update_rows_def map_eq_Cons_conv)
  then have "a \<in> set (dl_rows s) \<and> P a" "b \<in> set (dl_rows s) \<and> P b"
    by (metis filter_is_subset list.set_intros subsetD mem_Collect_eq set_filter)+
  then have "a = b" using que_id_unique [OF assms(2)] assms(3) by blast
  moreover have "distinct (filter P (dl_rows s))" using row_ids_distinct [OF assms(2)] by (simp add: distinct_map)
  ultimately show False using f by simp
qed

lemma update_member:
  "update_rows P f s = (rs, s') \<Longrightarrow> r \<in> set rs \<Longrightarrow> \<exists>r0\<in>set (dl_rows s). P r0 \<and> r = f r0"
  by (auto simp: update_rows_def)

lemma record_result_que [simp]: "que_id (record_result e res r) = que_id r"
  by (simp add: record_result_def split: prod.split)

lemma fail_row_moves:
  "row_ok r \<Longrightarrow> dl_status r \<in> set heldStatuses \<Longrightarrow>
     moves r (r\<lparr>dl_status := DLQueueStatusFailed, failure_reason := x, updated_at := t\<rparr>)"
  by (cases "dl_status r") (simp_all add: move_defs)

lemma fail_ends:
  assumes "FailQueuedDownlink e que t bs reason s = (Inr d, s')" "store_inv s"
  shows "ends_with DLQueueStatusFailed s [d] s' \<and> MsgQueID d = que"
proof -
  let ?P = "\<lambda>r. que_id r = que \<and> tenant_id r = t \<and> held_by bs r"
  let ?f = "\<lambda>r. r\<lparr>dl_status := DLQueueStatusFailed, failure_reason := Some reason, updated_at := now e\<rparr>"
  from assms(1) obtain r rs where u: "update_rows ?P ?f s = (r # rs, s')" "d = scanDownlinkOutcome r"
    by (auto simp: FailQueuedDownlink_def split: list.splits prod.splits)
  have "ending s DLQueueStatusFailed (r # rs) s'"
    using u(1) assms(2) by (rule update_ending) (auto simp: held_by_def heldStatuses_def in_flight_def intro!: fail_row_moves)
  moreover have "rs = []" using single_row [OF u(1) assms(2)] by simp
  moreover have "que_id r = que" using update_member [OF u(1), of r] by auto
  ultimately show ?thesis using u(2) by (auto simp: ends_with_def scanDownlinkOutcome_def speaks_of_def zeroMessage_def)
qed

lemma result_ends:
  assumes "UpdateDownlinkResult e t bs res s = (Inr d, s')" "store_inv s"
    and "resResult res \<in> {ResultSent, ResultExpired, ResultInvalid}" "QueueStatusForResult (resResult res) = Some st"
  shows "ends_with st s [d] s' \<and> MsgQueID d = resQueId res"
proof -
  let ?P = "\<lambda>r. que_id r = resQueId res \<and> ep_eui r = resEpEui res \<and> tenant_id r = t \<and> held_by bs r"
  from assms(1) obtain r rs where u: "update_rows ?P (record_result e res) s = (r # rs, s')" "d = scanDownlinkOutcome r"
    by (auto simp: UpdateDownlinkResult_def split: list.splits prod.splits)
  have "ending s st (r # rs) s'"
    using u(1) assms(2)
  proof (rule update_ending)
    fix q assume q: "row_ok q" "?P q"
    then show "moves q (record_result e res q) \<and> in_flight (dl_status q) \<and> dl_status (record_result e res q) = st"
      using record_result_moves [OF q(1) _ assms(3)] assms(4)
      by (auto simp: held_by_def heldStatuses_def in_flight_def record_result_def resultTransition_def coalesce_def)
  qed
  moreover have "rs = []" using single_row [OF u(1) assms(2)] by simp
  moreover have "que_id r = resQueId res"
    using update_member [OF u(1), of r] by auto
  ultimately show ?thesis using u(2) by (auto simp: ends_with_def scanDownlinkOutcome_def speaks_of_def zeroMessage_def)
qed

lemma expire_revoked_ends:
  assumes "ExpireRevokedDownlink e v s = (Inr (Some d), s')" "store_inv s"
  shows "ends_with DLQueueStatusExpired s [d] s'"
proof -
  from assms(1) obtain bs r rs where u: "update_rows (\<lambda>r. scopeRevocation v r \<and> dl_status r = DLQueueStatusRevoking \<and> bs_eui r = Some bs)
      (expire_row e) s = (r # rs, s')" "d = expiredOutcome (scanDownlinkOutcome r\<lparr>BsEui := bs\<rparr>)"
    by (auto simp: ExpireRevokedDownlink_def split: list.splits prod.splits option.splits)
  have "ending s DLQueueStatusExpired (r # rs) s'"
    by (rule expire_update_ending [OF u(1) assms(2)]) (simp add: in_flight_def)
  moreover have "rs = []" by (rule single_row [OF u(1) assms(2)]) (simp add: scopeRevocation_def)
  ultimately show ?thesis using u(2) by (auto simp: ends_with_def)
qed

lemma station_revocations_end:
  assumes "ExpireStationRevocations e bs s = (Inr ds, s')" "store_inv s"
  shows "ends_with DLQueueStatusExpired s ds s'"
proof -
  from assms(1) obtain rs where "update_rows (\<lambda>r. dl_status r = DLQueueStatusRevoking \<and> bs_eui r = Some bs) (expire_row e) s = (rs, s')"
    and ds: "ds = scanHeldOutcomes bs expiredOutcome rs"
    by (auto simp: ExpireStationRevocations_def split: prod.splits)
  from expire_update_ending [OF this(1) assms(2)] have "ending s DLQueueStatusExpired rs s'" by (simp add: in_flight_def)
  then show ?thesis by (rule ends_withI) (simp add: ds speaks_of_marked)
qed

lemma removed_station_ends:
  assumes "ExpireRemovedStationDownlinks e bs s = (Inr ds, s')" "store_inv s"
  shows "ends_with DLQueueStatusExpired s ds s'"
proof -
  from assms(1) obtain rs where "update_rows (held_by bs) (expire_row e) s = (rs, s')"
    and ds: "ds = scanHeldOutcomes bs expiredOutcome rs"
    by (auto simp: ExpireRemovedStationDownlinks_def split: prod.splits)
  from expire_update_ending [OF this(1) assms(2)] have "ending s DLQueueStatusExpired rs s'"
    by (auto simp: held_by_def heldStatuses_def in_flight_def)
  then show ?thesis by (rule ends_withI) (simp add: ds speaks_of_marked)
qed

lemma orphans_end:
  assumes "ExpireHeldAtRemovedStations e n s = (Inr ds, s')" "store_inv s"
  shows "ends_with DLQueueStatusExpired s ds s'"
proof -
  let ?P = "\<lambda>r. row_id r \<in> set (map row_id (select_rows e (orphaned (basestations s)) row_id (nat n) s))"
  from assms(1) obtain rs where u: "update_rows ?P (expire_row e) s = (rs, s')" "ds = scanOutcomesWithHolder expiredOutcome rs"
    by (auto simp: ExpireHeldAtRemovedStations_def Let_def split: prod.splits if_splits)
  have "ending s DLQueueStatusExpired rs s'"
    using u(1) assms(2)
  proof (rule update_ending)
    fix q assume q: "q \<in> set (dl_rows s)" "row_ok q" "?P q"
    then have "in_flight (dl_status q)"
      using selected_id [OF assms(2) q(1) q(3)] by (auto simp: orphaned_def heldStatuses_def in_flight_def)
    then show "moves q (expire_row e q) \<and> in_flight (dl_status q) \<and> dl_status (expire_row e q) = DLQueueStatusExpired"
      using q expire_row_moves by (simp add: expire_row_def)
  qed
  then show ?thesis by (rule ends_withI) (simp add: u(2) speaks_of_marked)
qed

lemma unheld_end:
  assumes "ExpireOverdueUnheld e n s = (Inr ds, s')" "store_inv s"
  shows "ends_with DLQueueStatusExpired s ds s'"
proof -
  let ?P = "\<lambda>r. row_id r \<in> set (map row_id (select_rows e (overdue unheldStatuses (now e)) (nulls_first \<circ> latest_at) (nat n) s))"
  let ?m = "\<lparr>moveStatus = DLQueueStatusExpired, moveResult = Some ResultExpired, moveAskedAt = None\<rparr>"
  from assms(1) obtain rs where u: "update_rows ?P (sweep_row e ?m) s = (rs, s')" "ds = scanOutcomesWithHolder expiredInQueue rs"
    by (auto simp: ExpireOverdueUnheld_def sweep_overdue_def Let_def split: prod.splits if_splits)
  have "ending s DLQueueStatusExpired rs s'"
    using u(1) assms(2)
  proof (rule update_ending)
    fix q assume q: "q \<in> set (dl_rows s)" "row_ok q" "?P q"
    then have o: "overdue unheldStatuses (now e) q" using selected_id [OF assms(2) q(1) q(3)] by simp
    then have "in_flight (dl_status q)" by (auto simp: overdue_def unheldStatuses_def in_flight_def)
    then show "moves q (sweep_row e ?m q) \<and> in_flight (dl_status q) \<and> dl_status (sweep_row e ?m q) = DLQueueStatusExpired"
      using unheld_sweep_moves [OF q(2) o] by (simp add: sweep_row_def)
  qed
  then show ?thesis by (rule ends_withI) (simp add: u(2) speaks_of_marked)
qed


section \<open>Handlers\<close>

definition told_sys :: "answer_sys \<Rightarrow> bool" where
  "told_sys y \<longleftrightarrow> told (adb y) (notices y)"

lemma told_sys_cong: "told_sys y \<Longrightarrow> adb z = adb y \<Longrightarrow> notices z = notices y \<Longrightarrow> told_sys z"
  by (simp add: told_sys_def)

lemma told_sys_inv: "told_sys y \<Longrightarrow> store_inv (adb y)"
  by (simp add: told_sys_def told_def)

lemma run_stmt_store:
  assumes "run_stmt env i op y = (r, y')"
  shows "adb y' = taken (afault env i) (op (asql env i)) (adb y)" "notices y' = notices y"
    "r = Inr v \<Longrightarrow> op (asql env i) (adb y) = (Inr v, adb y')"
  using assms by (auto simp: run_stmt_def taken_def attempt_def split: prod.splits fault.splits)

lemma run_told:
  assumes "run_stmt env i op y = (r, y')" "told_sys y" "\<And>e. carries (adb y) (snd (op e (adb y)))"
  shows "told_sys y'"
proof -
  note r = run_stmt_store(1, 2) [OF assms(1)]
  have "store_inv (adb y') \<and> carried (adb y) (adb y')"
    unfolding r using told_sys_inv [OF assms(2)] assms(3) by (rule taken_carries)
  then show ?thesis using assms(2) r(2) by (simp add: told_sys_def told_carried)
qed

lemma run_told_batch:
  assumes "run_stmt env i op y = (Inr v, y')" "told_sys y" "tells report st"
    and "\<And>e s'. op e (adb y) = (Inr v, s') \<Longrightarrow> ends_with st (adb y) ds s'"
  shows "told_sys (fold report ds y')"
proof -
  from run_stmt_store(3) [OF assms(1) refl] assms(4) obtain rs where
    "ending (adb y) st rs (adb y')" "list_all2 speaks_of ds rs" unfolding ends_with_def by blast
  from told_ending [OF assms(2) [unfolded told_sys_def] this assms(3) refl run_stmt_store(2) [OF assms(1)]]
  show ?thesis by (simp add: told_sys_def)
qed

lemma run_told_result:
  assumes "run_stmt env i op y = (Inr d, y')" "told_sys y"
    and "\<And>e s'. op e (adb y) = (Inr d, s') \<Longrightarrow> ends_with st (adb y) [d] s' \<and> MsgQueID d = resQueId res"
    and "QueueStatusForResult (resResult res) = Some st" "st \<noteq> DLQueueStatusRevoked"
    and "adb z = adb y'" "notices z = notices y'"
  shows "told_sys (ReportStationResult d res bs z)"
proof -
  note r = run_stmt_store(2) [OF assms(1)] run_stmt_store(3) [OF assms(1) refl]
  from assms(3) [OF r(2)] obtain q where e: "ending (adb y) st [q] (adb y')" and s: "speaks_of d q" and k: "MsgQueID d = resQueId res"
    by (auto simp: ends_with_def list_all2_Cons1)
  have t: "told (adb y) (notices y)" using assms(2) by (simp add: told_sys_def)
  have "told (adb z) (notices z)" using t e assms(6, 7) r(1) by (auto simp: ending_def intro: told_carries)
  moreover have "unheard (row_id q) (notices z)" using ending_unheard [OF t e] assms(7) r(1) by simp
  moreover have "q \<in> set (dl_rows (adb z))" "dl_status q = st" using e assms(6) by (auto simp: ending_def)
  moreover from this have "names_outcome q (ResultWithTransmitter res bs)"
    using assms(4, 5) s k by (simp add: names_outcome_def ResultWithTransmitter_def speaks_of_def)
  ultimately show ?thesis
    using deliver_told [OF _ _ s] by (simp add: told_sys_def ReportStationResult_def Let_def)
qed

lemma ack_told:
  assumes "told_sys y"
  shows "told_sys (snd (ProcessQueueAck env bs t ack y))"
proof -
  have *: "told_sys y2" if "run_stmt env 0 (\<lambda>e. UpdateDownlinkBaseStation e que tenant bs) y = (r1, y1)"
      "run_stmt env 1 (\<lambda>e. markReservedAsQueued e que tenant bs t None org) y1 = (r2, y2)" for que tenant org r1 y1 r2 y2
  proof -
    have "told_sys y1" using that(1) assms by (rule run_told) (use assms in \<open>simp add: accept_carries told_sys_inv\<close>)
    with that(2) show ?thesis by (rule run_told) (simp add: mark_carries told_sys_inv \<open>told_sys y1\<close>)
  qed
  show ?thesis using assms * by (auto simp: ProcessQueueAck_def split: option.splits prod.splits)
qed

lemma rejection_told:
  assumes "told_sys y"
  shows "told_sys (snd (ProcessQueueError env bs rej y))"
proof (cases "queueOwner (rejQueueID rej) (rejOwnerTenant rej)")
  case None
  then show ?thesis using assms by (simp add: ProcessQueueError_def)
next
  case (Some qt)
  obtain que tenant where [simp]: "qt = (que, tenant)" by (cases qt)
  have que: "que = rejQueueID rej" using Some by (auto simp: queueOwner_def split: if_splits)
  let ?op = "\<lambda>e. FailQueuedDownlink e (rejQueueID rej) tenant bs (failureReason rej)"
  obtain r y1 where run: "run_stmt env 0 ?op y = (r, y1)" by fastforce
  show ?thesis
  proof (cases r)
    case (Inl a)
    have "told_sys y1" using run assms by (rule run_told) (use assms in \<open>simp add: fail_carries told_sys_inv\<close>)
    then show ?thesis using Some run Inl by (simp add: ProcessQueueError_def)
  next
    case (Inr d)
    have "told_sys (ReportStationResult d \<lparr>resOpId = 0, resEpEui = rejEndpointEUI rej, resQueId = que, resResult = ResultInvalid,
        resTxTime = None, resPacketCnt = None, resBsEui = None\<rparr> bs (UnregisterQueueTenant (rejQueueID rej) y1))"
      using run [unfolded Inr] assms
      by (rule run_told_result) (use fail_ends told_sys_inv [OF assms] que in \<open>auto dest!: fail_ends\<close>)
    then show ?thesis using Some run Inr by (simp add: ProcessQueueError_def)
  qed
qed

lemma resolve_keeps:
  "ResolveTenant env i que y = (t, y') \<Longrightarrow> adb y' = adb y \<and> notices y' = notices y"
  by (auto simp: ResolveTenant_def split: if_splits option.splits)

lemma owner_keeps:
  "resultOwner env res y = (o', y') \<Longrightarrow> adb y' = adb y \<and> notices y' = notices y"
  "revoke_owner env que y = (o'', y') \<Longrightarrow> adb y' = adb y \<and> notices y' = notices y"
  by (auto simp: resultOwner_def revoke_owner_def dest: resolve_keeps split: if_splits option.splits prod.splits sum.splits)

lemma result_told:
  assumes "told_sys y" "resResult res \<in> {ResultSent, ResultExpired, ResultInvalid}"
  shows "told_sys (snd (ProcessDLDataResult env bs res y))"
proof -
  obtain ow y1 where o: "resultOwner env res y = (ow, y1)" by fastforce
  have t1: "told_sys y1" using assms(1) owner_keeps(1) [OF o] by (auto intro: told_sys_cong)
  show ?thesis
  proof (cases ow)
    case (Inl a)
    then show ?thesis using o t1 by (simp add: ProcessDLDataResult_def)
  next
    case (Inr qt)
    obtain que tenant where [simp]: "qt = (que, tenant)" by (cases qt)
    obtain r y2 where run: "run_stmt env 1 (\<lambda>e. UpdateDownlinkResult e tenant bs res) y1 = (r, y2)" by fastforce
    have t2: "told_sys y2"
      using run t1 by (rule run_told) (use t1 assms(2) in \<open>simp add: result_carries told_sys_inv\<close>)
    have keep: "told_sys (UnregisterQueueTenant que z)" if "adb z = adb y2" "notices z = notices y2" for z
      using t2 that by (auto intro: told_sys_cong)
    have sent: "told_sys (UnregisterQueueTenant que (ReportStationResult d res bs y2))" if "r = Inr d" for d
    proof -
      obtain st where "QueueStatusForResult (resResult res) = Some st" "st \<noteq> DLQueueStatusRevoked" using assms(2) by auto
      with run t1 that have "told_sys (ReportStationResult d res bs y2)"
        by (intro run_told_result [of env 1 _ y1 d y2 st]) (auto dest: result_ends [OF _ told_sys_inv [OF t1] assms(2)])
      then show ?thesis by (rule told_sys_cong) simp_all
    qed
    show ?thesis
      using o Inr run t2 keep sent
      by (auto simp: ProcessDLDataResult_def Let_def RecordSentAfterExpiry_def split: sum.split store_error.split)
  qed
qed

lemma revoke_told:
  assumes "told_sys y"
  shows "told_sys (snd (revoke_answered env bs que y))"
proof -
  obtain ow y1 where o: "revoke_owner env que y = (ow, y1)" by fastforce
  have t1: "told_sys y1" using assms owner_keeps(2) [OF o] by (auto intro: told_sys_cong)
  show ?thesis
  proof (cases ow)
    case (Inl a)
    then show ?thesis using o t1 by (simp add: revoke_answered_def)
  next
    case (Inr tenant)
    let ?v = "\<lparr>revQueID = que, revTenantID = tenant, revOrganizationID = None, revEpEUI = None, Station = Some bs\<rparr>"
    have t2: "told_sys (UnregisterQueueTenant que y1)" using t1 by (auto intro: told_sys_cong)
    obtain r y3 where run: "run_stmt env 1 (\<lambda>e. ExpireRevokedDownlink e ?v) (UnregisterQueueTenant que y1) = (r, y3)" by fastforce
    have t3: "told_sys y3" using run t2
      by (rule run_told) (use t1 in \<open>simp add: expire_revoked_carries told_sys_inv\<close>)
    have ended: "told_sys (ReportExpiredAtStation d y3)" if "r = Inr (Some d)" for d
      using run_told_batch [OF run [unfolded that] t2 tells_expiries(2), of "[d]"]
        expire_revoked_ends [OF _ told_sys_inv [OF t2]] by simp
    have revoked: "told_sys y4" if "run_stmt env 2 (\<lambda>e. RevokeDownlink e ?v) y3 = (r', y4)" for r' y4
      using that t3 by (rule run_told) (use t3 in \<open>simp add: revoke_carries told_sys_inv\<close>)
    show ?thesis
      using o Inr run t3 ended revoked
      by (auto simp: revoke_answered_def Let_def split: sum.splits option.splits prod.splits)
  qed
qed

lemma revoke_answers_told:
  assumes "told_sys y"
  shows "told_sys (snd (ProcessRevokeResponse env bs opId que y))" "told_sys (snd (ProcessRevokeRefusal env codes bs que code y))"
  using assms revoke_told [OF assms, of env bs que]
  by (auto simp: ProcessRevokeResponse_def ProcessRevokeRefusal_def split: sum.splits prod.splits)


lemma requeued_keeps [simp]: "adb (requeued bs rs y) = adb y" "notices (requeued bs rs y) = notices y"
  unfolding requeued_def by (induction rs arbitrary: y) simp_all

lemma reclaim_told:
  assumes "told_sys y"
  shows "told_sys (snd (ReclaimReservations env bs keep y))" "told_sys (snd (ReclaimEndpointQueue env t eui bs sentBy y))"
proof -
  have r: "told_sys y1" if "run_stmt env 0 (\<lambda>e. ReleaseStationReservations e bs keep) y = (r, y1)" for r y1
    using that assms by (rule run_told) (use assms in \<open>simp add: release_carries told_sys_inv\<close>)
  have e: "told_sys y1" if "run_stmt env 0 (\<lambda>e. ReleaseEndpointAtStation e t eui bs sentBy) y = (r, y1)" for r y1
    using that assms by (rule run_told) (use assms in \<open>simp add: release_carries told_sys_inv\<close>)
  show "told_sys (snd (ReclaimReservations env bs keep y))" "told_sys (snd (ReclaimEndpointQueue env t eui bs sentBy y))"
    using r e by (auto simp: ReclaimReservations_def ReclaimEndpointQueue_def intro: told_sys_cong split: prod.splits sum.splits)
qed

lemma discarded_told:
  assumes "told_sys y"
  shows "told_sys (snd (ReclaimDiscardedQueue env bs y))"
proof -
  obtain r y1 where run: "run_stmt env 1 (\<lambda>e. ReleaseStationQueue e bs) y = (r, y1)" by fastforce
  have t1: "told_sys y1" using run assms by (rule run_told) (use assms in \<open>simp add: release_carries told_sys_inv\<close>)
  have t2: "told_sys (requeued bs rs y1)" for rs using t1 by (auto intro: told_sys_cong)
  have f: "told_sys y2" if "run_stmt env 2 (\<lambda>e. ExpireStationRevocations e bs) (requeued bs rs y1) = (r2, y2)" for rs r2 y2
    using that t2 by (rule run_told) (use t1 in \<open>simp add: expire_station_carries told_sys_inv\<close>)
  have s: "told_sys (endedAtStation ds y2)"
    if "run_stmt env 2 (\<lambda>e. ExpireStationRevocations e bs) (requeued bs rs y1) = (Inr ds, y2)" for rs ds y2
    unfolding endedAtStation_def
    by (rule run_told_batch [OF that t2 tells_expiries(4)]) (rule station_revocations_end, assumption, simp add: told_sys_inv t1)
  show ?thesis using run t1 f s by (auto simp: ReclaimDiscardedQueue_def split: prod.splits sum.splits)
qed

lemma reclaim_station_told: "told_sys y \<Longrightarrow> told_sys (reclaimStationReservations env bs resumed keep y)"
  by (simp add: reclaimStationReservations_def Let_def reclaim_told discarded_told)

lemma deleted_station_told:
  assumes "told_sys y"
  shows "told_sys (EndDeletedStationDownlinks env bs y)"
proof -
  let ?op = "\<lambda>e. ExpireRemovedStationDownlinks e bs"
  have f: "told_sys y1" if "run_stmt env 0 ?op y = (r, y1)" for r y1
    using that assms by (rule run_told) (use assms in \<open>simp add: remove_station_carries told_sys_inv\<close>)
  have s: "told_sys (endedAtStation ds y1)" if "run_stmt env 0 ?op y = (Inr ds, y1)" for ds y1
    unfolding endedAtStation_def
    by (rule run_told_batch [OF that assms tells_expiries(4)]) (rule removed_station_ends, assumption, rule told_sys_inv, rule assms)
  show ?thesis using f s by (auto simp: EndDeletedStationDownlinks_def split: prod.splits sum.splits)
qed

section \<open>Sweeps\<close>

text \<open>A sweep keeps what each of its batches keeps.\<close>

locale batches =
  fixes move :: "nat \<Rightarrow> answer_sys \<Rightarrow> (store_error + DownlinkMessage list) \<times> answer_sys"
    and handle :: "DownlinkMessage \<Rightarrow> answer_sys \<Rightarrow> answer_sys"
    and good :: "answer_sys \<Rightarrow> bool"
  assumes failed_batch: "good y \<Longrightarrow> move i y = (Inl e, y') \<Longrightarrow> good y'"
    and moved_batch: "good y \<Longrightarrow> move i y = (Inr ds, y') \<Longrightarrow> good (fold handle ds y')"
begin

lemma sweep_keeps: "good y \<Longrightarrow> sweep n move batch handle i y = Some y' \<Longrightarrow> good y'"
  by (induction n arbitrary: i y)
    (auto simp: Let_def intro: failed_batch moved_batch split: prod.splits sum.splits if_splits)

end

lemma asked_keeps [simp]:
  "adb (fold revoke ds y) = adb y" "notices (fold revoke ds y) = notices y"
  by (induction ds arbitrary: y) (simp_all add: revoke_def)

lemma unheld_batch_told:
  assumes "told_sys y"
  shows "expireOverdue env batch i y = (r, y') \<Longrightarrow> told_sys y'"
    "expireOverdue env batch i y = (Inr ds, y') \<Longrightarrow> told_sys (fold report_expired ds y')"
  using assms unheld_end [OF _ told_sys_inv [OF assms]]
  by (auto simp: expireOverdue_def expiry_carries told_sys_inv
      intro: run_told run_told_batch [OF _ _ tells_expiries(1)])

lemma orphan_batch_told:
  assumes "told_sys y"
  shows "expireOrphans env batch i y = (r, y') \<Longrightarrow> told_sys y'"
    "expireOrphans env batch i y = (Inr ds, y') \<Longrightarrow> told_sys (fold reportAtStation ds y')"
  using assms orphans_end [OF _ told_sys_inv [OF assms]]
  by (auto simp: expireOrphans_def orphans_carries told_sys_inv
      intro: run_told run_told_batch [OF _ _ tells_expiries(3)])

lemma asking_batch_told:
  assumes "told_sys y"
  shows "overdueHeld env startedAt batch i y = (r, y') \<Longrightarrow> told_sys y'"
    "unansweredRevocations env conn startedAt interval batch i y = (r, y') \<Longrightarrow> told_sys y'"
  using assms
  by (auto simp: overdueHeld_def unansweredRevocations_def expiry_carries claim_carries told_sys_inv
      intro: run_told split: if_splits)

interpretation unheld_told: batches "expireOverdue env batch" report_expired told_sys for env batch
  by unfold_locales (blast intro: unheld_batch_told)+

interpretation orphans_told: batches "expireOrphans env batch" reportAtStation told_sys for env batch
  by unfold_locales (blast intro: orphan_batch_told)+

interpretation held_told: batches "overdueHeld env startedAt batch" revoke told_sys for env startedAt batch
  by unfold_locales (auto dest: asking_batch_told(1) intro: told_sys_cong)

interpretation unanswered_told: batches "unansweredRevocations env conn startedAt interval batch" revoke told_sys
  for env conn startedAt interval batch
  by unfold_locales (auto dest: asking_batch_told(2) intro: told_sys_cong)

lemma sweep_told: "told_sys y \<Longrightarrow> SweepOnce n envs conn startedAt interval batch y = Some y' \<Longrightarrow> told_sys y'"
  unfolding SweepOnce_def bind_eq_Some_conv
  by (elim exE conjE, rule unanswered_told.sweep_keeps, rule held_told.sweep_keeps, rule orphans_told.sweep_keeps,
      rule unheld_told.sweep_keeps)

section \<open>Every run\<close>

lemma count_distinct: "distinct xs \<Longrightarrow> x \<in> set xs \<Longrightarrow> count_list xs x = 1"
  by (induction xs) (auto simp: count_list_0_iff)

text \<open>
  The steps of the service: an answer or result of a station, a station that reconnects, discards an
  attachment or is deleted, a sweep, and any other statement of the queue.
\<close>

inductive answer_step :: "answer_sys \<Rightarrow> answer_sys \<Rightarrow> bool" where
  Step_Statement: "event_ok v (adb y) \<Longrightarrow> answer_step y (y\<lparr>adb := exec_event v (adb y)\<rparr>)"
| Step_Queue_Ack: "answer_step y (snd (ProcessQueueAck env bs t ack y))"
| Step_Queue_Error: "answer_step y (snd (ProcessQueueError env bs rej y))"
| Step_Result: "resResult res \<in> {ResultSent, ResultExpired, ResultInvalid} \<Longrightarrow>
    answer_step y (snd (ProcessDLDataResult env bs res y))"
| Step_Revoke_Response: "answer_step y (snd (ProcessRevokeResponse env bs opId que y))"
| Step_Revoke_Refusal: "answer_step y (snd (ProcessRevokeRefusal env codes bs que code y))"
| Step_Reclaim: "answer_step y (reclaimStationReservations env bs resumed keep y)"
| Step_Reclaim_Endpoint: "answer_step y (snd (ReclaimEndpointQueue env t eui bs sentBy y))"
| Step_Delete_Station: "answer_step y (EndDeletedStationDownlinks env bs y)"
| Step_Sweep: "SweepOnce n envs conn startedAt interval batch y = Some y' \<Longrightarrow> answer_step y y'"
| Step_Register: "answer_step y (RegisterQueueTenant que owner y)"

lemma statement_told:
  assumes "told_sys y" "event_ok v (adb y)"
  shows "told_sys (y\<lparr>adb := exec_event v (adb y)\<rparr>)"
  using assms history.inv_exec [of "adb y" v] history.rel_exec [of "adb y" v]
  by (auto simp: told_sys_def intro: told_carried dest: told_inv)

lemma step_told: "answer_step y y' \<Longrightarrow> told_sys y \<Longrightarrow> told_sys y'"
  by (induction rule: answer_step.induct)
    (auto intro: ack_told rejection_told result_told revoke_answers_told reclaim_station_told reclaim_told
      deleted_station_told sweep_told statement_told simp: RegisterQueueTenant_def elim: told_sys_cong)

definition newAnswerSys :: "dl_store \<Rightarrow> answer_sys" where
  "newAnswerSys s = \<lparr>adb = s, queueTenants = [], notices = [], ownerEvents = [], askedToDrop = []\<rparr>"

lemma run_steps_told: "answer_step\<^sup>*\<^sup>* y y' \<Longrightarrow> told_sys y \<Longrightarrow> told_sys y'"
  by (induction rule: rtranclp_induct) (auto intro: step_told)



text \<open>A downlink of an Application Center, sent by station 11; the station repeats its result.\<close>

definition sample_answer_env :: "int \<Rightarrow> answer_env" where
  "sample_answer_env t = \<lparr>asql = (\<lambda>_. sample_env t), afault = (\<lambda>_. Answered)\<rparr>"

definition sample_statements :: "stmt_event list" where
  "sample_statements =
     [(sample_env 1000, Answered, S_Enqueue ((sample_downlink 4 1)\<lparr>ACQueID := Some 21, ACEUI := Some 0xAC\<rparr>) 60000),
      (sample_env 2000, Answered, S_Reserve_Next 7 0xA1 11)]"

definition sample_told :: "nat \<Rightarrow> answer_sys" where
  "sample_told n =
     ((\<lambda>y. snd (ProcessDLDataResult (sample_answer_env 5000) 11 (sample_result ResultSent) y)) ^^ n)
       (newAnswerSys (fold exec_event sample_statements (newStore [] [11])))"

lemma statements_reached:
  "admitted exec_event event_ok es s \<Longrightarrow> answer_step\<^sup>*\<^sup>* (newAnswerSys s) (newAnswerSys (fold exec_event es s))"
proof (induction es arbitrary: s)
  case (Cons v es)
  then have "answer_step (newAnswerSys s) (newAnswerSys (exec_event v s))"
    using Step_Statement [of v "newAnswerSys s"] by (simp add: newAnswerSys_def)
  with Cons show ?case by (auto intro: converse_rtranclp_into_rtranclp)
qed simp

lemma sample_told_reached: "answer_step\<^sup>*\<^sup>* (newAnswerSys (newStore [] [11])) (sample_told n)"
proof (induction n)
  case 0
  have "admitted exec_event event_ok sample_statements (newStore [] [11])" by code_simp
  from statements_reached [OF this] show ?case by (simp only: sample_told_def funpow_0)
next
  case (Suc n)
  have "sample_told (Suc n) = snd (ProcessDLDataResult (sample_answer_env 5000) 11 (sample_result ResultSent) (sample_told n))"
    by (simp only: sample_told_def funpow.simps comp_apply)
  then have "answer_step (sample_told n) (sample_told (Suc n))"
    by (simp only:) (rule Step_Result, simp add: sample_result_def)
  with Suc show ?case by (rule rtranclp.rtrancl_into_rtrancl)
qed


end
