(* ===== verification/Downlink_Sweep.thy ===== *)
theory Downlink_Sweep
  imports Downlink_Reports
begin

text \<open>
  The loops of the expiry worker (\<^verbatim>\<open>internal/workers/downlinkexpiry/worker.go\<close>). Each runs batches until one is
  not full.

  Shown: a full batch leaves that many fewer rows to move, so more batches than the table has rows are
  never run; and once a batch is not full, no row it looks for and no other transaction holds is left.
\<close>

section \<open>Batches drain the table\<close>

text \<open>
  \<open>due\<close> holds of the rows a loop can still move, \<open>missed i\<close> of those the statement \<open>i\<close> looks for and
  finds unlocked.
\<close>

locale draining = batches +
  fixes due :: "downlink_row \<Rightarrow> bool"
    and missed :: "nat \<Rightarrow> downlink_row \<Rightarrow> bool"
    and batch :: int
    and fails :: "nat \<Rightarrow> bool"
  assumes handled_rows: "dl_rows (adb (handle d y)) = dl_rows (adb y)"
    and progress: "good y \<Longrightarrow> move i y = (Inr ds, y') \<Longrightarrow>
      length (filter due (dl_rows (adb y'))) + length ds \<le> length (filter due (dl_rows (adb y)))"
    and exhausted: "good y \<Longrightarrow> move i y = (Inr ds, y') \<Longrightarrow> int (length ds) < batch \<Longrightarrow>
      r \<in> set (dl_rows (adb y')) \<Longrightarrow> \<not> missed i r"
    and failing: "move i y = (Inl e, y') \<Longrightarrow> fails i"
begin

lemma handled_rows_fold [simp]: "dl_rows (adb (fold handle ds y)) = dl_rows (adb y)"
  by (induction ds arbitrary: y) (simp_all add: handled_rows)

lemma sweep_returns:
  "0 < batch \<Longrightarrow> good y \<Longrightarrow> length (filter due (dl_rows (adb y))) < n \<Longrightarrow> \<exists>y'. sweep n move batch handle i y = Some y'"
proof (induction n arbitrary: i y)
  case (Suc n)
  show ?case
  proof (cases "move i y")
    case (Pair r y1)
    show ?thesis
    proof (cases r)
      case (Inr ds)
      with Pair have m: "move i y = (Inr ds, y1)" by simp
      have "length (filter due (dl_rows (adb (fold handle ds y1)))) < n" if "\<not> int (length ds) < batch"
        using progress [OF Suc.prems(2) m] Suc.prems(1, 3) that by simp
      then show ?thesis using m Suc.IH [OF Suc.prems(1) moved_batch [OF Suc.prems(2) m], of "Suc i"] by (auto simp: Let_def)
    qed (simp add: Pair)
  qed
qed simp

lemma sweep_exhausts:
  "good y \<Longrightarrow> sweep n move batch handle i y = Some y' \<Longrightarrow> (\<And>k. \<not> fails k) \<Longrightarrow>
     \<exists>k. \<forall>r\<in>set (dl_rows (adb y')). \<not> missed k r"
proof (induction n arbitrary: i y)
  case (Suc n)
  show ?case
  proof (cases "move i y")
    case (Pair r y1)
    then obtain ds where m: "move i y = (Inr ds, y1)" using failing Suc.prems(3) by (cases r) auto
    show ?thesis
    proof (cases "int (length ds) < batch")
      case True
      then have "y' = fold handle ds y1" using Suc.prems(2) m by (simp add: Let_def)
      then show ?thesis using exhausted [OF Suc.prems(1) m True] by auto
    next
      case False
      then show ?thesis
        using Suc.IH [OF moved_batch [OF Suc.prems(1) m] _ Suc.prems(3)] Suc.prems(2) m by (simp add: Let_def)
    qed
  qed
qed simp

end

section \<open>What a statement over a selection moves\<close>

lemma filter_update_count:
  "(\<And>r. r \<in> set xs \<Longrightarrow> P r \<Longrightarrow> due r \<and> \<not> due (f r)) \<Longrightarrow>
     length (filter due (map (\<lambda>r. if P r then f r else r) xs)) + length (filter P xs) = length (filter due xs)"
  by (induction xs) auto

lemma update_progress:
  assumes "update_rows P f s = (rs, s')" "\<And>r. r \<in> set (dl_rows s) \<Longrightarrow> P r \<Longrightarrow> due r \<and> \<not> due (f r)"
  shows "length (filter due (dl_rows s')) + length rs = length (filter due (dl_rows s))"
  using assms filter_update_count [of "dl_rows s" P due f] by (auto simp: update_rows_def)

lemma selection_all:
  assumes inv: "store_inv s" and u: "update_rows (\<lambda>r. row_id r \<in> set (map row_id (select_rows e P key n s))) f s = (rs, s')"
    and short: "length rs < n" and r: "r \<in> set (dl_rows s)" "P r" "row_id r \<notin> set (locked e)"
  shows "row_id r \<in> set (map row_id (select_rows e P key n s))"
proof -
  let ?all = "sort_key (\<lambda>r. (key r, tie e (row_id r))) (filter (\<lambda>r. P r \<and> row_id r \<notin> set (locked e)) (dl_rows s))"
  let ?sel = "select_rows e P key n s" and ?hit = "filter (\<lambda>r. row_id r \<in> set (map row_id (select_rows e P key n s))) (dl_rows s)"
  have d: "distinct (dl_rows s)" using row_ids_distinct [OF inv] by (simp add: distinct_map)
  have "distinct ?sel" using d by (simp add: select_rows_def)
  then have "length ?sel = card (set ?sel)" by (rule distinct_card [symmetric])
  also have "\<dots> \<le> card (set ?hit)"
    by (rule card_mono) (use select_rows_subset [of _ e P key n s] in auto)
  also have "\<dots> \<le> length ?hit" by (rule card_length)
  also have "\<dots> = length rs" using u by (auto simp: update_rows_def)
  finally have "length ?sel < n" using short by simp
  then have "?sel = ?all" by (simp add: select_rows_def)
  then have "set ?sel = {r \<in> set (dl_rows s). P r \<and> row_id r \<notin> set (locked e)}" by simp
  then show ?thesis using r by auto
qed

lemma selection_left:
  assumes inv: "store_inv s" and u: "update_rows (\<lambda>r. row_id r \<in> set (map row_id (select_rows e P key n s))) f s = (rs, s')"
    and short: "length rs < n" and f: "\<And>r. \<not> P (f r)"
    and r: "r \<in> set (dl_rows s')" "row_id r \<notin> set (locked e)"
  shows "\<not> P r"
proof
  assume p: "P r"
  let ?hit = "\<lambda>r. row_id r \<in> set (map row_id (select_rows e P key n s))"
  from r(1) u obtain r0 where r0: "r0 \<in> set (dl_rows s)" "r = (if ?hit r0 then f r0 else r0)"
    by (auto simp: update_rows_def)
  with p f have "r = r0" "\<not> ?hit r0" by (auto split: if_splits)
  with selection_all [OF inv u short r0(1)] p r(2) show False by simp
qed


section \<open>What a sweep leaves of a row\<close>

text \<open>A sweep keeps a row where it is, expires it, or asks its station to drop it.\<close>

definition settled :: "downlink_row \<Rightarrow> downlink_row \<Rightarrow> bool" where
  "settled r r' \<longleftrightarrow> row_id r' = row_id r \<and> latest_at r' = latest_at r \<and> bs_eui r' = bs_eui r
     \<and> (dl_status r' = dl_status r \<or> dl_status r' = DLQueueStatusExpired
        \<or> dl_status r = DLQueueStatusQueued \<and> dl_status r' = DLQueueStatusRevoking)"

definition settles :: "dl_store \<Rightarrow> dl_store \<Rightarrow> bool" where
  "settles s s' \<longleftrightarrow> basestations s' = basestations s \<and> length (dl_rows s') = length (dl_rows s)
     \<and> (\<forall>r'\<in>set (dl_rows s'). \<exists>r\<in>set (dl_rows s). settled r r')"

lemma settled_refl: "settled r r"
  by (simp add: settled_def)

lemma settled_trans: "settled a b \<Longrightarrow> settled b c \<Longrightarrow> settled a c"
  by (auto simp: settled_def)

lemma settles_refl: "settles s s"
  by (auto simp: settles_def intro: settled_refl)

lemma settles_trans: "settles a b \<Longrightarrow> settles b c \<Longrightarrow> settles a c"
  unfolding settles_def by (metis settled_trans)

lemma settled_overdue:
  "\<forall>r r'. settled r r' \<longrightarrow> overdue unheldStatuses t r' \<longrightarrow> overdue unheldStatuses t r"
  "\<forall>r r'. settled r r' \<longrightarrow> overdue revocableStatuses t r' \<longrightarrow> overdue revocableStatuses t r"
  "\<forall>r r'. settled r r' \<longrightarrow> orphaned st r' \<longrightarrow> orphaned st r"
  by (auto simp: settled_def overdue_def orphaned_def status_lists)

lemma update_settles:
  assumes "update_rows P f s = (rs, s')" "\<And>r. r \<in> set (dl_rows s) \<Longrightarrow> P r \<Longrightarrow> settled r (f r)"
  shows "settles s s'"
  using assms settled_refl by (auto simp: settles_def update_rows_def) blast+

lemma sweep_overdue_settles:
  assumes "store_inv s" "\<And>r. overdue from (now e) r \<Longrightarrow> settled r (sweep_row e m r)"
  shows "settles s (snd (sweep_overdue e n from m mark s))"
proof -
  let ?P = "\<lambda>r. row_id r \<in> set (map row_id (select_rows e (overdue from (now e)) (nulls_first \<circ> latest_at) (nat n) s))"
  obtain rs s' where u: "update_rows ?P (sweep_row e m) s = (rs, s')" by fastforce
  have "settles s s'" by (rule update_settles [OF u]) (use assms selected_id in blast)
  then show ?thesis using u by (simp add: sweep_overdue_def Let_def settles_refl del: set_map)
qed

lemma statements_settle:
  assumes "store_inv s"
  shows "settles s (snd (ExpireOverdueUnheld e n s))" "settles s (snd (RevokeOverdueHeld e t n s))"
    "settles s (snd (ExpireHeldAtRemovedStations e n s))" "settles s (snd (ClaimUnansweredRevocations e st t u n s))"
proof -
  show "settles s (snd (ExpireOverdueUnheld e n s))" "settles s (snd (RevokeOverdueHeld e t n s))"
    unfolding ExpireOverdueUnheld_def RevokeOverdueHeld_def
    by (rule sweep_overdue_settles [OF assms]; simp add: settled_def sweep_row_def overdue_def revocableStatuses_def)+
  show "settles s (snd (ExpireHeldAtRemovedStations e n s))"
    by (auto simp: ExpireHeldAtRemovedStations_def Let_def settles_refl settled_def expire_row_def simp del: set_map
        elim!: update_settles split: prod.splits)
  show "settles s (snd (ClaimUnansweredRevocations e st t u n s))"
    by (auto simp: ClaimUnansweredRevocations_def Let_def settles_refl settled_def simp del: set_map
        elim!: update_settles split: prod.splits)
qed

lemma run_settles:
  "run_stmt env i op y = (r, y') \<Longrightarrow> (\<And>e. settles (adb y) (snd (op e (adb y)))) \<Longrightarrow> settles (adb y) (adb y')"
  using run_stmt_store(1) [of env i op y r y'] by (cases "afault env i") (simp_all add: taken_def attempt_def settles_refl)

definition since :: "answer_sys \<Rightarrow> answer_sys \<Rightarrow> bool" where
  "since y0 y \<longleftrightarrow> told_sys y \<and> settles (adb y0) (adb y)"

lemma moves_settle:
  assumes "since y0 y"
  shows "expireOverdue env batch i y = (r, y') \<Longrightarrow> settles (adb y0) (adb y')"
    "expireOrphans env batch i y = (r, y') \<Longrightarrow> settles (adb y0) (adb y')"
    "overdueHeld env startedAt batch i y = (r, y') \<Longrightarrow> settles (adb y0) (adb y')"
    "unansweredRevocations env conn startedAt interval batch i y = (r, y') \<Longrightarrow> settles (adb y0) (adb y')"
proof -
  from assms have i: "store_inv (adb y)" and s: "settles (adb y0) (adb y)" by (simp_all add: since_def told_sys_inv)
  note run = settles_trans [OF s run_settles]
  show "expireOverdue env batch i y = (r, y') \<Longrightarrow> settles (adb y0) (adb y')"
    "expireOrphans env batch i y = (r, y') \<Longrightarrow> settles (adb y0) (adb y')"
    "overdueHeld env startedAt batch i y = (r, y') \<Longrightarrow> settles (adb y0) (adb y')"
    unfolding expireOverdue_def expireOrphans_def overdueHeld_def by (erule run, rule statements_settle [OF i])+
  show "unansweredRevocations env conn startedAt interval batch i y = (r, y') \<Longrightarrow> settles (adb y0) (adb y')"
    unfolding unansweredRevocations_def using s by (auto split: if_splits intro: run statements_settle [OF i])
qed

lemma reports_keep [simp]:
  "adb (report_expired d y) = adb y" "adb (reportAtStation d y) = adb y" "adb (revoke d y) = adb y"
  by (auto simp: report_expired_def reportAtStation_def ReportExpiredInQueue_def ReportExpiredAtStation_def reportExpired_def
      revoke_def split: sum.split option.split)

lemma reports_keep_fold [simp]:
  "adb (fold report_expired ds y) = adb y" "adb (fold reportAtStation ds y) = adb y"
  by (induction ds arbitrary: y) simp_all


section \<open>The four loops\<close>

lemma since_inv: "since y0 y \<Longrightarrow> store_inv (adb y)"
  by (simp add: since_def told_sys_inv)

lemma sweep_overdue_drains:
  assumes "sweep_overdue e n from m mark s = (Inr ds, s')" "store_inv s" "moveStatus m \<notin> set from"
  shows "length (filter (\<lambda>r. dl_status r \<in> set from) (dl_rows s')) + length ds = length (filter (\<lambda>r. dl_status r \<in> set from) (dl_rows s))"
    and "int (length ds) < n \<Longrightarrow> r \<in> set (dl_rows s') \<Longrightarrow> row_id r \<notin> set (locked e) \<Longrightarrow> \<not> overdue from (now e) r"
proof -
  let ?P = "\<lambda>r. row_id r \<in> set (map row_id (select_rows e (overdue from (now e)) (nulls_first \<circ> latest_at) (nat n) s))"
  from assms(1) obtain rs where u: "update_rows ?P (sweep_row e m) s = (rs, s')" and l: "length ds = length rs"
    by (auto simp: sweep_overdue_def scanOutcomesWithHolder_def Let_def split: prod.splits if_splits)
  have k: "overdue from (now e) r \<and> dl_status r \<in> set from" if "r \<in> set (dl_rows s)" "?P r" for r
    using selected_id [OF assms(2) that] by (simp add: overdue_def)
  show "length (filter (\<lambda>r. dl_status r \<in> set from) (dl_rows s')) + length ds = length (filter (\<lambda>r. dl_status r \<in> set from) (dl_rows s))"
    unfolding l by (rule update_progress [OF u]) (use k assms(3) in \<open>auto simp: sweep_row_def\<close>)
  show "\<not> overdue from (now e) r" if "int (length ds) < n" "r \<in> set (dl_rows s')" "row_id r \<notin> set (locked e)"
    by (rule selection_left [OF assms(2) u _ _ that(2, 3)]) (use that(1) l assms(3) in \<open>auto simp: overdue_def sweep_row_def\<close>)
qed

lemma orphans_drain:
  assumes "ExpireHeldAtRemovedStations e n s = (Inr ds, s')" "store_inv s"
  shows "length (filter (\<lambda>r. dl_status r \<in> set heldStatuses) (dl_rows s')) + length ds = length (filter (\<lambda>r. dl_status r \<in> set heldStatuses) (dl_rows s))"
    and "int (length ds) < n \<Longrightarrow> r \<in> set (dl_rows s') \<Longrightarrow> row_id r \<notin> set (locked e) \<Longrightarrow> \<not> orphaned (basestations s) r"
proof -
  let ?P = "\<lambda>r. row_id r \<in> set (map row_id (select_rows e (orphaned (basestations s)) row_id (nat n) s))"
  from assms(1) obtain rs where u: "update_rows ?P (expire_row e) s = (rs, s')" and l: "length ds = length rs"
    by (auto simp: ExpireHeldAtRemovedStations_def scanOutcomesWithHolder_def Let_def split: prod.splits if_splits)
  have k: "orphaned (basestations s) r" if "r \<in> set (dl_rows s)" "?P r" for r
    using selected_id [OF assms(2) that] .
  show "length (filter (\<lambda>r. dl_status r \<in> set heldStatuses) (dl_rows s')) + length ds = length (filter (\<lambda>r. dl_status r \<in> set heldStatuses) (dl_rows s))"
    unfolding l by (rule update_progress [OF u]) (use k in \<open>auto simp: orphaned_def expire_row_def heldStatuses_def\<close>)
  show "\<not> orphaned (basestations s) r" if "int (length ds) < n" "r \<in> set (dl_rows s')" "row_id r \<notin> set (locked e)"
    by (rule selection_left [OF assms(2) u _ _ that(2, 3)]) (use that(1) l in \<open>auto simp: orphaned_def expire_row_def heldStatuses_def\<close>)
qed

definition unanswered_since :: "int \<Rightarrow> downlink_row \<Rightarrow> bool" where
  "unanswered_since t r \<longleftrightarrow> dl_status r = DLQueueStatusRevoking \<and> (case revoke_asked_at r of None \<Rightarrow> True | Some a \<Rightarrow> a \<le> t)"

lemma claims_drain:
  assumes "ClaimUnansweredRevocations e stations startedAt interval n s = (Inr ds, s')" "store_inv s"
  shows "length (filter (unanswered_since (truncate_time startedAt - interval)) (dl_rows s')) + length ds
      = length (filter (unanswered_since (truncate_time startedAt - interval)) (dl_rows s))"
    and "int (length ds) < n \<Longrightarrow> r \<in> set (dl_rows s') \<Longrightarrow> row_id r \<notin> set (locked e) \<Longrightarrow>
      \<not> (unanswered_since (truncate_time startedAt - interval) r \<and> (\<exists>bs\<in>set stations. bs_eui r = Some bs))"
proof -
  let ?t = "truncate_time startedAt - interval"
  let ?D = "\<lambda>r. dl_status r = DLQueueStatusRevoking \<and> (\<exists>bs\<in>set stations. bs_eui r = Some bs)
      \<and> (case revoke_asked_at r of None \<Rightarrow> True | Some t \<Rightarrow> t \<le> ?t)"
  let ?P = "\<lambda>r. row_id r \<in> set (map row_id (select_rows e ?D (nulls_first \<circ> revoke_asked_at) (nat n) s))"
  let ?f = "\<lambda>r. r\<lparr>revoke_asked_at := Some (truncate_time startedAt), updated_at := truncate_time startedAt\<rparr>"
  from assms(1) have pos: "0 < interval" by (auto simp: ClaimUnansweredRevocations_def split: if_splits)
  from assms(1) obtain rs where u: "update_rows ?P ?f s = (rs, s')" and l: "length ds = length rs"
    by (auto simp: ClaimUnansweredRevocations_def scanOutcomesWithHolder_def Let_def split: prod.splits if_splits)
  have k: "?D r" if "r \<in> set (dl_rows s)" "?P r" for r using selected_id [OF assms(2) that] .
  show "length (filter (unanswered_since ?t) (dl_rows s')) + length ds = length (filter (unanswered_since ?t) (dl_rows s))"
    unfolding l by (rule update_progress [OF u]) (use k pos in \<open>auto simp: unanswered_since_def\<close>)
  show "\<not> (unanswered_since ?t r \<and> (\<exists>bs\<in>set stations. bs_eui r = Some bs))"
    if "int (length ds) < n" "r \<in> set (dl_rows s')" "row_id r \<notin> set (locked e)"
  proof -
    have "length rs < nat n" using that(1) l by simp
    then have "\<not> ?D r" by (rule selection_left [OF assms(2) u _ _ that(2, 3)]) (use pos in auto)
    then show ?thesis by (auto simp: unanswered_since_def)
  qed
qed

definition unlocked_at :: "answer_env \<Rightarrow> nat \<Rightarrow> downlink_row \<Rightarrow> bool" where
  "unlocked_at env i r \<longleftrightarrow> row_id r \<notin> set (locked (asql env i))"


lemma run_moved:
  assumes "run_stmt env i op y = (Inr v, y')"
  shows "op (asql env i) (adb y) = (Inr v, adb y')"
  using run_stmt_store(3) [OF assms refl] .

lemma run_failed:
  assumes "run_stmt env i op y = (Inl er, y')" "\<And>e s. 0 < (batch :: int) \<Longrightarrow> \<not> isl (fst (op e s))"
  shows "afault env i \<noteq> Answered \<or> batch \<le> 0"
proof (rule ccontr)
  assume "\<not> ?thesis"
  then have "afault env i = Answered" "\<not> isl (fst (op (asql env i) (adb y)))" using assms(2) by auto
  then show False using assms(1) by (auto simp: run_stmt_def attempt_def split: prod.splits)
qed

lemma unanswered_moved:
  assumes "unansweredRevocations env conn startedAt interval batch i y = (Inr ds, y')"
  obtains "conn i = []" "ds = []" "y' = y"
  | "ClaimUnansweredRevocations (asql env i) (conn i) startedAt interval batch (adb y) = (Inr ds, adb y')"
  using assms by (auto simp: unansweredRevocations_def split: if_splits dest: run_moved)

interpretation unheld_sweep: draining "expireOverdue env batch" report_expired "since y0" "\<lambda>r. dl_status r \<in> set unheldStatuses"
    "\<lambda>i r. overdue unheldStatuses (now (asql env i)) r \<and> unlocked_at env i r" batch "\<lambda>i. afault env i \<noteq> Answered \<or> batch \<le> 0"
  for env batch y0
proof unfold_locales
  note drains = sweep_overdue_drains [OF _ since_inv, where m = "\<lparr>moveStatus = DLQueueStatusExpired, moveResult = r, moveAskedAt = None\<rparr>" for r]
  show "since y0 y'" if "since y0 y" "expireOverdue env batch i y = (Inl e, y')" for y i e y'
    using that moves_settle(1) unheld_batch_told(1) by (auto simp: since_def)
  show "since y0 (fold report_expired ds y')" if "since y0 y" "expireOverdue env batch i y = (Inr ds, y')" for y i ds y'
    using that moves_settle(1) [OF that] unheld_batch_told(2) by (auto simp: since_def)
  show "length (filter (\<lambda>r. dl_status r \<in> set unheldStatuses) (dl_rows (adb y'))) + length ds
      \<le> length (filter (\<lambda>r. dl_status r \<in> set unheldStatuses) (dl_rows (adb y)))"
    if "since y0 y" "expireOverdue env batch i y = (Inr ds, y')" for y i ds y'
    using drains(1) [OF run_moved [OF that(2) [unfolded expireOverdue_def], unfolded ExpireOverdueUnheld_def] that(1)]
    by (simp add: unheldStatuses_def)
  show "\<not> (overdue unheldStatuses (now (asql env i)) r \<and> unlocked_at env i r)"
    if "since y0 y" "expireOverdue env batch i y = (Inr ds, y')" "int (length ds) < batch" "r \<in> set (dl_rows (adb y'))" for y i ds y' r
    using drains(2) [OF run_moved [OF that(2) [unfolded expireOverdue_def], unfolded ExpireOverdueUnheld_def] that(1) _ that(3, 4)]
    by (auto simp: unheldStatuses_def unlocked_at_def)
  show "afault env i \<noteq> Answered \<or> batch \<le> 0" if "expireOverdue env batch i y = (Inl e, y')" for y i e y'
    using that unfolding expireOverdue_def
    by (rule run_failed) (simp add: ExpireOverdueUnheld_def sweep_overdue_def Let_def split: prod.split)
qed simp

interpretation held_sweep: draining "overdueHeld env startedAt batch" revoke "since y0" "\<lambda>r. dl_status r \<in> set revocableStatuses"
    "\<lambda>i r. overdue revocableStatuses (now (asql env i)) r \<and> unlocked_at env i r" batch "\<lambda>i. afault env i \<noteq> Answered \<or> batch \<le> 0"
  for env startedAt batch y0
proof unfold_locales
  note drains = sweep_overdue_drains [OF _ since_inv, where m = "\<lparr>moveStatus = DLQueueStatusRevoking, moveResult = r, moveAskedAt = a\<rparr>" for r a]
  show "since y0 y'" if "since y0 y" "overdueHeld env startedAt batch i y = (Inl e, y')" for y i e y'
    using that moves_settle(3) asking_batch_told(1) by (auto simp: since_def)
  show "since y0 (fold revoke ds y')" if "since y0 y" "overdueHeld env startedAt batch i y = (Inr ds, y')" for y i ds y'
    using that moves_settle(3) [OF that] held_told.moved_batch by (auto simp: since_def)
  show "length (filter (\<lambda>r. dl_status r \<in> set revocableStatuses) (dl_rows (adb y'))) + length ds
      \<le> length (filter (\<lambda>r. dl_status r \<in> set revocableStatuses) (dl_rows (adb y)))"
    if "since y0 y" "overdueHeld env startedAt batch i y = (Inr ds, y')" for y i ds y'
    using drains(1) [OF run_moved [OF that(2) [unfolded overdueHeld_def], unfolded RevokeOverdueHeld_def] that(1)]
    by (simp add: revocableStatuses_def)
  show "\<not> (overdue revocableStatuses (now (asql env i)) r \<and> unlocked_at env i r)"
    if "since y0 y" "overdueHeld env startedAt batch i y = (Inr ds, y')" "int (length ds) < batch" "r \<in> set (dl_rows (adb y'))" for y i ds y' r
    using drains(2) [OF run_moved [OF that(2) [unfolded overdueHeld_def], unfolded RevokeOverdueHeld_def] that(1) _ that(3, 4)]
    by (auto simp: revocableStatuses_def unlocked_at_def)
  show "afault env i \<noteq> Answered \<or> batch \<le> 0" if "overdueHeld env startedAt batch i y = (Inl e, y')" for y i e y'
    using that unfolding overdueHeld_def
    by (rule run_failed) (simp add: RevokeOverdueHeld_def sweep_overdue_def Let_def split: prod.split)
qed simp

lemma since_stations: "since y0 y \<Longrightarrow> basestations (adb y) = basestations (adb y0)"
  by (simp add: since_def settles_def)

interpretation orphan_sweep: draining "expireOrphans env batch" reportAtStation "since y0" "\<lambda>r. dl_status r \<in> set heldStatuses"
    "\<lambda>i r. orphaned (basestations (adb y0)) r \<and> unlocked_at env i r" batch "\<lambda>i. afault env i \<noteq> Answered \<or> batch \<le> 0"
  for env batch y0
proof unfold_locales
  show "since y0 y'" if "since y0 y" "expireOrphans env batch i y = (Inl e, y')" for y i e y'
    using that moves_settle(2) orphan_batch_told(1) by (auto simp: since_def)
  show "since y0 (fold reportAtStation ds y')" if "since y0 y" "expireOrphans env batch i y = (Inr ds, y')" for y i ds y'
    using that moves_settle(2) [OF that] orphan_batch_told(2) by (auto simp: since_def)
  show "length (filter (\<lambda>r. dl_status r \<in> set heldStatuses) (dl_rows (adb y'))) + length ds
      \<le> length (filter (\<lambda>r. dl_status r \<in> set heldStatuses) (dl_rows (adb y)))"
    if "since y0 y" "expireOrphans env batch i y = (Inr ds, y')" for y i ds y'
    using orphans_drain(1) [OF run_moved [OF that(2) [unfolded expireOrphans_def]] since_inv [OF that(1)]] by simp
  show "\<not> (orphaned (basestations (adb y0)) r \<and> unlocked_at env i r)"
    if "since y0 y" "expireOrphans env batch i y = (Inr ds, y')" "int (length ds) < batch" "r \<in> set (dl_rows (adb y'))" for y i ds y' r
    using orphans_drain(2) [OF run_moved [OF that(2) [unfolded expireOrphans_def]] since_inv [OF that(1)] that(3, 4)] since_stations [OF that(1)]
    by (auto simp: unlocked_at_def)
  show "afault env i \<noteq> Answered \<or> batch \<le> 0" if "expireOrphans env batch i y = (Inl e, y')" for y i e y'
    using that unfolding expireOrphans_def
    by (rule run_failed) (simp add: ExpireHeldAtRemovedStations_def Let_def split: prod.split)
qed simp

interpretation asking_sweep: draining "unansweredRevocations env conn startedAt interval batch" revoke "since y0"
    "unanswered_since (truncate_time startedAt - interval)"
    "\<lambda>i r. unanswered_since (truncate_time startedAt - interval) r \<and> (\<exists>bs\<in>set (conn i). bs_eui r = Some bs) \<and> unlocked_at env i r"
    batch "\<lambda>i. afault env i \<noteq> Answered \<or> batch \<le> 0 \<or> interval \<le> 0"
  for env conn startedAt interval batch y0
proof unfold_locales
  show "since y0 y'" if "since y0 y" "unansweredRevocations env conn startedAt interval batch i y = (Inl e, y')" for y i e y'
    using that moves_settle(4) asking_batch_told(2) by (auto simp: since_def)
  show "since y0 (fold revoke ds y')" if "since y0 y" "unansweredRevocations env conn startedAt interval batch i y = (Inr ds, y')" for y i ds y'
    using that moves_settle(4) [OF that] unanswered_told.moved_batch by (auto simp: since_def)
  show "length (filter (unanswered_since (truncate_time startedAt - interval)) (dl_rows (adb y'))) + length ds
      \<le> length (filter (unanswered_since (truncate_time startedAt - interval)) (dl_rows (adb y)))"
    if "since y0 y" "unansweredRevocations env conn startedAt interval batch i y = (Inr ds, y')" for y i ds y'
    using that(2) by (cases rule: unanswered_moved) (simp_all add: claims_drain(1) [OF _ since_inv [OF that(1)]])
  show "\<not> (unanswered_since (truncate_time startedAt - interval) r \<and> (\<exists>bs\<in>set (conn i). bs_eui r = Some bs) \<and> unlocked_at env i r)"
    if "since y0 y" "unansweredRevocations env conn startedAt interval batch i y = (Inr ds, y')" "int (length ds) < batch"
      "r \<in> set (dl_rows (adb y'))" for y i ds y' r
    using that(2)
  proof (cases rule: unanswered_moved)
    case 2
    from claims_drain(2) [OF 2 since_inv [OF that(1)] that(3, 4)] show ?thesis by (auto simp: unlocked_at_def)
  qed simp
  show "afault env i \<noteq> Answered \<or> batch \<le> 0 \<or> interval \<le> 0"
    if "unansweredRevocations env conn startedAt interval batch i y = (Inl e, y')" for y i e y'
    using that by (cases "afault env i")
      (auto simp: unansweredRevocations_def ClaimUnansweredRevocations_def Let_def run_stmt_def attempt_def split: if_splits prod.splits)
qed simp


section \<open>The sweep\<close>

lemma since_rows: "since y0 y \<Longrightarrow> length (filter P (dl_rows (adb y))) \<le> length (dl_rows (adb y0))"
  by (metis since_def settles_def length_filter_le)

lemma since_refl: "told_sys y \<Longrightarrow> since y y"
  by (simp add: since_def settles_refl)

lemma loops_keep:
  "since y0 y \<Longrightarrow> sweep n (expireOverdue env batch) batch report_expired i y = Some y' \<Longrightarrow> since y0 y'"
  "since y0 y \<Longrightarrow> sweep n (expireOrphans env batch) batch reportAtStation i y = Some y' \<Longrightarrow> since y0 y'"
  "since y0 y \<Longrightarrow> sweep n (overdueHeld env startedAt batch) batch revoke i y = Some y' \<Longrightarrow> since y0 y'"
  "since y0 y \<Longrightarrow> sweep n (unansweredRevocations env conn startedAt interval batch) batch revoke i y = Some y' \<Longrightarrow> since y0 y'"
  by (auto dest: unheld_sweep.sweep_keeps orphan_sweep.sweep_keeps held_sweep.sweep_keeps asking_sweep.sweep_keeps)

text \<open>What an earlier loop cleared, the later ones keep clear.\<close>

lemma since_clear:
  assumes "since y y'" "\<forall>r\<in>set (dl_rows (adb y)). row_id r \<notin> L \<longrightarrow> \<not> Q r" "\<forall>r r'. settled r r' \<longrightarrow> Q r' \<longrightarrow> Q r"
  shows "\<forall>r\<in>set (dl_rows (adb y')). row_id r \<notin> L \<longrightarrow> \<not> Q r"
  using assms by (fastforce simp: since_def settles_def settled_def)

lemma loop_clear:
  assumes "\<exists>k. \<forall>r\<in>set rs. \<not> (Q k r \<and> unlocked_at env k r)" "\<And>k. set (locked (asql env k)) \<subseteq> L" "\<And>k r. Q' r \<Longrightarrow> Q k r"
  shows "\<forall>r\<in>set rs. row_id r \<notin> L \<longrightarrow> \<not> Q' r"
  using assms by (fastforce simp: unlocked_at_def)

lemma overdue_later: "t \<le> u \<Longrightarrow> overdue from t r \<Longrightarrow> overdue from u r"
  by (auto simp: overdue_def split: option.splits)

text \<open>
  C10. A sweep ends: more batches than the queue has rows are never needed. When its statements are
  answered, and by then at \<open>t\<close> or later, nothing is left, other transactions' rows apart, that was
  overdue at \<open>t\<close> and waits in the queue or at a station not asked to drop it, nothing held by a station
  that is not registered, and no revocation at a station connected throughout (\<open>C\<close>) that was last
  asked for an interval or more before the start of the sweep.
\<close>

theorem sweep_ends_and_clears:
  assumes reach: "answer_step\<^sup>*\<^sup>* (newAnswerSys (newStore w stations)) y"
    and cfg: "0 < batch" "0 < interval" and n: "length (dl_rows (adb y)) < n"
  shows "\<exists>y'. SweepOnce n envs conn startedAt interval batch y = Some y'
    \<and> ((\<forall>k i. afault (envs k) i = Answered \<and> t \<le> now (asql (envs k) i) \<and> set (locked (asql (envs k) i)) \<subseteq> L \<and> C \<subseteq> set (conn i)) \<longrightarrow>
        (\<forall>r\<in>set (dl_rows (adb y')). row_id r \<notin> L \<longrightarrow>
           \<not> overdue unheldStatuses t r \<and> \<not> overdue revocableStatuses t r \<and> \<not> orphaned (basestations (adb y)) r
           \<and> (unanswered_since (truncate_time startedAt - interval) r \<longrightarrow> bs_eui r \<notin> Some ` C)))"
proof -
  have "told_sys (newAnswerSys (newStore w stations))" by (simp add: told_sys_def told_def newAnswerSys_def newStore_inv)
  with reach have "told_sys y" by (rule run_steps_told)
  then have s0: "since y y" by (rule since_refl)
  note few = le_less_trans [OF since_rows n]
  obtain y1 where r1: "sweep n (expireOverdue (envs 0) batch) batch report_expired 0 y = Some y1"
    using unheld_sweep.sweep_returns [OF cfg(1) s0 few [OF s0]] by blast
  note s1 = loops_keep(1) [OF s0 r1]
  obtain y2 where r2: "sweep n (expireOrphans (envs 1) batch) batch reportAtStation 0 y1 = Some y2"
    using orphan_sweep.sweep_returns [OF cfg(1) s1 few [OF s1]] by blast
  note s2 = loops_keep(2) [OF s1 r2]
  obtain y3 where r3: "sweep n (overdueHeld (envs 2) startedAt batch) batch revoke 0 y2 = Some y3"
    using held_sweep.sweep_returns [OF cfg(1) s2 few [OF s2]] by blast
  note s3 = loops_keep(3) [OF s2 r3]
  obtain y4 where r4: "sweep n (unansweredRevocations (envs 3) conn startedAt interval batch) batch revoke 0 y3 = Some y4"
    using asking_sweep.sweep_returns [OF cfg(1) s3 few [OF s3]] by blast
  have told: "told_sys y1" "told_sys y2" "told_sys y3" using s1 s2 s3 by (simp_all add: since_def)
  note k3 = loops_keep(4) [OF since_refl [OF told(3)] r4]
    and k2 = loops_keep(4) [OF loops_keep(3) [OF since_refl [OF told(2)] r3] r4]
    and k1 = loops_keep(4) [OF loops_keep(3) [OF loops_keep(2) [OF since_refl [OF told(1)] r2] r3] r4]
  have "\<forall>r\<in>set (dl_rows (adb y4)). row_id r \<notin> L \<longrightarrow> \<not> overdue unheldStatuses t r \<and> \<not> overdue revocableStatuses t r
      \<and> \<not> orphaned (basestations (adb y)) r \<and> (unanswered_since (truncate_time startedAt - interval) r \<longrightarrow> bs_eui r \<notin> Some ` C)"
    if c: "\<forall>k i. afault (envs k) i = Answered \<and> t \<le> now (asql (envs k) i) \<and> set (locked (asql (envs k) i)) \<subseteq> L \<and> C \<subseteq> set (conn i)"
  proof -
    have f: "\<not> (afault (envs k) i \<noteq> Answered \<or> batch \<le> 0)" "\<not> (afault (envs k) i \<noteq> Answered \<or> batch \<le> 0 \<or> interval \<le> 0)" for k i
      using c cfg by auto
    have l: "\<And>k i. set (locked (asql (envs k) i)) \<subseteq> L" and tm: "\<And>k i. t \<le> now (asql (envs k) i)" and cc: "\<And>i. C \<subseteq> set (conn i)"
      using c by auto
    have "\<forall>r\<in>set (dl_rows (adb y1)). row_id r \<notin> L \<longrightarrow> \<not> overdue unheldStatuses t r"
      by (rule loop_clear [OF unheld_sweep.sweep_exhausts [OF s0 r1 f(1)] l]) (rule overdue_later [OF tm])
    note a = since_clear [OF k1 this settled_overdue(1)]
    have "\<forall>r\<in>set (dl_rows (adb y2)). row_id r \<notin> L \<longrightarrow> \<not> orphaned (basestations (adb y)) r"
      by (rule loop_clear [OF orphan_sweep.sweep_exhausts [OF s1 r2 f(1)] l])
    note b = since_clear [OF k2 this settled_overdue(3)]
    have "\<forall>r\<in>set (dl_rows (adb y3)). row_id r \<notin> L \<longrightarrow> \<not> overdue revocableStatuses t r"
      by (rule loop_clear [OF held_sweep.sweep_exhausts [OF s2 r3 f(1)] l]) (rule overdue_later [OF tm])
    note d = since_clear [OF k3 this settled_overdue(2)]
    have "\<exists>k. \<forall>r\<in>set (dl_rows (adb y4)). \<not> ((unanswered_since (truncate_time startedAt - interval) r
        \<and> (\<exists>bs\<in>set (conn k). bs_eui r = Some bs)) \<and> unlocked_at (envs 3) k r)"
      using asking_sweep.sweep_exhausts [OF s3 r4 f(2)] by simp
    from loop_clear [OF this l, of "\<lambda>r. unanswered_since (truncate_time startedAt - interval) r \<and> bs_eui r \<in> Some ` C"] cc
    have "\<forall>r\<in>set (dl_rows (adb y4)). row_id r \<notin> L \<longrightarrow> \<not> (unanswered_since (truncate_time startedAt - interval) r \<and> bs_eui r \<in> Some ` C)"
      by blast
    with a b d show ?thesis by blast
  qed
  moreover have "SweepOnce n envs conn startedAt interval batch y = Some y4" by (simp only: SweepOnce_def r1 r2 r3 r4 Option.bind.simps)
  ultimately show ?thesis by blast
qed

text \<open>Two downlinks past their lifetime, swept in batches of one.\<close>

definition sample_overdue :: answer_sys where
  "sample_overdue = newAnswerSys (fold exec_event
     [(sample_env 1000, Answered, S_Enqueue (sample_downlink 4 1) 60000), (sample_env 1000, Answered, S_Enqueue (sample_downlink 5 2) 60000),
      (sample_env 2000, Answered, S_Reserve_Next 7 0xA1 11),
      (sample_env 3000, Answered, S_Mark_Queued 5 7 11 3000 None (Some (replicate 16 1)))] (newStore [] [11]))"

theorem sweep_ends_and_clears_witness:
  "\<exists>y'. SweepOnce 3 (\<lambda>_. sample_answer_env 90000) (\<lambda>_. [11]) 90000 1000 1 sample_overdue = Some y'
     \<and> (\<forall>r\<in>set (dl_rows (adb y')). \<not> overdue unheldStatuses 90000 r \<and> \<not> overdue revocableStatuses 90000 r)"
proof -
  have "answer_step\<^sup>*\<^sup>* (newAnswerSys (newStore [] [11])) sample_overdue"
    unfolding sample_overdue_def by (rule statements_reached) code_simp
  moreover have "length (dl_rows (adb sample_overdue)) < 3" by code_simp
  ultimately show ?thesis
    using sweep_ends_and_clears [of "[]" "[11]" sample_overdue 1 1000 3 "\<lambda>_. sample_answer_env 90000" "\<lambda>_. [11]" 90000 90000 "{}" "{11}"]
    by (auto simp: sample_answer_env_def sample_env_def)
qed

end
