(* ===== verification/Downlink_Server.thy ===== *)
theory Downlink_Server
  imports Downlink_Answers Session_Registry
begin

text \<open>
  The server's side of downlinks (\<^verbatim>\<open>pkg/bssci/downlink_*.go\<close>): the handlers of a station's answers, which find
  the downlink an operation is about in its recovery record and hand it to the services of
  \<open>Downlink_Answers\<close>; queueing and revoking on behalf of a caller; the downlinks a station is sent when it
  connects; and the choice of the station that serves an endpoint
  (\<^verbatim>\<open>internal/services/bssci/serving_station_policy.go\<close>).

  A session is its journal (\<open>Service_Requests\<close>): runtime state, recovery records and frames. The text of an
  organization's UUID is read by \<open>parseUUID\<close> (\<^verbatim>\<open>uuid.Parse\<close>); the endpoint's location in the database is an
  argument.

  Shown: the answer to a \<^verbatim>\<open>dlDataQue\<close> confirms the row the operation was sent for, repairs a confirmation the
  dispatcher lost and ends the operation; a station never has two revokes of one downlink in flight; a
  revoke ends a waiting downlink in the queue, asks the holder of a held one, and leaves a finished one.
\<close>

section \<open>What an operation is about\<close>

definition endpoint_of :: "FullOperation \<Rightarrow> u64" where
  "endpoint_of op = (case Endpoint op of Some b \<Rightarrow> if length b = 8 then be_uint64 b else 0 | None \<Rightarrow> 0)"

definition metadata_queue :: "gomap \<Rightarrow> i64" where
  "metadata_queue m = (case lookup m ''queId'' of GInt64 v \<Rightarrow> v | GFloat64 f \<Rightarrow> truncate_float f | _ \<Rightarrow> 0)"

definition ExtractQueueMetadata ::
    "(string \<Rightarrow> bytes option) \<Rightarrow> journal \<Rightarrow> i64 \<Rightarrow> u64 \<times> i64 \<times> string \<times> bytes option" where
  "ExtractQueueMetadata parseUUID j opId =
     (case map_of (pendingOps (status j)) (sid j, opId) of
        None \<Rightarrow> (0, 0, [], None)
      | Some op \<Rightarrow>
          (case Metadata op of
             None \<Rightarrow> (endpoint_of op, 0, [], None)
           | Some m \<Rightarrow>
               (endpoint_of op, metadata_queue m,
                case lookup m ''tenantID'' of GString t \<Rightarrow> t | _ \<Rightarrow> [],
                case lookup m ''organizationID'' of GString t \<Rightarrow> parseUUID t | _ \<Rightarrow> None)))"

definition queueOwnerTenant :: "answer_env \<Rightarrow> string \<Rightarrow> i64 \<Rightarrow> answer_sys \<Rightarrow> string option \<times> answer_sys" where
  "queueOwnerTenant env recorded que y = (if recorded \<noteq> [] then (Some recorded, y) else ResolveTenant env 2 que y)"

definition queueIDsOf :: "FullOperation list \<Rightarrow> string \<Rightarrow> i64 list" where
  "queueIDsOf ops command =
     List.map_filter (\<lambda>op.
       if OperationType op \<noteq> command then None
       else case Metadata op of
              None \<Rightarrow> None
            | Some m \<Rightarrow> (case coerceInt64 (lookup m ''queId'') of Inr q \<Rightarrow> Some q | Inl _ \<Rightarrow> None)) ops"

section \<open>Answers to a queue request\<close>

definition recordQueueAcknowledgement ::
    "answer_env \<Rightarrow> (string \<Rightarrow> bytes option) \<Rightarrow> i64 \<Rightarrow> journal \<Rightarrow> i64 \<Rightarrow> answer_sys \<Rightarrow> answer_sys" where
  "recordQueueAcknowledgement env parseUUID sentNow j opId y =
     (case ExtractQueueMetadata parseUUID j opId of (eui, que, recorded, org) \<Rightarrow>
        if sint que \<le> 0 then y
        else case queueOwnerTenant env recorded que y of
               (None, y1) \<Rightarrow> y1
             | (Some owner, y1) \<Rightarrow>
                 (let y2 = snd (ProcessQueueAck env (BaseStationEUI (live j)) sentNow
                             \<lparr>ackQueueID = que, ackOwnerTenant = owner, ackOrganizationID = org\<rparr> y1)
                  in if eui = 0 then y2 else file_event (QueueAckEvent owner eui que opId) y2))"

text \<open>Sending on a session from a handler: the reason it failed, and the session.\<close>

definition reply :: "request_env \<Rightarrow> i64 \<Rightarrow> string \<Rightarrow> gomap \<Rightarrow> journal \<Rightarrow> journal_error option \<times> journal" where
  "reply renv opId command msg j =
     (case send renv opId command msg j of (Written, j') \<Rightarrow> (None, j') | (r, j') \<Rightarrow> (Some (send_error r), j'))"

definition handleDLDataQueueResponse ::
    "answer_env \<Rightarrow> request_env \<Rightarrow> (string \<Rightarrow> bytes option) \<Rightarrow> i64 \<Rightarrow> i64 \<Rightarrow> answer_sys \<Rightarrow> journal \<Rightarrow>
     journal_error option \<times> answer_sys \<times> journal" where
  "handleDLDataQueueResponse env renv parseUUID sentNow opId y j =
     (let y' = recordQueueAcknowledgement env parseUUID sentNow j opId y
      in case reply renv opId CmdDLDataQueueComplete (BuildDLDataQueueComplete opId) j of
           (Some e, j') \<Rightarrow> (Some e, y', j')
         | (None, j') \<Rightarrow> (None, y', remove renv opId j'))"

definition rejectQueuedDownlink ::
    "answer_env \<Rightarrow> (string \<Rightarrow> bytes option) \<Rightarrow> int \<Rightarrow> string \<Rightarrow> journal \<Rightarrow> i64 \<Rightarrow> answer_sys \<Rightarrow> answer_sys" where
  "rejectQueuedDownlink env parseUUID code message j opId y =
     (case ExtractQueueMetadata parseUUID j opId of (eui, que, recorded, _) \<Rightarrow>
        if sint que \<le> 0 then y
        else case queueOwnerTenant env recorded que y of
               (None, y1) \<Rightarrow> y1
             | (Some owner, y1) \<Rightarrow>
                 snd (ProcessQueueError env (BaseStationEUI (live j))
                   \<lparr>rejQueueID = que, rejEndpointEUI = eui, rejOwnerTenant = owner, rejCode = code, rejMessage = message\<rparr> y1))"

section \<open>Answers to a revoke\<close>

record revokeOperation =
  revokedEndpoint :: u64
  revokedQueue :: i64
  revokedTenant :: string

definition recordedQueueID :: "goval \<Rightarrow> i64" where
  "recordedQueueID v =
     (case v of
        GInt64 q \<Rightarrow> q
      | GFloat64 f \<Rightarrow> truncate_float f
      | GUint64 q \<Rightarrow> if uint q > 2 ^ 63 - 1 then 0 else q
      | _ \<Rightarrow> 0)"

definition revokeOperationOf :: "i64 \<Rightarrow> journal \<Rightarrow> i64 \<Rightarrow> revokeOperation" where
  "revokeOperationOf defaultTenant j opId =
     (case GetPendingOperation (session_of j) opId (status j) of
        Inl _ \<Rightarrow> \<lparr>revokedEndpoint = 0, revokedQueue = 0, revokedTenant = []\<rparr>
      | Inr op \<Rightarrow>
          (case Metadata op of
             None \<Rightarrow> \<lparr>revokedEndpoint = endpoint_of op, revokedQueue = 0, revokedTenant = []\<rparr>
           | Some m \<Rightarrow>
               \<lparr>revokedEndpoint = endpoint_of op, revokedQueue = recordedQueueID (lookup m ''queId''),
                revokedTenant =
                  (case lookup m ''tenantID'' of
                     GString t \<Rightarrow> t
                   | _ \<Rightarrow> show_int (sint (if ResolvedTenantID (live j) \<noteq> 0 then ResolvedTenantID (live j) else defaultTenant)))\<rparr>))"

definition recordRevocation :: "revokeOperation \<Rightarrow> i64 \<Rightarrow> bool \<Rightarrow> answer_sys \<Rightarrow> answer_sys" where
  "recordRevocation target opId revoked y =
     (if \<not> revoked \<or> revokedEndpoint target = 0 then y
      else file_event (RevokedEvent (revokedTenant target) (revokedEndpoint target) (revokedQueue target) opId) y)"

definition error_reply :: "request_env \<Rightarrow> i64 \<Rightarrow> journal \<Rightarrow> journal_error option \<times> journal" where
  "error_reply renv opId j =
     (case outcomeOf renv opId of
        Written \<Rightarrow> (None, j\<lparr>wire := wire j @ [(opId, CmdError)], live := registerPendingErrorAck opId errorAckAckOnly (live j)\<rparr>)
      | MaybeWritten \<Rightarrow> (Some FrameAmbiguous, j\<lparr>partial := partial j @ [(opId, CmdError)]\<rparr>)
      | NotWritten \<Rightarrow> (Some FrameNotSent, j))"

definition replacing_error_reply :: "request_env \<Rightarrow> i64 \<Rightarrow> journal \<Rightarrow> journal_error option \<times> journal" where
  "replacing_error_reply renv opId j =
     (case error_reply renv opId j of
        (Some e, j') \<Rightarrow> (Some e, j')
      | (None, j') \<Rightarrow> (None, j'\<lparr>live := registerPendingErrorAck opId errorAckFinalizePendingOperation (live j')\<rparr>))"

definition handleDLDataRevokeResponse ::
    "answer_env \<Rightarrow> request_env \<Rightarrow> i64 \<Rightarrow> i64 \<Rightarrow> answer_sys \<Rightarrow> journal \<Rightarrow> journal_error option \<times> answer_sys \<times> journal" where
  "handleDLDataRevokeResponse env renv defaultTenant opId y j =
     (let target = revokeOperationOf defaultTenant j opId
      in if revokedQueue target = 0
         then (case replacing_error_reply renv opId j of (e, j') \<Rightarrow> (e, y, j'))
         else case ProcessRevokeResponse env (BaseStationEUI (live j)) opId (revokedQueue target) y of
                (Inl _, y1) \<Rightarrow> (case replacing_error_reply renv opId j of (e, j') \<Rightarrow> (e, y1, j'))
              | (Inr (msg, revoked), y1) \<Rightarrow>
                  (let y2 = recordRevocation target opId revoked y1
                   in case reply renv opId CmdDLDataRevokeComplete msg j of
                        (Some e, j') \<Rightarrow> (Some e, y2, j')
                      | (None, j') \<Rightarrow> (None, y2, remove renv opId j')))"

definition recordRevokeRefusal ::
    "answer_env \<Rightarrow> int list \<Rightarrow> i64 \<Rightarrow> int \<Rightarrow> journal \<Rightarrow> i64 \<Rightarrow> answer_sys \<Rightarrow> answer_sys" where
  "recordRevokeRefusal env notHeldCodes defaultTenant code j opId y =
     (let target = revokeOperationOf defaultTenant j opId
      in if sint (revokedQueue target) \<le> 0 then y
         else case ProcessRevokeRefusal env notHeldCodes (BaseStationEUI (live j)) (revokedQueue target) code y of
                (Inl _, y1) \<Rightarrow> y1
              | (Inr revoked, y1) \<Rightarrow> recordRevocation target opId revoked y1)"

section \<open>Results\<close>

text \<open>The payload was normalized before: its fields have their types.\<close>

definition result_of :: "i64 \<Rightarrow> gomap \<Rightarrow> DLDataResult" where
  "result_of opId data =
     \<lparr>resOpId = opId,
      resEpEui = (case lookup data ''epEui'' of GUint64 v \<Rightarrow> v | _ \<Rightarrow> 0),
      resQueId = (case lookup data ''queId'' of GUint64 v \<Rightarrow> v | _ \<Rightarrow> 0),
      resResult = (case lookup data ''result'' of GString t \<Rightarrow> t | _ \<Rightarrow> []),
      resTxTime = (case lookup data ''txTime'' of GInt64 v \<Rightarrow> Some v | _ \<Rightarrow> None),
      resPacketCnt = (case lookup data ''packetCnt'' of GUint32 v \<Rightarrow> Some v | _ \<Rightarrow> None),
      resBsEui = None\<rparr>"

definition handleDLDataResult ::
    "answer_env \<Rightarrow> request_env \<Rightarrow> i64 \<Rightarrow> gomap \<Rightarrow> answer_sys \<Rightarrow> journal \<Rightarrow> journal_error option \<times> answer_sys \<times> journal" where
  "handleDLDataResult env renv opId data y j =
     (case ProcessDLDataResult env (BaseStationEUI (live j)) (result_of opId data) y of
        (Inl _, y1) \<Rightarrow> (case error_reply renv opId j of (e, j') \<Rightarrow> (e, y1, j'))
      | (Inr msg, y1) \<Rightarrow> (case reply renv opId CmdDLDataResultResponse msg j of (e, j') \<Rightarrow> (e, y1, j')))"

section \<open>The station that serves an endpoint\<close>

record EndpointLocation =
  LatestReceptions :: "(u64 \<times> rat) list"
  AttachedThrough :: u64

fun better_reception :: "(u64 \<times> rat) \<Rightarrow> (u64 \<times> rat) list \<Rightarrow> u64 \<times> rat" where
  "better_reception b [] = b"
| "better_reception b (r # rs) = better_reception (if snd r > snd b then r else b) rs"

definition bestReception :: "(u64 \<times> rat) list \<Rightarrow> (u64 \<times> rat) option" where
  "bestReception rs = (case rs of [] \<Rightarrow> None | r # rest \<Rightarrow> Some (better_reception r rest))"

definition ServingStation :: "EndpointLocation \<Rightarrow> u64 option" where
  "ServingStation l =
     (case bestReception (LatestReceptions l) of
        Some b \<Rightarrow> Some (fst b)
      | None \<Rightarrow> if AttachedThrough l \<noteq> 0 then Some (AttachedThrough l) else None)"

datatype scheduler_error =
    ErrSchedulerNoResources | ErrSchedulerResourceMissing | ErrSchedulerQueueNotFound | ErrPayloadTooLarge
  | ErrQueueIDOutOfRange | ErrLookupFailed | ErrDispatch dispatch_error | ErrDatabase | ErrDownlinkIdentity
  | ErrRevokeSend journal_error

type_synonym live_sessions = "(string \<times> journal) list"

definition by_station :: "u64 \<Rightarrow> (Session \<Rightarrow> bool) \<Rightarrow> live_sessions \<Rightarrow> (string \<times> journal) option" where
  "by_station bs accept js = find (\<lambda>(i, j). BaseStationEUI (live j) = bs \<and> accept (live j)) js"

definition servingSession :: "(store_error + EndpointLocation) \<Rightarrow> live_sessions \<Rightarrow> scheduler_error + string \<times> journal" where
  "servingSession location js =
     (case location of
        Inl ErrNotFound \<Rightarrow> Inl ErrSchedulerResourceMissing
      | Inl _ \<Rightarrow> Inl ErrLookupFailed
      | Inr l \<Rightarrow>
          (case ServingStation l of
             None \<Rightarrow> Inl ErrSchedulerNoResources
           | Some bs \<Rightarrow>
               (case by_station bs (\<lambda>x. HandshakeComplete x \<and> Bidirectional x) js of
                  None \<Rightarrow> Inl ErrSchedulerNoResources
                | Some s \<Rightarrow> Inr s)))"

definition QueueDownlink ::
    "dispatch_env \<Rightarrow> (store_error + EndpointLocation) \<Rightarrow> bytes list \<Rightarrow> u64 \<Rightarrow> u64 \<Rightarrow> i64 \<Rightarrow> bytes \<Rightarrow> dl_store \<Rightarrow> live_sessions \<Rightarrow>
     (scheduler_error + u64 \<times> u64) \<times> dl_store \<times> live_sessions" where
  "QueueDownlink env location entries que eui tenant org s js =
     (if validatePayloadSizes entries \<noteq> None then (Inl ErrPayloadTooLarge, s, js)
      else if uint que > 2 ^ 63 - 1 then (Inl ErrQueueIDOutOfRange, s, js)
      else case servingSession location js of
             Inl e \<Rightarrow> (Inl e, s, js)
           | Inr (i, j) \<Rightarrow>
               (case DispatchQueue env tenant org que eui s j of
                  ((_, Some e), s', j') \<Rightarrow> (Inl (ErrDispatch e), s', AList.update i j' js)
                | ((False, None), s', j') \<Rightarrow> (Inl ErrSchedulerQueueNotFound, s', AList.update i j' js)
                | ((True, None), s', j') \<Rightarrow> (Inr (que, BaseStationEUI (live j)), s', AList.update i j' js)))"

section \<open>Revoking\<close>

text \<open>\<open>claimed\<close> are the queue ids for which another sender is about to ask the session's station.\<close>

definition revokeAtHolder ::
    "request_env \<Rightarrow> (string \<Rightarrow> i64 list) \<Rightarrow> DownlinkMessage \<Rightarrow> i64 \<Rightarrow> live_sessions \<Rightarrow> scheduler_error option \<times> live_sessions" where
  "revokeAtHolder renv claimed d tenant js =
     (case ParseEUI (EPEUI d) of
        Inl _ \<Rightarrow> (Some ErrDownlinkIdentity, js)
      | Inr eui \<Rightarrow>
          (case WireQueueID d of
             None \<Rightarrow> (Some ErrDownlinkIdentity, js)
           | Some que \<Rightarrow>
               (case by_station (BsEui d) (\<lambda>_. True) js of
                  None \<Rightarrow> (Some ErrSchedulerResourceMissing, js)
                | Some (i, j) \<Rightarrow>
                    if MsgQueID d \<in> set (claimed i) then (None, js)
                    else if MsgQueID d \<in> set (queueIDsOf (SessionOperations (session_of j) (status j)) CmdDLDataRevoke) then (None, js)
                    else case SendDLDataRevoke renv eui que tenant j of
                           (Some e, j') \<Rightarrow> (Some (ErrRevokeSend e), AList.update i j' js)
                         | (None, j') \<Rightarrow> (None, AList.update i j' js))))"

definition RevokeHeldDownlink ::
    "request_env \<Rightarrow> (string \<Rightarrow> i64 list) \<Rightarrow> DownlinkMessage \<Rightarrow> live_sessions \<Rightarrow> scheduler_error option \<times> live_sessions" where
  "RevokeHeldDownlink renv claimed d js =
     (case ParseInt (TenantID d) of
        None \<Rightarrow> (Some ErrDownlinkIdentity, js)
      | Some tenant \<Rightarrow> revokeAtHolder renv claimed d tenant js)"

definition askAgainToDrop ::
    "request_env \<Rightarrow> (string \<Rightarrow> i64 list) \<Rightarrow> u64 \<Rightarrow> dl_store \<Rightarrow> live_sessions \<Rightarrow> live_sessions" where
  "askAgainToDrop renv claimed bs s js =
     fold (\<lambda>d js'. snd (RevokeHeldDownlink renv claimed d js')) (ListStationRevocations bs s) js"

record DownlinkRef =
  refQueID :: u64
  refTenantID :: i64
  refOrganizationID :: "bytes option"
  refEpEUI :: "u64 option"

text \<open>The row as \<^verbatim>\<open>GetDownlinkByRevocation\<close> reads it.\<close>

definition downlinkIn :: "downlink_row \<Rightarrow> DownlinkMessage" where
  "downlinkIn r = applyDownlinkUserData (user_data r)
     (zeroMessage\<lparr>MsgID := row_id r, EPEUI := FormatEUIBytes (EUI64Bytes (ep_eui r)), BsEui := (case bs_eui r of None \<Rightarrow> 0 | Some b \<Rightarrow> b),
       MsgQueID := que_id r, ACQueID := ac_que_id r, ACEUI := ac_eui r, TenantID := show_int (sint (tenant_id r)),
       MsgOrganizationID := organization_id r, MsgStatus := Some (dl_status r), DlRxStatQry := dl_rx_stat_qry r,
       MsgPayload := payload r, CntDepend := cnt_depend r, PacketCntArray := packet_cnt r\<rparr>)"

definition revocation_of :: "DownlinkRef \<Rightarrow> DownlinkRevocation" where
  "revocation_of ref = \<lparr>revQueID = refQueID ref, revTenantID = refTenantID ref, revOrganizationID = refOrganizationID ref,
     revEpEUI = refEpEUI ref, Station = None\<rparr>"

text \<open>\<^verbatim>\<open>Server.RevokeDownlink\<close>; statement 0 is the revoke in the queue, 1 the reading of the row.\<close>

definition server_RevokeDownlink ::
    "answer_env \<Rightarrow> request_env \<Rightarrow> (string \<Rightarrow> i64 list) \<Rightarrow> DownlinkRef \<Rightarrow> answer_sys \<Rightarrow> live_sessions \<Rightarrow>
     (scheduler_error + u64) \<times> answer_sys \<times> live_sessions" where
  "server_RevokeDownlink env renv claimed ref y js =
     (if uint (refQueID ref) > 2 ^ 63 - 1 then (Inl ErrSchedulerQueueNotFound, y, js)
      else let v = revocation_of ref
           in case run_stmt env 0 (\<lambda>e. RevokeDownlink e v) y of
                (Inl _, y1) \<Rightarrow> (Inl ErrDatabase, y1, js)
              | (Inr True, y1) \<Rightarrow>
                  (Inr 0, (case (if afault env 1 = Answered then GetDownlinkByRevocation v (adb y1) else None) of
                             None \<Rightarrow> y1 | Some r \<Rightarrow> file_event (QueueRevokedEvent r) y1), js)
              | (Inr False, y1) \<Rightarrow>
                  if afault env 1 \<noteq> Answered then (Inl ErrDatabase, y1, js)
                  else case GetDownlinkByRevocation v (adb y1) of
                         None \<Rightarrow> (Inl ErrSchedulerQueueNotFound, y1, js)
                       | Some r \<Rightarrow>
                           if Terminal (dl_status r) then (Inl ErrSchedulerQueueNotFound, y1, js)
                           else case revokeAtHolder renv claimed (downlinkIn r) (refTenantID ref) js of
                                  (Some e, js') \<Rightarrow> (Inl e, y1, js')
                                | (None, js') \<Rightarrow> (Inr (BsEui (downlinkIn r)), y1, js'))"

section \<open>Downlinks sent on connect\<close>

definition stationServes :: "(store_error + EndpointLocation) \<Rightarrow> u64 \<Rightarrow> bool" where
  "stationServes location bs = (case location of Inl _ \<Rightarrow> False | Inr l \<Rightarrow> ServingStation l = Some bs)"

definition servedDownlinks ::
    "sql_env \<Rightarrow> fault \<Rightarrow> (i64 \<Rightarrow> u64 \<Rightarrow> store_error + EndpointLocation) \<Rightarrow> Session \<Rightarrow> dl_store \<Rightarrow> downlink_row list" where
  "servedDownlinks e f locate x s =
     (if \<not> Bidirectional x \<or> f \<noteq> Answered then []
      else filter (\<lambda>r. stationServes (locate (tenant_id r) (ep_eui r)) (BaseStationEUI x)) (ListPendingDownlinks e s))"

definition dispatchAheadOfWindow :: "dispatch_env \<Rightarrow> downlink_row \<Rightarrow> dl_store \<times> journal \<Rightarrow> dl_store \<times> journal" where
  "dispatchAheadOfWindow env r sj =
     snd (DispatchQueue env (tenant_id r) (case organization_id r of None \<Rightarrow> uuidNil | Some g \<Rightarrow> g) (que_id r) (ep_eui r) (fst sj) (snd sj))"

text \<open>The part of \<^verbatim>\<open>settleConnectedStation\<close> about downlinks; each dispatch has its own environment.\<close>

fun settleServed :: "(nat \<Rightarrow> dispatch_env) \<Rightarrow> nat \<Rightarrow> downlink_row list \<Rightarrow> dl_store \<times> journal \<Rightarrow> dl_store \<times> journal" where
  "settleServed env n [] sj = sj"
| "settleServed env n (r # rs) sj = settleServed env (Suc n) rs (dispatchAheadOfWindow (env n) r sj)"


section \<open>The record of a queue request\<close>

text \<open>A sent \<^verbatim>\<open>dlDataQue\<close> left its operation in the cache, under the last operation ID.\<close>

definition queue_operation :: "u64 \<Rightarrow> i64 \<Rightarrow> dlDataQueueRequest \<Rightarrow> FullOperation" where
  "queue_operation bs i req =
     build i CmdDLDataQueue (dlDataQueueMessage i req) (Some (EUI64Bytes (epEui req))) (Some (dlDataQueueMetadata bs req))"

lemma persist_cached:
  "persist env i ty msg eui metadata j = (None, j') \<Longrightarrow>
     j' = j\<lparr>status := status j'\<rparr> \<and> map_of (pendingOps (status j')) (sid j, i) = Some (build i ty msg eui metadata)"
  by (auto simp: persist_def RecordPendingOperation_def session_of_def cache_put_def
      split: if_splits option.splits prod.splits)

lemma persistBatch_cached:
  "persistBatch env [a, b] j = (None, j') \<Longrightarrow>
     j' = j\<lparr>status := status j'\<rparr> \<and> map_of (pendingOps (status j')) (sid j, OperationID b) = Some b"
  by (auto simp: persistBatch_def RecordPendingOperations_def session_of_def cache_put_def split: if_splits option.splits prod.splits)


definition same_session :: "journal \<Rightarrow> journal \<Rightarrow> bool" where
  "same_session j j' \<longleftrightarrow> sid j' = sid j \<and> BaseStationEUI (live j') = BaseStationEUI (live j) \<and> DbSessionID (live j') = DbSessionID (live j)"

lemma allocate_same: "allocate j = (i, j') \<Longrightarrow> same_session j j'"
  by (auto simp: allocate_def NextScOpID_def same_session_def)

lemma counters_same: "UpdateSessionCounters ok j = (e, j') \<Longrightarrow> same_session j j'"
  by (auto simp: UpdateSessionCounters_def same_session_def split: if_splits option.splits)

lemma queue_persist_cached:
  assumes "persistDLDataQueue env req pair j = (Inr ops, j')"
  shows "same_session j j' \<and> map_of (pendingOps (status j')) (sid j, queueID ops) = Some (queue_operation (BaseStationEUI (live j)) (queueID ops) req)"
proof -
  obtain q j1 where a1: "(if pair then allocate j else (0, j)) = (q, j1)" by force
  obtain i j2 where a2: "allocate j1 = (i, j2)" by force
  obtain e3 j3 where u: "UpdateSessionCounters (countersOk env) j2 = (e3, j3)" by force
  have s1: "same_session j j1" using a1 allocate_same by (cases pair) (auto simp: same_session_def)
  have s3: "same_session j j3" using s1 allocate_same [OF a2] counters_same [OF u] by (simp add: same_session_def)
  let ?op = "queue_operation (BaseStationEUI (live j)) i req"
  from assms a1 a2 u have e3: "e3 = None" and ops: "ops = \<lparr>queueID = i, queryID = q, paired = pair\<rparr>"
    and p: "(if pair then \<exists>a. persistBatch env [a, ?op] j3 = (None, j')
       else persist env i CmdDLDataQueue (dlDataQueueMessage i req) (Some (EUI64Bytes (epEui req)))
              (Some (dlDataQueueMetadata (BaseStationEUI (live j)) req)) j3 = (None, j'))"
    by (auto simp: persistDLDataQueue_def queue_operation_def Let_def split: option.splits prod.splits if_splits)
  have id: "OperationID ?op = i" by (simp add: queue_operation_def build_def)
  have "j' = j3\<lparr>status := status j'\<rparr> \<and> map_of (pendingOps (status j')) (sid j3, i) = Some ?op"
  proof (cases pair)
    case True
    with p obtain a where "persistBatch env [a, ?op] j3 = (None, j')" by auto
    from persistBatch_cached [OF this] show ?thesis by (simp add: id)
  next
    case False
    with p have "persist env i CmdDLDataQueue (dlDataQueueMessage i req) (Some (EUI64Bytes (epEui req)))
        (Some (dlDataQueueMetadata (BaseStationEUI (live j)) req)) j3 = (None, j')" by simp
    from persist_cached [OF this] show ?thesis by (simp add: queue_operation_def)
  qed
  moreover from this have "j' = j3\<lparr>status := status j'\<rparr>" by blast
  then have "same_session j3 j'" by (rule ssubst) (simp add: same_session_def)
  ultimately show ?thesis using s3 ops by (auto simp: same_session_def)
qed

lemma send_status: "send env i c msg j = (r, j') \<Longrightarrow> status j' = status j \<and> same_session j j'"
  by (auto simp: send_def same_session_def split: if_splits send_outcome.splits)

lemma queue_sent_cached:
  assumes "SendDLDataQueue env req pair j = (None, j')"
  obtains i where "wire j' \<noteq> []" "last (wire j') = (i, CmdDLDataQueue)" "same_session j j'"
    "map_of (pendingOps (status j')) (sid j', i) = Some (queue_operation (BaseStationEUI (live j')) i req)"
proof -
  from assms obtain ops j1 where p: "persistDLDataQueue env req pair j = (Inr ops, j1)"
    and w: "writeDLDataQueue env req ops j1 = (None, j')"
    by (auto simp: SendDLDataQueue_def split: option.splits sum.splits prod.splits)
  note c = queue_persist_cached [OF p]
  from w obtain o1 j2 where s1: "(if paired ops then send env (queryID ops) CmdDLRxStatusQuery (dlRxStatusQueryMessage (queryID ops) (epEui req)) j1
        else (Written, j1)) = (o1, j2)"
    and s2: "send env (queueID ops) CmdDLDataQueue (dlDataQueueMessage (queueID ops) req) j2 = (Written, j')"
    by (auto simp: writeDLDataQueue_def Let_def split: prod.splits send_outcome.splits if_splits)
  have "status j2 = status j1 \<and> same_session j1 j2"
    using s1 send_status by (cases "paired ops") (auto simp: same_session_def)
  with c send_status [OF s2] have "same_session j j'"
    "map_of (pendingOps (status j')) (sid j', queueID ops) = Some (queue_operation (BaseStationEUI (live j')) (queueID ops) req)"
    by (auto simp: same_session_def)
  moreover have "wire j' = wire j2 @ [(queueID ops, CmdDLDataQueue)]"
    using s2 by (auto simp: send_def split: if_splits send_outcome.splits)
  ultimately show ?thesis by (intro that [of "queueID ops"]) simp_all
qed

lemma extracted:
  assumes "map_of (pendingOps (status j)) (sid j, i) = Some (queue_operation bs i req)"
  shows "ExtractQueueMetadata parseUUID j i =
    (epEui req, queId req, show_int (sint (tenantID req)), case orgID req of None \<Rightarrow> None | Some g \<Rightarrow> parseUUID g)"
  using assms
  by (simp add: ExtractQueueMetadata_def queue_operation_def build_def endpoint_of_def metadata_queue_def dlDataQueueMetadata_def lookup_def
      split: option.split)


lemma run_answered:
  "afault env i = Answered \<Longrightarrow> run_stmt env i op y = (case op (asql env i) (adb y) of (r, s) \<Rightarrow> (r, y\<lparr>adb := s\<rparr>))"
  by (simp add: run_stmt_def attempt_def)

lemma accept_rows:
  "dl_rows (snd (UpdateDownlinkBaseStation e que t bs s)) =
     map (\<lambda>r. if que_id r = que \<and> tenant_id r = t \<and> held_by bs r then r\<lparr>acknowledged_at := Some (now e), updated_at := now e\<rparr> else r) (dl_rows s)"
  by (auto simp: UpdateDownlinkBaseStation_def update_rows_def split: list.splits)

lemma confirm_rows:
  "dl_rows (snd (markReservedAsQueued e que t bs tx cnt org s)) =
     map (\<lambda>r. if que_id r = que \<and> tenant_id r = t \<and> dl_status r = DLQueueStatusReserved \<and> bs_eui r = Some bs \<and> in_organization org r
       then r\<lparr>dl_status := DLQueueStatusQueued, transmission_time := Some tx, transmission_packet_cnt := map_option ucast cnt,
              tx_time := Some tx, updated_at := now e\<rparr> else r) (dl_rows s)"
  by (auto simp: markReservedAsQueued_def update_rows_def split: list.splits option.splits)

lemma ack_confirms:
  assumes f: "afault env 0 = Answered" "afault env 1 = Answered"
    and r: "r \<in> set (dl_rows (adb y))" "bs_eui r = Some bs" "dl_status r \<in> {DLQueueStatusReserved, DLQueueStatusQueued}"
    and a: "queueOwner (ackQueueID ack) (ackOwnerTenant ack) = Some (que_id r, tenant_id r)" "in_organization (ackOrganizationID ack) r"
  shows "\<exists>r'\<in>set (dl_rows (adb (snd (ProcessQueueAck env bs t ack y)))).
    same_identity r r' \<and> bs_eui r' = Some bs \<and> dl_status r' = DLQueueStatusQueued \<and> acknowledged_at r' \<noteq> None"
proof -
  let ?s1 = "snd (UpdateDownlinkBaseStation (asql env 0) (que_id r) (tenant_id r) bs (adb y))"
  let ?s2 = "snd (markReservedAsQueued (asql env 1) (que_id r) (tenant_id r) bs t None (ackOrganizationID ack) ?s1)"
  have s: "adb (snd (ProcessQueueAck env bs t ack y)) = ?s2"
    using f a(1) by (simp add: ProcessQueueAck_def run_answered split: prod.split)
  let ?r1 = "r\<lparr>acknowledged_at := Some (now (asql env 0)), updated_at := now (asql env 0)\<rparr>"
  have h: "held_by bs r" using r(2, 3) by (auto simp: held_by_def heldStatuses_def)
  then have "?r1 \<in> set (dl_rows ?s1)" unfolding accept_rows set_map by (intro image_eqI [OF _ r(1)]) simp
  then have "\<exists>r'\<in>set (dl_rows ?s2). same_identity ?r1 r' \<and> bs_eui r' = Some bs \<and> dl_status r' = DLQueueStatusQueued \<and> acknowledged_at r' \<noteq> None"
    unfolding confirm_rows set_map
    by (intro bexI [OF _ imageI]) (use r(2, 3) a(2) in \<open>auto simp: same_identity_def in_organization_def split: option.splits\<close>)
  then show ?thesis unfolding s by (auto simp: same_identity_def)
qed

lemma complete_rows:
  "AllowedOutboundFields CmdDLDataQueueComplete = Some []" "demanded CmdDLDataQueueComplete = []"
  by code_simp+

lemma complete_valid: "validateOutboundMessage (BuildDLDataQueueComplete i) = None"
  by (rule validate_known [of _ CmdDLDataQueueComplete i, OF _ _ complete_rows(1)])
    (simp_all add: BuildDLDataQueueComplete_def envelope_def complete_rows)

lemma removed_operation:
  "removeOk renv i \<Longrightarrow> map_of (pendingOps (status (remove renv i j))) (sid j, i) = None \<and> \<not> in_table (remove renv i j) i c
     \<and> wire (remove renv i j) = wire j"
  by (simp add: remove_def RemovePendingOperation_def PendingOperationRepository_def session_of_def in_table_def session_rows_def
      delete_operation_def)

text \<open>
  C8. The answer to a \<^verbatim>\<open>dlDataQue\<close> settles the downlink it was sent for: the operation names the row, its tenant
  and its organization, so the row is confirmed queued at the station, accepted by it, also when the
  dispatcher's own confirmation was lost; the completion goes out and the operation leaves no record.
\<close>

theorem queue_answer_settles_downlink:
  assumes sent: "SendDLDataQueue renv (queue_request denv tenant eui dl) pair j0 = (None, j)" and i: "last (wire j) = (i, c)"
    and dl: "MsgOrganizationID dl = Some g" "parseUUID (uuidText denv g) = Some g" "0 < sint (MsgQueID dl)"
    and r: "r \<in> set (dl_rows (adb y))" "que_id r = MsgQueID dl" "tenant_id r = tenant" "organization_id r = Some g"
      "bs_eui r = Some (BaseStationEUI (live j))" "dl_status r \<in> {DLQueueStatusReserved, DLQueueStatusQueued}"
    and ok: "afault env 0 = Answered" "afault env 1 = Answered" "outcomeOf renv' i = Written" "removeOk renv' i"
  shows "\<exists>y' j'. handleDLDataQueueResponse env renv' parseUUID t i y j = (None, y', j')
    \<and> (\<exists>r'\<in>set (dl_rows (adb y')). same_identity r r' \<and> bs_eui r' = bs_eui r \<and> dl_status r' = DLQueueStatusQueued \<and> acknowledged_at r' \<noteq> None)
    \<and> wire j' = wire j @ [(i, CmdDLDataQueueComplete)]
    \<and> map_of (pendingOps (status j')) (sid j, i) = None \<and> \<not> in_table j' i CmdDLDataQueue"
proof -
  from sent obtain k where k: "last (wire j) = (k, CmdDLDataQueue)"
    "map_of (pendingOps (status j)) (sid j, k) = Some (queue_operation (BaseStationEUI (live j)) k (queue_request denv tenant eui dl))"
    by (rule queue_sent_cached)
  with i have "map_of (pendingOps (status j)) (sid j, i) = Some (queue_operation (BaseStationEUI (live j)) i (queue_request denv tenant eui dl))"
    by simp
  note x = extracted [OF this, of parseUUID]
  let ?ack = "\<lparr>ackQueueID = MsgQueID dl, ackOwnerTenant = show_int (sint tenant), ackOrganizationID = Some g\<rparr>"
  let ?y = "recordQueueAcknowledgement env parseUUID t j i y"
  have own: "queueOwner (ackQueueID ?ack) (ackOwnerTenant ?ack) = Some (que_id r, tenant_id r)"
    using dl(3) r(2, 3) by (simp add: queueOwner_def)
  have t: "show_int (sint tenant) \<noteq> []" by (simp add: show_int_def)
  have "adb ?y = adb (snd (ProcessQueueAck env (BaseStationEUI (live j)) t ?ack y))"
    using x dl t by (simp add: recordQueueAcknowledgement_def queue_request_def queueOwnerTenant_def Let_def file_event_def)
  moreover have "\<exists>r'\<in>set (dl_rows (adb (snd (ProcessQueueAck env (BaseStationEUI (live j)) t ?ack y)))). same_identity r r'
      \<and> bs_eui r' = Some (BaseStationEUI (live j)) \<and> dl_status r' = DLQueueStatusQueued \<and> acknowledged_at r' \<noteq> None"
    by (rule ack_confirms [OF ok(1, 2) r(1, 5, 6) own]) (simp add: r(4) in_organization_def)
  moreover have "reply renv' i CmdDLDataQueueComplete (BuildDLDataQueueComplete i) j = (None, j\<lparr>wire := wire j @ [(i, CmdDLDataQueueComplete)]\<rparr>)"
    using ok(3) by (simp add: reply_def send_def complete_valid)
  ultimately show ?thesis
    using removed_operation [OF ok(4), of "j\<lparr>wire := wire j @ [(i, CmdDLDataQueueComplete)]\<rparr>"] r(5)
    by (simp add: handleDLDataQueueResponse_def Let_def)
qed


text \<open>Downlink 4 of station 1 is reserved; its \<^verbatim>\<open>dlDataQue\<close> went out and the dispatcher's confirmation was lost.\<close>

definition sample_reserved :: answer_sys where
  "sample_reserved = \<lparr>adb = fold exec_event
      [(sample_env 1000, Answered, S_Enqueue (sample_downlink 4 1) 60000), (sample_env 2000, Answered, S_Reserve_Next 7 0xA1 0)]
      (newStore [] [0]), queueTenants = [], notices = [], ownerEvents = [], askedToDrop = []\<rparr>"

definition sample_queued :: journal where
  "sample_queued = snd (SendDLDataQueue (request_env.truncate demo_env)
     (queue_request sample_dispatch_env 7 0xA1 (scanDownlinkQueueRow (hd (dl_rows (adb sample_reserved))))) False demo_journal)"

definition calm_env :: "int \<Rightarrow> answer_env" where
  "calm_env t = \<lparr>asql = (\<lambda>_. sample_env t), afault = (\<lambda>_. Answered)\<rparr>"

theorem queue_answer_settles_downlink_witness:
  "\<exists>y' j'. handleDLDataQueueResponse (calm_env 4000) (request_env.truncate demo_env) (\<lambda>_. Some (replicate 16 1)) 4000 (-1) sample_reserved sample_queued
      = (None, y', j') \<and> (\<exists>r\<in>set (dl_rows (adb y')). que_id r = 4 \<and> dl_status r = DLQueueStatusQueued \<and> acknowledged_at r \<noteq> None)
    \<and> wire j' = [(-1, CmdDLDataQueue), (-1, CmdDLDataQueueComplete)]"
proof -
  let ?r = "hd (dl_rows (adb sample_reserved))"
  let ?send = "SendDLDataQueue (request_env.truncate demo_env) (queue_request sample_dispatch_env 7 0xA1 (scanDownlinkQueueRow ?r)) False demo_journal"
  have "fst ?send = None" by code_simp
  then have sent: "?send = (None, sample_queued)" by (simp add: sample_queued_def prod_eq_iff)
  have w: "wire sample_queued = [(-1, CmdDLDataQueue)]" by code_simp
  have f: "(que_id ?r, tenant_id ?r, organization_id ?r, bs_eui ?r, dl_status ?r) = (4, 7, Some (replicate 16 1), Some 0, DLQueueStatusReserved)"
    "BaseStationEUI (live sample_queued) = 0" "dl_rows (adb sample_reserved) \<noteq> []" by code_simp+
  have sc: "MsgOrganizationID (scanDownlinkQueueRow ?r) = organization_id ?r" "MsgQueID (scanDownlinkQueueRow ?r) = que_id ?r"
    by (auto simp: scanDownlinkQueueRow_def applyDownlinkUserData_def)
  have r: "?r \<in> set (dl_rows (adb sample_reserved))" "que_id ?r = MsgQueID (scanDownlinkQueueRow ?r)" "tenant_id ?r = 7"
    "organization_id ?r = Some (replicate 16 1)" "bs_eui ?r = Some (BaseStationEUI (live sample_queued))"
    "dl_status ?r \<in> {DLQueueStatusReserved, DLQueueStatusQueued}"
    using f sc by simp_all
  have i: "last (wire sample_queued) = (-1, CmdDLDataQueue)" using w by simp
  have dl: "MsgOrganizationID (scanDownlinkQueueRow ?r) = Some (replicate 16 1)" "0 < sint (MsgQueID (scanDownlinkQueueRow ?r))"
    using f sc by simp_all
  have ok: "afault (calm_env 4000) k = Answered" "outcomeOf (request_env.truncate demo_env) (-1) = Written"
    "removeOk (request_env.truncate demo_env) (-1)" for k
    by (simp_all add: calm_env_def demo_env_def request_env.truncate_def)
  from queue_answer_settles_downlink [OF sent i dl(1) refl dl(2) r ok(1) ok(1) ok(2, 3), of 4000]
  obtain y' j' r' where "handleDLDataQueueResponse (calm_env 4000) (request_env.truncate demo_env) (\<lambda>_. Some (replicate 16 1)) 4000 (-1)
        sample_reserved sample_queued = (None, y', j')" "r' \<in> set (dl_rows (adb y'))" "same_identity ?r r'"
      "dl_status r' = DLQueueStatusQueued" "acknowledged_at r' \<noteq> None" "wire j' = wire sample_queued @ [(-1, CmdDLDataQueueComplete)]"
    by blast
  moreover from this have "que_id r' = 4" using f by (simp add: same_identity_def)
  ultimately show ?thesis using w by fastforce
qed

section \<open>One revoke in flight\<close>

definition revoke_ids :: "journal \<Rightarrow> i64 list" where
  "revoke_ids j = queueIDsOf (SessionOperations (session_of j) (status j)) CmdDLDataRevoke"

definition revoke_entry :: "string \<Rightarrow> (string \<times> i64) \<times> FullOperation \<Rightarrow> i64 option" where
  "revoke_entry s e =
     (if fst (fst e) \<noteq> s \<or> OperationType (snd e) \<noteq> CmdDLDataRevoke then None
      else case Metadata (snd e) of
             None \<Rightarrow> None
           | Some m \<Rightarrow> (case coerceInt64 (lookup m ''queId'') of Inr q \<Rightarrow> Some q | Inl _ \<Rightarrow> None))"

lemma revoke_ids_entries: "revoke_ids j = List.map_filter (revoke_entry (sid j)) (pendingOps (status j))"
proof -
  have "queueIDsOf (map snd (filter (\<lambda>e. fst (fst e) = s) l)) CmdDLDataRevoke = List.map_filter (revoke_entry s) l" for s l
    by (induction l) (auto simp: queueIDsOf_def revoke_entry_def List.map_filter_def split: option.split)
  then show ?thesis by (simp add: revoke_ids_def SessionOperations_def session_of_def)
qed

lemma update_entries:
  assumes "distinct (List.map_filter g l)" "g (k, v) = Some x" "x \<notin> set (List.map_filter g l)"
  shows "distinct (List.map_filter g (AList.update k v l)) \<and> set (List.map_filter g (AList.update k v l)) \<subseteq> insert x (set (List.map_filter g l))"
  using assms by (induction l) (auto simp: List.map_filter_def split: if_splits option.splits)

lemma delete_entries:
  "distinct (List.map_filter g l) \<Longrightarrow> distinct (List.map_filter g (AList.delete k l))
     \<and> set (List.map_filter g (AList.delete k l)) \<subseteq> set (List.map_filter g l)"
  by (induction l) (auto simp: List.map_filter_def split: if_splits option.splits)

lemma begin_entries: "begin_op env j = (x, j') \<Longrightarrow> status j' = status j \<and> sid j' = sid j"
  by (auto simp: begin_op_def allocate_def UpdateSessionCounters_def split: prod.splits option.splits if_splits)

lemma persist_revoke_entries:
  assumes "persist env i CmdDLDataRevoke msg eui (Some (dlDataRevMetadata bs ep que t)) j = (e, j')"
    and "distinct (revoke_ids j)" "que \<notin> set (revoke_ids j)" "0 < sint que"
  shows "distinct (revoke_ids j') \<and> sid j' = sid j"
proof (cases e)
  case (Some a)
  then have "pendingOps (status j') = pendingOps (status j)" "sid j' = sid j"
    using assms(1) by (auto simp: persist_def RecordPendingOperation_def split: if_splits option.splits prod.splits)
  then show ?thesis using assms(2) by (simp add: revoke_ids_entries)
next
  case None
  let ?op = "build i CmdDLDataRevoke msg eui (Some (dlDataRevMetadata bs ep que t))"
  from None assms(1) have u: "pendingOps (status j') = AList.update (sid j, i) ?op (pendingOps (status j))" "sid j' = sid j"
    by (auto simp: persist_def RecordPendingOperation_def session_of_def cache_put_def split: if_splits option.splits prod.splits)
  have "uint que \<le> 2 ^ 63 - 1" using assms(4) uint_eq_sint64 [of que] sint64_bounds [of que] by simp
  then have "revoke_entry (sid j) ((sid j, i), ?op) = Some que"
    by (simp add: revoke_entry_def build_def dlDataRevMetadata_def lookup_def)
  then show ?thesis using u assms(2, 3) update_entries unfolding revoke_ids_entries by metis
qed

lemma settle_entries:
  assumes "distinct (revoke_ids j)"
  shows "distinct (revoke_ids (settleUnsentFrame env o1 is j)) \<and> sid (settleUnsentFrame env o1 is j) = sid j"
proof -
  have "distinct (revoke_ids (remove env i j)) \<and> sid (remove env i j) = sid j" if "distinct (revoke_ids j)" for i j
    using that delete_entries [of "revoke_entry (sid j)" "pendingOps (status j)"]
    by (auto simp: remove_def RemovePendingOperation_def revoke_ids_entries session_of_def)
  then have "distinct (revoke_ids j) \<Longrightarrow> distinct (revoke_ids (fold (remove env) is j)) \<and> sid (fold (remove env) is j) = sid j" for j
    by (induction "is" arbitrary: j) auto
  then have f: "distinct (revoke_ids (fold (remove env) is j)) \<and> sid (fold (remove env) is j) = sid j" using assms by blast
  have "revoke_ids (j\<lparr>shut := True\<rparr>) = revoke_ids j" by (simp add: revoke_ids_entries)
  then show ?thesis using f assms by (simp add: settleUnsentFrame_def closeTransportAfterWriteFailure_def)
qed

lemma revoke_sent_entries:
  assumes "SendDLDataRevoke env eui que t j = (e, j')" "distinct (revoke_ids j)" "que \<notin> set (revoke_ids j)" "0 < sint que"
  shows "distinct (revoke_ids j')"
proof -
  obtain x j1 where b: "begin_op env j = (x, j1)" by fastforce
  have j1: "distinct (revoke_ids j1)" "que \<notin> set (revoke_ids j1)"
    using begin_entries [OF b] assms by (simp_all add: revoke_ids_entries)
  have sent: "distinct (revoke_ids j3)" if "send env i c m j2 = (r, j3)" "distinct (revoke_ids j2)" for i c m j2 r j3
    using that send_status [OF that(1)] by (simp add: revoke_ids_entries same_session_def)
  show ?thesis
    using assms(1, 2) b j1 persist_revoke_entries [OF _ j1 assms(4)] sent settle_entries
    by (auto simp: SendDLDataRevoke_def split: if_splits sum.splits prod.splits option.splits send_outcome.splits) 
qed


lemma update_members: "set (AList.update k v l) \<subseteq> insert (k, v) (set l)"
  by (induction l) auto

lemma revoke_at_holder_keeps:
  assumes "\<forall>(i, j)\<in>set js. distinct (revoke_ids j)"
  shows "\<forall>(i, j)\<in>set (snd (revokeAtHolder renv claimed d t js)). distinct (revoke_ids j)"
proof (cases "snd (revokeAtHolder renv claimed d t js) = js")
  case False
  then obtain eui que i j e j' where q: "WireQueueID d = Some que" and b: "by_station (BsEui d) (\<lambda>_. True) js = Some (i, j)"
    and fresh: "MsgQueID d \<notin> set (revoke_ids j)" and s: "SendDLDataRevoke renv eui que t j = (e, j')"
    and js: "snd (revokeAtHolder renv claimed d t js) = AList.update i j' js"
    by (auto simp: revokeAtHolder_def revoke_ids_def split: sum.splits option.splits prod.splits if_splits)
  from b have "(i, j) \<in> set js" by (auto simp: by_station_def find_Some_iff) (metis nth_mem)
  then have "distinct (revoke_ids j)" using assms by auto
  with q fresh have "distinct (revoke_ids j')"
    by (intro revoke_sent_entries [OF s]) (auto simp: WireQueueID_def split: if_splits)
  with assms show ?thesis unfolding js using update_members [of i j' js] by fastforce
qed (simp add: assms)



definition sample_held :: DownlinkMessage where
  "sample_held = zeroMessage\<lparr>EPEUI := ''00000000000000A1'', TenantID := ''7'', MsgQueID := 4, BsEui := 0\<rparr>"


section \<open>Revoking on request\<close>

lemma revocation_row:
  assumes "store_inv s" "GetDownlinkByRevocation v s = Some r"
  shows "r \<in> set (dl_rows s)" "scopeRevocation v r" "\<And>x. x \<in> set (dl_rows s) \<Longrightarrow> scopeRevocation v x \<longleftrightarrow> x = r"
proof -
  from assms(2) show r: "r \<in> set (dl_rows s)" "scopeRevocation v r"
    by (auto simp: GetDownlinkByRevocation_def find_Some_iff)
  show "scopeRevocation v x \<longleftrightarrow> x = r" if "x \<in> set (dl_rows s)" for x
    using r que_id_unique [OF assms(1) that r(1)] by (auto simp: scopeRevocation_def)
qed

lemma queue_revoke:
  assumes inv: "store_inv s" and g: "GetDownlinkByRevocation v s = Some r" and st: "Station v = None"
  shows "dl_status r = DLQueueStatusPending \<Longrightarrow> \<exists>s'. RevokeDownlink e v s = (Inr True, s')
      \<and> (\<exists>r'\<in>set (dl_rows s'). same_identity r r' \<and> dl_status r' = DLQueueStatusRevoked)"
    and "dl_status r \<noteq> DLQueueStatusPending \<Longrightarrow> RevokeDownlink e v s = (Inr False, s)"
proof -
  note row = revocation_row [OF inv g]
  let ?P = "\<lambda>x. scopeRevocation v x \<and> dl_status x = DLQueueStatusPending"
  let ?f = "\<lambda>x. x\<lparr>dl_status := DLQueueStatusRevoked, updated_at := now e\<rparr>"
  let ?s' = "s\<lparr>dl_rows := map (\<lambda>x. if ?P x then ?f x else x) (dl_rows s)\<rparr>"
  have u: "RevokeDownlink e v s = (Inr (filter ?P (dl_rows s) \<noteq> []), ?s')"
    by (simp add: RevokeDownlink_def update_rows_def st)
  show "\<exists>s'. RevokeDownlink e v s = (Inr True, s') \<and> (\<exists>r'\<in>set (dl_rows s'). same_identity r r' \<and> dl_status r' = DLQueueStatusRevoked)"
    if "dl_status r = DLQueueStatusPending"
  proof -
    have "r \<in> set (filter ?P (dl_rows s))" using row that by simp
    then have "filter ?P (dl_rows s) \<noteq> []" by (metis empty_iff empty_set)
    then have n: "RevokeDownlink e v s = (Inr True, ?s')" unfolding u by (simp only: simp_thms)
    have "(\<lambda>x. if ?P x then ?f x else x) r = ?f r" using row(2) that by simp
    with row(1) have "?f r \<in> (\<lambda>x. if ?P x then ?f x else x) ` set (dl_rows s)" by (rule rev_image_eqI [OF _ sym])
    moreover have "set (dl_rows ?s') = (\<lambda>x. if ?P x then ?f x else x) ` set (dl_rows s)" by simp
    ultimately have m: "?f r \<in> set (dl_rows ?s')" by (simp only:)
    have "same_identity r (?f r)" "dl_status (?f r) = DLQueueStatusRevoked" by (simp_all add: same_identity_def)
    with m have "\<exists>r'\<in>set (dl_rows ?s'). same_identity r r' \<and> dl_status r' = DLQueueStatusRevoked" by (intro bexI [where x = "?f r"] conjI)
    with n show ?thesis by (intro exI conjI)
  qed
  show "RevokeDownlink e v s = (Inr False, s)" if "dl_status r \<noteq> DLQueueStatusPending"
  proof -
    have n: "\<not> ?P x" if "x \<in> set (dl_rows s)" for x using that row(3) \<open>dl_status r \<noteq> DLQueueStatusPending\<close> by auto
    then have "map (\<lambda>x. if ?P x then ?f x else x) (dl_rows s) = dl_rows s" by (intro map_idI) (simp only: if_False)
    moreover have "filter ?P (dl_rows s) = []" using n by (simp add: filter_empty_conv)
    ultimately show ?thesis unfolding u by simp
  qed
qed

lemma downlinkIn_fields [simp]:
  "EPEUI (downlinkIn r) = FormatEUIBytes (EUI64Bytes (ep_eui r))" "MsgQueID (downlinkIn r) = que_id r"
  by (simp_all add: downlinkIn_def applyDownlinkUserData_def)

lemma revoke_at_holder_result:
  assumes "0 < sint (que_id r)" "revokeAtHolder renv claimed (downlinkIn r) t js = (e, js')"
  shows "case by_station (BsEui (downlinkIn r)) (\<lambda>_. True) js of
      None \<Rightarrow> e = Some ErrSchedulerResourceMissing \<and> js' = js
    | Some (i, j) \<Rightarrow> if que_id r \<in> set (claimed i) \<or> que_id r \<in> set (revoke_ids j) then e = None \<and> js' = js
        else \<exists>j' e'. SendDLDataRevoke renv (ep_eui r) (que_id r) t j = (e', j') \<and> js' = AList.update i j' js \<and> (e = None \<longleftrightarrow> e' = None)"
proof -
  have "WireQueueID (downlinkIn r) = Some (que_id r)" using assms(1) by (simp add: WireQueueID_def)
  then show ?thesis
    using assms(2) by (auto simp: revokeAtHolder_def revoke_ids_def split: option.splits prod.splits if_splits)
qed

text \<open>
  C12. A revoke of a downlink that waits in the queue ends it there and asks nobody; one a station holds keeps its
  row, and the holder is asked once: not again while its answer is out, and not when it is not connected, which is
  an error. One that ended is not found, and nothing changes.
\<close>

theorem revoke_on_request:
  assumes inv: "store_inv (adb y)" and ok: "afault env 0 = Answered" "afault env 1 = Answered"
    and ref: "uint (refQueID ref) \<le> 2 ^ 63 - 1" "GetDownlinkByRevocation (revocation_of ref) (adb y) = Some r"
    and run: "server_RevokeDownlink env renv claimed ref y js = (res, y', js')"
  shows "if dl_status r = DLQueueStatusPending
    then res = Inr 0 \<and> js' = js \<and> (\<exists>r'\<in>set (dl_rows (adb y')). same_identity r r' \<and> dl_status r' = DLQueueStatusRevoked)
    else adb y' = adb y \<and>
      (if Terminal (dl_status r) then res = Inl ErrSchedulerQueueNotFound \<and> js' = js
       else (case by_station (BsEui (downlinkIn r)) (\<lambda>_. True) js of
               None \<Rightarrow> res = Inl ErrSchedulerResourceMissing \<and> js' = js
             | Some (i, j) \<Rightarrow>
                 if que_id r \<in> set (claimed i) \<or> que_id r \<in> set (revoke_ids j) then res = Inr (BaseStationEUI (live j)) \<and> js' = js
                 else \<exists>j' e. SendDLDataRevoke renv (ep_eui r) (que_id r) (refTenantID ref) j = (e, j') \<and> js' = AList.update i j' js
                     \<and> (res = Inr (BaseStationEUI (live j)) \<longleftrightarrow> e = None)))"
proof -
  have st: "Station (revocation_of ref) = None" by (simp add: revocation_of_def)
  note q = queue_revoke [OF inv ref(2) st, of "asql env 0"] and row = revocation_row [OF inv ref(2)]
  show ?thesis
  proof (cases "dl_status r = DLQueueStatusPending")
    case True
    from q(1) [OF True] obtain s' where s': "RevokeDownlink (asql env 0) (revocation_of ref) (adb y) = (Inr True, s')"
      "\<exists>r'\<in>set (dl_rows s'). same_identity r r' \<and> dl_status r' = DLQueueStatusRevoked" by blast
    then show ?thesis
      using run ok ref(1) True by (auto simp: server_RevokeDownlink_def run_answered file_event_def split: option.splits)
  next
    case False
    have pos: "0 < sint (que_id r)" using store_rows_ok [OF inv row(1)] by (simp add: row_ok_def)
    have t: "BaseStationEUI (live j) = BsEui (downlinkIn r)" if "by_station (BsEui (downlinkIn r)) (\<lambda>_. True) js = Some (i, j)" for i j
      using that by (auto simp: by_station_def find_Some_iff)
    obtain e js1 where h: "revokeAtHolder renv claimed (downlinkIn r) (refTenantID ref) js = (e, js1)" by fastforce
    have "(res, y', js') = (if Terminal (dl_status r) then (Inl ErrSchedulerQueueNotFound, y, js)
        else case e of Some x \<Rightarrow> (Inl x, y, js1) | None \<Rightarrow> (Inr (BsEui (downlinkIn r)), y, js1))"
      using run ok ref q(2) [OF False] h by (cases e) (auto simp: server_RevokeDownlink_def run_answered)
    with revoke_at_holder_result [OF pos h] t False show ?thesis
      by (auto split: option.splits prod.splits if_splits)
  qed
qed

theorem revoke_on_request_witness:
  "let ref = \<lparr>refQueID = 4, refTenantID = 7, refOrganizationID = None, refEpEUI = Some 0xA1\<rparr>;
       (res, y', js') = server_RevokeDownlink (calm_env 4000) (request_env.truncate demo_env) (\<lambda>_. []) ref sample_reserved [(''s'', demo_journal)]
   in res = Inr 0 \<and> adb y' = adb sample_reserved \<and> map (\<lambda>(i, j). wire j) js' = [[(-1, CmdDLDataRevoke)]]"
proof -
  let ?renv = "request_env.truncate demo_env" and ?js = "[(''s'', demo_journal)]" and ?r = "hd (dl_rows (adb sample_reserved))"
  let ?ref = "\<lparr>refQueID = 4, refTenantID = 7, refOrganizationID = None, refEpEUI = Some 0xA1\<rparr>"
  let ?send = "SendDLDataRevoke ?renv 0xA1 4 7 demo_journal"
  obtain res y' js' where run: "server_RevokeDownlink (calm_env 4000) ?renv (\<lambda>_. []) ?ref sample_reserved ?js = (res, y', js')"
    by (cases rule: prod_cases3)
  have inv: "store_inv (adb sample_reserved)" by code_simp
  have "length (dl_rows (adb sample_reserved)) = 1" "scopeRevocation (revocation_of ?ref) ?r" by code_simp+
  then have g: "GetDownlinkByRevocation (revocation_of ?ref) (adb sample_reserved) = Some ?r"
    by (cases "dl_rows (adb sample_reserved)") (simp_all add: GetDownlinkByRevocation_def)
  have f: "(que_id ?r, ep_eui ?r, dl_status ?r, BsEui (downlinkIn ?r)) = (4, 0xA1, DLQueueStatusReserved, 0)"
    "BaseStationEUI (live demo_journal) = 0" "revoke_ids demo_journal = []" "fst ?send = None" "wire (snd ?send) = [(-1, CmdDLDataRevoke)]"
    by code_simp+
  then have s: "?send = (None, snd ?send)" by (simp add: prod_eq_iff)
  have b: "by_station 0 (\<lambda>_. True) ?js = Some (''s'', demo_journal)" using f(2) by (simp add: by_station_def)
  have q: "uint (refQueID ?ref) \<le> 2 ^ 63 - 1" "afault (calm_env 4000) k = Answered" for k by (simp_all add: calm_env_def)
  from revoke_on_request [OF inv q(2, 2, 1) g run] f s b
  have "res = Inr 0 \<and> adb y' = adb sample_reserved \<and> js' = AList.update ''s'' (snd ?send) ?js"
    by auto
  then show ?thesis using run f(5) by simp
qed

end
