(* ===== verification/Endpoint_Store.thy ===== *)
theory Endpoint_Store
  imports Downlink_Queue Key_Envelope
begin

text \<open>
  The endpoints of the database, \<^verbatim>\<open>KC-DB/storage/postgres/endpoint_lifecycle_repository.go\<close>: the statements that
  record what an endpoint's attach, detach, registration and uplinks leave in the table \<^verbatim>\<open>endpoints\<close>, and the
  lookups; the keys of the table are stored as envelopes (\<^verbatim>\<open>keycrypto_helpers.go\<close>). The other tables an
  endpoint's uplinks write are here too: the duplicate classifier \<^verbatim>\<open>mioty_message_deduplication\<close>, the stored
  messages and the delivery outbox; \<open>Uplink_Store\<close> holds their statements.

  A transaction (\<^verbatim>\<open>adapters/run_in_tx.go\<close>) leaves nothing behind unless it commits; a commit may fail
  and have taken effect all the same (\<open>fault\<close>). A column of \<^verbatim>\<open>JSONB\<close> is the value it encodes. Times are
  counted in nanoseconds. The clock readings, and which statements the database refuses, are arguments.

  Shown: the lookup of an endpoint's owner never reports the attach counter that binds its next attach, so
  only the row lock of the attach transaction refuses a replay.
\<close>

section \<open>Transactions\<close>

datatype db_error =
    ErrTxBegin | ErrTxCommit | ErrStatementFailed | ErrDBNotFound | ErrNoUpdatesProvided | ErrInvalidInput
  | ErrInvalidTenantID | ErrPacketCounterCollision | ErrUniqueViolation | ErrAttachCntOutOfRange
  | ErrKeyMaterial envelope_error | ErrKeyMaterialNotEnvelope

text \<open>\<open>begins\<close>: the transaction opens; \<open>statement k\<close>: its \<open>k\<close>-th statement is accepted; \<open>commit\<close>: what becomes of its commit.\<close>

record tx_env =
  begins :: bool
  statement :: "nat \<Rightarrow> bool"
  commit :: fault
  clock :: int

definition runInTx :: "'z tx_env_scheme \<Rightarrow> ('db \<Rightarrow> (db_error + 'a) \<times> 'db) \<Rightarrow> 'db \<Rightarrow> (db_error + 'a) \<times> 'db" where
  "runInTx env body db =
     (if \<not> begins env then (Inl ErrTxBegin, db)
      else case body db of
             (Inl e, _) \<Rightarrow> (Inl e, db)
           | (Inr a, db') \<Rightarrow>
               (case commit env of
                  Answered \<Rightarrow> (Inr a, db')
                | Refused \<Rightarrow> (Inl ErrTxCommit, db)
                | Unanswered \<Rightarrow> (Inl ErrTxCommit, db')))"

text \<open>The next step of a transaction, on the answer of the one before.\<close>

definition and_then :: "(db_error + 'a) \<times> 'db \<Rightarrow> ('a \<Rightarrow> 'db \<Rightarrow> (db_error + 'b) \<times> 'db) \<Rightarrow> (db_error + 'b) \<times> 'db" where
  "and_then r f = (case r of (Inl e, db) \<Rightarrow> (Inl e, db) | (Inr a, db) \<Rightarrow> f a db)"

definition stmt :: "'z tx_env_scheme \<Rightarrow> nat \<Rightarrow> ('db \<Rightarrow> (db_error + 'a) \<times> 'db) \<Rightarrow> 'db \<Rightarrow> (db_error + 'a) \<times> 'db" where
  "stmt env k f db = (if statement env k then f db else (Inl ErrStatementFailed, db))"

lemma and_then_simps [simp]:
  "and_then (Inl e, db) f = (Inl e, db)" "and_then (Inr a, db) f = f a db"
  by (simp_all add: and_then_def)

lemma and_then_Inr_iff:
  "and_then r f = (Inr b, db') \<longleftrightarrow> (\<exists>a db. r = (Inr a, db) \<and> f a db = (Inr b, db'))"
  by (cases r) (auto simp: and_then_def split: sum.splits)

lemma stmt_Inr_iff: "stmt env k f db = (Inr b, db') \<longleftrightarrow> statement env k \<and> f db = (Inr b, db')"
  by (simp add: stmt_def)

lemma stmt_accepted [simp]: "statement env k \<Longrightarrow> stmt env k f db = f db"
  by (simp add: stmt_def)

text \<open>What a transaction changes, its body changed when it succeeded.\<close>

lemma runInTx_changes:
  assumes "runInTx env body db = (r, db')"
  shows "db' = db \<or> (\<exists>a. body db = (Inr a, db') \<and> (r = Inr a \<or> r = Inl ErrTxCommit))"
  using assms by (auto simp: runInTx_def split: if_splits prod.splits sum.splits fault.splits)

lemma runInTx_Inr: "runInTx env body db = (Inr a, db') \<Longrightarrow> body db = (Inr a, db')"
  by (auto simp: runInTx_def split: if_splits prod.splits sum.splits fault.splits)

section \<open>Tables\<close>

record endpoint_row =
  e_id :: i64
  e_tenant :: i64
  e_owner :: i64
  e_eui :: u64
  e_nwk_key :: bytes
  e_app_key :: bytes
  e_pre_attach :: bool
  e_bidi :: bool
  e_attach_cnt :: "i64 option"
  e_nonce :: bytes
  e_sign :: bytes
  e_sh_addr :: "32 word option"
  e_packet_cnt :: i64
  e_last_packet_cnt :: i64
  e_dual_chan :: bool
  e_repetition :: bool
  e_wide_carr_off :: bool
  e_long_blk_dist :: bool
  e_last_attach_rx_time :: "i64 option"
  e_last_attach_rx_duration :: "i64 option"
  e_last_attach_subpackets :: "goval option"
  e_last_attached_bs_eui :: "bytes option"
  e_last_propagate_time :: "i64 option"
  e_propagate_status :: "string option"
  e_propagated :: bool
  e_propagated_at :: "int option"
  e_last_detach_time :: "i64 option"
  e_last_detach_sign :: "bytes option"
  e_last_detach_packet_cnt :: "i64 option"
  e_ep_status :: "string option"
  e_attachment_changed_at :: "int option"
  e_last_rx_time :: "i64 option"
  e_last_rx_duration :: "i64 option"
  e_last_snr :: "gofloat option"
  e_last_rssi :: "gofloat option"
  e_last_eq_snr :: "gofloat option"
  e_last_profile :: "string option"
  e_last_mode :: "string option"
  e_last_user_data :: "bytes option"
  e_last_format_id :: "byte option"
  e_last_dl_open :: bool
  e_last_response_exp :: bool
  e_last_dl_ack :: bool

record BaseStationReception =
  StationEui :: u64
  RxTime :: i64
  RxDuration :: "i64 option"
  Snr :: gofloat
  Rssi :: gofloat
  EqSnr :: "gofloat option"
  DlRxSnr :: "gofloat option"
  DlRxRssi :: "gofloat option"
  RxProfile :: "string option"
  RxMode :: "string option"
  RxSubpackets :: "goval option"

text \<open>A row of \<^verbatim>\<open>mioty_message_deduplication\<close>, one per endpoint and packet counter.\<close>

record classifier_row =
  c_owner :: i64
  c_eui :: u64
  c_packet_cnt :: u32
  MessageHash :: bytes
  FirstMessageID :: string
  FirstBsEui :: u64
  FirstReceivedAt :: int
  LastReceivedAt :: int
  FirstRxTime :: i64
  DuplicateCount :: int

record message_row =
  m_id :: string
  m_owner :: i64
  m_org :: "string option"
  m_op_id :: i64
  m_eui :: u64
  m_bs_eui :: u64
  m_rx_time :: i64
  m_packet_cnt :: u32
  m_snr :: gofloat
  m_rssi :: gofloat
  m_user_data :: bytes
  m_dl_open :: bool
  m_response_exp :: bool
  m_dl_ack :: bool
  m_rx_duration :: "i64 option"
  m_eq_snr :: "gofloat option"
  m_profile :: "string option"
  m_mode :: "string option"
  m_format :: byte
  m_subpackets :: "goval option"
  m_base_stations :: "BaseStationReception list"
  m_duplicate :: bool
  m_packet_cnt_reused :: bool
  m_received_at :: int
  m_decoded_payload :: "string option"
  m_blueprint_type_eui :: "bytes option"
  m_blueprint_version_id :: "string option"
  m_decode_status :: string
  m_decode_error_code :: string

datatype DeliveryChannel = DeliveryChannelSCACI | DeliveryChannelMQTT | DeliveryChannelMQTTDownlinkAck

record outbox_row =
  o_message :: string
  o_channel :: DeliveryChannel
  o_owner :: i64
  o_next_attempt_at :: int
  o_created_at :: int

record radio_db =
  endpoints :: "endpoint_row list"
  classifier :: "classifier_row list"
  messages :: "message_row list"
  outbox :: "outbox_row list"

section \<open>Field updates\<close>

text \<open>A SET clause assigns one column.\<close>

type_synonym endpointFieldSet = "(endpoint_row \<Rightarrow> endpoint_row) list"

definition opt_clause :: "'a option \<Rightarrow> ('a \<Rightarrow> endpoint_row \<Rightarrow> endpoint_row) \<Rightarrow> endpointFieldSet" where
  "opt_clause v f = (case v of None \<Rightarrow> [] | Some x \<Rightarrow> [f x])"

definition update_endpoints :: "(endpoint_row \<Rightarrow> bool) \<Rightarrow> (endpoint_row \<Rightarrow> endpoint_row) \<Rightarrow> radio_db \<Rightarrow> (db_error + unit) \<times> radio_db" where
  "update_endpoints P f db =
     (if list_ex P (endpoints db) then (Inr (), db\<lparr>endpoints := map (\<lambda>r. if P r then f r else r) (endpoints db)\<rparr>)
      else (Inl ErrDBNotFound, db))"

definition of_tenant :: "i64 \<Rightarrow> i64 \<Rightarrow> endpoint_row \<Rightarrow> bool" where
  "of_tenant t i r \<longleftrightarrow> e_tenant r = t \<and> e_id r = i"

definition runEndpointFieldUpdate :: "i64 \<Rightarrow> i64 \<Rightarrow> endpointFieldSet \<Rightarrow> radio_db \<Rightarrow> (db_error + unit) \<times> radio_db" where
  "runEndpointFieldUpdate t i fs db =
     (if fs = [] then (Inl ErrNoUpdatesProvided, db) else update_endpoints (of_tenant t i) (fold id fs) db)"

record EndpointAttachmentStateParams =
  AttachCnt :: "i64 option"
  LastAttachRxTime :: "i64 option"
  LastAttachRxDuration :: "i64 option"
  Nonce :: "bytes option"
  Sign :: "bytes option"
  DualChan :: "bool option"
  Repetition :: "bool option"
  WideCarrOff :: "bool option"
  LongBlkDist :: "bool option"
  ShAddr :: "u16 option"
  LastAttachSubpackets :: "goval option"
  LastAttachedBsEui :: "bytes option"
  LastPropagateTime :: "i64 option"
  PropagateStatus :: "string option"
  Propagated :: "bool option"
  PropagatedAt :: "int option option"

definition buildEndpointAttachmentStateSet :: "EndpointAttachmentStateParams \<Rightarrow> endpointFieldSet" where
  "buildEndpointAttachmentStateSet p =
     opt_clause (AttachCnt p) (\<lambda>v r. r\<lparr>e_attach_cnt := Some v\<rparr>)
     @ opt_clause (LastAttachRxTime p) (\<lambda>v r. r\<lparr>e_last_attach_rx_time := Some v\<rparr>)
     @ opt_clause (LastAttachRxDuration p) (\<lambda>v r. r\<lparr>e_last_attach_rx_duration := Some v\<rparr>)
     @ opt_clause (Nonce p) (\<lambda>v r. r\<lparr>e_nonce := v\<rparr>)
     @ opt_clause (Sign p) (\<lambda>v r. r\<lparr>e_sign := v\<rparr>)
     @ opt_clause (DualChan p) (\<lambda>v r. r\<lparr>e_dual_chan := v\<rparr>)
     @ opt_clause (Repetition p) (\<lambda>v r. r\<lparr>e_repetition := v\<rparr>)
     @ opt_clause (WideCarrOff p) (\<lambda>v r. r\<lparr>e_wide_carr_off := v\<rparr>)
     @ opt_clause (LongBlkDist p) (\<lambda>v r. r\<lparr>e_long_blk_dist := v\<rparr>)
     @ opt_clause (ShAddr p) (\<lambda>v r. r\<lparr>e_sh_addr := Some (ucast v)\<rparr>)
     @ opt_clause (LastAttachSubpackets p) (\<lambda>v r. r\<lparr>e_last_attach_subpackets := Some v\<rparr>)
     @ opt_clause (LastAttachedBsEui p) (\<lambda>v r. r\<lparr>e_last_attached_bs_eui := Some v\<rparr>)
     @ opt_clause (LastPropagateTime p) (\<lambda>v r. r\<lparr>e_last_propagate_time := Some v\<rparr>)
     @ opt_clause (PropagateStatus p) (\<lambda>v r. r\<lparr>e_propagate_status := Some v\<rparr>)
     @ opt_clause (Propagated p) (\<lambda>v r. r\<lparr>e_propagated := v\<rparr>)
     @ opt_clause (PropagatedAt p) (\<lambda>v r. r\<lparr>e_propagated_at := v\<rparr>)"

record EndpointAttachSessionParams =
  SessPropagatedAt :: int
  SessShAddr :: u16
  SessBidi :: bool
  SessLastPacketCnt :: u32
  SessDualChan :: bool
  SessRepetition :: bool
  SessWideCarrOff :: bool
  SessLongBlkDist :: bool

definition buildEndpointAttachSessionSet :: "EndpointAttachSessionParams \<Rightarrow> endpointFieldSet" where
  "buildEndpointAttachSessionSet p =
     [\<lambda>r. r\<lparr>e_propagated_at := Some (SessPropagatedAt p)\<rparr>, \<lambda>r. r\<lparr>e_sh_addr := Some (ucast (SessShAddr p))\<rparr>,
      \<lambda>r. r\<lparr>e_bidi := SessBidi p\<rparr>, \<lambda>r. r\<lparr>e_last_packet_cnt := ucast (SessLastPacketCnt p)\<rparr>,
      \<lambda>r. r\<lparr>e_dual_chan := SessDualChan p\<rparr>, \<lambda>r. r\<lparr>e_repetition := SessRepetition p\<rparr>,
      \<lambda>r. r\<lparr>e_wide_carr_off := SessWideCarrOff p\<rparr>, \<lambda>r. r\<lparr>e_long_blk_dist := SessLongBlkDist p\<rparr>]"

record EndpointDetachStateParams =
  DetLastAttachedBsEui :: "bytes option"
  DetLastPropagateTime :: "i64 option"
  LastDetachTime :: "i64 option"
  LastDetachSign :: "bytes option"
  LastDetachPacketCnt :: "u32 option"
  DetPropagateStatus :: "string option"
  DetPropagated :: "bool option"
  DetPropagatedAt :: "int option option"

definition buildEndpointDetachStateSet :: "EndpointDetachStateParams \<Rightarrow> endpointFieldSet" where
  "buildEndpointDetachStateSet p =
     opt_clause (DetLastAttachedBsEui p) (\<lambda>v r. r\<lparr>e_last_attached_bs_eui := (if v = [] then None else Some v)\<rparr>)
     @ opt_clause (DetLastPropagateTime p) (\<lambda>v r. r\<lparr>e_last_propagate_time := Some v\<rparr>)
     @ opt_clause (LastDetachTime p) (\<lambda>v r. r\<lparr>e_last_detach_time := Some v\<rparr>)
     @ opt_clause (LastDetachSign p) (\<lambda>v r. r\<lparr>e_last_detach_sign := Some v\<rparr>)
     @ opt_clause (LastDetachPacketCnt p) (\<lambda>v r. r\<lparr>e_last_detach_packet_cnt := Some (ucast v)\<rparr>)
     @ opt_clause (DetPropagateStatus p) (\<lambda>v r. r\<lparr>e_propagate_status := Some v\<rparr>)
     @ opt_clause (DetPropagated p) (\<lambda>v r. r\<lparr>e_propagated := v\<rparr>)
     @ opt_clause (DetPropagatedAt p) (\<lambda>v r. r\<lparr>e_propagated_at := v\<rparr>)"

section \<open>Keys at rest\<close>

record key_cipher =
  key_aead :: AEAD
  key_slot :: byte
  entropy :: "bytes option"

definition encryptKeyMaterial :: "key_cipher \<Rightarrow> bytes \<Rightarrow> db_error + bytes" where
  "encryptKeyMaterial c plaintext =
     (if plaintext = [] then Inr []
      else case Encrypt (key_aead c) (key_slot c) (entropy c) plaintext of
             Inl e \<Rightarrow> Inl (ErrKeyMaterial e)
           | Inr envelope \<Rightarrow> Inr envelope)"

definition decryptKeyMaterial :: "key_cipher \<Rightarrow> bytes \<Rightarrow> db_error + bytes" where
  "decryptKeyMaterial c stored =
     (if stored = [] then Inr stored
      else if \<not> IsEnvelope stored then Inl ErrKeyMaterialNotEnvelope
      else case Decrypt (key_aead c) stored of
             Inl e \<Rightarrow> Inl (ErrKeyMaterial e)
           | Inr plaintext \<Rightarrow> Inr plaintext)"

definition decryptEndpointKeys :: "key_cipher \<Rightarrow> endpoint_row \<Rightarrow> db_error + endpoint_row" where
  "decryptEndpointKeys c r =
     bind_result (decryptKeyMaterial c (e_nwk_key r)) (\<lambda>nwk.
       bind_result (decryptKeyMaterial c (e_app_key r)) (\<lambda>app.
         Inr (r\<lparr>e_nwk_key := nwk, e_app_key := app\<rparr>)))"

lemma decrypt_encrypted:
  assumes "aead (key_aead c)" "\<And>n. entropy c = Some n \<Longrightarrow> length n = nonceLen" "encryptKeyMaterial c p = Inr e"
  shows "decryptKeyMaterial c e = Inr p"
proof (cases "p = []")
  case True
  then show ?thesis using assms by (simp add: encryptKeyMaterial_def decryptKeyMaterial_def)
next
  case False
  then obtain n where n: "entropy c = Some n" "e = header (key_slot c) @ n @ seal (key_aead c) n p (header (key_slot c))"
    using assms(3) by (auto simp: encryptKeyMaterial_def Encrypt_def split: option.splits)
  have "IsEnvelope e" "e \<noteq> []" by (simp_all add: n(2) IsEnvelope_def header_def magicLen_def magic_def)
  moreover have "Decrypt (key_aead c) e = Inr p" unfolding n(2) by (rule Decrypt_Encrypt [OF assms(1) assms(2) [OF n(1)]])
  ultimately show ?thesis by (simp add: decryptKeyMaterial_def)
qed

section \<open>Reading endpoints\<close>

text \<open>
  Each query selects some of the columns; the fields of \<^verbatim>\<open>models.EndPoint\<close> it does not select stay zero.
  \<^verbatim>\<open>Get\<close> selects the signature of the last attach and not its counter; \<^verbatim>\<open>GetByID\<close> selects both.
\<close>

definition attachCounter :: "i64 option \<Rightarrow> db_error + u32 option" where
  "attachCounter stored =
     (case stored of
        None \<Rightarrow> Inr None
      | Some v \<Rightarrow> if sint v < 0 \<or> sint v > 2 ^ 32 - 1 then Inl ErrAttachCntOutOfRange else Inr (Some (ucast v)))"

record EndPoint =
  ID :: i64
  EUI :: u64
  EpTenantID :: i64
  OwnerTenantID :: i64
  NwkSnKey :: bytes
  EpShAddr :: "u16 option"
  EpAttachCnt :: "u32 option"
  EpNonce :: bytes
  EpSign :: bytes

definition scanEndpointBaseRow :: "endpoint_row \<Rightarrow> EndPoint" where
  "scanEndpointBaseRow r =
     \<lparr>ID = e_id r, EUI = e_eui r, EpTenantID = e_tenant r, OwnerTenantID = e_owner r, NwkSnKey = e_nwk_key r,
      EpShAddr = map_option ucast (e_sh_addr r), EpAttachCnt = None, EpNonce = [], EpSign = e_sign r\<rparr>"

definition scanEndpointDetailRow :: "endpoint_row \<Rightarrow> db_error + EndPoint" where
  "scanEndpointDetailRow r =
     bind_result (attachCounter (e_attach_cnt r)) (\<lambda>cnt.
       Inr \<lparr>ID = e_id r, EUI = e_eui r, EpTenantID = e_tenant r, OwnerTenantID = e_owner r, NwkSnKey = e_nwk_key r,
            EpShAddr = map_option ucast (e_sh_addr r), EpAttachCnt = cnt, EpNonce = e_nonce r, EpSign = e_sign r\<rparr>)"

definition Get :: "key_cipher \<Rightarrow> u64 \<Rightarrow> radio_db \<Rightarrow> db_error + EndPoint" where
  "Get c eui db =
     (case find (\<lambda>r. e_eui r = eui) (endpoints db) of
        None \<Rightarrow> Inl ErrDBNotFound
      | Some r \<Rightarrow> bind_result (decryptEndpointKeys c r) (\<lambda>r'. Inr (scanEndpointBaseRow r')))"

definition GetByID :: "key_cipher \<Rightarrow> i64 \<Rightarrow> i64 \<Rightarrow> radio_db \<Rightarrow> db_error + EndPoint" where
  "GetByID c i t db =
     (case find (of_tenant t i) (endpoints db) of
        None \<Rightarrow> Inl ErrDBNotFound
      | Some r \<Rightarrow> bind_result (scanEndpointDetailRow r) (\<lambda>_.
           bind_result (decryptEndpointKeys c r) scanEndpointDetailRow))"

definition OverTheAirAttachCounter :: "EndPoint \<Rightarrow> u32 option" where
  "OverTheAirAttachCounter e = (if EpSign e = [] then None else EpAttachCnt e)"

section \<open>The statements of an endpoint's life\<close>

definition EndpointAttachmentStateUpdate :: "i64 \<Rightarrow> i64 \<Rightarrow> EndpointAttachmentStateParams \<Rightarrow> radio_db \<Rightarrow> (db_error + unit) \<times> radio_db" where
  "EndpointAttachmentStateUpdate t i p = runEndpointFieldUpdate t i (buildEndpointAttachmentStateSet p)"

definition EndpointAttachSessionUpdate :: "i64 \<Rightarrow> i64 \<Rightarrow> EndpointAttachSessionParams \<Rightarrow> radio_db \<Rightarrow> (db_error + unit) \<times> radio_db" where
  "EndpointAttachSessionUpdate t i p = runEndpointFieldUpdate t i (buildEndpointAttachSessionSet p)"

definition EndpointDetachStateUpdate :: "i64 \<Rightarrow> i64 \<Rightarrow> EndpointDetachStateParams \<Rightarrow> radio_db \<Rightarrow> (db_error + unit) \<times> radio_db" where
  "EndpointDetachStateUpdate t i p = runEndpointFieldUpdate t i (buildEndpointDetachStateSet p)"

record EndpointRegistrationParams =
  RegNwkKey :: bytes
  RegPreAttach :: bool
  RegBidi :: bool
  RegShAddr :: u16
  RegAttachCnt :: u32
  RegPacketCnt :: u32
  RegDualChan :: bool
  RegRepetition :: bool
  RegWideCarrOff :: bool
  RegLongBlkDist :: bool

definition buildEndpointRegistrationSet :: "bytes \<Rightarrow> EndpointRegistrationParams \<Rightarrow> endpointFieldSet" where
  "buildEndpointRegistrationSet encryptedKey p =
     [\<lambda>r. r\<lparr>e_nwk_key := encryptedKey\<rparr>, \<lambda>r. r\<lparr>e_pre_attach := RegPreAttach p\<rparr>, \<lambda>r. r\<lparr>e_bidi := RegBidi p\<rparr>,
      \<lambda>r. r\<lparr>e_sh_addr := Some (ucast (RegShAddr p))\<rparr>, \<lambda>r. r\<lparr>e_attach_cnt := Some (ucast (RegAttachCnt p))\<rparr>,
      \<lambda>r. r\<lparr>e_packet_cnt := ucast (RegPacketCnt p)\<rparr>, \<lambda>r. r\<lparr>e_last_packet_cnt := ucast (RegPacketCnt p)\<rparr>,
      \<lambda>r. r\<lparr>e_dual_chan := RegDualChan p\<rparr>, \<lambda>r. r\<lparr>e_repetition := RegRepetition p\<rparr>,
      \<lambda>r. r\<lparr>e_wide_carr_off := RegWideCarrOff p\<rparr>, \<lambda>r. r\<lparr>e_long_blk_dist := RegLongBlkDist p\<rparr>]"

definition EndpointRegistrationUpdate ::
    "key_cipher \<Rightarrow> i64 \<Rightarrow> i64 \<Rightarrow> EndpointRegistrationParams \<Rightarrow> radio_db \<Rightarrow> (db_error + unit) \<times> radio_db" where
  "EndpointRegistrationUpdate c t i p db =
     (case encryptKeyMaterial c (RegNwkKey p) of
        Inl e \<Rightarrow> (Inl e, db)
      | Inr k \<Rightarrow> runEndpointFieldUpdate t i (buildEndpointRegistrationSet k p) db)"

definition endpoint_RestartPacketCounter :: "i64 \<Rightarrow> i64 \<Rightarrow> radio_db \<Rightarrow> (db_error + unit) \<times> radio_db" where
  "endpoint_RestartPacketCounter t i = update_endpoints (of_tenant t i) (\<lambda>r. r\<lparr>e_packet_cnt := 0, e_last_packet_cnt := 0\<rparr>)"

text \<open>The lock serializes the transactions on one endpoint: here they run one after the other.\<close>

definition LockAttachCounter :: "i64 \<Rightarrow> i64 \<Rightarrow> radio_db \<Rightarrow> (db_error + u32 option) \<times> radio_db" where
  "LockAttachCounter t i db =
     (case find (of_tenant t i) (endpoints db) of
        None \<Rightarrow> (Inl ErrDBNotFound, db)
      | Some r \<Rightarrow>
          (bind_result (attachCounter (e_attach_cnt r)) (\<lambda>cnt.
             Inr (OverTheAirAttachCounter ((scanEndpointBaseRow r)\<lparr>EpAttachCnt := cnt\<rparr>))), db))"

definition TransitionEndpointStatus :: "int \<Rightarrow> i64 \<Rightarrow> i64 \<Rightarrow> string \<Rightarrow> radio_db \<Rightarrow> (db_error + bool) \<times> radio_db" where
  "TransitionEndpointStatus t0 t i status db =
     (let P = (\<lambda>r. of_tenant t i r \<and> e_ep_status r \<noteq> Some status)
      in (Inr (list_ex P (endpoints db)),
          db\<lparr>endpoints := map (\<lambda>r. if P r then r\<lparr>e_ep_status := Some status, e_attachment_changed_at := Some t0\<rparr> else r) (endpoints db)\<rparr>))"

definition RestateEndpointStatus :: "int \<Rightarrow> i64 \<Rightarrow> i64 \<Rightarrow> string \<Rightarrow> radio_db \<Rightarrow> (db_error + bool) \<times> radio_db" where
  "RestateEndpointStatus t0 t i status db =
     (Inr (case find (of_tenant t i) (endpoints db) of None \<Rightarrow> False | Some r \<Rightarrow> e_ep_status r \<noteq> Some status),
      db\<lparr>endpoints := map (\<lambda>r. if of_tenant t i r then r\<lparr>e_ep_status := Some status, e_attachment_changed_at := Some t0\<rparr> else r) (endpoints db)\<rparr>)"

record RadioMetricsUpdate =
  MetSNR :: gofloat
  MetRSSI :: gofloat
  MetEqSNR :: "gofloat option"
  MetRxTime :: i64
  MetRxDuration :: "i64 option"
  MetProfile :: "string option"

definition radioMetricsSet :: "RadioMetricsUpdate \<Rightarrow> endpointFieldSet" where
  "radioMetricsSet u =
     [\<lambda>r. r\<lparr>e_last_snr := Some (MetSNR u)\<rparr>, \<lambda>r. r\<lparr>e_last_rssi := Some (MetRSSI u)\<rparr>,
      \<lambda>r. r\<lparr>e_last_attach_rx_time := Some (MetRxTime u)\<rparr>]
     @ opt_clause (MetEqSNR u) (\<lambda>v r. r\<lparr>e_last_eq_snr := Some v\<rparr>)
     @ opt_clause (MetRxDuration u) (\<lambda>v r. r\<lparr>e_last_attach_rx_duration := Some v\<rparr>)
     @ opt_clause (MetProfile u) (\<lambda>v r. r\<lparr>e_last_profile := Some v\<rparr>)"

definition UpdateRadioMetricsSelective :: "i64 \<Rightarrow> u64 \<Rightarrow> RadioMetricsUpdate \<Rightarrow> radio_db \<Rightarrow> (db_error + unit) \<times> radio_db" where
  "UpdateRadioMetricsSelective t eui u = update_endpoints (\<lambda>r. e_tenant r = t \<and> e_eui r = eui) (fold id (radioMetricsSet u))"

definition GetPreferredBsEui :: "i64 \<Rightarrow> u64 \<Rightarrow> radio_db \<Rightarrow> u64 option" where
  "GetPreferredBsEui t eui db =
     (case find (\<lambda>r. e_tenant r = t \<and> e_eui r = eui) (endpoints db) of
        None \<Rightarrow> None
      | Some r \<Rightarrow> (case e_last_attached_bs_eui r of None \<Rightarrow> None | Some b \<Rightarrow> OptionalEUI64FromBytes b))"

section \<open>The attach counter\<close>

definition AttachCounterRolloverHigh :: int where "AttachCounterRolloverHigh = 0xFFFF00"
definition AttachCounterRolloverLow :: int where "AttachCounterRolloverLow = 0x100"

definition AttachCounterAdvances :: "u32 option \<Rightarrow> i64 \<Rightarrow> bool" where
  "AttachCounterAdvances stored incoming =
     (case stored of
        None \<Rightarrow> True
      | Some w \<Rightarrow>
          (uint w > AttachCounterRolloverHigh \<and> sint incoming < AttachCounterRolloverLow) \<or> sint incoming > uint w)"

lemma attachCounter_stored:
  assumes "uint (n :: u32) = sint (v :: i64)"
  shows "attachCounter (Some v) = Inr (Some n)"
proof -
  have b: "sint v < 2 ^ 32" "0 \<le> sint v" using assms uint_lt2p [of n] uint_ge_0 [of n] by simp_all
  then have "uint (ucast v :: u32) = uint n" using assms by (simp add: uint_eq_sint64 uint_ucast_down)
  then show ?thesis using b by (simp add: attachCounter_def word_uint_eq_iff)
qed

text \<open>
  C15. For an endpoint that has attached over the air, the lookup of its owner reports no attach counter at all,
  so the check the handler makes on it accepts every counter, a replayed one included; the row lock of
  the attach transaction reports the stored counter, and the check made on that refuses every counter that
  is not newer, apart from the rollover.
\<close>

theorem replay_refused_under_lock:
  assumes "find (\<lambda>r. e_eui r = eui) (endpoints db) = Some r" "find (of_tenant t i) (endpoints db) = Some r"
    and "e_sign r \<noteq> []" "e_attach_cnt r = Some v" "uint (n :: u32) = sint v" "Get c eui db = Inr e"
  shows "AttachCounterAdvances (OverTheAirAttachCounter e) cnt \<and> LockAttachCounter t i db = (Inr (Some n), db)
    \<and> (AttachCounterAdvances (Some n) cnt \<longleftrightarrow>
         uint n < sint cnt \<or> (AttachCounterRolloverHigh < uint n \<and> sint cnt < AttachCounterRolloverLow))"
proof -
  have "OverTheAirAttachCounter e = None"
    using assms(1,6) by (auto simp: Get_def result_simps scanEndpointBaseRow_def OverTheAirAttachCounter_def)
  then show ?thesis
    using assms(2-4) attachCounter_stored [OF assms(5)]
    by (auto simp: AttachCounterAdvances_def LockAttachCounter_def OverTheAirAttachCounter_def scanEndpointBaseRow_def)
qed

definition sample_endpoint :: endpoint_row where
  "sample_endpoint =
     \<lparr>e_id = 5, e_tenant = 7, e_owner = 7, e_eui = 0xA1, e_nwk_key = [], e_app_key = [], e_pre_attach = False, e_bidi = True,
      e_attach_cnt = None, e_nonce = [], e_sign = [], e_sh_addr = None, e_packet_cnt = 0, e_last_packet_cnt = 0,
      e_dual_chan = False, e_repetition = False, e_wide_carr_off = False, e_long_blk_dist = False,
      e_last_attach_rx_time = None, e_last_attach_rx_duration = None, e_last_attach_subpackets = None,
      e_last_attached_bs_eui = None, e_last_propagate_time = None, e_propagate_status = None, e_propagated = False,
      e_propagated_at = None, e_last_detach_time = None, e_last_detach_sign = None, e_last_detach_packet_cnt = None,
      e_ep_status = None, e_attachment_changed_at = None, e_last_rx_time = None, e_last_rx_duration = None,
      e_last_snr = None, e_last_rssi = None, e_last_eq_snr = None, e_last_profile = None, e_last_mode = None,
      e_last_user_data = None, e_last_format_id = None, e_last_dl_open = False, e_last_response_exp = False,
      e_last_dl_ack = False\<rparr>"

definition sample_db :: radio_db where
  "sample_db = \<lparr>endpoints = [sample_endpoint], classifier = [], messages = [], outbox = []\<rparr>"

theorem replay_refused_under_lock_witness:
  "let db = sample_db\<lparr>endpoints := [sample_endpoint\<lparr>e_sign := [1, 2, 3, 4], e_attach_cnt := Some 9\<rparr>]\<rparr>;
       c = \<lparr>key_aead = \<lparr>seal = \<lambda>n p h. p, unseal = \<lambda>n b h. Some b\<rparr>, key_slot = 0, entropy = None\<rparr>
   in \<exists>e. Get c 0xA1 db = Inr e \<and> AttachCounterAdvances (OverTheAirAttachCounter e) 9
      \<and> LockAttachCounter 7 5 db = (Inr (Some 9), db) \<and> \<not> AttachCounterAdvances (Some 9) 9"
proof -
  let ?r = "sample_endpoint\<lparr>e_sign := [1, 2, 3, 4], e_attach_cnt := Some 9\<rparr>"
  let ?db = "sample_db\<lparr>endpoints := [?r]\<rparr>"
  let ?c = "\<lparr>key_aead = \<lparr>seal = \<lambda>n p h. p, unseal = \<lambda>n b h. Some b\<rparr>, key_slot = 0, entropy = None\<rparr>"
  have f: "find (\<lambda>r. e_eui r = 0xA1) (endpoints ?db) = Some ?r" "find (of_tenant 7 5) (endpoints ?db) = Some ?r"
    by (simp_all add: of_tenant_def sample_endpoint_def)
  obtain e where e: "Get ?c 0xA1 ?db = Inr e"
    by (simp add: Get_def decryptEndpointKeys_def decryptKeyMaterial_def sample_endpoint_def)
  have "AttachCounterAdvances (OverTheAirAttachCounter e) 9 \<and> LockAttachCounter 7 5 ?db = (Inr (Some 9), ?db)
      \<and> \<not> AttachCounterAdvances (Some 9) 9"
    using replay_refused_under_lock [OF f _ _ _ e, of 9 9 9] by (simp add: AttachCounterRolloverHigh_def)
  with e show ?thesis by (auto simp: Let_def)
qed

end
