(* ===== verification/Uplink_Store.thy ===== *)
theory Uplink_Store
  imports Endpoint_Store
begin

text \<open>
  The uplink classifier and writer, \<^verbatim>\<open>KC-DB/storage/postgres/uplink_store.go\<close> with the statements of
  \<^verbatim>\<open>uplink_writer.go\<close>, \<^verbatim>\<open>uplink_classifier_reset.go\<close> and \<^verbatim>\<open>message_delivery_outbox_repository.go\<close> it runs in one
  transaction. A reception claims the row of its endpoint and packet counter; the first reception becomes a
  stored message queued for delivery, a later one is merged into it while it is the same telegram, and a
  counter used again outside the window starts a new message.

  SHA-256 and the JSON syntax check are parameters. Shown: what each reception becomes, on every branch;
  over any history of receptions and faults a telegram is stored once, with every station that was answered
  for it; the endpoint's counters never rewind.
\<close>

section \<open>Requests\<close>

record ULDataMessage =
  u_id :: string
  u_tenant :: i64
  u_org :: "string option"
  u_op_id :: i64
  u_eui :: u64
  u_bs_eui :: u64
  u_rx_time :: i64
  u_packet_cnt :: u32
  u_snr :: gofloat
  u_rssi :: gofloat
  u_user_data :: bytes
  u_dl_open :: bool
  u_response_exp :: bool
  u_dl_ack :: bool
  u_rx_duration :: "i64 option"
  u_eq_snr :: "gofloat option"
  u_profile :: "string option"
  u_mode :: "string option"
  u_format :: "byte option"
  u_subpackets :: "goval option"
  u_base_stations :: "BaseStationReception list"
  u_duplicate :: "bool option"
  u_packet_cnt_reused :: bool
  u_received_at :: "int option"
  u_decoded_payload :: string
  u_blueprint_type_eui :: bytes
  u_blueprint_version_id :: "string option"
  u_decode_status :: string
  u_decode_error_code :: string

record UplinkPersistRequest =
  ReqMessage :: "ULDataMessage option"
  Window :: i64
  ReceptionWindow :: i64
  Channels :: "DeliveryChannel list"

datatype UplinkClassification = UplinkNew | UplinkDuplicate

record UplinkPersistOutcome =
  Classification :: UplinkClassification
  MessageID :: string
  BaseStations :: "BaseStationReception list"
  OutDuplicateCount :: int

record uplink_env = tx_env +
  sha256 :: "bytes \<Rightarrow> bytes"
  jsonValid :: "string \<Rightarrow> bool"
  stored_at :: int

definition validateUplinkPersistRequest :: "UplinkPersistRequest \<Rightarrow> db_error option" where
  "validateUplinkPersistRequest req =
     (case ReqMessage req of
        None \<Rightarrow> Some ErrInvalidInput
      | Some msg \<Rightarrow>
          if sint (u_tenant msg) \<le> 0 then Some ErrInvalidTenantID
          else if u_id msg = [] then Some ErrInvalidInput
          else if length (u_base_stations msg) \<noteq> 1 then Some ErrInvalidInput
          else if sint (RxTime (u_base_stations msg ! 0)) \<le> 0 then Some ErrInvalidInput
          else if sint (Window req) \<le> 0 then Some ErrInvalidInput
          else if sint (ReceptionWindow req) < 0 \<or> sint (Window req) \<le> sint (ReceptionWindow req) then Some ErrInvalidInput
          else None)"

section \<open>Classification\<close>

text \<open>\<^verbatim>\<open>binary.BigEndian.PutUint32\<close>.\<close>

definition be_u32 :: "u32 \<Rightarrow> bytes" where
  "be_u32 w = map (\<lambda>i. ucast (drop_bit (8 * i) w)) [3, 2, 1, 0]"

definition uplinkMessageHash :: "(bytes \<Rightarrow> bytes) \<Rightarrow> u64 \<Rightarrow> u32 \<Rightarrow> bytes \<Rightarrow> bytes" where
  "uplinkMessageHash sha epEui packetCnt userData = sha (EUI64Bytes epEui @ be_u32 packetCnt @ userData)"

definition sameTelegram :: "classifier_row \<Rightarrow> i64 \<Rightarrow> i64 \<Rightarrow> bool" where
  "sameTelegram r rxTime window =
     (let spread = rxTime - FirstRxTime r;
          spread' = (if sint spread < 0 then - spread else spread)
      in sint spread' \<le> sint window)"

fun mergeReception :: "BaseStationReception list \<Rightarrow> BaseStationReception \<Rightarrow> BaseStationReception list" where
  "mergeReception [] r = [r]"
| "mergeReception (x # xs) r = (if StationEui x = StationEui r then r # xs else x # mergeReception xs r)"

type_synonym telegram_key = "i64 \<times> u64 \<times> u32"

definition row_key :: "classifier_row \<Rightarrow> telegram_key" where
  "row_key c = (c_owner c, c_eui c, c_packet_cnt c)"

definition key_of :: "ULDataMessage \<Rightarrow> telegram_key" where
  "key_of msg = (u_tenant msg, u_eui msg, u_packet_cnt msg)"

definition claimedRow :: "uplink_env \<Rightarrow> ULDataMessage \<Rightarrow> classifier_row" where
  "claimedRow env msg =
     (let reception = u_base_stations msg ! 0
      in \<lparr>c_owner = u_tenant msg, c_eui = u_eui msg, c_packet_cnt = u_packet_cnt msg,
          MessageHash = uplinkMessageHash (sha256 env) (u_eui msg) (u_packet_cnt msg) (u_user_data msg),
          FirstMessageID = u_id msg, FirstBsEui = StationEui reception, FirstReceivedAt = clock env,
          LastReceivedAt = clock env, FirstRxTime = RxTime reception, DuplicateCount = 0\<rparr>)"

definition find_row :: "telegram_key \<Rightarrow> radio_db \<Rightarrow> classifier_row option" where
  "find_row k db = find (\<lambda>c. row_key c = k) (classifier db)"

definition ClaimClassifierRow :: "uplink_env \<Rightarrow> ULDataMessage \<Rightarrow> radio_db \<Rightarrow> (db_error + unit) \<times> radio_db" where
  "ClaimClassifierRow env msg db =
     (Inr (), if find_row (key_of msg) db \<noteq> None then db else db\<lparr>classifier := classifier db @ [claimedRow env msg]\<rparr>)"

definition LockClassifierRow :: "ULDataMessage \<Rightarrow> radio_db \<Rightarrow> (db_error + classifier_row) \<times> radio_db" where
  "LockClassifierRow msg db = (case find_row (key_of msg) db of None \<Rightarrow> (Inl ErrDBNotFound, db) | Some c \<Rightarrow> (Inr c, db))"

definition update_row :: "telegram_key \<Rightarrow> (classifier_row \<Rightarrow> classifier_row) \<Rightarrow> radio_db \<Rightarrow> (db_error + unit) \<times> radio_db" where
  "update_row k f db = (Inr (), db\<lparr>classifier := map (\<lambda>c. if row_key c = k then f c else c) (classifier db)\<rparr>)"

definition ResetClassifierRow :: "uplink_env \<Rightarrow> ULDataMessage \<Rightarrow> radio_db \<Rightarrow> (db_error + unit) \<times> radio_db" where
  "ResetClassifierRow env msg = update_row (key_of msg) (\<lambda>_. claimedRow env msg)"

definition CountDuplicate :: "uplink_env \<Rightarrow> ULDataMessage \<Rightarrow> radio_db \<Rightarrow> (db_error + unit) \<times> radio_db" where
  "CountDuplicate env msg =
     update_row (key_of msg) (\<lambda>c. c\<lparr>DuplicateCount := DuplicateCount c + 1, LastReceivedAt := clock env\<rparr>)"

section \<open>A new message\<close>

definition DecodeStatusFailed :: string where "DecodeStatusFailed = ''failed''"
definition ErrInvalidJSONPayload :: string where "ErrInvalidJSONPayload = ''blueprint.error.invalid_json_payload''"

record decodedColumns =
  dcPayload :: "string option"
  dcStatus :: string
  dcErrorCode :: string

definition decodedPayloadColumns :: "(string \<Rightarrow> bool) \<Rightarrow> ULDataMessage \<Rightarrow> decodedColumns" where
  "decodedPayloadColumns valid msg =
     (if u_decoded_payload msg = [] then \<lparr>dcPayload = None, dcStatus = u_decode_status msg, dcErrorCode = u_decode_error_code msg\<rparr>
      else if valid (u_decoded_payload msg)
        then \<lparr>dcPayload = Some (u_decoded_payload msg), dcStatus = u_decode_status msg, dcErrorCode = u_decode_error_code msg\<rparr>
        else \<lparr>dcPayload = None, dcStatus = DecodeStatusFailed, dcErrorCode = ErrInvalidJSONPayload\<rparr>)"

definition ul_row :: "uplink_env \<Rightarrow> ULDataMessage \<Rightarrow> message_row" where
  "ul_row env msg =
     (let decoded = decodedPayloadColumns (jsonValid env) msg
      in \<lparr>m_id = u_id msg, m_owner = u_tenant msg, m_org = u_org msg, m_op_id = u_op_id msg, m_eui = u_eui msg,
          m_bs_eui = u_bs_eui msg, m_rx_time = u_rx_time msg, m_packet_cnt = u_packet_cnt msg, m_snr = u_snr msg,
          m_rssi = u_rssi msg, m_user_data = u_user_data msg, m_dl_open = u_dl_open msg,
          m_response_exp = u_response_exp msg, m_dl_ack = u_dl_ack msg, m_rx_duration = u_rx_duration msg,
          m_eq_snr = u_eq_snr msg, m_profile = u_profile msg, m_mode = u_mode msg,
          m_format = (case u_format msg of None \<Rightarrow> 0 | Some f \<Rightarrow> f), m_subpackets = u_subpackets msg,
          m_base_stations = u_base_stations msg, m_duplicate = (u_duplicate msg = Some True),
          m_packet_cnt_reused = u_packet_cnt_reused msg,
          m_received_at = (case u_received_at msg of None \<Rightarrow> stored_at env | Some t \<Rightarrow> t),
          m_decoded_payload = dcPayload decoded,
          m_blueprint_type_eui = (if length (u_blueprint_type_eui msg) = 8 then Some (u_blueprint_type_eui msg) else None),
          m_blueprint_version_id = u_blueprint_version_id msg,
          m_decode_status = dcStatus decoded, m_decode_error_code = dcErrorCode decoded\<rparr>)"

definition insertULDataMessage :: "uplink_env \<Rightarrow> ULDataMessage \<Rightarrow> radio_db \<Rightarrow> (db_error + unit) \<times> radio_db" where
  "insertULDataMessage env msg db =
     (if sint (u_tenant msg) \<le> 0 then (Inl ErrInvalidTenantID, db)
      else if u_id msg \<in> m_id ` set (messages db) then (Inl ErrUniqueViolation, db)
      else (Inr (), db\<lparr>messages := messages db @ [ul_row env msg]\<rparr>))"

text \<open>\<^verbatim>\<open>GREATEST\<close> of two \<^verbatim>\<open>BIGINT\<close> values.\<close>

definition greatest :: "i64 \<Rightarrow> i64 \<Rightarrow> i64" where
  "greatest a b = (if sint a < sint b then b else a)"

definition heard :: "ULDataMessage \<Rightarrow> endpoint_row \<Rightarrow> endpoint_row" where
  "heard msg r =
     r\<lparr>e_last_rx_time := Some (u_rx_time msg), e_last_rx_duration := u_rx_duration msg,
       e_packet_cnt := greatest (e_packet_cnt r) (ucast (u_packet_cnt msg)),
       e_last_packet_cnt := greatest (e_last_packet_cnt r) (ucast (u_packet_cnt msg)),
       e_last_snr := Some (u_snr msg), e_last_rssi := Some (u_rssi msg), e_last_eq_snr := u_eq_snr msg,
       e_last_profile := u_profile msg, e_last_mode := u_mode msg, e_last_user_data := Some (u_user_data msg),
       e_last_format_id := u_format msg, e_last_dl_open := u_dl_open msg, e_last_response_exp := u_response_exp msg,
       e_last_dl_ack := u_dl_ack msg\<rparr>"

definition of_owner :: "i64 \<Rightarrow> u64 \<Rightarrow> endpoint_row \<Rightarrow> bool" where
  "of_owner t eui r \<longleftrightarrow> e_eui r = eui \<and> e_owner r = t"

definition updateEndpointFromULData :: "ULDataMessage \<Rightarrow> radio_db \<Rightarrow> (db_error + unit) \<times> radio_db" where
  "updateEndpointFromULData msg = update_endpoints (of_owner (u_tenant msg) (u_eui msg)) (heard msg)"

definition insertDeliveryRow :: "string \<Rightarrow> i64 \<Rightarrow> int \<Rightarrow> int \<Rightarrow> DeliveryChannel \<Rightarrow> radio_db \<Rightarrow> (db_error + unit) \<times> radio_db" where
  "insertDeliveryRow m t queuedAt dueAt ch db =
     (Inr (), if \<exists>o1\<in>set (outbox db). o_message o1 = m \<and> o_channel o1 = ch then db
              else db\<lparr>outbox := outbox db @ [\<lparr>o_message = m, o_channel = ch, o_owner = t, o_next_attempt_at = dueAt, o_created_at = queuedAt\<rparr>]\<rparr>)"

fun insertDeliveryRows :: "uplink_env \<Rightarrow> nat \<Rightarrow> string \<Rightarrow> i64 \<Rightarrow> DeliveryChannel list \<Rightarrow> int \<Rightarrow> int \<Rightarrow> radio_db \<Rightarrow> (db_error + unit) \<times> radio_db" where
  "insertDeliveryRows env k m t [] queuedAt dueAt db = (Inr (), db)"
| "insertDeliveryRows env k m t (ch # chs) queuedAt dueAt db =
     and_then (stmt env k (insertDeliveryRow m t queuedAt dueAt ch) db)
       (\<lambda>_. insertDeliveryRows env (Suc k) m t chs queuedAt dueAt)"

definition persistNew ::
    "uplink_env \<Rightarrow> UplinkPersistRequest \<Rightarrow> ULDataMessage \<Rightarrow> bool \<Rightarrow> radio_db \<Rightarrow> (db_error + UplinkPersistOutcome) \<times> radio_db" where
  "persistNew env req msg0 counterReused db =
     (let msg = msg0\<lparr>u_duplicate := Some False, u_packet_cnt_reused := counterReused\<rparr>
      in and_then (stmt env 3 (insertULDataMessage env msg) db) (\<lambda>_ db1.
         and_then (stmt env 4 (updateEndpointFromULData msg) db1) (\<lambda>_ db2.
         and_then (insertDeliveryRows env 10 (u_id msg) (u_tenant msg) (Channels req) (stored_at env)
                     (stored_at env + sint (ReceptionWindow req)) db2) (\<lambda>_ db3.
           (Inr \<lparr>Classification = UplinkNew, MessageID = u_id msg, BaseStations = u_base_stations msg, OutDuplicateCount = 0\<rparr>, db3)))))"

section \<open>A further reception\<close>

definition LockMessageReceptions :: "string \<Rightarrow> i64 \<Rightarrow> radio_db \<Rightarrow> (db_error + BaseStationReception list) \<times> radio_db" where
  "LockMessageReceptions m t db =
     (case find (\<lambda>x. m_id x = m \<and> m_owner x = t) (messages db) of
        None \<Rightarrow> (Inl ErrDBNotFound, db)
      | Some x \<Rightarrow> (Inr (m_base_stations x), db))"

definition MergeMessageReceptions :: "string \<Rightarrow> BaseStationReception list \<Rightarrow> radio_db \<Rightarrow> (db_error + unit) \<times> radio_db" where
  "MergeMessageReceptions m rs db =
     (Inr (), db\<lparr>messages := map (\<lambda>x. if m_id x = m then x\<lparr>m_base_stations := rs, m_duplicate := True\<rparr> else x) (messages db)\<rparr>)"

definition mergeDuplicate ::
    "uplink_env \<Rightarrow> ULDataMessage \<Rightarrow> classifier_row \<Rightarrow> radio_db \<Rightarrow> (db_error + UplinkPersistOutcome) \<times> radio_db" where
  "mergeDuplicate env msg row db =
     and_then (stmt env 5 (LockMessageReceptions (FirstMessageID row) (u_tenant msg)) db) (\<lambda>stored db1.
       let receptions = mergeReception stored (u_base_stations msg ! 0)
       in and_then (stmt env 6 (MergeMessageReceptions (FirstMessageID row) receptions) db1) (\<lambda>_ db2.
          and_then (stmt env 7 (CountDuplicate env msg) db2) (\<lambda>_ db3.
            (Inr \<lparr>Classification = UplinkDuplicate, MessageID = FirstMessageID row, BaseStations = receptions,
                  OutDuplicateCount = DuplicateCount row + 1\<rparr>, db3))))"

section \<open>Persisting a reception\<close>

definition classify ::
    "uplink_env \<Rightarrow> UplinkPersistRequest \<Rightarrow> ULDataMessage \<Rightarrow> classifier_row \<Rightarrow> radio_db \<Rightarrow> (db_error + UplinkPersistOutcome) \<times> radio_db" where
  "classify env req msg row db =
     (if FirstMessageID row = u_id msg then persistNew env req msg False db
      else if \<not> sameTelegram row (RxTime (u_base_stations msg ! 0)) (Window req)
        then and_then (stmt env 2 (ResetClassifierRow env msg) db) (\<lambda>_. persistNew env req msg True)
      else if MessageHash row \<noteq> uplinkMessageHash (sha256 env) (u_eui msg) (u_packet_cnt msg) (u_user_data msg)
        then (Inl ErrPacketCounterCollision, db)
      else mergeDuplicate env msg row db)"

definition Persist :: "uplink_env \<Rightarrow> UplinkPersistRequest \<Rightarrow> radio_db \<Rightarrow> (db_error + UplinkPersistOutcome) \<times> radio_db" where
  "Persist env req db =
     (case (validateUplinkPersistRequest req, ReqMessage req) of
        (None, Some msg) \<Rightarrow>
          runInTx env (\<lambda>db0.
            and_then (stmt env 0 (ClaimClassifierRow env msg) db0) (\<lambda>_ db1.
            and_then (stmt env 1 (LockClassifierRow msg) db1) (\<lambda>row. classify env req msg row))) db
      | (Some e, _) \<Rightarrow> (Inl e, db)
      | (None, None) \<Rightarrow> (Inl ErrInvalidInput, db))"

section \<open>Forgetting an endpoint\<close>

definition ForgetEndpoint :: "i64 \<Rightarrow> i64 \<Rightarrow> radio_db \<Rightarrow> (db_error + unit) \<times> radio_db" where
  "ForgetEndpoint t i db =
     (Inr (), db\<lparr>classifier := filter (\<lambda>c. \<not> (\<exists>r\<in>set (endpoints db). of_tenant t i r \<and> c_owner c = e_owner r \<and> c_eui c = e_eui r))
                                 (classifier db)\<rparr>)"

section \<open>What the store keeps\<close>

definition message_key :: "message_row \<Rightarrow> telegram_key" where
  "message_key m = (m_owner m, m_eui m, m_packet_cnt m)"

text \<open>
  Primary and unique keys, the foreign keys of the classifier and the outbox, and: a classifier row
  points to a message of its own endpoint and counter, first heard at a positive time.
\<close>

definition radio_inv :: "radio_db \<Rightarrow> bool" where
  "radio_inv db \<longleftrightarrow>
     distinct (map row_key (classifier db)) \<and> distinct (map m_id (messages db))
     \<and> (\<forall>c\<in>set (classifier db). \<exists>m\<in>set (messages db). m_id m = FirstMessageID c \<and> message_key m = row_key c)
     \<and> (\<forall>c\<in>set (classifier db). 0 < sint (FirstRxTime c))
     \<and> (\<forall>x\<in>set (outbox db). o_message x \<in> m_id ` set (messages db))
     \<and> (\<forall>m\<in>set (messages db). distinct (map StationEui (m_base_stations m)))"

lemma find_row_iff:
  "distinct (map row_key (classifier db)) \<Longrightarrow> find_row k db = Some c \<longleftrightarrow> c \<in> set (classifier db) \<and> row_key c = k"
proof (induction "classifier db" arbitrary: db)
  case (Cons a l)
  have "find_row k db = (if row_key a = k then Some a else find_row k (db\<lparr>classifier := l\<rparr>))"
    using Cons.hyps(2) [symmetric] by (simp add: find_row_def)
  then show ?case using Cons.hyps(1) [of "db\<lparr>classifier := l\<rparr>"] Cons.prems Cons.hyps(2) [symmetric] by auto
qed (simp add: find_row_def)

lemma find_row_None: "find_row k db = None \<longleftrightarrow> k \<notin> row_key ` set (classifier db)"
  by (auto simp: find_row_def find_None_iff)

lemma claimedRow_fields [simp]:
  "row_key (claimedRow env msg) = key_of msg" "FirstMessageID (claimedRow env msg) = u_id msg"
  "FirstRxTime (claimedRow env msg) = RxTime (u_base_stations msg ! 0)" "DuplicateCount (claimedRow env msg) = 0"
  "MessageHash (claimedRow env msg) = uplinkMessageHash (sha256 env) (u_eui msg) (u_packet_cnt msg) (u_user_data msg)"
  by (simp_all add: claimedRow_def row_key_def key_of_def Let_def)

section \<open>The three effects\<close>

definition stored_row :: "uplink_env \<Rightarrow> ULDataMessage \<Rightarrow> bool \<Rightarrow> message_row" where
  "stored_row env msg reused = ul_row env (msg\<lparr>u_duplicate := Some False, u_packet_cnt_reused := reused\<rparr>)"

definition queue_delivery :: "string \<Rightarrow> i64 \<Rightarrow> int \<Rightarrow> int \<Rightarrow> DeliveryChannel \<Rightarrow> outbox_row list \<Rightarrow> outbox_row list" where
  "queue_delivery m t queuedAt dueAt ch rows =
     (if \<exists>x\<in>set rows. o_message x = m \<and> o_channel x = ch then rows
      else rows @ [\<lparr>o_message = m, o_channel = ch, o_owner = t, o_next_attempt_at = dueAt, o_created_at = queuedAt\<rparr>])"

definition newly :: "uplink_env \<Rightarrow> UplinkPersistRequest \<Rightarrow> ULDataMessage \<Rightarrow> bool \<Rightarrow> radio_db \<Rightarrow> radio_db" where
  "newly env req msg reused db =
     db\<lparr>messages := messages db @ [stored_row env msg reused],
        endpoints := map (\<lambda>r. if of_owner (u_tenant msg) (u_eui msg) r then heard msg r else r) (endpoints db),
        outbox := fold (queue_delivery (u_id msg) (u_tenant msg) (stored_at env) (stored_at env + sint (ReceptionWindow req)))
                    (Channels req) (outbox db)\<rparr>"

definition claimed :: "uplink_env \<Rightarrow> ULDataMessage \<Rightarrow> radio_db \<Rightarrow> radio_db" where
  "claimed env msg db =
     db\<lparr>classifier := (if find_row (key_of msg) db = None then classifier db @ [claimedRow env msg]
                      else map (\<lambda>c. if row_key c = key_of msg then claimedRow env msg else c) (classifier db))\<rparr>"

definition merged :: "uplink_env \<Rightarrow> ULDataMessage \<Rightarrow> classifier_row \<Rightarrow> BaseStationReception list \<Rightarrow> radio_db \<Rightarrow> radio_db" where
  "merged env msg c rs db =
     db\<lparr>messages := map (\<lambda>x. if m_id x = FirstMessageID c then x\<lparr>m_base_stations := rs, m_duplicate := True\<rparr> else x) (messages db),
        classifier := map (\<lambda>x. if row_key x = key_of msg
                              then x\<lparr>DuplicateCount := DuplicateCount x + 1, LastReceivedAt := clock env\<rparr> else x) (classifier db)\<rparr>"

definition new_outcome :: "ULDataMessage \<Rightarrow> UplinkPersistOutcome" where
  "new_outcome msg =
     \<lparr>Classification = UplinkNew, MessageID = u_id msg, BaseStations = u_base_stations msg, OutDuplicateCount = 0\<rparr>"

definition merge_outcome :: "classifier_row \<Rightarrow> BaseStationReception list \<Rightarrow> UplinkPersistOutcome" where
  "merge_outcome c rs =
     \<lparr>Classification = UplinkDuplicate, MessageID = FirstMessageID c, BaseStations = rs, OutDuplicateCount = DuplicateCount c + 1\<rparr>"

text \<open>A new message can be stored: its ID is unused and its endpoint is there.\<close>

definition storable :: "ULDataMessage \<Rightarrow> radio_db \<Rightarrow> bool" where
  "storable msg db \<longleftrightarrow>
     0 < sint (u_tenant msg) \<and> u_id msg \<notin> m_id ` set (messages db) \<and> list_ex (of_owner (u_tenant msg) (u_eui msg)) (endpoints db)"

lemma delivery_rows_Inr:
  "insertDeliveryRows env k m t chs q d db = (Inr (), db') \<longleftrightarrow>
     (\<forall>i<length chs. statement env (k + i)) \<and> db' = db\<lparr>outbox := fold (queue_delivery m t q d) chs (outbox db)\<rparr>"
proof (induction chs arbitrary: k db)
  case (Cons ch chs)
  have s: "insertDeliveryRow m t q d ch db = (Inr (), db\<lparr>outbox := queue_delivery m t q d ch (outbox db)\<rparr>)"
    by (simp add: insertDeliveryRow_def queue_delivery_def)
  have "(\<forall>i<length (ch # chs). statement env (k + i)) \<longleftrightarrow> statement env k \<and> (\<forall>i<length chs. statement env (Suc k + i))"
    by (auto simp: less_Suc_eq_0_disj)
  then show ?case using Cons.IH [of "Suc k" "db\<lparr>outbox := queue_delivery m t q d ch (outbox db)\<rparr>"]
    by (auto simp: stmt_def s)
qed auto

lemma heard_marked [simp]: "heard (msg\<lparr>u_duplicate := a, u_packet_cnt_reused := b\<rparr>) = heard msg"
  by (simp add: heard_def fun_eq_iff)

lemma persistNew_Inr:
  assumes "persistNew env req msg reused db = (Inr out, db')"
  shows "storable msg db \<and> out = new_outcome msg \<and> db' = newly env req msg reused db"
  using assms
  by (auto simp: persistNew_def Let_def and_then_Inr_iff stmt_Inr_iff insertULDataMessage_def updateEndpointFromULData_def
      update_endpoints_def delivery_rows_Inr storable_def new_outcome_def newly_def stored_row_def split: if_splits)

lemma persistNew_stored:
  assumes "\<And>k. statement env k" "storable msg db"
  shows "persistNew env req msg reused db = (Inr (new_outcome msg), newly env req msg reused db)"
proof -
  have d: "insertDeliveryRows env k m t chs q d db = (Inr (), db\<lparr>outbox := fold (queue_delivery m t q d) chs (outbox db)\<rparr>)"
    for k m t chs q d db by (simp add: delivery_rows_Inr assms(1))
  show ?thesis using assms(2)
    by (simp add: persistNew_def Let_def assms(1) insertULDataMessage_def updateEndpointFromULData_def update_endpoints_def
        d storable_def new_outcome_def newly_def stored_row_def)
qed

definition persist_body :: "uplink_env \<Rightarrow> UplinkPersistRequest \<Rightarrow> ULDataMessage \<Rightarrow> radio_db \<Rightarrow> (db_error + UplinkPersistOutcome) \<times> radio_db" where
  "persist_body env req msg db0 =
     and_then (stmt env 0 (ClaimClassifierRow env msg) db0) (\<lambda>_ db1.
       and_then (stmt env 1 (LockClassifierRow msg) db1) (\<lambda>row. classify env req msg row))"

lemma Persist_valid:
  "validateUplinkPersistRequest req = None \<Longrightarrow> ReqMessage req = Some msg \<Longrightarrow>
     Persist env req db = runInTx env (persist_body env req msg) db"
  by (simp add: Persist_def persist_body_def [abs_def])

lemma find_append_None: "find P xs = None \<Longrightarrow> find P (xs @ [y]) = (if P y then Some y else None)"
  by (induction xs) (auto split: if_splits)

lemma claim_new:
  "find_row (key_of msg) db = None \<Longrightarrow> find_row (key_of msg) (db\<lparr>classifier := classifier db @ [claimedRow env msg]\<rparr>) = Some (claimedRow env msg)"
  by (simp add: find_row_def find_append_None)

text \<open>A claimed row with the message's own ID is one just inserted: an older one has its message stored.\<close>

lemma old_claim:
  assumes "radio_inv db" "find_row (key_of msg) db = Some c" "FirstMessageID c = u_id msg"
  shows "u_id msg \<in> m_id ` set (messages db)"
proof -
  from assms have "c \<in> set (classifier db)" by (simp add: radio_inv_def find_row_iff)
  with assms show ?thesis unfolding radio_inv_def by (metis image_eqI)
qed

lemma first_message:
  assumes "radio_inv db" "find_row (u_tenant msg, u_eui msg, u_packet_cnt msg) db = Some c"
  obtains m where "m \<in> set (messages db)" "m_id m = FirstMessageID c" "message_key m = key_of msg"
    "find (\<lambda>x. m_id x = FirstMessageID c \<and> m_owner x = u_tenant msg) (messages db) = Some m"
proof -
  from assms have c: "c \<in> set (classifier db)" "row_key c = key_of msg" by (auto simp: radio_inv_def find_row_iff key_of_def)
  with assms(1) obtain m where m: "m \<in> set (messages db)" "m_id m = FirstMessageID c" "message_key m = key_of msg"
    unfolding radio_inv_def by metis
  have u: "x = m" if "x \<in> set (messages db)" "m_id x = FirstMessageID c" for x
    using assms(1) m(1,2) that unfolding radio_inv_def distinct_map by (metis inj_onD)
  have "m_owner m = u_tenant msg" using m(3) by (simp add: message_key_def key_of_def)
  then obtain x where "find (\<lambda>x. m_id x = FirstMessageID c \<and> m_owner x = u_tenant msg) (messages db) = Some x"
    using m(1,2) by (metis (mono_tags, lifting) find_None_iff option.exhaust)
  moreover from this have "x = m" by (intro u) (auto simp: find_Some_iff)
  ultimately show thesis using that m by blast
qed

text \<open>Everything a reception can do to the store.\<close>

lemma persist_effect:
  assumes "radio_inv db" "persist_body env req msg db = (Inr out, db')"
  shows "case find_row (key_of msg) db of
      None \<Rightarrow> storable msg db \<and> out = new_outcome msg \<and> db' = newly env req msg False (claimed env msg db)
    | Some c \<Rightarrow>
        if \<not> sameTelegram c (RxTime (u_base_stations msg ! 0)) (Window req)
        then storable msg db \<and> out = new_outcome msg \<and> db' = newly env req msg True (claimed env msg db)
        else MessageHash c = uplinkMessageHash (sha256 env) (u_eui msg) (u_packet_cnt msg) (u_user_data msg)
          \<and> (\<exists>m\<in>set (messages db). m_id m = FirstMessageID c \<and> message_key m = key_of msg
              \<and> (let rs = mergeReception (m_base_stations m) (u_base_stations msg ! 0)
                 in out = merge_outcome c rs \<and> db' = merged env msg c rs db))"
proof (cases "find_row (key_of msg) db")
  case None
  let ?db1 = "db\<lparr>classifier := classifier db @ [claimedRow env msg]\<rparr>"
  have "persistNew env req msg False ?db1 = (Inr out, db')"
    using assms(2) claim_new [OF None, of env] None
    by (auto simp: persist_body_def and_then_Inr_iff stmt_Inr_iff ClaimClassifierRow_def LockClassifierRow_def classify_def)
  from persistNew_Inr [OF this] show ?thesis using None by (auto simp: storable_def claimed_def)
next
  case (Some c)
  have c: "classify env req msg c db = (Inr out, db')"
    using assms(2) Some by (auto simp: persist_body_def and_then_Inr_iff stmt_Inr_iff ClaimClassifierRow_def LockClassifierRow_def)
  have n: "FirstMessageID c \<noteq> u_id msg"
  proof
    assume e: "FirstMessageID c = u_id msg"
    then have "storable msg db" using c persistNew_Inr by (simp add: classify_def)
    then show False using old_claim [OF assms(1) Some e] by (simp add: storable_def)
  qed
  show ?thesis
  proof (cases "sameTelegram c (RxTime (u_base_stations msg ! 0)) (Window req)")
    case False
    then have "persistNew env req msg True (claimed env msg db) = (Inr out, db')"
      using c n Some by (auto simp: classify_def and_then_Inr_iff stmt_Inr_iff ResetClassifierRow_def update_row_def claimed_def)
    from persistNew_Inr [OF this] show ?thesis using False Some by (simp add: storable_def claimed_def)
  next
    case True
    obtain m where m: "m \<in> set (messages db)" "m_id m = FirstMessageID c" "message_key m = key_of msg"
      "find (\<lambda>x. m_id x = FirstMessageID c \<and> m_owner x = u_tenant msg) (messages db) = Some m"
      using first_message [OF assms(1)] Some by (auto simp: key_of_def)
    with True c n show ?thesis
      by (auto simp: classify_def Some mergeDuplicate_def and_then_Inr_iff stmt_Inr_iff LockMessageReceptions_def
          MergeMessageReceptions_def CountDuplicate_def update_row_def merged_def merge_outcome_def Let_def split: if_splits)
  qed
qed

section \<open>Preservation\<close>

lemma fold_queue_ids:
  "x \<in> set (fold (queue_delivery m t q d) chs rows) \<Longrightarrow> x \<in> set rows \<or> o_message x = m"
  by (induction chs arbitrary: rows) (fastforce simp: queue_delivery_def split: if_splits)+

lemma merge_stations: "StationEui ` set (mergeReception rs r) = insert (StationEui r) (StationEui ` set rs)"
  by (induction rs) auto

lemma merge_distinct: "distinct (map StationEui rs) \<Longrightarrow> distinct (map StationEui (mergeReception rs r))"
  by (induction rs) (auto simp: merge_stations)

lemma stored_row_fields [simp]:
  "m_id (stored_row env msg b) = u_id msg" "message_key (stored_row env msg b) = key_of msg"
  "m_base_stations (stored_row env msg b) = u_base_stations msg" "m_user_data (stored_row env msg b) = u_user_data msg"
  "m_packet_cnt_reused (stored_row env msg b) = b" "\<not> m_duplicate (stored_row env msg b)"
  by (simp_all add: stored_row_def ul_row_def message_key_def key_of_def Let_def)

lemma claimed_rows:
  assumes "distinct (map row_key (classifier db))"
  shows "distinct (map row_key (classifier (claimed env msg db)))"
    and "c \<in> set (classifier (claimed env msg db)) \<longleftrightarrow>
      c = claimedRow env msg \<or> (c \<in> set (classifier db) \<and> row_key c \<noteq> key_of msg)"
proof -
  have k: "map row_key (map (\<lambda>c. if row_key c = key_of msg then claimedRow env msg else c) (classifier db)) = map row_key (classifier db)"
    by simp
  show "distinct (map row_key (classifier (claimed env msg db)))"
  proof (cases "find_row (key_of msg) db = None")
    case True
    then show ?thesis using assms by (simp add: claimed_def find_row_None)
  next
    case False
    then have "classifier (claimed env msg db) = map (\<lambda>c. if row_key c = key_of msg then claimedRow env msg else c) (classifier db)"
      by (simp add: claimed_def)
    with assms k show ?thesis by metis
  qed
  show "c \<in> set (classifier (claimed env msg db)) \<longleftrightarrow>
      c = claimedRow env msg \<or> (c \<in> set (classifier db) \<and> row_key c \<noteq> key_of msg)"
    by (cases "find_row (key_of msg) db") (auto simp: claimed_def find_row_None find_row_iff [OF assms] image_iff)
qed

lemma newly_fields [simp]:
  "classifier (newly env req msg b db) = classifier db" "messages (newly env req msg b db) = messages db @ [stored_row env msg b]"
  "messages (claimed env msg db) = messages db" "endpoints (claimed env msg db) = endpoints db" "outbox (claimed env msg db) = outbox db"
  by (simp_all add: newly_def claimed_def)

lemma newly_inv:
  assumes "radio_inv db" "storable msg db" "length (u_base_stations msg) = 1" "0 < sint (RxTime (u_base_stations msg ! 0))"
  shows "radio_inv (newly env req msg b (claimed env msg db))"
proof -
  have d: "distinct (map row_key (classifier db))" using assms(1) by (simp add: radio_inv_def)
  have "\<exists>m\<in>set (messages db @ [stored_row env msg b]). m_id m = FirstMessageID c \<and> message_key m = row_key c"
    if "c \<in> set (classifier (claimed env msg db))" for c
    using that assms(1) by (auto simp: claimed_rows(2) [OF d] radio_inv_def)
  moreover have "distinct (map m_id (messages db @ [stored_row env msg b]))"
    using assms(1,2) by (auto simp: radio_inv_def storable_def)
  moreover have "o_message x \<in> m_id ` set (messages db @ [stored_row env msg b])"
    if "x \<in> set (outbox (newly env req msg b (claimed env msg db)))" for x
    using that assms(1) fold_queue_ids by (fastforce simp: newly_def radio_inv_def)
  moreover have "distinct (map StationEui (u_base_stations msg))"
    using assms(3) by (cases "u_base_stations msg") auto
  moreover have "\<forall>c\<in>set (classifier (claimed env msg db)). 0 < sint (FirstRxTime c)"
    using assms(1,4) by (auto simp: claimed_rows(2) [OF d] radio_inv_def)
  ultimately show ?thesis using assms(1) claimed_rows(1) [OF d] unfolding radio_inv_def by auto
qed

lemma merged_inv:
  assumes "radio_inv db" "m \<in> set (messages db)" "rs = mergeReception (m_base_stations m) r"
  shows "radio_inv (merged env msg c rs db)"
proof -
  let ?f = "\<lambda>x. if m_id x = FirstMessageID c then x\<lparr>m_base_stations := rs, m_duplicate := True\<rparr> else x"
  let ?g = "\<lambda>x. if row_key x = key_of msg then x\<lparr>DuplicateCount := DuplicateCount x + 1, LastReceivedAt := clock env\<rparr> else x"
  have f: "m_id (?f x) = m_id x" "message_key (?f x) = message_key x" for x by (simp_all add: message_key_def)
  have g: "row_key (?g x) = row_key x" "FirstMessageID (?g x) = FirstMessageID x" "FirstRxTime (?g x) = FirstRxTime x" for x by (simp_all add: row_key_def)
  have ms: "map m_id (map ?f (messages db)) = map m_id (messages db)" by (simp add: comp_def f(1))
  have cs: "map row_key (map ?g (classifier db)) = map row_key (classifier db)" by (simp add: comp_def g(1))
  have ids: "m_id ` set (map ?f (messages db)) = m_id ` set (messages db)" by (metis ms list.set_map)
  have first: "\<exists>m\<in>set (map ?f (messages db)). m_id m = FirstMessageID x \<and> message_key m = row_key x"
    if x: "x \<in> set (map ?g (classifier db))" for x
  proof -
    from x obtain y where y: "y \<in> set (classifier db)" "x = ?g y" by auto
    with assms(1) obtain n where n: "n \<in> set (messages db)" "m_id n = FirstMessageID y" "message_key n = row_key y"
      unfolding radio_inv_def by blast
    show ?thesis
    proof (rule bexI [where x = "?f n"])
      show "m_id (?f n) = FirstMessageID x \<and> message_key (?f n) = row_key x" unfolding y(2) f g using n(2,3) by (rule conjI)
      show "?f n \<in> set (map ?f (messages db))" using n(1) by simp
    qed
  qed
  have "distinct (map StationEui (m_base_stations m))" using assms(1,2) by (simp add: radio_inv_def)
  then have "distinct (map StationEui (m_base_stations (?f x)))" if "x \<in> set (messages db)" for x
    using that assms(1) merge_distinct by (auto simp: radio_inv_def assms(3))
  then have st: "\<forall>x\<in>set (map ?f (messages db)). distinct (map StationEui (m_base_stations x))" unfolding set_map by blast
  have eqs: "messages (merged env msg c rs db) = map ?f (messages db)" "classifier (merged env msg c rs db) = map ?g (classifier db)"
    "outbox (merged env msg c rs db) = outbox db" by (simp_all add: merged_def)
  have old: "distinct (map row_key (classifier db))" "distinct (map m_id (messages db))"
    "\<forall>x\<in>set (outbox db). o_message x \<in> m_id ` set (messages db)"
    using assms(1) by (simp_all add: radio_inv_def)
  have rx: "\<forall>x\<in>set (map ?g (classifier db)). 0 < sint (FirstRxTime x)"
    using assms(1) by (auto simp: radio_inv_def)
  show ?thesis
    unfolding radio_inv_def eqs ms cs ids by (intro conjI old st rx ballI first)
qed

lemma valid_request:
  assumes "validateUplinkPersistRequest req = None" "ReqMessage req = Some msg"
  shows "0 < sint (u_tenant msg)" "length (u_base_stations msg) = 1" "0 < sint (RxTime (u_base_stations msg ! 0))" "0 < sint (Window req)"
  using assms by (simp_all add: validateUplinkPersistRequest_def split: if_splits)

lemma body_inv:
  assumes "radio_inv db" "persist_body env req msg db = (Inr out, db')" "length (u_base_stations msg) = 1" "0 < sint (RxTime (u_base_stations msg ! 0))"
  shows "radio_inv db'"
  using persist_effect [OF assms(1,2)] assms newly_inv [OF assms(1) _ assms(3,4)] merged_inv
  by (auto simp: Let_def split: option.splits if_splits)

text \<open>A reception leaves the store as it was or has one of these effects, reported or not.\<close>

lemma persist_cases:
  assumes "Persist env req db = (res, db')"
  shows "db' = db \<and> (\<exists>e. res = Inl e) \<or> (\<exists>msg out. ReqMessage req = Some msg \<and> validateUplinkPersistRequest req = None
      \<and> persist_body env req msg db = (Inr out, db') \<and> (res = Inr out \<or> res = Inl ErrTxCommit))"
proof (cases "validateUplinkPersistRequest req")
  case None
  then obtain msg where msg: "ReqMessage req = Some msg" by (auto simp: validateUplinkPersistRequest_def split: option.splits)
  have r: "runInTx env (persist_body env req msg) db = (res, db')" using assms Persist_valid [OF None msg] by simp
  from runInTx_changes [OF r] r None msg show ?thesis
    by (auto simp: runInTx_def split: if_splits prod.splits sum.splits fault.splits)
qed (use assms in \<open>auto simp: Persist_def\<close>)

lemma persist_inv:
  assumes "radio_inv db" "Persist env req db = (res, db')"
  shows "radio_inv db'"
  using persist_cases [OF assms(2)] body_inv [OF assms(1)] valid_request(2,3) assms(1) by metis

section \<open>A telegram is stored once\<close>

fun persist_all :: "(uplink_env \<times> UplinkPersistRequest) list \<Rightarrow> radio_db \<Rightarrow> (db_error + UplinkPersistOutcome) list \<times> radio_db" where
  "persist_all [] db = ([], db)"
| "persist_all ((env, req) # h) db =
     (case Persist env req db of (r, db1) \<Rightarrow> (case persist_all h db1 of (rs, db2) \<Rightarrow> (r # rs, db2)))"

definition messages_of :: "telegram_key \<Rightarrow> radio_db \<Rightarrow> message_row list" where
  "messages_of k db = filter (\<lambda>m. message_key m = k) (messages db)"

text \<open>The receptions of one counter lie within the window of each other, and equal hashes mean equal data.\<close>

definition about :: "telegram_key \<Rightarrow> UplinkPersistRequest \<Rightarrow> bool" where
  "about k req = (case ReqMessage req of None \<Rightarrow> False | Some msg \<Rightarrow> key_of msg = k)"

definition heard_at :: "UplinkPersistRequest \<Rightarrow> int" where
  "heard_at req = (case ReqMessage req of None \<Rightarrow> 0 | Some msg \<Rightarrow> sint (RxTime (u_base_stations msg ! 0)))"

definition data_of :: "UplinkPersistRequest \<Rightarrow> bytes" where
  "data_of req = (case ReqMessage req of None \<Rightarrow> [] | Some msg \<Rightarrow> u_user_data msg)"

definition station_of :: "UplinkPersistRequest \<Rightarrow> u64" where
  "station_of req = (case ReqMessage req of None \<Rightarrow> 0 | Some msg \<Rightarrow> StationEui (u_base_stations msg ! 0))"

definition one_telegram :: "(bytes \<Rightarrow> bytes) \<Rightarrow> telegram_key \<Rightarrow> UplinkPersistRequest set \<Rightarrow> bool" where
  "one_telegram sha k R \<longleftrightarrow>
     (\<forall>r\<in>R. \<forall>r'\<in>R. about k r \<longrightarrow> about k r' \<longrightarrow> \<bar>heard_at r - heard_at r'\<bar> \<le> sint (Window r))
     \<and> (\<forall>r\<in>R. \<forall>r'\<in>R. about k r \<longrightarrow> about k r' \<longrightarrow>
          (case k of (t, eui, cnt) \<Rightarrow> uplinkMessageHash sha eui cnt (data_of r) = uplinkMessageHash sha eui cnt (data_of r'))
          \<longrightarrow> data_of r = data_of r')"

lemma sint_diff:
  fixes a b :: i64
  assumes "0 < sint a" "0 < sint b"
  shows "sint (a - b) = sint a - sint b"
  using assms sint64_bounds [of a] sint64_bounds [of b] 
  by (simp add: sint_word_ariths(2) signed_take_bit_int_eq_self)

text \<open>On valid receptions the window test does not overflow.\<close>

lemma sameTelegram_window:
  assumes "0 < sint rx" "0 < sint (FirstRxTime c)"
  shows "sameTelegram c rx window \<longleftrightarrow> \<bar>sint rx - sint (FirstRxTime c)\<bar> \<le> sint window"
proof -
  have "- (rx - FirstRxTime c) = FirstRxTime c - rx" by simp
  then show ?thesis using sint_diff [OF assms] sint_diff [OF assms(2,1)] by (auto simp: sameTelegram_def Let_def)
qed

definition first_of :: "(bytes \<Rightarrow> bytes) \<Rightarrow> telegram_key \<Rightarrow> UplinkPersistRequest set \<Rightarrow> classifier_row \<Rightarrow> message_row \<Rightarrow> bool" where
  "first_of sha k R c m \<longleftrightarrow>
     m_id m = FirstMessageID c \<and> 0 < sint (FirstRxTime c)
     \<and> (\<exists>r\<in>R. about k r \<and> sint (FirstRxTime c) = heard_at r \<and> data_of r = m_user_data m)
     \<and> (case k of (t, eui, cnt) \<Rightarrow> MessageHash c = uplinkMessageHash sha eui cnt (m_user_data m))
     \<and> StationEui ` set (m_base_stations m) \<subseteq> station_of ` {r\<in>R. about k r}"

definition tracks :: "(bytes \<Rightarrow> bytes) \<Rightarrow> telegram_key \<Rightarrow> UplinkPersistRequest set \<Rightarrow> message_row list \<Rightarrow> radio_db \<Rightarrow> bool" where
  "tracks sha k R base db \<longleftrightarrow> radio_inv db \<and>
     (case find_row k db of
        None \<Rightarrow> messages_of k db = base
      | Some c \<Rightarrow> \<exists>m. messages_of k db = base @ [m] \<and> first_of sha k R c m)"

lemma find_row_claimed:
  assumes "distinct (map row_key (classifier db))"
  shows "find_row k (claimed env msg db) = (if k = key_of msg then Some (claimedRow env msg) else find_row k db)"
proof -
  have "find_row k (claimed env msg db) = Some c \<longleftrightarrow> (if k = key_of msg then Some (claimedRow env msg) else find_row k db) = Some c" for c
    by (auto simp: find_row_iff [OF claimed_rows(1) [OF assms]] claimed_rows(2) [OF assms] find_row_iff [OF assms])
  then show ?thesis by (metis option.exhaust)
qed

lemma find_row_newly [simp]: "find_row k (newly env req msg b db) = find_row k db"
  by (simp add: find_row_def newly_def)

definition counted :: "uplink_env \<Rightarrow> classifier_row \<Rightarrow> classifier_row" where
  "counted env c = c\<lparr>DuplicateCount := DuplicateCount c + 1, LastReceivedAt := clock env\<rparr>"

lemma counted_fields [simp]:
  "row_key (counted env c) = row_key c" "FirstMessageID (counted env c) = FirstMessageID c"
  "FirstRxTime (counted env c) = FirstRxTime c" "MessageHash (counted env c) = MessageHash c"
  by (simp_all add: counted_def row_key_def)

lemma find_row_merged:
  assumes "distinct (map row_key (classifier db))"
  shows "find_row k (merged env msg c rs db) = (if k = key_of msg then map_option (counted env) (find_row k db) else find_row k db)"
proof -
  let ?g = "\<lambda>x. if row_key x = key_of msg then counted env x else x"
  have e: "classifier (merged env msg c rs db) = map ?g (classifier db)" by (simp add: merged_def counted_def)
  have "map row_key (map ?g (classifier db)) = map row_key (classifier db)" by simp
  then have d: "distinct (map row_key (classifier (merged env msg c rs db)))" using assms e by metis
  have "find_row k (merged env msg c rs db) = Some x \<longleftrightarrow>
      (if k = key_of msg then map_option (counted env) (find_row k db) else find_row k db) = Some x" for x
    by (auto simp: find_row_iff [OF d] e find_row_iff [OF assms] image_iff)
  then show ?thesis by (metis option.exhaust)
qed

lemma messages_of_newly [simp]:
  "messages_of k (newly env req msg b db) = messages_of k db @ (if key_of msg = k then [stored_row env msg b] else [])"
  "messages_of k (claimed env msg db) = messages_of k db"
  by (simp_all add: messages_of_def)

lemma messages_of_merged:
  assumes "radio_inv db" "m \<in> set (messages db)" "m_id m = FirstMessageID c"
  shows "messages_of k (merged env msg c rs db) =
    map (\<lambda>x. if x = m then m\<lparr>m_base_stations := rs, m_duplicate := True\<rparr> else x) (messages_of k db)"
proof -
  have u: "m_id x = FirstMessageID c \<longleftrightarrow> x = m" if "x \<in> set (messages db)" for x
    using assms that unfolding radio_inv_def distinct_map by (metis inj_onD)
  let ?f = "\<lambda>x. if m_id x = FirstMessageID c then x\<lparr>m_base_stations := rs, m_duplicate := True\<rparr> else x"
  have k: "message_key (?f x) = message_key x" for x by (simp add: message_key_def)
  have "messages_of k (merged env msg c rs db) = map ?f (messages_of k db)"
    unfolding messages_of_def by (simp add: merged_def filter_map comp_def k del: if_split)
  also have "\<dots> = map (\<lambda>x. if x = m then m\<lparr>m_base_stations := rs, m_duplicate := True\<rparr> else x) (messages_of k db)"
    using u by (intro map_cong) (auto simp: messages_of_def)
  finally show ?thesis .
qed

text \<open>What a successful reception leaves: the one message of the telegram, with the station in it.\<close>

definition recorded :: "telegram_key \<Rightarrow> message_row list \<Rightarrow> UplinkPersistRequest \<Rightarrow> string \<Rightarrow> radio_db \<Rightarrow> bool" where
  "recorded k base req i db \<longleftrightarrow>
     (\<exists>m. messages_of k db = base @ [m] \<and> m_id m = i \<and> m_user_data m = data_of req
        \<and> station_of req \<in> StationEui ` set (m_base_stations m))"

definition keeps_record :: "telegram_key \<Rightarrow> message_row list \<Rightarrow> radio_db \<Rightarrow> radio_db \<Rightarrow> bool" where
  "keeps_record k base db db' \<longleftrightarrow> (\<forall>req i. recorded k base req i db \<longrightarrow> recorded k base req i db')"

lemma keeps_same: "messages_of k db' = messages_of k db \<Longrightarrow> keeps_record k base db db'"
  by (simp add: keeps_record_def recorded_def)

lemma step_other_key:
  assumes t: "tracks sha k R base db" and b: "persist_body env req msg db = (Inr out, db')" "key_of msg \<noteq> k"
    and l: "length (u_base_stations msg) = 1" "0 < sint (RxTime (u_base_stations msg ! 0))"
  shows "tracks sha k R base db' \<and> keeps_record k base db db'"
proof -
  have inv: "radio_inv db" using t by (simp add: tracks_def)
  then have d: "distinct (map row_key (classifier db))" by (simp add: radio_inv_def)
  have "messages_of k db' = messages_of k db \<and> find_row k db' = find_row k db"
    using persist_effect [OF inv b(1)] b(2)
  proof (cases "find_row (key_of msg) db")
    case (Some c)
    have m: "messages_of k (merged env msg c rs db) = messages_of k db"
      if "m \<in> set (messages db)" "m_id m = FirstMessageID c" "message_key m = key_of msg" for m rs
      using messages_of_merged [OF inv that(1,2), of k env msg rs] that(3) b(2)
      by (auto simp: messages_of_def intro!: map_idI)
    show ?thesis using persist_effect [OF inv b(1)] b(2) Some m
      by (auto simp: find_row_claimed [OF d] find_row_merged [OF d] Let_def split: if_splits)
  qed (simp add: find_row_claimed [OF d])
  then show ?thesis using t body_inv [OF inv b(1) l] by (cases "find_row k db") (simp_all add: tracks_def keeps_same)
qed

lemma step_new:
  assumes t: "tracks sha k R base db" and n: "find_row k db = None" and s: "storable msg db" and sha: "sha256 env = sha"
    and r: "ReqMessage req = Some msg" "key_of msg = k" "req \<in> R" "validateUplinkPersistRequest req = None"
  shows "tracks sha k R base (newly env req msg False (claimed env msg db))
    \<and> recorded k base req (u_id msg) (newly env req msg False (claimed env msg db))
    \<and> keeps_record k base db (newly env req msg False (claimed env msg db))"
proof -
  note v = valid_request [OF r(4,1)]
  have inv: "radio_inv db" using t by (simp add: tracks_def)
  then have d: "distinct (map row_key (classifier db))" by (simp add: radio_inv_def)
  let ?db' = "newly env req msg False (claimed env msg db)"
  obtain x where x: "u_base_stations msg = [x]" using v(2) by (cases "u_base_stations msg") auto
  have base: "messages_of k db = base" using t n by (simp add: tracks_def)
  have "first_of sha k R (claimedRow env msg) (stored_row env msg False)"
    unfolding first_of_def
  proof (intro conjI)
    show "\<exists>r\<in>R. about k r \<and> sint (FirstRxTime (claimedRow env msg)) = heard_at r \<and> data_of r = m_user_data (stored_row env msg False)"
      using r by (intro bexI [where x = req]) (auto simp: about_def heard_at_def data_of_def)
    show "StationEui ` set (m_base_stations (stored_row env msg False)) \<subseteq> station_of ` {r\<in>R. about k r}"
      using r x by (auto simp: about_def station_of_def image_iff intro!: exI [where x = req])
  qed (use r v sha in \<open>auto simp: key_of_def\<close>)
  then have "tracks sha k R base ?db'"
    using newly_inv [OF inv s v(2,3)] base r(2) by (simp add: tracks_def find_row_claimed [OF d])
  moreover have "recorded k base req (u_id msg) ?db'"
    using base r x by (simp add: recorded_def data_of_def station_of_def)
  moreover have "keeps_record k base db ?db'" by (simp add: keeps_record_def recorded_def base)
  ultimately show ?thesis by blast
qed

lemma step_merge:
  assumes t: "tracks sha k R base db" and c: "find_row k db = Some c" and m: "m \<in> set (messages db)" "m_id m = FirstMessageID c"
    and h: "MessageHash c = uplinkMessageHash sha (u_eui msg) (u_packet_cnt msg) (u_user_data msg)"
    and one: "one_telegram sha k R" and r: "ReqMessage req = Some msg" "key_of msg = k" "req \<in> R"
    and rs: "rs = mergeReception (m_base_stations m) (u_base_stations msg ! 0)"
  shows "tracks sha k R base (merged env msg c rs db) \<and> recorded k base req (FirstMessageID c) (merged env msg c rs db)
    \<and> keeps_record k base db (merged env msg c rs db)"
proof -
  let ?db' = "merged env msg c rs db" and ?m = "m\<lparr>m_base_stations := rs, m_duplicate := True\<rparr>"
  have inv: "radio_inv db" using t by (simp add: tracks_def)
  then have d: "distinct (map row_key (classifier db))" by (simp add: radio_inv_def)
  obtain m0 where m0: "messages_of k db = base @ [m0]" "first_of sha k R c m0" using t c by (auto simp: tracks_def)
  have "m0 \<in> set (messages_of k db)" using m0(1) by simp
  then have "m0 \<in> set (messages db)" by (simp add: messages_of_def)
  then have eq: "m0 = m" using inv m m0(2) unfolding radio_inv_def distinct_map first_of_def by (metis inj_onD)
  have "distinct (messages_of k db)" using inv by (simp add: messages_of_def radio_inv_def distinct_map)
  then have "m \<notin> set base" using m0(1) eq by simp
  then have ms: "messages_of k ?db' = base @ [?m]"
    using messages_of_merged [OF inv m, of k env msg rs] m0(1) eq by (auto intro!: map_idI)
  have st: "StationEui ` set rs = insert (station_of req) (StationEui ` set (m_base_stations m))"
    using r by (simp add: rs merge_stations station_of_def)
  obtain r0 where r0: "r0 \<in> R" "about k r0" "data_of r0 = m_user_data m" using m0(2) eq by (auto simp: first_of_def)
  have ab: "about k req" using r by (auto simp: about_def)
  have "data_of r0 = data_of req"
    using one r0 ab r h m0(2) eq unfolding one_telegram_def first_of_def
    by (auto simp: key_of_def data_of_def)
  then have data: "m_user_data m = data_of req" using r0(3) by simp
  have f: "first_of sha k R (counted env c) ?m"
    using m0(2) eq r ab st by (auto simp: first_of_def)
  have "tracks sha k R base ?db'"
    using merged_inv [OF inv m(1) rs] ms f c r(2) by (simp add: tracks_def find_row_merged [OF d])
  moreover have "recorded k base req (FirstMessageID c) ?db'"
    using ms m(2) data st by (simp add: recorded_def)
  moreover have "keeps_record k base db ?db'"
    using ms m0(1) eq st by (auto simp: keeps_record_def recorded_def)
  ultimately show ?thesis by blast
qed

lemma step_once:
  assumes t: "tracks sha k R base db" and p: "Persist env req db = (res, db')" and sha: "sha256 env = sha"
    and R: "req \<in> R" "one_telegram sha k R"
  shows "tracks sha k R base db' \<and> keeps_record k base db db'
    \<and> (\<forall>out. about k req \<and> res = Inr out \<longrightarrow> recorded k base req (MessageID out) db')"
proof (cases "db' = db \<and> (\<exists>e. res = Inl e)")
  case True
  then show ?thesis using t keeps_same by auto
next
  case False
  then obtain msg out where msg: "ReqMessage req = Some msg" and v: "validateUplinkPersistRequest req = None"
    and b: "persist_body env req msg db = (Inr out, db')" and res: "res = Inr out \<or> res = Inl ErrTxCommit"
    using persist_cases [OF p] by blast
  note valid = valid_request [OF v msg]
  have inv: "radio_inv db" using t by (simp add: tracks_def)
  show ?thesis
  proof (cases "key_of msg = k")
    case key: True
    have "tracks sha k R base db' \<and> recorded k base req (MessageID out) db' \<and> keeps_record k base db db'"
    proof (cases "find_row k db")
      case None
      then show ?thesis using persist_effect [OF inv b] key step_new [OF t None _ sha msg key R(1) v]
        by (auto simp: new_outcome_def)
    next
      case (Some c)
      obtain m0 where m0: "first_of sha k R c m0" using t Some by (auto simp: tracks_def)
      then obtain r0 where r0: "r0 \<in> R" "about k r0" "sint (FirstRxTime c) = heard_at r0" "0 < sint (FirstRxTime c)"
        by (auto simp: first_of_def)
      have "\<bar>heard_at req - heard_at r0\<bar> \<le> sint (Window req)"
        using R r0 msg key unfolding one_telegram_def by (auto simp: about_def)
      then have same: "sameTelegram c (RxTime (u_base_stations msg ! 0)) (Window req)"
        using sameTelegram_window [OF valid(3) r0(4)] r0(3) msg by (simp add: heard_at_def)
      show ?thesis using persist_effect [OF inv b] key Some same sha step_merge [OF t Some _ _ _ R(2) msg key R(1) refl]
        by (auto simp: merge_outcome_def Let_def)
    qed
    then show ?thesis using res by auto
  next
    case False
    then show ?thesis using step_other_key [OF t b False valid(2,3)] msg by (auto simp: about_def)
  qed
qed

lemma persist_all_once:
  assumes "tracks sha k R base db" "persist_all h db = (rs, db')" "snd ` set h \<subseteq> R" "one_telegram sha k R"
    and "\<forall>x\<in>set h. sha256 (fst x) = sha"
  shows "tracks sha k R base db' \<and> keeps_record k base db db'
    \<and> (\<forall>i<length h. \<forall>out. about k (snd (h ! i)) \<and> rs ! i = Inr out \<longrightarrow> recorded k base (snd (h ! i)) (MessageID out) db')"
  using assms
proof (induction h arbitrary: db rs)
  case Nil
  then show ?case by (auto simp: keeps_record_def)
next
  case (Cons x h)
  obtain env req where x: "x = (env, req)" by (cases x)
  obtain r db1 where p: "Persist env req db = (r, db1)" by fastforce
  obtain rs1 where q: "persist_all h db1 = (rs1, db')" "rs = r # rs1" using Cons.prems(2) p by (auto simp: x split: prod.splits)
  have sha: "sha256 env = sha" using Cons.prems(5) x by auto
  have R: "req \<in> R" "snd ` set h \<subseteq> R" "\<forall>x\<in>set h. sha256 (fst x) = sha" using Cons.prems(3,5) x by auto
  note s = step_once [OF Cons.prems(1) p sha R(1) Cons.prems(4)]
  note ih = Cons.IH [OF _ q(1) R(2) Cons.prems(4) R(3)]
  have "keeps_record k base db db'" using s ih by (auto simp: keeps_record_def)
  moreover have "recorded k base (snd ((x # h) ! i)) (MessageID out) db'"
    if "i < length (x # h)" "about k (snd ((x # h) ! i))" "rs ! i = Inr out" for i out
    using that s ih x q(2) by (cases i) (auto simp: keeps_record_def)
  ultimately show ?case using s ih by blast
qed

text \<open>
  C6. However the receptions of an endpoint's telegram arrive among those of others, whatever fails and is
  reported as failed though it took effect: as long as they lie within the duplicate window of each other,
  they leave at most one new message, and every station that was answered for the telegram is listed in
  it, once. Of a reused counter with other data, at most one content is stored.
\<close>

theorem telegram_stored_once:
  assumes "radio_inv db" "find_row k db = None" "persist_all h db = (rs, db')" "one_telegram sha k (snd ` set h)"
    and "\<forall>x\<in>set h. sha256 (fst x) = sha"
  shows "\<exists>new. messages_of k db' = messages_of k db @ new \<and> length new \<le> 1
    \<and> (\<forall>m\<in>set new. distinct (map StationEui (m_base_stations m)))
    \<and> (\<forall>i<length h. \<forall>out. about k (snd (h ! i)) \<and> rs ! i = Inr out \<longrightarrow>
         (\<exists>m. new = [m] \<and> m_id m = MessageID out \<and> m_user_data m = data_of (snd (h ! i))
            \<and> station_of (snd (h ! i)) \<in> StationEui ` set (m_base_stations m)))"
proof -
  have "tracks sha k (snd ` set h) (messages_of k db) db" using assms(1,2) by (simp add: tracks_def)
  from persist_all_once [OF this assms(3) order.refl assms(4,5)]
  have t: "tracks sha k (snd ` set h) (messages_of k db) db'"
    and r: "\<forall>i<length h. \<forall>out. about k (snd (h ! i)) \<and> rs ! i = Inr out \<longrightarrow>
      recorded k (messages_of k db) (snd (h ! i)) (MessageID out) db'" by simp_all
  obtain new where new: "messages_of k db' = messages_of k db @ new" "length new \<le> 1"
    using t by (cases "find_row k db'") (auto simp: tracks_def)
  have "distinct (map StationEui (m_base_stations m))" if "m \<in> set new" for m
  proof -
    have "m \<in> set (messages_of k db')" using that new(1) by simp
    then show ?thesis using t by (simp add: tracks_def radio_inv_def messages_of_def)
  qed
  then show ?thesis using new r by (fastforce simp: recorded_def)
qed

definition calm_uplink :: uplink_env where
  "calm_uplink = \<lparr>begins = True, statement = \<lambda>_. True, commit = Answered, clock = 1000, sha256 = id, jsonValid = \<lambda>_. True, stored_at = 1000\<rparr>"

definition sample_uplink :: "string \<Rightarrow> u64 \<Rightarrow> i64 \<Rightarrow> bytes \<Rightarrow> UplinkPersistRequest" where
  "sample_uplink i bs rx d =
     \<lparr>ReqMessage = Some \<lparr>u_id = i, u_tenant = 7, u_org = None, u_op_id = 1, u_eui = 0xA1, u_bs_eui = bs, u_rx_time = rx,
        u_packet_cnt = 9, u_snr = FFin 10, u_rssi = FFin (-90), u_user_data = d, u_dl_open = False, u_response_exp = False,
        u_dl_ack = False, u_rx_duration = None, u_eq_snr = None, u_profile = None, u_mode = None, u_format = None,
        u_subpackets = None,
        u_base_stations = [\<lparr>StationEui = bs, RxTime = rx, RxDuration = None, Snr = FFin 10, Rssi = FFin (-90), EqSnr = None,
          DlRxSnr = None, DlRxRssi = None, RxProfile = None, RxMode = None, RxSubpackets = None\<rparr>],
        u_duplicate = None, u_packet_cnt_reused = False, u_received_at = None, u_decoded_payload = [],
        u_blueprint_type_eui = [], u_blueprint_version_id = None, u_decode_status = [], u_decode_error_code = []\<rparr>,
      Window = 100, ReceptionWindow = 10, Channels = [DeliveryChannelSCACI]\<rparr>"

text \<open>Two stations hear a telegram; the answer to the first is lost, so it sends it again.\<close>

definition sample_receptions :: "(uplink_env \<times> UplinkPersistRequest) list" where
  "sample_receptions =
     [(calm_uplink\<lparr>commit := Unanswered\<rparr>, sample_uplink ''m1'' 1 500 [3]), (calm_uplink, sample_uplink ''m2'' 2 510 [3]),
      (calm_uplink, sample_uplink ''m3'' 1 500 [3])]"

theorem telegram_stored_once_witness:
  "let (rs, db') = persist_all sample_receptions sample_db
   in map (\<lambda>m. (m_id m, map StationEui (m_base_stations m))) (messages_of (7, 0xA1, 9) db') = [(''m1'', [1, 2])]
     \<and> rs ! 0 = Inl ErrTxCommit \<and> is_ok (rs ! 1) \<and> length (messages_of (7, 0xA1, 9) db') \<le> 1"
proof -
  obtain rs db' where r: "persist_all sample_receptions sample_db = (rs, db')" by fastforce
  have "radio_inv sample_db" "find_row (7, 0xA1, 9) sample_db = None" "messages_of (7, 0xA1, 9) sample_db = []"
    "one_telegram id (7, 0xA1, 9) (snd ` set sample_receptions)" by code_simp+
  moreover have "\<forall>x\<in>set sample_receptions. sha256 (fst x) = id" by (simp add: sample_receptions_def calm_uplink_def)
  ultimately have "length (messages_of (7, 0xA1, 9) db') \<le> 1"
    using telegram_stored_once [OF _ _ r, of "(7, 0xA1, 9)" id] by auto
  moreover have "map (\<lambda>m. (m_id m, map StationEui (m_base_stations m))) (messages_of (7, 0xA1, 9) (snd (persist_all sample_receptions sample_db)))
      = [(''m1'', [1, 2])]" "fst (persist_all sample_receptions sample_db) ! 0 = Inl ErrTxCommit"
    "is_ok (fst (persist_all sample_receptions sample_db) ! 1)" by code_simp+
  ultimately show ?thesis by (simp add: r)
qed

section \<open>What one reception becomes\<close>

text \<open>
  C14. A reception of an endpoint that is registered, with nothing failing: the first of its counter is stored as a new
  message; one of a counter used before and outside the window starts a new message, marked as reused;
  within the window the same content is merged into the first message, replacing what its station
  reported before; and other content is refused and changes nothing.
\<close>

theorem reception_classified:
  assumes inv: "radio_inv db" and ok: "begins env" "\<And>i. statement env i" "commit env = Answered"
    and req: "validateUplinkPersistRequest req = None" "ReqMessage req = Some msg" and s: "storable msg db"
  shows "case find_row (key_of msg) db of
      None \<Rightarrow> Persist env req db = (Inr (new_outcome msg), newly env req msg False (claimed env msg db))
    | Some c \<Rightarrow>
        if sint (Window req) < \<bar>heard_at req - sint (FirstRxTime c)\<bar>
        then Persist env req db = (Inr (new_outcome msg), newly env req msg True (claimed env msg db))
        else if MessageHash c \<noteq> uplinkMessageHash (sha256 env) (u_eui msg) (u_packet_cnt msg) (u_user_data msg)
        then Persist env req db = (Inl ErrPacketCounterCollision, db)
        else \<exists>m\<in>set (messages db). m_id m = FirstMessageID c \<and> message_key m = key_of msg
          \<and> (let rs = mergeReception (m_base_stations m) (u_base_stations msg ! 0)
             in Persist env req db = (Inr (merge_outcome c rs), merged env msg c rs db))"
proof -
  have run: "Persist env req db = (case persist_body env req msg db of (Inl e, _) \<Rightarrow> (Inl e, db) | (Inr a, db') \<Rightarrow> (Inr a, db'))"
    using ok by (simp add: Persist_valid [OF req] runInTx_def split: prod.split sum.split)
  have body: "persist_body env req msg db = (case find_row (key_of msg) db of
      None \<Rightarrow> classify env req msg (claimedRow env msg) (claimed env msg db) | Some c \<Rightarrow> classify env req msg c db)"
    using claim_new [of msg db env]
    by (auto simp: persist_body_def ok ClaimClassifierRow_def LockClassifierRow_def claimed_def split: option.splits)
  have new: "persistNew env req msg b (claimed env msg db) = (Inr (new_outcome msg), newly env req msg b (claimed env msg db))" for b
    using s by (intro persistNew_stored) (simp_all add: ok storable_def)
  show ?thesis
  proof (cases "find_row (key_of msg) db")
    case None
    then show ?thesis by (simp add: run body classify_def new)
  next
    case (Some c)
    have c: "c \<in> set (classifier db)" using Some inv by (simp add: radio_inv_def find_row_iff)
    then have rx: "0 < sint (FirstRxTime c)" using inv by (simp add: radio_inv_def)
    note w = sameTelegram_window [OF valid_request(3) [OF req] rx]
    have n: "FirstMessageID c \<noteq> u_id msg" using old_claim [OF inv Some] s by (auto simp: storable_def)
    have re: "and_then (stmt env 2 (ResetClassifierRow env msg) db) (\<lambda>_. persistNew env req msg True)
        = (Inr (new_outcome msg), newly env req msg True (claimed env msg db))"
      using new [of True] Some by (simp add: ok ResetClassifierRow_def update_row_def claimed_def)
    obtain m where m: "m \<in> set (messages db)" "m_id m = FirstMessageID c" "message_key m = key_of msg"
      "find (\<lambda>x. m_id x = FirstMessageID c \<and> m_owner x = u_tenant msg) (messages db) = Some m"
      using first_message [OF inv] Some by (auto simp: key_of_def)
    have d: "mergeDuplicate env msg c db = (let rs = mergeReception (m_base_stations m) (u_base_stations msg ! 0)
        in (Inr (merge_outcome c rs), merged env msg c rs db))"
      using m(4) by (simp add: mergeDuplicate_def ok LockMessageReceptions_def MergeMessageReceptions_def CountDuplicate_def
          update_row_def merge_outcome_def merged_def Let_def)
    have h: "heard_at req = sint (RxTime (u_base_stations msg ! 0))" by (simp add: heard_at_def req)
    show ?thesis
      using m(1-3) n by (auto simp: Some run body classify_def w re d h Let_def)
  qed
qed

theorem reception_classified_witness:
  "fst (Persist calm_uplink (sample_uplink ''m1'' 1 500 [3]) sample_db) = Inr \<lparr>Classification = UplinkNew, MessageID = ''m1'',
     BaseStations = u_base_stations (the (ReqMessage (sample_uplink ''m1'' 1 500 [3]))), OutDuplicateCount = 0\<rparr>
   \<and> fst (Persist calm_uplink (sample_uplink ''m2'' 2 510 [4]) (snd (Persist calm_uplink (sample_uplink ''m1'' 1 500 [3]) sample_db)))
      = Inl ErrPacketCounterCollision"
proof -
  define msg where "msg = the (ReqMessage (sample_uplink ''m1'' 1 500 [3]))"
  have "radio_inv sample_db" by code_simp
  moreover have "begins calm_uplink" "statement calm_uplink i" "commit calm_uplink = Answered" for i by (simp_all add: calm_uplink_def)
  moreover have "validateUplinkPersistRequest (sample_uplink ''m1'' 1 500 [3]) = None" by code_simp
  moreover have "ReqMessage (sample_uplink ''m1'' 1 500 [3]) = Some msg" by (simp add: msg_def sample_uplink_def)
  moreover have "storable msg sample_db" unfolding msg_def by code_simp
  ultimately have "case find_row (key_of msg) sample_db of None \<Rightarrow>
      Persist calm_uplink (sample_uplink ''m1'' 1 500 [3]) sample_db = (Inr (new_outcome msg), newly calm_uplink (sample_uplink ''m1'' 1 500 [3]) msg False (claimed calm_uplink msg sample_db))
    | Some c \<Rightarrow> True"
    using reception_classified [of sample_db calm_uplink "sample_uplink ''m1'' 1 500 [3]" msg] by (simp split: option.splits)
  moreover have "find_row (key_of msg) sample_db = None" by (simp add: find_row_def sample_db_def)
  moreover have "fst (Persist calm_uplink (sample_uplink ''m2'' 2 510 [4]) (snd (Persist calm_uplink (sample_uplink ''m1'' 1 500 [3]) sample_db)))
      = Inl ErrPacketCounterCollision" by code_simp
  moreover have "u_id msg = ''m1''" by (simp add: msg_def sample_uplink_def)
  ultimately show ?thesis by (simp add: new_outcome_def msg_def [symmetric])
qed

section \<open>Counters\<close>

lemma greatest_mono: "sint a \<le> sint (greatest a b)"
  by (simp add: greatest_def)

text \<open>A reception never takes an endpoint's counters back.\<close>

lemma persist_counters:
  assumes "radio_inv db" "Persist env req db = (res, db')"
  shows "length (endpoints db') = length (endpoints db)
    \<and> (\<forall>i<length (endpoints db). sint (e_packet_cnt (endpoints db ! i)) \<le> sint (e_packet_cnt (endpoints db' ! i))
         \<and> e_sign (endpoints db' ! i) = e_sign (endpoints db ! i) \<and> e_attach_cnt (endpoints db' ! i) = e_attach_cnt (endpoints db ! i)
         \<and> e_id (endpoints db' ! i) = e_id (endpoints db ! i) \<and> e_tenant (endpoints db' ! i) = e_tenant (endpoints db ! i)
         \<and> e_owner (endpoints db' ! i) = e_owner (endpoints db ! i) \<and> e_eui (endpoints db' ! i) = e_eui (endpoints db ! i))"
proof -
  have "db' = db \<or> (\<exists>msg out. persist_body env req msg db = (Inr out, db'))" using persist_cases [OF assms(2)] by blast
  then have "endpoints db' = endpoints db
      \<or> (\<exists>msg. endpoints db' = map (\<lambda>r. if of_owner (u_tenant msg) (u_eui msg) r then heard msg r else r) (endpoints db))"
  proof (elim disjE exE)
    fix msg out assume "persist_body env req msg db = (Inr out, db')"
    from persist_effect [OF assms(1) this] show ?thesis
      by (auto simp: newly_def claimed_def merged_def Let_def split: option.splits if_splits)
  qed simp
  then show ?thesis by (elim disjE exE) (auto simp: heard_def greatest_mono)
qed

end
